(* ===== verification/Prelude.thy ===== *)
theory Prelude
  imports Main "HOL-Library.Word"
begin

text \<open>
  Shared vocabulary of the development: the C++ exception classes the program throws as a
  datatype, results that carry either an exception or a value, programs that thread a state
  and may throw (effects made before a throw persist, as they do on a file system), and the
  generic lemmas on lists, divisibility and machine words that the component theories use.
\<close>

unbundle bit_operations_syntax

section \<open>Types\<close>

type_synonym u8 = "8 word"
type_synonym u16 = "16 word"
type_synonym u32 = "32 word"
type_synonym u64 = "64 word"
type_synonym bytes = "8 word list"

named_theorems monad_simps \<open>evaluation of the result and state-result combinators\<close>
named_theorems outcome_simps \<open>evaluation of traces with an outcome\<close>

section \<open>Exceptions\<close>

text \<open>
  The error numbers the program distinguishes, and the exception classes it throws.
  \<open>AssertionFailed\<close> is the abort of a failed \<^verbatim>\<open>assert\<close>: it is not an exception a handler
  can catch; nor is \<open>PowerLoss\<close>, which ends a program when the machine stops under it,
  nor \<open>Diverges\<close>, the outcome of a loop that never ends.
\<close>

datatype errno = ENOENT | EEXIST | ENOTEMPTY | ENOTDIR | EISDIR | EBADF | EINVAL | EIO | ENOEXEC | EINTR
  | EMFILE | ECHILD | ESRCH | EAGAIN | ENOMEM | EPERM

datatype exn =
    RuntimeError string
  | ArgumentError string
  | SystemError errno string
  | CommandFailed int string
  | SnapshotDoesNotExist string
  | SnapshotInvalid string
  | LogicError string
  | InvalidArgument string
  | OutOfRange string
  | LengthError string
  | BadAlloc
  | AssertionFailed string
  | PowerLoss
  | Diverges

text \<open>The classes derived from \<^verbatim>\<open>std::runtime_error\<close>.\<close>

fun is_runtime_error :: "exn \<Rightarrow> bool" where
  "is_runtime_error (RuntimeError _) = True"
| "is_runtime_error (ArgumentError _) = True"
| "is_runtime_error (SystemError _ _) = True"
| "is_runtime_error (CommandFailed _ _) = True"
| "is_runtime_error (SnapshotDoesNotExist _) = True"
| "is_runtime_error (SnapshotInvalid _) = True"
| "is_runtime_error _ = False"

section \<open>Results\<close>

type_synonym 'a result = "exn + 'a"

definition bindR :: "'a result \<Rightarrow> ('a \<Rightarrow> 'b result) \<Rightarrow> 'b result" where
  "bindR r f = (case r of Inl e \<Rightarrow> Inl e | Inr x \<Rightarrow> f x)"

lemma bindR_simps [simp, monad_simps]:
  "bindR (Inl e) f = Inl e"
  "bindR (Inr x) f = f x"
  by (simp_all add: bindR_def)

lemma bindR_eq_Inr: "bindR r f = Inr y \<longleftrightarrow> (\<exists>x. r = Inr x \<and> f x = Inr y)"
  by (cases r) auto

lemma bindR_assoc: "bindR (bindR r f) g = bindR r (\<lambda>x. bindR (f x) g)"
  by (cases r) auto

section \<open>Programs over a state\<close>

text \<open>
  \<open>('s, 'a) prog\<close> runs on a state and returns a value or an exception together with the
  state it left behind.
\<close>

type_synonym ('s, 'a) prog = "'s \<Rightarrow> 'a result \<times> 's"

definition retS :: "'a \<Rightarrow> ('s, 'a) prog" where
  "retS x s = (Inr x, s)"

definition throwS :: "exn \<Rightarrow> ('s, 'a) prog" where
  "throwS e s = (Inl e, s)"

definition bindS :: "('s, 'a) prog \<Rightarrow> ('a \<Rightarrow> ('s, 'b) prog) \<Rightarrow> ('s, 'b) prog" where
  "bindS m f s = (case m s of (Inl e, s') \<Rightarrow> (Inl e, s') | (Inr x, s') \<Rightarrow> f x s')"

definition thenS :: "('s, 'a) prog \<Rightarrow> ('s, 'b) prog \<Rightarrow> ('s, 'b) prog" where
  "thenS m n = bindS m (\<lambda>_. n)"

definition catchS :: "('s, 'a) prog \<Rightarrow> (exn \<Rightarrow> ('s, 'a) prog) \<Rightarrow> ('s, 'a) prog" where
  "catchS m h s = (case m s of (Inl e, s') \<Rightarrow> h e s' | (Inr x, s') \<Rightarrow> (Inr x, s'))"

definition liftR :: "'a result \<Rightarrow> ('s, 'a) prog" where
  "liftR r s = (r, s)"

definition getS :: "('s \<Rightarrow> 'a) \<Rightarrow> ('s, 'a) prog" where
  "getS f s = (Inr (f s), s)"

definition modifyS :: "('s \<Rightarrow> 's) \<Rightarrow> ('s, unit) prog" where
  "modifyS f s = (Inr (), f s)"

fun forS :: "('a \<Rightarrow> ('s, unit) prog) \<Rightarrow> 'a list \<Rightarrow> ('s, unit) prog" where
  "forS f [] = retS ()"
| "forS f (x # xs) = thenS (f x) (forS f xs)"

fun foldS :: "('b \<Rightarrow> 'a \<Rightarrow> ('s, 'b) prog) \<Rightarrow> 'b \<Rightarrow> 'a list \<Rightarrow> ('s, 'b) prog" where
  "foldS f acc [] = retS acc"
| "foldS f acc (x # xs) = bindS (f acc x) (\<lambda>acc'. foldS f acc' xs)"

lemma forS_append: "forS f (xs @ ys) s = thenS (forS f xs) (forS f ys) s"
  by (induction xs arbitrary: s) (simp_all add: thenS_def bindS_def retS_def split: prod.split sum.split)

lemma prog_simps [simp, monad_simps]:
  "retS x s = (Inr x, s)"
  "throwS e s = (Inl e, s)"
  "liftR r s = (r, s)"
  "getS f s = (Inr (f s), s)"
  "modifyS f' s = (Inr (), f' s)"
  by (simp_all add: retS_def throwS_def liftR_def getS_def modifyS_def)

lemma bindS_Inl [simp, monad_simps]: "m s = (Inl e, s') \<Longrightarrow> bindS m f s = (Inl e, s')"
  by (simp add: bindS_def)

lemma bindS_Inr [simp, monad_simps]: "m s = (Inr x, s') \<Longrightarrow> bindS m f s = f x s'"
  by (simp add: bindS_def)

lemma thenS_Inl [simp, monad_simps]: "m s = (Inl e, s') \<Longrightarrow> thenS m n s = (Inl e, s')"
  by (simp add: thenS_def)

lemma thenS_Inr [simp, monad_simps]: "m s = (Inr x, s') \<Longrightarrow> thenS m n s = n s'"
  by (simp add: thenS_def)

lemma catchS_Inl [simp, monad_simps]: "m s = (Inl e, s') \<Longrightarrow> catchS m h s = h e s'"
  by (simp add: catchS_def)

lemma catchS_Inr [simp, monad_simps]: "m s = (Inr x, s') \<Longrightarrow> catchS m h s = (Inr x, s')"
  by (simp add: catchS_def)

lemma bindS_eq_Inr:
  "bindS m f s = (Inr y, s'') \<longleftrightarrow> (\<exists>x s'. m s = (Inr x, s') \<and> f x s' = (Inr y, s''))"
  by (auto simp: bindS_def split: prod.splits sum.splits)

lemma thenS_eq_Inr:
  "thenS m n s = (Inr y, s'') \<longleftrightarrow> (\<exists>x s'. m s = (Inr x, s') \<and> n s' = (Inr y, s''))"
  by (simp add: thenS_def bindS_eq_Inr)

text \<open>
  What a program may do to the state, however it ends: a relation between the states before
  and after that is closed under sequencing.
\<close>

definition always :: "('s \<Rightarrow> 's \<Rightarrow> bool) \<Rightarrow> ('s, 'a) prog \<Rightarrow> bool" where
  "always R m \<longleftrightarrow> (\<forall>s. R s (snd (m s)))"

lemma alwaysI: "(\<And>s. R s (snd (m s))) \<Longrightarrow> always R m"
  by (simp add: always_def)

lemma alwaysD: "always R m \<Longrightarrow> m s = (r, s') \<Longrightarrow> R s s'"
  by (metis always_def snd_conv)

locale effect =
  fixes R :: "'s \<Rightarrow> 's \<Rightarrow> bool"
  assumes refl: "R s s"
    and trans: "R s t \<Longrightarrow> R t u \<Longrightarrow> R s u"
begin

lemma pure [intro]: "always R (retS x)" "always R (throwS e)" "always R (liftR r)" "always R (getS f)"
  by (simp_all add: always_def refl)

lemma bind [intro]:
  assumes "always R m" and "\<And>x. always R (f x)"
  shows "always R (bindS m f)"
proof (rule alwaysI)
  fix s
  obtain r s' where m: "m s = (r, s')" by fastforce
  then have "R s s'" using assms(1) alwaysD by fast
  moreover have "R s' (snd (f x s'))" for x using assms(2) by (simp add: always_def)
  ultimately show "R s (snd (bindS m f s))" using trans m by (auto simp: bindS_def split: sum.split)
qed

lemma seq [intro]: "always R m \<Longrightarrow> always R n \<Longrightarrow> always R (thenS m n)"
  unfolding thenS_def by (rule bind)

lemma catch [intro]:
  assumes "always R m" and "\<And>e. always R (h e)"
  shows "always R (catchS m h)"
proof (rule alwaysI)
  fix s
  obtain r s' where m: "m s = (r, s')" by fastforce
  then have "R s s'" using assms(1) alwaysD by fast
  moreover have "R s' (snd (h e s'))" for e using assms(2) by (simp add: always_def)
  ultimately show "R s (snd (catchS m h s))" using trans m by (auto simp: catchS_def split: sum.split)
qed

lemma loop [intro]: "(\<And>x. x \<in> set xs \<Longrightarrow> always R (f x)) \<Longrightarrow> always R (forS f xs)"
  by (induction xs) (auto intro: pure seq)

lemma fold [intro]: "(\<And>a x. x \<in> set xs \<Longrightarrow> always R (f a x)) \<Longrightarrow> always R (foldS f acc xs)"
  by (induction xs arbitrary: acc) (auto intro: pure bind)

lemma branch [intro]: "(b \<Longrightarrow> always R m) \<Longrightarrow> (\<not> b \<Longrightarrow> always R n) \<Longrightarrow> always R (if b then m else n)"
  by simp

end

text \<open>A program that returns a value whenever it starts in a state with \<open>I\<close>, which it keeps.\<close>

definition returns :: "('s \<Rightarrow> bool) \<Rightarrow> ('s, 'a) prog \<Rightarrow> bool" where
  "returns I m \<longleftrightarrow> (\<forall>s. I s \<longrightarrow> (\<exists>x s'. m s = (Inr x, s') \<and> I s'))"

lemma returnsD: "returns I m \<Longrightarrow> I s \<Longrightarrow> \<exists>x s'. m s = (Inr x, s') \<and> I s'"
  by (simp add: returns_def)

lemma returns_ret [intro]: "returns I (retS x)"
  by (simp add: returns_def)

lemma returns_bind [intro]:
  assumes "returns I m" and "\<And>x. returns I (f x)"
  shows "returns I (bindS m f)"
  unfolding returns_def
proof (intro allI impI)
  fix s assume "I s"
  then obtain x s1 where "m s = (Inr x, s1)" "I s1" using assms(1) returnsD by fast
  then show "\<exists>y s'. bindS m f s = (Inr y, s') \<and> I s'" using returnsD [OF assms(2)] by simp
qed

lemma returns_then [intro]: "returns I m \<Longrightarrow> returns I n \<Longrightarrow> returns I (thenS m n)"
  unfolding thenS_def by (rule returns_bind)

lemma returns_option [intro]:
  "m \<noteq> None \<Longrightarrow> (\<And>x. m = Some x \<Longrightarrow> returns I (f x)) \<Longrightarrow>
    returns I (case m of None \<Rightarrow> g | Some x \<Rightarrow> f x)"
  by (cases m) auto

section \<open>Traces\<close>

text \<open>
  The tree routines take a functor and call it on nodes in order; they may throw after some
  of the calls. They are modelled by the list of the calls they make and how they end.
  \<open>Diverged\<close> is the outcome of a fuel-bounded loop that ran out; it is proved never to occur.
\<close>

datatype outcome = Done | Threw exn | Diverged

type_synonym 'a trace = "'a list \<times> outcome"

definition emit :: "'a list \<Rightarrow> 'a trace \<Rightarrow> 'a trace" where
  "emit xs t = (xs @ fst t, snd t)"

lemma emit_simps [simp, outcome_simps]:
  "emit xs (ys, r) = (xs @ ys, r)"
  "fst (emit xs t) = xs @ fst t"
  "snd (emit xs t) = snd t"
  by (simp_all add: emit_def)

definition map_trace :: "('a \<Rightarrow> 'b) \<Rightarrow> 'a trace \<Rightarrow> 'b trace" where
  "map_trace f t = (map f (fst t), snd t)"

text \<open>A program that runs \<open>f\<close> on the nodes a routine calls it with.\<close>

definition for_trace :: "('a \<Rightarrow> ('s, unit) prog) \<Rightarrow> 'a trace \<Rightarrow> ('s, unit) prog" where
  "for_trace f t = thenS (forS f (fst t))
     (case snd t of Done \<Rightarrow> retS () | Threw e \<Rightarrow> throwS e | Diverged \<Rightarrow> throwS Diverges)"

definition fold_trace :: "('b \<Rightarrow> 'a \<Rightarrow> ('s, 'b) prog) \<Rightarrow> 'b \<Rightarrow> 'a trace \<Rightarrow> ('s, 'b) prog" where
  "fold_trace f acc t = bindS (foldS f acc (fst t)) (\<lambda>r.
     case snd t of Done \<Rightarrow> retS r | Threw e \<Rightarrow> throwS e | Diverged \<Rightarrow> throwS Diverges)"

lemma map_trace_simps [simp, outcome_simps]:
  "fst (map_trace f t) = map f (fst t)"
  "snd (map_trace f t) = snd t"
  by (simp_all add: map_trace_def)

section \<open>Lists and numbers\<close>

lemma sorted_wrt_append_le:
  assumes "sorted_wrt (>) xs" and "sorted_wrt (>) ys"
    and "\<And>x y. x \<in> set xs \<Longrightarrow> y \<in> set ys \<Longrightarrow> y < (x :: 'a :: order)"
  shows "sorted_wrt (>) (xs @ ys)"
  using assms by (auto simp: sorted_wrt_append)

lemma sorted_wrt_gt_distinct: "sorted_wrt (>) xs \<Longrightarrow> distinct (xs :: 'a :: order list)"
  by (induction xs) auto

lemma dvd_less_gap:
  assumes "(d :: nat) dvd x" and "d dvd c" and "x < c"
  shows "x + d \<le> c"
proof -
  have "d dvd c - x" using assms by simp
  then have "d \<le> c - x" using assms(3) by (simp add: dvd_imp_le)
  then show ?thesis using assms(3) by linarith
qed

lemma pow2_le_less: "(2 :: nat) ^ i \<le> n \<Longrightarrow> n < 2 ^ d \<Longrightarrow> i < d"
  using le_less_trans [of "2 ^ i" n "2 ^ d"] by simp

section \<open>Words\<close>

lemma unat_64_lt [simp]: "unat (w :: u64) < 18446744073709551616"
  using unsigned_less [of w] by simp

text \<open>What a loop that counts a 64-bit word up gets closer to.\<close>

lemma word_room: "a < b \<Longrightarrow> 2 ^ 64 - unat b < 2 ^ 64 - unat (a :: u64)"
  using unat_64_lt [of b] by (intro diff_less_mono2) (simp_all add: word_less_nat_alt del: unat_64_lt)

lemma unat_8_lt: "unat (w :: u8) < 256"
  using unsigned_less [of w] by simp

lemma unat_sub_le: "v \<le> u \<Longrightarrow> unat ((u :: 'a :: len word) - v) = unat u - unat v"
  by (simp add: unat_sub)

lemma word_and_le_left: "(u :: 'a :: len word) AND v \<le> u"
  by (simp add: word_and_le2)

end
