(* ===== verification/TreeSpec.thy ===== *)
theory TreeSpec
  imports Prelude
begin

text \<open>
  The mathematics of the snapshot tree (README, ``Mathematical details''), on natural numbers:
  the least significant set bit \<open>lsb\<close>, the time of demise \<open>T(k) = k + 3 * LSB(k)\<close>, the set
  of nodes alive after a node, the set a node prunes, and the Fenwick path. The invariants the
  README names (lifetime, repository size, node distribution) and those the repository's node
  test checks are proved here once; FenwickTree carries them over to the 64-bit code.
\<close>

section \<open>The least significant set bit\<close>

fun lsb :: "nat \<Rightarrow> nat" where
  "lsb n = (if n = 0 then 0 else if odd n then 1 else 2 * lsb (n div 2))"

declare lsb.simps [simp del]

lemma lsb_0 [simp]: "lsb 0 = 0" by (simp add: lsb.simps)
lemma lsb_odd: "odd n \<Longrightarrow> lsb n = 1" by (cases "n = 0") (simp_all add: lsb.simps)
lemma lsb_double [simp]: "lsb (2 * n) = 2 * lsb n"
  by (cases "n = 0") (simp_all add: lsb.simps[of "2 * n"])

lemma lsb_decomp: "0 < n \<Longrightarrow> \<exists>k q. n = 2 ^ k * (2 * q + 1) \<and> lsb n = 2 ^ k"
proof (induction n rule: lsb.induct)
  case (1 n)
  show ?case
  proof (cases "odd n")
    case True
    then obtain q where "n = 2 * q + 1" by (elim oddE)
    then have "n = 2 ^ 0 * (2 * q + 1) \<and> lsb n = 2 ^ 0" by (simp add: lsb_odd)
    then show ?thesis by blast
  next
    case False
    then obtain m where m: "n = 2 * m" by (auto elim: evenE)
    with 1 False obtain k q where kq: "m = 2 ^ k * (2 * q + 1)" "lsb m = 2 ^ k" by auto
    have "n = 2 ^ Suc k * (2 * q + 1)" using m kq(1) by simp
    moreover have "lsb n = 2 ^ Suc k" using kq(2) by (simp add: m)
    ultimately show ?thesis by blast
  qed
qed

lemma lsb_pos: "0 < n \<Longrightarrow> 0 < lsb n"
  using lsb_decomp [of n] by auto

lemma lsb_dvd: "lsb n dvd n"
proof (cases "n = 0")
  case False
  then obtain k q where "n = 2 ^ k * (2 * q + 1)" "lsb n = 2 ^ k"
    using lsb_decomp [of n] by auto
  then show ?thesis by (metis dvd_triv_left)
qed simp

lemma lsb_le: "lsb n \<le> n"
  by (cases "n = 0") (simp_all add: dvd_imp_le lsb_dvd)

lemma lsb_mult_pow: "lsb (2 ^ i * n) = 2 ^ i * lsb n"
  by (induction i) (simp_all add: mult.assoc)

lemma lsb_pow_odd: "odd q \<Longrightarrow> lsb (2 ^ i * q) = 2 ^ i"
  by (simp add: lsb_mult_pow lsb_odd)

lemma lsb_is_pow: "0 < n \<Longrightarrow> \<exists>k. lsb n = 2 ^ k"
  using lsb_decomp by blast

lemma pow_dvd_lsb: "0 < n \<Longrightarrow> 2 ^ i dvd n \<Longrightarrow> 2 ^ i \<le> lsb n"
  by (auto elim!: dvdE simp: lsb_mult_pow lsb_pos Suc_leI)

lemma not_pow_dvd_lsb: "0 < n \<Longrightarrow> \<not> 2 ^ i dvd n \<Longrightarrow> lsb n < 2 ^ i"
proof (rule ccontr)
  assume n: "0 < n" "\<not> 2 ^ i dvd n" "\<not> lsb n < 2 ^ i"
  obtain k where "lsb n = 2 ^ k" using lsb_is_pow n(1) by blast
  with n(3) have "(2::nat) ^ i dvd lsb n" by (simp add: le_imp_power_dvd)
  then show False using lsb_dvd n(2) dvd_trans by blast
qed

section \<open>Alive nodes\<close>

text \<open>\<open>demise\<close> is only meaningful for \<open>0 < k\<close>: node 0 never dies.\<close>

definition demise :: "nat \<Rightarrow> nat" where
  "demise k = k + 3 * lsb k"

definition alive_set :: "nat \<Rightarrow> nat set" where
  "alive_set n = {k. k \<le> n \<and> (k = 0 \<or> n < demise k)}"

definition pruned_set :: "nat \<Rightarrow> nat set" where
  "pruned_set n = {j. 0 < j \<and> demise j = n}"

section \<open>The enumeration by levels\<close>

text \<open>
  Level \<open>i\<close> of node \<open>n\<close> contributes the anchor, the multiple of \<open>2 ^ i\<close> that precedes the
  greatest one not above \<open>n\<close>, and, where bit \<open>i - 1\<close> of \<open>n\<close> is set, one node of the
  secondary path above it.
\<close>

function levels :: "nat \<Rightarrow> nat \<Rightarrow> nat list" where
  "levels n i =
    (let q = n div 2 ^ i; cur = 2 ^ i * (q - 1) in
     (if 0 < i \<and> odd (n div 2 ^ (i - 1)) then [cur + 2 ^ (i - 1)] else []) @
     [cur] @ (if q \<le> 1 then [] else levels n (Suc i)))"
  by pat_completeness auto
termination
proof (relation "measure (\<lambda>(n, i). n div 2 ^ i)", goal_cases)
  case 1 show ?case by simp
next
  case (2 n i x xa)
  then have "1 < n div 2 ^ i" by simp
  moreover have "n div 2 ^ Suc i = n div 2 ^ i div 2" by (simp add: div_mult2_eq [of n "2 ^ i" 2] mult.commute [of _ "2 ^ i"])
  ultimately show ?case by simp
qed
declare levels.simps [simp del]

text \<open>Between two consecutive anchors only a multiple of the finer step can be alive.\<close>

lemma dead_between:
  assumes "x \<in> alive_set n" and "x < c" and "2 ^ j dvd c" and "2 ^ j \<le> n - c" and "c \<le> n" and "0 < x"
  shows "2 ^ j dvd x"
proof (rule ccontr)
  assume nd: "\<not> 2 ^ j dvd x"
  obtain l where l: "lsb x = 2 ^ l" using lsb_is_pow assms(6) by blast
  have "l < j" using not_pow_dvd_lsb [OF assms(6) nd] l by simp
  then have "lsb x dvd 2 ^ j" using l by (simp add: le_imp_power_dvd)
  then have "lsb x dvd c" using assms(3) dvd_trans by blast
  then have "x + lsb x \<le> c" using dvd_less_gap lsb_dvd assms(2) by blast
  moreover have "lsb x * 2 \<le> 2 ^ j" using l \<open>l < j\<close>
    by (metis Suc_leI power_Suc2 power_increasing one_le_numeral)
  ultimately have "demise x \<le> n" using assms(4,5) unfolding demise_def by linarith
  then show False using assms(1,6) by (simp add: alive_set_def)
qed

definition anchor :: "nat \<Rightarrow> nat \<Rightarrow> nat" where
  "anchor n i = 2 ^ i * (n div 2 ^ i - 1)"

definition second :: "nat \<Rightarrow> nat \<Rightarrow> nat list" where
  "second n i = (if 0 < i \<and> odd (n div 2 ^ (i - 1)) then [anchor n i + 2 ^ (i - 1)] else [])"

definition bound_above :: "nat \<Rightarrow> nat \<Rightarrow> nat" where
  "bound_above n i = (if i = 0 then n else anchor n (i - 1))"

lemma levels_eq:
  "levels n i = second n i @ [anchor n i] @ (if n div 2 ^ i \<le> 1 then [] else levels n (Suc i))"
  by (subst levels.simps) (simp add: Let_def second_def anchor_def)

lemma div_pow_Suc: "(n :: nat) div 2 ^ Suc i = n div 2 ^ i div 2"
  by (simp add: div_mult2_eq [of n "2 ^ i" 2] mult.commute [of _ "2 ^ i"])

lemma div_bounds: "(2 :: nat) ^ i * (n div 2 ^ i) \<le> n" "n < 2 ^ i * (n div 2 ^ i) + 2 ^ i"
proof -
  show "2 ^ i * (n div 2 ^ i) \<le> n" by simp
  show "n < 2 ^ i * (n div 2 ^ i) + 2 ^ i"
    using dividend_less_div_times [of "2 ^ i" n] by (simp add: algebra_simps)
qed

lemma anchor_plus: "2 ^ i \<le> n \<Longrightarrow> anchor n i + 2 ^ i = 2 ^ i * (n div 2 ^ i)"
  using div_greater_zero_iff [of n "2 ^ i"] by (simp add: anchor_def algebra_simps)

lemma anchor_bounds:
  assumes "2 ^ i \<le> n"
  shows "anchor n i + 2 ^ i \<le> n" and "n < anchor n i + 2 * 2 ^ i"
  using anchor_plus [OF assms] div_bounds(1) [of i n] div_bounds(2) [of n i]
  unfolding mult_2 by linarith+

lemma anchor_dvd: "2 ^ i dvd anchor n i"
  by (simp add: anchor_def)

lemma alive_if_close:
  assumes "2 ^ i dvd x" and "x \<le> n" and "n < x + 3 * 2 ^ i"
  shows "x \<in> alive_set n"
  using pow_dvd_lsb [of x i] assms by (cases "x = 0") (auto simp: alive_set_def demise_def)

lemma anchor_alive: "2 ^ i \<le> n \<Longrightarrow> anchor n i \<in> alive_set n"
  using anchor_bounds [of i n] by (intro alive_if_close [OF anchor_dvd]) auto

lemma anchor_Suc:
  assumes "2 ^ Suc i \<le> n"
  shows "anchor n (Suc i) + (if even (n div 2 ^ i) then 2 ^ i else 2 * 2 ^ i) = anchor n i"
proof -
  define a where "a = n div 2 ^ i"
  have "2 \<le> a" using assms div_le_mono [of "2 ^ Suc i" n "2 ^ i"] by (simp add: a_def)
  have e: "anchor n (Suc i) = 2 ^ i * (2 * (a div 2) - 2)"
    unfolding anchor_def div_pow_Suc a_def by (simp add: algebra_simps diff_mult_distrib2)
  have "2 * (a div 2) - 2 + (if even a then 1 else 2) = a - 1"
    using \<open>2 \<le> a\<close> by (auto elim!: evenE oddE)
  then have "2 ^ i * (2 * (a div 2) - 2) + 2 ^ i * (if even a then 1 else 2) = 2 ^ i * (a - 1)"
    by (metis distrib_left)
  then show ?thesis unfolding e unfolding anchor_def a_def [symmetric] by (simp split: if_splits)
qed

lemma anchor_Suc_less: "2 ^ Suc i \<le> n \<Longrightarrow> anchor n (Suc i) < anchor n i"
  using anchor_Suc [of i n] less_add_same_cancel1 [of "anchor n (Suc i)"]
  by (metis mult_2 add_pos_pos zero_less_numeral zero_less_power)

lemma bound_above_le: "2 ^ i \<le> n \<Longrightarrow> bound_above n i \<le> n \<and> anchor n i < bound_above n i"
proof (cases i)
  case 0
  assume "2 ^ i \<le> n"
  with 0 show ?thesis by (auto simp: bound_above_def anchor_def)
next
  case (Suc j)
  assume n: "2 ^ i \<le> n"
  then have "2 ^ j \<le> n" using Suc by simp
  then show ?thesis
    using n Suc anchor_Suc_less [of j n] anchor_bounds(1) [of j n] by (auto simp: bound_above_def)
qed

lemma second_set:
  assumes "2 ^ i \<le> n"
  shows "set (second n i) = {x \<in> alive_set n. anchor n i < x \<and> x < bound_above n i}"
proof (cases i)
  case 0
  then show ?thesis using assms by (auto simp: second_def bound_above_def anchor_def)
next
  case (Suc j)
  define a where "a = n div 2 ^ j"
  have nj: "2 ^ j \<le> n" and ni: "2 ^ Suc j \<le> n" using assms Suc by simp_all
  note b = anchor_bounds [OF nj] anchor_bounds [OF ni] anchor_Suc [OF ni]
  have only: "odd a \<and> x = anchor n (Suc j) + 2 ^ j"
    if x: "x \<in> alive_set n" "anchor n (Suc j) < x" "x < anchor n j" for x
  proof -
    have "2 ^ j dvd x"
      using x b by (intro dead_between [OF x(1,3) anchor_dvd]) auto
    moreover have "2 ^ j dvd anchor n (Suc j)"
      using anchor_dvd [of "Suc j" n] dvd_trans le_imp_power_dvd lessI less_imp_le by metis
    ultimately have "anchor n (Suc j) + 2 ^ j \<le> x" "x + 2 ^ j \<le> anchor n j"
      using dvd_less_gap x anchor_dvd by blast+
    then have "anchor n (Suc j) + 2 ^ j + 2 ^ j \<le> anchor n j" by linarith
    then have "odd a" using b(5) unfolding a_def by (metis add_le_same_cancel1 not_one_le_zero power_not_zero zero_neq_numeral le_zero_eq)
    then show ?thesis
      using b(5) \<open>anchor n (Suc j) + 2 ^ j \<le> x\<close> \<open>x + 2 ^ j \<le> anchor n j\<close>
      unfolding a_def by auto
  qed
  have alive: "anchor n (Suc j) + 2 ^ j \<in> alive_set n" if "odd a"
  proof (rule alive_if_close [of j])
    show "2 ^ j dvd anchor n (Suc j) + 2 ^ j"
      using anchor_dvd [of "Suc j" n] dvd_trans le_imp_power_dvd lessI less_imp_le
      by (metis dvd_add dvd_refl)
    show "anchor n (Suc j) + 2 ^ j \<le> n" "n < anchor n (Suc j) + 2 ^ j + 3 * 2 ^ j"
      using b that unfolding a_def by auto
  qed
  have "anchor n (Suc j) + 2 ^ j < anchor n j" if "odd a"
  proof -
    have "0 < (2 :: nat) ^ j" by simp
    moreover have "anchor n (Suc j) + 2 * 2 ^ j = anchor n j" using b(5) that by (simp add: a_def)
    ultimately show ?thesis by linarith
  qed
  moreover have "anchor n (Suc j) < anchor n (Suc j) + 2 ^ j" by simp
  ultimately have "{x \<in> alive_set n. anchor n (Suc j) < x \<and> x < anchor n j}
      = (if odd a then {anchor n (Suc j) + 2 ^ j} else {})"
    using alive by (cases "odd a") (auto dest: only)
  then show ?thesis by (simp add: Suc second_def bound_above_def a_def)
qed

lemma two_le_div: "2 \<le> (n :: nat) div 2 ^ i \<Longrightarrow> 2 ^ Suc i \<le> n"
  by (simp add: less_eq_div_iff_mult_less_eq)

lemma levels_set:
  "2 ^ i \<le> n \<Longrightarrow> set (levels n i) = {x \<in> alive_set n. x < bound_above n i}"
proof (induction n i rule: levels.induct)
  case (1 n i)
  define rest where "rest = (if n div 2 ^ i \<le> 1 then [] else levels n (Suc i))"
  have rest: "set rest = {x \<in> alive_set n. x < anchor n i}"
  proof (cases "n div 2 ^ i \<le> 1")
    case True
    then have "anchor n i = 0" by (simp add: anchor_def)
    with True show ?thesis by (simp add: rest_def)
  next
    case False
    then have "2 ^ Suc i \<le> n" by (intro two_le_div) simp
    with 1(1) [OF refl refl False] show ?thesis
      using False by (simp add: rest_def bound_above_def)
  qed
  have "set (levels n i) = set (second n i) \<union> {anchor n i} \<union> set rest"
    by (subst levels_eq) (simp add: rest_def)
  then show ?case
    unfolding second_set [OF 1(2)] rest
    using anchor_alive [OF 1(2)] bound_above_le [OF 1(2)] by fastforce
qed

lemma levels_sorted: "2 ^ i \<le> n \<Longrightarrow> sorted_wrt (>) (levels n i)"
proof (induction n i rule: levels.induct)
  case (1 n i)
  define rest where "rest = (if n div 2 ^ i \<le> 1 then [] else levels n (Suc i))"
  have r: "sorted_wrt (>) rest \<and> (\<forall>x\<in>set rest. x < anchor n i)"
  proof (cases "n div 2 ^ i \<le> 1")
    case False
    then have "2 ^ Suc i \<le> n" by (intro two_le_div) simp
    with 1(1) [OF refl refl False] levels_set [of "Suc i" n] False show ?thesis
      by (auto simp: rest_def bound_above_def)
  qed (simp add: rest_def)
  have s: "\<forall>x\<in>set (second n i). anchor n i < x"
    using second_set [OF 1(2)] by blast
  have e: "levels n i = second n i @ [anchor n i] @ rest"
    by (subst levels_eq) (simp add: rest_def)
  have "sorted_wrt (>) (second n i)" by (simp add: second_def)
  with r s show ?case unfolding e by (fastforce simp: sorted_wrt_append)
qed

lemma levels_length: "2 ^ i \<le> n \<Longrightarrow> n < 2 ^ d \<Longrightarrow> length (levels n i) + 2 * i + (if i = 0 then 1 else 0) \<le> 2 * d"
proof (induction n i rule: levels.induct)
  case (1 n i)
  have "i < d" using 1(2,3) by (rule pow2_le_less)
  have s: "length (second n i) \<le> (if i = 0 then 0 else 1)" by (simp add: second_def)
  show ?case
  proof (cases "n div 2 ^ i \<le> 1")
    case True
    with s \<open>i < d\<close> show ?thesis by (subst levels_eq) (auto split: if_splits)
  next
    case False
    then have "2 ^ Suc i \<le> n" by (intro two_le_div) simp
    with 1(1) [OF refl refl False] 1(3) have "length (levels n (Suc i)) + 2 * Suc i \<le> 2 * d" by simp
    with s False show ?thesis by (subst levels_eq) (auto split: if_splits)
  qed
qed

lemma zero_alive: "0 \<in> alive_set n" by (simp add: alive_set_def)
lemma self_alive: "n \<in> alive_set n"
  using lsb_pos [of n] by (cases "n = 0") (auto simp: alive_set_def demise_def)

definition alive_list :: "nat \<Rightarrow> nat list" where
  "alive_list n = n # (if n = 0 then [] else levels n 0)"

lemma alive_list_set: "set (alive_list n) = alive_set n"
proof (cases "n = 0")
  case True then show ?thesis by (auto simp: alive_list_def alive_set_def)
next
  case False
  then have "set (levels n 0) = {x \<in> alive_set n. x < n}"
    using levels_set [of 0 n] by (simp add: bound_above_def Suc_leI)
  moreover have "\<And>x. x \<in> alive_set n \<Longrightarrow> x \<le> n" by (simp add: alive_set_def)
  ultimately show ?thesis using self_alive [of n] False by (force simp: alive_list_def)
qed

lemma alive_list_sorted: "sorted_wrt (>) (alive_list n)"
  using levels_sorted [of 0 n] levels_set [of 0 n]
  by (auto simp: alive_list_def bound_above_def Suc_leI)

lemma alive_list_length: "n < 2 ^ d \<Longrightarrow> 0 < d \<Longrightarrow> length (alive_list n) \<le> 2 * d"
  using levels_length [of 0 n d] by (auto simp: alive_list_def Suc_leI)

section \<open>The node distribution invariant\<close>

lemma ex_pow_between: "0 < (m :: nat) \<Longrightarrow> \<exists>j. 2 ^ j \<le> m \<and> m < 2 * 2 ^ j"
proof (induction m rule: less_induct)
  case (less m)
  show ?case
  proof (cases "m = 1")
    case True then show ?thesis by (intro exI [of _ 0]) simp
  next
    case False
    with less.prems have "0 < m div 2" "m div 2 < m" by auto
    then obtain j where "2 ^ j \<le> m div 2" "m div 2 < 2 * 2 ^ j" using less.IH by blast
    then show ?thesis by (intro exI [of _ "Suc j"]) auto
  qed
qed

lemma distribution:
  assumes "0 < m" and "m \<le> n"
  shows "\<exists>k \<in> alive_set n. n - m \<le> k \<and> k \<le> n - m div 2"
proof -
  obtain j where j: "2 ^ j \<le> m" "m < 2 * 2 ^ j" using ex_pow_between assms(1) by blast
  have nj: "2 ^ j \<le> n" using j assms by simp
  note bj = anchor_bounds [OF nj]
  show ?thesis
  proof (cases "n - m \<le> anchor n j")
    case True
    with bj j anchor_alive [OF nj] show ?thesis by (intro bexI [of _ "anchor n j"]) auto
  next
    case far: False
    then obtain l where l: "j = Suc l"
      using bj j assms by (cases j) auto
    have nl: "2 ^ l \<le> n" and ml: "2 * 2 ^ l \<le> m" "m < 4 * 2 ^ l" using nj j l by auto
    note bl = anchor_bounds [OF nl] and step = anchor_Suc [OF nj [unfolded l]]
    let ?s = "anchor n j + 2 ^ l"
    show ?thesis
    proof (cases "odd (n div 2 ^ l) \<and> n - m \<le> ?s")
      case True
      then have "?s \<in> set (second n j)" by (simp add: second_def l)
      then have "?s \<in> alive_set n" using second_set [OF nj] by blast
      moreover have "?s \<le> n - m div 2" using True step bl ml l by auto
      ultimately show ?thesis using True by blast
    next
      case False
      then have "n - m \<le> anchor n l \<and> anchor n l \<le> n - m div 2"
        using far step bl ml l assms(2) by (auto split: if_splits)
      with anchor_alive [OF nl] show ?thesis by blast
    qed
  qed
qed

lemma gap_width:
  assumes "a \<in> alive_set n" and "a < p" and "p \<le> n" and "\<And>x. x \<in> alive_set n \<Longrightarrow> a < x \<Longrightarrow> p \<le> x"
  shows "2 * (p - a - 1) \<le> n - a"
proof (cases "n = Suc a")
  case False
  then have "0 < n - a - 1" "n - a - 1 \<le> n" using assms by auto
  then obtain k where "k \<in> alive_set n" "n - (n - a - 1) \<le> k" "k \<le> n - (n - a - 1) div 2"
    using distribution by blast
  moreover from this have "p \<le> k" using assms by simp
  ultimately show ?thesis using assms by linarith
qed (use assms in auto)

section \<open>Fenwick paths\<close>

lemma parent_alive: "k \<in> alive_set n \<Longrightarrow> k - lsb k \<in> alive_set n"
proof (cases "k - lsb k = 0")
  case False
  assume k: "k \<in> alive_set n"
  then have "0 < k" using False by auto
  then obtain i q where e: "k = 2 ^ i * (2 * q + 1)" "lsb k = 2 ^ i" using lsb_decomp by blast
  then have "k - lsb k = 2 ^ Suc i * q" by (simp add: algebra_simps)
  then show ?thesis
    using k \<open>0 < k\<close> e by (intro alive_if_close [of "Suc i"]) (auto simp: alive_set_def demise_def)
qed (simp add: zero_alive)

function npath :: "nat \<Rightarrow> nat list" where
  "npath n = (if n = 0 then [] else n # npath (n - lsb n))"
  by pat_completeness auto
termination by (relation "measure id") (auto simp: lsb_pos)
declare npath.simps [simp del]

lemma npath_alive: "k \<in> alive_set n \<Longrightarrow> set (npath k) \<subseteq> alive_set n"
proof (induction k rule: npath.induct)
  case (1 k)
  then show ?case by (subst npath.simps) (auto simp: parent_alive)
qed

lemma npath_prefixes: "2 ^ i * (n div 2 ^ i) \<in> set (npath n) \<union> {0}"
proof (induction n rule: npath.induct)
  case (1 n)
  show ?case
  proof (cases "2 ^ i dvd n")
    case True
    then show ?thesis by (subst npath.simps) auto
  next
    case False
    then have n0: "0 < n" by (cases n) auto
    let ?c = "2 ^ i * (n div 2 ^ i)"
    have "lsb n dvd 2 ^ i"
      using not_pow_dvd_lsb [OF n0 False] lsb_is_pow [OF n0]
      by (metis less_imp_le le_imp_power_dvd power_less_imp_less_exp one_less_numeral_iff semiring_norm(76))
    then have "lsb n dvd ?c" by (rule dvd_mult2)
    moreover have "?c < n" using False div_bounds(1) [of i n] by (metis dvd_triv_left le_neq_implies_less)
    ultimately have le: "?c + lsb n \<le> n" by (intro dvd_less_gap lsb_dvd)
    have "(n - lsb n) div 2 ^ i = n div 2 ^ i"
    proof (rule antisym)
      show "(n - lsb n) div 2 ^ i \<le> n div 2 ^ i" by (simp add: div_le_mono)
      show "n div 2 ^ i \<le> (n - lsb n) div 2 ^ i"
        using le by (simp add: less_eq_div_iff_mult_less_eq mult.commute)
    qed
    with 1(1) n0 show ?thesis by (subst npath.simps) auto
  qed
qed

lemma next_parent_in_path: "Suc n - lsb (Suc n) \<in> set (npath n) \<union> {0}"
proof -
  obtain i q where e: "Suc n = 2 ^ i * (2 * q + 1)" "lsb (Suc n) = 2 ^ i" using lsb_decomp by blast
  have "1 \<le> (2 :: nat) ^ i" by simp
  then have n: "n = (2 ^ i - 1) + q * 2 ^ Suc i" using e(1) by (simp add: algebra_simps)
  have "((2 :: nat) ^ i - 1) div 2 ^ Suc i = 0" by (intro div_less) (simp add: less_imp_diff_less)
  then have "n div 2 ^ Suc i = q" unfolding n by (subst div_mult_self1) simp_all
  then have "2 ^ Suc i * (n div 2 ^ Suc i) = Suc n - lsb (Suc n)" using e by (simp add: algebra_simps)
  then show ?thesis using npath_prefixes by metis
qed

lemma npath_length: "n < 2 ^ d \<Longrightarrow> 2 ^ k dvd n \<Longrightarrow> k \<le> d \<Longrightarrow> length (npath n) \<le> d - k"
proof (induction n arbitrary: k rule: npath.induct)
  case (1 n)
  show ?case
  proof (cases "n = 0")
    case True then show ?thesis by (simp add: npath.simps)
  next
    case False
    then obtain i q where e: "n = 2 ^ i * (2 * q + 1)" "lsb n = 2 ^ i" using lsb_decomp by blast
    have "k \<le> i" using pow_dvd_lsb [of n k] False 1(3) e(2) by simp
    have "i < d" using e 1(2) lsb_le [of n] by (intro pow2_le_less [of i n]) simp_all
    have "n - lsb n = 2 ^ Suc i * q" using e by (simp add: algebra_simps)
    then have "2 ^ Suc i dvd n - lsb n" by simp
    then have "length (npath (n - lsb n)) \<le> d - Suc i"
      using 1(1) [OF False] 1(2) \<open>i < d\<close> by (simp add: less_imp_diff_less)
    with False \<open>k \<le> i\<close> \<open>i < d\<close> show ?thesis by (subst npath.simps) auto
  qed
qed

section \<open>How the alive set evolves\<close>

lemma alive_set_Suc: "alive_set (Suc n) = insert (Suc n) (alive_set n - pruned_set (Suc n))"
  using lsb_pos [of "Suc n"] by (auto simp: alive_set_def pruned_set_def demise_def)

lemma pruned_was_alive: "pruned_set (Suc n) \<subseteq> alive_set n"
proof
  fix j assume "j \<in> pruned_set (Suc n)"
  then have "0 < j" "j + 3 * lsb j = Suc n" by (auto simp: pruned_set_def demise_def)
  then show "j \<in> alive_set n" using lsb_pos [of j] by (simp add: alive_set_def demise_def)
qed

lemma pruned_not_alive: "pruned_set n \<inter> alive_set n = {}"
  by (auto simp: alive_set_def pruned_set_def)

lemma pruned_not_on_path: "pruned_set n \<inter> set (npath n) = {}"
  using npath_alive [OF self_alive] pruned_not_alive by blast

lemma alive_until_demise:
  assumes "0 < k"
  shows "k \<in> alive_set n \<longleftrightarrow> k \<le> n \<and> n < demise k"
  using assms by (auto simp: alive_set_def)

lemma finite_alive_set [simp]: "finite (alive_set n)"
  by (rule finite_subset [of _ "{..n}"]) (auto simp: alive_set_def)

lemma step_lsb:
  assumes "2 ^ Suc k dvd n" and "3 * 2 ^ k \<le> n"
  shows "0 < n - 3 * 2 ^ k \<and> lsb (n - 3 * 2 ^ k) = 2 ^ k"
proof -
  obtain a where a: "n = 2 ^ Suc k * a" using assms(1) by (elim dvdE)
  then have "2 ^ k * 3 \<le> 2 ^ k * (2 * a)" using assms(2) by (simp add: algebra_simps)
  then have "2 \<le> a" by simp
  then obtain b where b: "a = b + 2" using le_Suc_ex by (metis add.commute)
  have "n - 3 * 2 ^ k = 2 ^ k * (2 * b + 1)" unfolding a b by (simp add: algebra_simps)
  then show ?thesis by (simp add: lsb_pow_odd del: mult_Suc_right)
qed

lemma pruned_set_steps:
  "pruned_set n = {j. \<exists>m. 0 < m \<and> 2 ^ m dvd n \<and> 3 * 2 ^ (m - 1) \<le> n \<and> j = n - 3 * 2 ^ (m - 1)}"
proof (intro equalityI subsetI)
  fix j assume "j \<in> pruned_set n"
  then have j: "0 < j" "n = j + 3 * lsb j" by (auto simp: pruned_set_def demise_def)
  then obtain k q where e: "j = 2 ^ k * (2 * q + 1)" "lsb j = 2 ^ k" using lsb_decomp by blast
  have "n = 2 ^ Suc k * (q + 2)" unfolding j(2) e(2) by (subst e(1)) (simp add: algebra_simps)
  then show "j \<in> {j. \<exists>m. 0 < m \<and> 2 ^ m dvd n \<and> 3 * 2 ^ (m - 1) \<le> n \<and> j = n - 3 * 2 ^ (m - 1)}"
    using j e(2) by (auto intro!: exI [of _ "Suc k"])
next
  fix j assume "j \<in> {j. \<exists>m. 0 < m \<and> 2 ^ m dvd n \<and> 3 * 2 ^ (m - 1) \<le> n \<and> j = n - 3 * 2 ^ (m - 1)}"
  then obtain m where m: "0 < m" "2 ^ m dvd n" "3 * 2 ^ (m - 1) \<le> n" "j = n - 3 * 2 ^ (m - 1)"
    by blast
  then obtain k where "m = Suc k" using gr0_conv_Suc by blast
  with m have k: "2 ^ Suc k dvd n" "3 * 2 ^ k \<le> n" "j = n - 3 * 2 ^ k" by simp_all
  from step_lsb [OF k(1,2)] k show "j \<in> pruned_set n" by (simp add: pruned_set_def demise_def)
qed

end
