(* ===== verification/FenwickTree.thy ===== *)
theory FenwickTree
  imports TreeSpec
begin

text \<open>
  The tree routines of \<^verbatim>\<open>src/diffmonger.hpp\<close> (namespace \<^verbatim>\<open>diffmonger::tree\<close>) on 64-bit
  words, as the code computes them: the masks, the shifts and the wrap-around of \<^verbatim>\<open>uint64_t\<close>,
  the two \<^verbatim>\<open>assert\<close>s of \<open>alive_after\<close> and the one of \<open>prune\<close>, and the
  ``Node too big'' exceptions. A routine that calls a functor on nodes is modelled by the list
  of its calls together with the way it ends. The refinement section shows that each routine
  computes the set TreeSpec defines, and the properties follow.
\<close>

section \<open>The least significant bit of a word\<close>

lemma bit_Suc_double: "bit (Suc (2 * q) :: nat) j \<longleftrightarrow> j = 0 \<or> bit q (j - 1)"
  by (cases j) (simp_all add: bit_0 bit_Suc)

lemma unat_pow2: "k < LENGTH('a) \<Longrightarrow> unat (2 ^ k :: 'a :: len word) = 2 ^ k"
proof -
  assume k: "k < LENGTH('a)"
  have "(2 ^ k :: 'a word) = word_of_nat (2 ^ k)" by simp
  then have "unat (2 ^ k :: 'a word) = 2 ^ k mod 2 ^ LENGTH('a)" by (simp only: unat_of_nat)
  with k show ?thesis by simp
qed

lemma word_lsb_nat: "unat ((w :: 'a :: len word) AND - w) = lsb (unat w)"
proof (cases "w = 0")
  case True then show ?thesis by simp
next
  case False
  then have "0 < unat w" by (simp add: unat_gt_0)
  then obtain k q where kq: "unat w = 2 ^ k * (2 * q + 1)" "lsb (unat w) = 2 ^ k"
    using lsb_decomp by blast
  have kl: "k < LENGTH('a)"
  proof (rule ccontr)
    assume "\<not> k < LENGTH('a)"
    then have "(2::nat) ^ LENGTH('a) \<le> 2 ^ k" by simp
    moreover have "(2::nat) ^ k \<le> unat w" using kq by simp
    ultimately show False using unsigned_less [of w] by (metis leD le_trans)
  qed
  have "w AND - w = push_bit k 1"
  proof (rule bit_word_eqI)
    fix i assume i: "i < LENGTH('a)"
    have n1: "- w = NOT (w - 1)" by (simp add: minus_eq_not_minus_1)
    have bw: "bit w i \<longleftrightarrow> bit (unat w) i" using i by (simp add: bit_unsigned_iff)
    have u1: "unat (w - 1) = unat w - 1" using False by (simp add: unat_minus_one)
    have bw1: "bit (w - 1) i \<longleftrightarrow> bit (unat w - 1) i"
      unfolding u1 [symmetric] using i by (simp add: bit_unsigned_iff)
    have e1: "unat w = push_bit k (2 * q + 1)" by (simp add: kq push_bit_eq_mult mult.commute)
    have e2: "unat w - 1 = push_bit k (2 * q) + mask k"
      by (simp add: kq push_bit_eq_mult mask_eq_exp_minus_1 algebra_simps)
    have e3: "push_bit k (2 * q) + mask k = (push_bit k (2 * q) OR mask k :: nat)"
      by (rule disjunctive_add) (simp add: bit_push_bit_iff bit_mask_iff)
    show "bit (w AND - w) i \<longleftrightarrow> bit (push_bit k 1 :: 'a word) i"
      unfolding bit_and_iff n1 bit_not_iff bw bw1 e2 e3 unfolding e1
      using i kl by (cases "i = k"; cases "i < k") 
       (auto simp: bit_push_bit_iff bit_or_iff bit_mask_iff bit_exp_iff bit_Suc_double bit_double_iff)
  qed
  then show ?thesis using kl by (simp add: kq(2) unat_pow2)
qed

lemma lsb_word_le: "(node :: 'a :: len word) AND - node \<le> node"
  by (rule word_and_le_left)

lemma unat_minus_lsb: "unat (node - (node AND - node)) = unat node - lsb (unat (node :: 'a :: len word))"
  by (simp add: unat_sub_le lsb_word_le word_lsb_nat)

section \<open>The code\<close>

text \<open>\<^verbatim>\<open>for (; node; node -= node & -node) f(node);\<close>\<close>

function fenwick_path_exc_root :: "u64 \<Rightarrow> u64 list" where
  "fenwick_path_exc_root node =
     (if node = 0 then [] else node # fenwick_path_exc_root (node - (node AND - node)))"
  by pat_completeness auto
termination
  by (relation "measure unat") (auto simp: unat_minus_lsb lsb_pos unat_gt_0)
declare fenwick_path_exc_root.simps [simp del]

definition fenwick_path_inc_root :: "u64 \<Rightarrow> u64 list" where
  "fenwick_path_inc_root node = fenwick_path_exc_root node @ [0]"

definition fenwick_parent :: "u64 \<Rightarrow> u64" where
  "fenwick_parent node = node - (node AND - node)"

text \<open>
  One iteration of the loop of \<open>alive_after\<close>: the first assertion, the test for the secondary
  path with the second assertion inside it, the calls, the exit at the root, and the next
  anchor and step. The next anchor is computed before the overflow test, which has no effect on
  the calls.
\<close>

definition node_too_big :: exn where
  "node_too_big = RuntimeError ''Node too big''"

function alive_loop :: "u64 \<Rightarrow> u64 \<Rightarrow> u64 \<Rightarrow> u64 trace" where
  "alive_loop node uint_2powm cur =
    (if \<not> cur \<le> node then ([], Threw (AssertionFailed ''node >= cur''))
     else
       let candidate = cur + drop_bit 2 uint_2powm;
           wide = (drop_bit 1 uint_2powm + drop_bit 2 uint_2powm \<le> node - cur)
       in if wide \<and> \<not> candidate \<le> node
          then ([], Threw (AssertionFailed ''candidate <= node''))
          else emit ((if wide \<and> candidate \<noteq> cur then [candidate] else []) @ [cur])
            (if cur = 0 then ([], Done)
             else if uint_2powm = push_bit 63 1 then ([], Threw node_too_big)
             else alive_loop node (push_bit 1 uint_2powm) ((cur - 1) AND NOT (uint_2powm - 1))))"
  by pat_completeness auto
termination
proof (relation "measure (\<lambda>(node, p, cur). unat cur)", goal_cases)
  case 1 show ?case by simp
next
  case (2 node p cur)
  have "(cur - 1) AND NOT (p - 1) \<le> cur - 1" by (rule word_and_le_left)
  moreover have "cur - 1 < cur" using 2 by (simp add: word_less_nat_alt unat_minus_one unat_gt_0)
  ultimately have "(cur - 1) AND NOT (p - 1) < cur" by (rule le_less_trans)
  then show ?case by (simp add: word_less_nat_alt)
qed
declare alive_loop.simps [simp del]

definition alive_after :: "u64 \<Rightarrow> u64 trace" where
  "alive_after node = alive_loop node 1 node"

definition time_of_demise :: "u64 \<Rightarrow> u64 result" where
  "time_of_demise node =
     (if node = 0 then Inl (InvalidArgument ''time_of_demise(0) is undefined'')
      else Inr (node + 3 * (node AND - node)))"

text \<open>
  The loop of \<open>prune\<close>; \<open>m\<close> is the code's \<open>mask\<close>. The step \<open>mask |= mask << 1\<close> does not
  shrink anything for an arbitrary mask, so the loop has fuel; each iteration sets one more bit
  of the mask, so 64 units are enough (\<open>prune_outcome\<close>).
\<close>

fun prune_loop :: "nat \<Rightarrow> u64 \<Rightarrow> u64 \<Rightarrow> u64 trace" where
  "prune_loop 0 node m = ([], Diverged)"
| "prune_loop (Suc fuel) node m =
    (if node AND NOT m = 0 then ([], Done)
     else if m = push_bit 63 1 - 1 then ([], Threw node_too_big)
     else if node AND m \<noteq> 0 then ([], Done)
     else
       let k = m + drop_bit 1 m + 2; j = node - k; next_m = m OR push_bit 1 m
       in if k \<le> node
          then if time_of_demise j = Inr node
               then emit [j] (prune_loop fuel node next_m)
               else ([j], Threw (AssertionFailed ''time_of_demise(j) == node''))
          else prune_loop fuel node next_m)"

definition prune :: "u64 \<Rightarrow> u64 trace" where
  "prune node = prune_loop 64 node 1"

section \<open>Refinement\<close>

lemma map_path: "map unat (fenwick_path_exc_root node) = npath (unat node)"
proof (induction node rule: fenwick_path_exc_root.induct)
  case (1 node)
  then show ?case
    by (subst fenwick_path_exc_root.simps, subst npath.simps)
      (simp add: unat_minus_lsb unat_eq_zero)
qed

lemma unat_and_not_mask: "unat (w AND NOT (mask m) :: 'a :: len word) = 2 ^ m * (unat w div 2 ^ m)"
proof -
  have "unat (w AND NOT (mask m)) = push_bit m (drop_bit m (unat w))"
  proof (rule bit_eqI)
    fix i
    show "bit (unat (w AND NOT (mask m))) i \<longleftrightarrow> bit (push_bit m (drop_bit m (unat w))) i"
      using bit_imp_le_length [of w i]
      by (auto simp: bit_unsigned_iff bit_and_iff bit_not_iff bit_mask_iff bit_push_bit_iff bit_drop_bit_eq)
  qed
  then show ?thesis by (simp add: push_bit_eq_mult drop_bit_eq_div mult.commute)
qed

lemma anchor_next: "2 ^ Suc i \<le> n \<Longrightarrow> 2 ^ Suc i * ((anchor n i - 1) div 2 ^ Suc i) = anchor n (Suc i)"
proof -
  assume n: "2 ^ Suc i \<le> n"
  have s: "anchor n i - 1 = anchor n (Suc i) + (if even (n div 2 ^ i) then 2 ^ i else 2 * 2 ^ i) - 1"
    using anchor_Suc [OF n] by simp
  define e :: nat where "e = (if even (n div 2 ^ i) then 2 ^ i else 2 * 2 ^ i) - 1"
  have "1 \<le> (2 :: nat) ^ i" by simp
  then have e: "anchor n i - 1 = e + (n div 2 ^ Suc i - 1) * 2 ^ Suc i" "e < 2 ^ Suc i"
    using s by (auto simp: e_def anchor_def mult.commute less_imp_diff_less)
  then have "(anchor n i - 1) div 2 ^ Suc i = n div 2 ^ Suc i - 1"
    unfolding e(1) by (subst div_mult_self1) simp_all
  then show ?thesis by (simp add: anchor_def)
qed

lemma distance_wide:
  assumes "2 ^ Suc j \<le> n"
  shows "2 ^ Suc j + 2 ^ j \<le> n - anchor n (Suc j) \<longleftrightarrow> odd (n div 2 ^ j)"
proof -
  have nj: "2 ^ j \<le> n" using assms by simp
  show ?thesis
    using anchor_Suc [OF assms] anchor_bounds [OF nj] by (cases "even (n div 2 ^ j)") auto
qed

lemma unat_pow64: "i < 64 \<Longrightarrow> unat (2 ^ i :: u64) = 2 ^ i"
  by (rule unat_pow2) simp

lemma drop_bit_1_pow: "drop_bit 1 (2 ^ Suc i :: u64) = (if i < 63 then 2 ^ i else 0)"
  by (rule bit_word_eqI) (auto simp: bit_drop_bit_eq bit_exp_iff simp del: power_Suc)

lemma drop_bit_2_pow: "drop_bit 2 (2 ^ Suc i :: u64) = (if 0 < i \<and> i < 63 then 2 ^ (i - 1) else 0)"
  by (rule bit_word_eqI) (auto simp: bit_drop_bit_eq bit_exp_iff simp del: power_Suc)

lemma alive_loop_step:
  assumes "cur \<le> node"
    and "drop_bit 1 p + drop_bit 2 p \<le> node - cur \<Longrightarrow> cur + drop_bit 2 p \<le> node"
  shows "alive_loop node p cur =
    emit ((if drop_bit 1 p + drop_bit 2 p \<le> node - cur \<and> cur + drop_bit 2 p \<noteq> cur
           then [cur + drop_bit 2 p] else []) @ [cur])
      (if cur = 0 then ([], Done)
       else if p = push_bit 63 1 then ([], Threw node_too_big)
       else alive_loop node (push_bit 1 p) ((cur - 1) AND NOT (p - 1)))"
  using assms by (subst alive_loop.simps) (auto simp: Let_def)

text \<open>
  One iteration at level \<open>i\<close>, for any node (also beyond \<open>2 ^ 63\<close>): the assertions hold, the
  calls are those of the level, and the next anchor is the next level's.
\<close>

lemma alive_loop_level:
  assumes i: "i \<le> 62" and n: "2 ^ i \<le> unat node" and cur: "unat cur = anchor (unat node) i"
  obtains out cur' where
    "map unat out = second (unat node) i @ [anchor (unat node) i]"
    and "2 ^ Suc i \<le> unat node \<Longrightarrow> unat cur' = anchor (unat node) (Suc i)"
    and "alive_loop node (2 ^ Suc i) cur = emit out
      (if unat node div 2 ^ i \<le> 1 then ([], Done)
       else if i = 62 then ([], Threw node_too_big)
       else alive_loop node (2 ^ Suc (Suc i)) cur')"
proof -
  let ?n = "unat node"
  note b = anchor_bounds [OF n]
  have le: "cur \<le> node" using b cur by (simp add: word_le_nat_alt)
  have dist: "unat (node - cur) = ?n - anchor ?n i" using le cur by (simp add: unat_sub_le)
  define cand where "cand = cur + drop_bit 2 (2 ^ Suc i :: u64)"
  define wide where "wide = (drop_bit 1 (2 ^ Suc i) + drop_bit 2 (2 ^ Suc i) \<le> node - cur)"
  have cand: "cand = cur" if "i = 0" using that unfolding cand_def drop_bit_2_pow by simp
  have step: "wide \<longleftrightarrow> odd (?n div 2 ^ (i - 1))" "wide \<Longrightarrow> unat cand = anchor ?n i + 2 ^ (i - 1)"
    if i0: "0 < i"
  proof -
    obtain j where j: "i = Suc j" using i0 gr0_conv_Suc by blast
    have "(2 :: nat) ^ i \<le> 2 ^ 62" "(2 :: nat) ^ (i - 1) \<le> 2 ^ 62"
      by (rule power_increasing; use i in simp)+
    then have "unat (2 ^ i :: u64) + unat (2 ^ (i - 1) :: u64) < 2 ^ LENGTH(64)"
      using i by (simp add: unat_pow64)
    then have p: "unat (2 ^ i + 2 ^ (i - 1) :: u64) = 2 ^ i + 2 ^ (i - 1)"
      using i by (simp add: unat_add_lem [THEN iffD1] unat_pow64)
    have "wide \<longleftrightarrow> 2 ^ i + 2 ^ (i - 1) \<le> node - cur"
      using i i0 unfolding wide_def drop_bit_1_pow drop_bit_2_pow by simp
    also have "\<dots> \<longleftrightarrow> 2 ^ i + 2 ^ (i - 1) \<le> ?n - anchor ?n i"
      unfolding word_le_nat_alt p dist ..
    finally show w: "wide \<longleftrightarrow> odd (?n div 2 ^ (i - 1))"
      using distance_wide [of j ?n] n by (simp add: j)
    assume wide
    have "anchor ?n i + 2 ^ (i - 1) \<le> ?n" using b by (simp add: j)
    then have "unat cur + unat (2 ^ (i - 1) :: u64) < 2 ^ 64"
      using i le_less_trans [OF _ unat_64_lt] by (simp add: unat_pow64 cur)
    then show "unat cand = anchor ?n i + 2 ^ (i - 1)"
      using i i0 unfolding cand_def drop_bit_2_pow
      by (simp add: unat_add_lem [THEN iffD1] unat_pow64 cur)
  qed
  have no_assert: "wide \<Longrightarrow> cand \<le> node"
    using step cand le b by (cases "i = 0") (auto simp: word_le_nat_alt cur gr0_conv_Suc)
  define out where "out = (if wide \<and> cand \<noteq> cur then [cand] else []) @ [cur]"
  have out: "map unat out = second ?n i @ [anchor ?n i]"
  proof (cases "i = 0")
    case True then show ?thesis by (simp add: out_def cand second_def cur)
  next
    case False
    then have "wide \<Longrightarrow> cand \<noteq> cur" using step cur by auto
    then show ?thesis using False step by (auto simp: out_def second_def cur)
  qed
  define cur' where "cur' = (cur - 1) AND NOT (2 ^ Suc i - 1)"
  have q: "cur = 0 \<longleftrightarrow> ?n div 2 ^ i \<le> 1"
    using cur by (auto simp: anchor_def unat_eq_zero [symmetric])
  have next_cur: "unat cur' = anchor ?n (Suc i)" if "2 ^ Suc i \<le> ?n"
  proof -
    have "2 \<le> ?n div 2 ^ i" using that by (simp add: less_eq_div_iff_mult_less_eq)
    then have "unat (cur - 1) = anchor ?n i - 1" using q cur by (simp add: unat_minus_one)
    then show ?thesis
      using anchor_next [OF that]
      by (simp add: cur'_def unat_and_not_mask mask_eq_exp_minus_1 [symmetric] del: power_Suc)
  qed
  have top: "(2 ^ Suc i :: u64) = push_bit 63 1 \<longleftrightarrow> i = 62"
  proof
    assume "(2 ^ Suc i :: u64) = push_bit 63 1"
    then have "unat (2 ^ Suc i :: u64) = 2 ^ 63" by (simp del: power_Suc)
    then have "(2 :: nat) ^ Suc i = 2 ^ 63" using i by (simp add: unat_pow64 del: power_Suc)
    then have "Suc i = 63" by (metis power_inject_exp one_less_numeral_iff semiring_norm(76))
    then show "i = 62" by simp
  qed simp
  have "push_bit 1 (2 ^ Suc i :: u64) = 2 ^ Suc (Suc i)" by (simp add: push_bit_eq_mult)
  then have "alive_loop node (2 ^ Suc i) cur = emit out
      (if ?n div 2 ^ i \<le> 1 then ([], Done)
       else if i = 62 then ([], Threw node_too_big)
       else alive_loop node (2 ^ Suc (Suc i)) cur')"
    using alive_loop_step [OF le, of "2 ^ Suc i"] no_assert
    unfolding out_def wide_def cand_def cur'_def top q by simp
  with out next_cur show ?thesis by (rule that)
qed

lemma alive_loop_levels:
  assumes "unat node < 2 ^ 63" and "2 ^ i \<le> unat node" and "unat cur = anchor (unat node) i"
  shows "\<exists>xs. alive_loop node (2 ^ Suc i) cur = (xs, Done) \<and> map unat xs = levels (unat node) i"
  using assms(2,3)
proof (induction "unat node" i arbitrary: cur rule: levels.induct)
  case (1 i)
  let ?n = "unat node"
  have i: "i \<le> 62" using pow2_le_less [OF 1(2) assms(1)] by simp
  obtain out cur' where l: "map unat out = second ?n i @ [anchor ?n i]"
      "2 ^ Suc i \<le> ?n \<Longrightarrow> unat cur' = anchor ?n (Suc i)"
      "alive_loop node (2 ^ Suc i) cur = emit out (if ?n div 2 ^ i \<le> 1 then ([], Done)
        else if i = 62 then ([], Threw node_too_big) else alive_loop node (2 ^ Suc (Suc i)) cur')"
    using alive_loop_level [OF i 1(2,3)] by metis
  show ?case
  proof (cases "?n div 2 ^ i \<le> 1")
    case True
    then show ?thesis using l by (subst levels_eq) auto
  next
    case False
    then have n2: "2 ^ Suc i \<le> ?n" by (intro two_le_div) simp
    then have "i \<noteq> 62" using assms(1) by auto
    with 1(1) [OF refl refl False n2 l(2) [OF n2]] l(1,3) False show ?thesis
      by (subst levels_eq) (auto simp del: power_Suc)
  qed
qed

lemma alive_loop_too_big:
  assumes "2 ^ 63 \<le> unat node" and "i \<le> 62" and "unat cur = anchor (unat node) i"
  shows "snd (alive_loop node (2 ^ Suc i) cur) = Threw node_too_big"
  using assms(2,3)
proof (induction arbitrary: cur rule: inc_induct)
  case base
  have n: "2 ^ 62 \<le> unat node" and q: "\<not> unat node div 2 ^ 62 \<le> 1"
    using assms(1) less_eq_div_iff_mult_less_eq [of "2 ^ 62" 2 "unat node"] by auto
  show ?case
    by (rule alive_loop_level [OF order_refl n base]) (use q in simp)
next
  case (step i)
  have n: "2 ^ i \<le> unat node" and n2: "2 ^ Suc i \<le> unat node"
    using step(2) assms(1) power_increasing [of i 63 "2 :: nat"] power_increasing [of "Suc i" 63 "2 :: nat"]
    by linarith+
  then have q: "\<not> unat node div 2 ^ i \<le> 1"
    using less_eq_div_iff_mult_less_eq [of "2 ^ i" 2 "unat node"] by simp
  have i: "i \<le> 62" "i \<noteq> 62" using step(2) by simp_all
  show ?case
    by (rule alive_loop_level [OF i(1) n step.prems]) (use q i(2) step.IH n2 in simp)
qed

text \<open>The first iteration visits the node itself and moves to the node before it.\<close>

lemma alive_after_step:
  "node \<noteq> 0 \<Longrightarrow> alive_after node = emit [node] (alive_loop node (2 ^ Suc 0) (node - 1))"
  unfolding alive_after_def by (subst alive_loop_step) simp_all

lemma alive_after_first: "node \<noteq> 0 \<Longrightarrow> unat (node - 1) = anchor (unat node) 0"
  by (simp add: anchor_def unat_minus_one)

lemma alive_after_0 [simp]: "alive_after 0 = ([0], Done)"
  by (simp add: alive_after_def alive_loop_step)

lemma alive_after_list:
  assumes "unat node < 2 ^ 63"
  shows "\<exists>xs. alive_after node = (xs, Done) \<and> map unat xs = alive_list (unat node)"
proof (cases "node = 0")
  case False
  then have "2 ^ 0 \<le> unat node" by (simp add: Suc_leI unat_gt_0)
  from alive_loop_levels [OF assms this alive_after_first [OF False]]
  moreover have "unat node \<noteq> 0" using False by (simp add: unat_eq_zero)
  ultimately show ?thesis using alive_after_step [OF False] by (auto simp: alive_list_def)
qed (simp add: alive_list_def)

lemma alive_after_outcome:
  "snd (alive_after node) = (if unat node < 2 ^ 63 then Done else Threw node_too_big)"
proof (cases "unat node < 2 ^ 63")
  case True
  then show ?thesis using alive_after_list by fastforce
next
  case False
  then have "node \<noteq> 0" by auto
  with False show ?thesis
    using alive_loop_too_big [of node 0 "node - 1"] alive_after_step alive_after_first [of node] by simp
qed

text \<open>The nodes a completed enumeration visits, as a list of numbers.\<close>

lemma alive_after_set:
  assumes "unat node < 2 ^ 63"
  shows "unat ` set (fst (alive_after node)) = alive_set (unat node)"
  using alive_after_list [OF assms] alive_list_set by (metis fst_conv list.set_map)

lemma sorted_map_unat: "sorted_wrt (>) (map unat xs) = sorted_wrt (>) (xs :: u64 list)"
  by (simp add: sorted_wrt_map word_less_nat_alt)

lemma alive_after_sorted:
  assumes "unat node < 2 ^ 63"
  shows "sorted_wrt (>) (fst (alive_after node))"
  using alive_after_list [OF assms] alive_list_sorted sorted_map_unat by (metis fst_conv)

lemma unat_image_iff: "unat k \<in> unat ` S \<longleftrightarrow> (k :: 'a :: len word) \<in> S"
  by (auto dest: unsigned_word_eqI)

lemma in_alive_after:
  "unat node < 2 ^ 63 \<Longrightarrow> k \<in> set (fst (alive_after node)) \<longleftrightarrow> unat k \<in> alive_set (unat node)"
  by (simp add: alive_after_set [symmetric] unat_image_iff)

section \<open>Refinement of the pruning\<close>

lemma unat_demise:
  assumes "node \<noteq> 0" and "demise (unat node) < 2 ^ 64"
  shows "time_of_demise node = Inr (word_of_nat (demise (unat node)))"
  using assms by (simp add: time_of_demise_def demise_def word_lsb_nat [symmetric])

lemma unat_mask: "m \<le> 63 \<Longrightarrow> unat (mask m :: u64) = 2 ^ m - 1"
  by (simp add: mask_eq_exp_minus_1 unat_minus_one unat_pow64)

lemma prune_step_offset:
  assumes "m \<le> 61"
  shows "unat (mask (Suc m) + drop_bit 1 (mask (Suc m)) + 2 :: u64) = 3 * 2 ^ m"
proof -
  have d: "drop_bit 1 (mask (Suc m)) = (mask m :: u64)"
    by (rule bit_word_eqI) (use assms in \<open>auto simp: bit_drop_bit_eq bit_mask_iff\<close>)
  have "(mask (Suc m) + mask m + 2 :: u64) = word_of_nat (3 * 2 ^ m)"
    by (simp add: mask_eq_exp_minus_1)
  moreover have "(2 :: nat) ^ m \<le> 2 ^ 61" using assms by (rule power_increasing) simp
  ultimately show ?thesis unfolding d by (simp only: unat_of_nat) simp
qed

definition prune_list :: "nat \<Rightarrow> nat \<Rightarrow> nat list" where
  "prune_list n m =
     map (\<lambda>i. n - 3 * 2 ^ (i - 1)) (filter (\<lambda>i. 2 ^ i dvd n \<and> 3 * 2 ^ (i - 1) \<le> n) [m..<63])"

lemma prune_list_step:
  "m < 63 \<Longrightarrow> prune_list n m =
    (if 2 ^ m dvd n \<and> 3 * 2 ^ (m - 1) \<le> n then [n - 3 * 2 ^ (m - 1)] else []) @ prune_list n (Suc m)"
  by (simp add: prune_list_def upt_conv_Cons)

lemma prune_list_stop: "\<not> 2 ^ m dvd n \<Longrightarrow> prune_list n m = []"
  using dvd_trans le_imp_power_dvd [of m _ "2 :: nat"]
  by (fastforce simp: prune_list_def filter_empty_conv)

lemma prune_candidate:
  assumes m: "m \<le> 61" and d: "2 ^ Suc m dvd unat node" and le: "3 * 2 ^ m \<le> unat node"
    and k: "unat k = 3 * 2 ^ m"
  shows "unat (node - k) = unat node - 3 * 2 ^ m" and "time_of_demise (node - k) = Inr node"
proof -
  have "k \<le> node" using le k by (simp add: word_le_nat_alt)
  then show j: "unat (node - k) = unat node - 3 * 2 ^ m" by (simp add: unat_sub_le k)
  have l: "0 < unat node - 3 * 2 ^ m" "lsb (unat node - 3 * 2 ^ m) = 2 ^ m"
    using step_lsb [OF d le] by simp_all
  then have "demise (unat (node - k)) = unat node" using le by (simp add: demise_def j)
  moreover have "node - k \<noteq> 0" using l(1) j by (metis unat_0 less_irrefl)
  ultimately show "time_of_demise (node - k) = Inr node" by (simp add: unat_demise)
qed

lemma unat_and_mask: "unat (w AND mask m :: 'a :: len word) = unat w mod 2 ^ m"
  unfolding take_bit_eq_mask [symmetric] unsigned_take_bit_eq by (simp add: take_bit_eq_mod)

lemma and_not_mask_eq_0: "w AND NOT (mask m) = (0 :: 'a :: len word) \<longleftrightarrow> unat w < 2 ^ m"
proof -
  have "w AND NOT (mask m) = 0 \<longleftrightarrow> unat (w AND NOT (mask m)) = 0" by (simp add: unat_eq_zero)
  then show ?thesis by (simp add: unat_and_not_mask div_eq_0_iff)
qed

lemma and_mask_eq_0: "w AND mask m = (0 :: 'a :: len word) \<longleftrightarrow> 2 ^ m dvd unat w"
proof -
  have "w AND mask m = 0 \<longleftrightarrow> unat (w AND mask m) = 0" by (simp add: unat_eq_zero)
  then show ?thesis by (simp add: unat_and_mask dvd_eq_mod_eq_0)
qed

lemma mask_63: "m \<le> 63 \<Longrightarrow> (mask m = (push_bit 63 1 - 1 :: u64)) \<longleftrightarrow> m = 63"
proof
  assume m: "m \<le> 63" and "mask m = (push_bit 63 1 - 1 :: u64)"
  then have "mask m = (mask 63 :: u64)" by (simp add: mask_eq_exp_minus_1)
  then have "unat (mask m :: u64) = unat (mask 63 :: u64)" by simp
  then have "(2 :: nat) ^ m - 1 = 2 ^ 63 - 1" using m by (simp only: unat_mask)
  then have "(2 :: nat) ^ m = 2 ^ 63" by (metis diff_add_inverse2 le_add_diff_inverse2 one_le_numeral one_le_power)
  then show "m = 63" by (metis power_inject_exp one_less_numeral_iff semiring_norm(76))
qed (simp add: mask_eq_exp_minus_1)

lemma mask_grow: "m \<le> 62 \<Longrightarrow> mask m OR push_bit 1 (mask m) = (mask (Suc m) :: u64) \<or> m = 0"
  by (rule disjCI, rule bit_word_eqI)
    (unfold bit_or_iff bit_mask_iff bit_push_bit_iff, auto)

lemma prune_list_small:
  assumes "n < 2 ^ m" and "0 < m"
  shows "prune_list n m = []"
proof -
  have "\<not> 3 * 2 ^ (i - 1) \<le> n" if "m \<le> i" for i
  proof -
    have "(2 :: nat) ^ m \<le> 2 ^ i" using that by (intro power_increasing) simp_all
    also have "\<dots> = 2 * 2 ^ (i - 1)" using that assms(2) by (simp flip: power_Suc)
    finally show ?thesis using assms(1) by linarith
  qed
  then show ?thesis by (simp add: prune_list_def filter_empty_conv)
qed

lemma prune_loop_cases:
  "node AND NOT w = 0 \<Longrightarrow> prune_loop (Suc fuel) node w = ([], Done)"
  "node AND NOT w \<noteq> 0 \<Longrightarrow> w = push_bit 63 1 - 1 \<Longrightarrow>
    prune_loop (Suc fuel) node w = ([], Threw node_too_big)"
  "node AND NOT w \<noteq> 0 \<Longrightarrow> w \<noteq> push_bit 63 1 - 1 \<Longrightarrow> node AND w \<noteq> 0 \<Longrightarrow>
    prune_loop (Suc fuel) node w = ([], Done)"
  "node AND NOT w \<noteq> 0 \<Longrightarrow> w \<noteq> push_bit 63 1 - 1 \<Longrightarrow> node AND w = 0 \<Longrightarrow>
    k = w + drop_bit 1 w + 2 \<Longrightarrow> (k \<le> node \<Longrightarrow> time_of_demise (node - k) = Inr node) \<Longrightarrow>
    prune_loop (Suc fuel) node w =
      (if k \<le> node then emit [node - k] (prune_loop fuel node (w OR push_bit 1 w))
       else prune_loop fuel node (w OR push_bit 1 w))"
  by (simp_all add: Let_def)

lemma prune_loop_refines:
  assumes "0 < m" and "m \<le> 63" and "m + fuel = 65" and "2 ^ (m - 1) dvd unat node"
  shows "map unat (fst (prune_loop fuel node (mask m))) = prune_list (unat node) m \<and>
    snd (prune_loop fuel node (mask m)) =
      (if 2 ^ 63 \<le> unat node \<and> 2 ^ 62 dvd unat node then Threw node_too_big else Done)"
  using assms
proof (induction fuel arbitrary: m)
  case 0
  then show ?case by simp
next
  case (Suc fuel)
  let ?n = "unat node"
  consider "?n < 2 ^ m" | "2 ^ m \<le> ?n" "m = 63" | "2 ^ m \<le> ?n" "m < 63" "\<not> 2 ^ m dvd ?n"
    | "2 ^ m \<le> ?n" "m < 63" "2 ^ m dvd ?n"
    using Suc.prems by linarith
  then show ?case
  proof cases
    case 1
    moreover have "(2 :: nat) ^ m \<le> 2 ^ 63" using Suc.prems by (intro power_increasing) simp_all
    ultimately have "\<not> 2 ^ 63 \<le> ?n" by linarith
    with 1 Suc.prems(1) show ?thesis
      by (simp add: prune_loop_cases(1) and_not_mask_eq_0 prune_list_small del: prune_loop.simps)
  next
    case 2
    then have "prune_loop (Suc fuel) node (mask m) = ([], Threw node_too_big)"
      by (intro prune_loop_cases(2)) (simp_all only: and_not_mask_eq_0 mask_63 not_less order_refl)
    with 2 Suc.prems show ?thesis by (simp add: prune_list_def)
  next
    case 3
    have "\<not> 2 ^ 62 dvd ?n"
      using 3(2,3) dvd_trans le_imp_power_dvd [of m 62 "2 :: nat"] by fastforce
    moreover have "prune_loop (Suc fuel) node (mask m) = ([], Done)"
      using 3 by (intro prune_loop_cases(3)) (auto simp only: and_not_mask_eq_0 mask_63 and_mask_eq_0 less_imp_le)
    ultimately show ?thesis using 3 by (simp add: prune_list_stop)
  next
    case 4
    obtain l where l: "m = Suc l" using Suc.prems gr0_conv_Suc by blast
    define k where "k = mask m + drop_bit 1 (mask m) + (2 :: u64)"
    have k: "unat k = 3 * 2 ^ l" using prune_step_offset [of l] 4(2) by (simp add: k_def l)
    have grow: "mask m OR push_bit 1 (mask m) = (mask (Suc m) :: u64)"
      using mask_grow [of m] 4(2) Suc.prems(1) by auto
    have "map unat (fst (prune_loop fuel node (mask (Suc m)))) = prune_list ?n (Suc m) \<and>
      snd (prune_loop fuel node (mask (Suc m))) =
        (if 2 ^ 63 \<le> ?n \<and> 2 ^ 62 dvd ?n then Threw node_too_big else Done)"
      using Suc.IH [of "Suc m"] Suc.prems 4 by simp
    moreover have "mask m \<noteq> (push_bit 63 1 - 1 :: u64)" using mask_63 [of m] 4(2) by auto
    then have "prune_loop (Suc fuel) node (mask m) =
      (if k \<le> node then emit [node - k] (prune_loop fuel node (mask (Suc m)))
       else prune_loop fuel node (mask (Suc m)))"
      unfolding grow [symmetric] using 4 k
      by (intro prune_loop_cases(4) prune_candidate(2) [of l])
        (simp_all add: and_not_mask_eq_0 and_mask_eq_0 k_def l word_le_nat_alt)
    ultimately show ?thesis
      using 4 k prune_candidate(1) [of l node k]
      by (subst prune_list_step) (auto simp: word_le_nat_alt l)
  qed
qed

lemma prune_refines:
  "map unat (fst (prune node)) = prune_list (unat node) 1"
  "snd (prune node) =
    (if 2 ^ 63 \<le> unat node \<and> 2 ^ 62 dvd unat node then Threw node_too_big else Done)"
proof -
  have "(1 :: u64) = mask 1" by simp
  then show "map unat (fst (prune node)) = prune_list (unat node) 1"
    "snd (prune node) =
      (if 2 ^ 63 \<le> unat node \<and> 2 ^ 62 dvd unat node then Threw node_too_big else Done)"
    unfolding prune_def using prune_loop_refines [of 1 64 node] by simp_all
qed

lemma prune_list_set:
  assumes "n < 2 ^ 63"
  shows "set (prune_list n 1) = pruned_set n"
proof -
  have "m < 63" if "2 ^ m dvd n" "3 * 2 ^ (m - 1) \<le> n" for m
  proof (rule pow2_le_less [OF _ assms])
    have "0 < n" using that by (cases n) auto
    then show "2 ^ m \<le> n" using that(1) by (rule dvd_imp_le [rotated])
  qed
  then show ?thesis
    unfolding pruned_set_steps prune_list_def by (auto simp: image_iff Suc_le_eq)
qed

lemma prune_set:
  assumes "unat node < 2 ^ 63"
  shows "unat ` set (fst (prune node)) = pruned_set (unat node)"
  using prune_list_set [OF assms] prune_refines(1) by (metis list.set_map)

lemma prune_list_sorted: "sorted_wrt (>) (prune_list n 1)"
proof -
  let ?xs = "filter (\<lambda>i. 2 ^ i dvd n \<and> 3 * 2 ^ (i - 1) \<le> n) [1..<63]"
  have "n - 3 * 2 ^ (j - 1) < n - 3 * 2 ^ (i - 1)" if "i \<in> set ?xs" "j \<in> set ?xs" "i < j" for i j
  proof -
    have "(2 :: nat) ^ (i - 1) < 2 ^ (j - 1)" using that by (intro power_strict_increasing) auto
    moreover have "3 * 2 ^ (j - 1) \<le> n" using that(2) by simp
    ultimately show ?thesis by linarith
  qed
  moreover have "sorted_wrt (<) ?xs" by (intro sorted_wrt_filter sorted_wrt_upt)
  ultimately have "sorted_wrt (\<lambda>i j. n - 3 * 2 ^ (j - 1) < n - 3 * 2 ^ (i - 1)) ?xs"
    by (rule sorted_wrt_mono_rel)
  then show ?thesis by (simp add: prune_list_def sorted_wrt_map)
qed

section \<open>Sets of 64-bit nodes\<close>

lemma prune_sorted: "sorted_wrt (>) (fst (prune node))"
  using prune_list_sorted [of "unat node"] unfolding prune_refines(1) [symmetric] sorted_map_unat .

lemma prune_small_outcome: "unat node < 2 ^ 63 \<Longrightarrow> snd (prune node) = Done"
  by (simp add: prune_refines(2))

lemma in_prune:
  "unat node < 2 ^ 63 \<Longrightarrow> k \<in> set (fst (prune node)) \<longleftrightarrow> unat k \<in> pruned_set (unat node)"
  by (simp add: prune_set [symmetric] unat_image_iff)

lemma unat_Suc: "unat (node :: u64) + 1 < 2 ^ 64 \<Longrightarrow> unat (node + 1) = Suc (unat node)"
  by (simp add: unat_add_lem [THEN iffD1])

lemma in_path_inc_root:
  "k \<in> set (fenwick_path_inc_root node) \<longleftrightarrow> unat k \<in> set (npath (unat node)) \<union> {0}"
proof -
  have "k \<in> set (fenwick_path_exc_root node) \<longleftrightarrow> unat k \<in> set (npath (unat node))"
    by (simp add: map_path [symmetric] unat_image_iff)
  then show ?thesis by (auto simp: fenwick_path_inc_root_def unat_eq_zero)
qed

lemma unat_fenwick_parent: "unat (fenwick_parent node) = unat node - lsb (unat node)"
  by (simp add: fenwick_parent_def unat_minus_lsb)

lemma path_in_alive:
  "unat node < 2 ^ 63 \<Longrightarrow> set (fenwick_path_inc_root node) \<subseteq> set (fst (alive_after node))"
  using npath_alive [OF self_alive, of "unat node"] zero_alive
  by (auto simp: in_path_inc_root in_alive_after)

lemma alive_parent:
  "unat node < 2 ^ 63 \<Longrightarrow> k \<in> set (fst (alive_after node)) \<Longrightarrow>
    fenwick_parent k \<in> set (fst (alive_after node))"
  by (simp add: in_alive_after unat_fenwick_parent parent_alive)

lemma path_not_pruned:
  "unat node < 2 ^ 63 \<Longrightarrow> set (fst (prune node)) \<inter> set (fenwick_path_inc_root node) = {}"
  using pruned_not_on_path [of "unat node"] unfolding disjoint_iff in_path_inc_root
  by (auto simp only: in_prune pruned_set_def)

lemma alive_step:
  assumes "unat node + 1 < 2 ^ 63"
  shows "k \<in> set (fst (alive_after (node + 1))) \<longleftrightarrow>
    k = node + 1 \<or> k \<in> set (fst (alive_after node)) \<and> k \<notin> set (fst (prune (node + 1)))"
proof -
  have u: "unat (node + 1) = Suc (unat node)" using assms by (intro unat_Suc) simp
  have e: "k = node + 1 \<longleftrightarrow> unat k = Suc (unat node)"
    using u by (simp add: word_unat_eq_iff)
  have "unat (node + 1) < 2 ^ 63" "unat node < 2 ^ 63" using assms u by simp_all
  note m = in_alive_after [OF this(1)] in_alive_after [OF this(2)] in_prune [OF this(1)]
  show ?thesis unfolding m e unfolding u alive_set_Suc by blast
qed

lemma prune_step_alive:
  "unat node + 1 < 2 ^ 63 \<Longrightarrow> set (fst (prune (node + 1))) \<subseteq> set (fst (alive_after node))"
  using pruned_was_alive [of "unat node"] by (auto simp: in_alive_after in_prune unat_Suc)

lemma alive_near:
  assumes "unat node < 2 ^ 63" and "0 < m" and "m \<le> unat node"
  shows "\<exists>k \<in> set (fst (alive_after node)). unat node - m \<le> unat k \<and> unat k \<le> unat node - m div 2"
proof -
  obtain k where "k \<in> unat ` set (fst (alive_after node))" "unat node - m \<le> k" "k \<le> unat node - m div 2"
    using distribution [OF assms(2,3)] unfolding alive_after_set [OF assms(1)] by blast
  then show ?thesis by blast
qed

lemma alive_gap:
  assumes "unat node < 2 ^ 63"
    and "a \<in> set (fst (alive_after node))" and "p \<in> set (fst (alive_after node))"
    and "a < p" and "\<And>x. x \<in> set (fst (alive_after node)) \<Longrightarrow> a < x \<Longrightarrow> p \<le> x"
  shows "2 * (unat p - unat a - 1) \<le> unat node - unat a"
proof (rule gap_width)
  show "unat a \<in> alive_set (unat node)" using assms(1,2) by (simp add: in_alive_after)
  show "unat a < unat p" using assms(4) by (simp add: word_less_nat_alt)
  show "unat p \<le> unat node"
    using assms(1,3) by (simp add: in_alive_after alive_set_def)
  fix x assume "x \<in> alive_set (unat node)" "unat a < x"
  then obtain w where "x = unat w" "w \<in> set (fst (alive_after node))"
    unfolding alive_after_set [OF assms(1), symmetric] by blast
  with \<open>unat a < x\<close> show "unat p \<le> x" using assms(5) [of w] by (simp add: word_less_nat_alt word_le_nat_alt)
qed

section \<open>Properties\<close>

text \<open>
  C1. Up to node \<open>2 ^ 63 - 1\<close> the alive enumeration completes without tripping an assertion, in
  strictly decreasing order from the node down to 0, and visits exactly the alive set of the
  README: the nodes \<open>k\<close> not above the node with \<open>k = 0\<close> or \<open>T(k) = k + 3 LSB(k)\<close> after it.
\<close>

theorem alive_after_correct:
  assumes "unat node < 2 ^ 63"
  shows "snd (alive_after node) = Done \<and> sorted_wrt (>) (fst (alive_after node)) \<and>
    unat ` set (fst (alive_after node)) =
      {k. k \<le> unat node \<and> (k = 0 \<or> unat node < k + 3 * lsb k)}"
  using assms alive_after_outcome [of node] alive_after_sorted [of node] alive_after_set [of node]
  by (simp add: alive_set_def demise_def)

theorem alive_after_correct_witness:
  "snd (alive_after 23) = Done \<and> sorted_wrt (>) (fst (alive_after 23)) \<and>
    unat ` set (fst (alive_after 23)) = {k. k \<le> 23 \<and> (k = 0 \<or> 23 < k + 3 * lsb k)}"
  using alive_after_correct [of 23] by simp

text \<open>The nodes of the README's Figure 1, and what the next snapshot prunes.\<close>

lemma alive_after_23: "alive_after 23 = ([23, 22, 21, 20, 18, 16, 12, 8, 0], Done)"
  by (simp add: alive_after_def alive_loop.simps Let_def node_too_big_def)

lemma prune_24: "prune 24 = ([21, 18, 12], Done)"
  by code_simp

text \<open>
  C2. Pruning before node \<open>n\<close> deletes, greatest first, exactly the nodes whose time of demise
  is \<open>n\<close>, and the assertion inside the loop holds at every call.
\<close>

theorem prune_correct:
  assumes "unat node < 2 ^ 63"
  shows "snd (prune node) = Done \<and> sorted_wrt (>) (fst (prune node)) \<and>
    unat ` set (fst (prune node)) = {j. 0 < j \<and> j + 3 * lsb j = unat node}"
  using assms prune_small_outcome prune_sorted prune_set by (simp add: pruned_set_def demise_def)

theorem prune_correct_witness:
  "snd (prune 24) = Done \<and> sorted_wrt (>) (fst (prune 24)) \<and>
    unat ` set (fst (prune 24)) = {j. 0 < j \<and> j + 3 * lsb j = 24}"
  using prune_correct [of 24] by simp

text \<open>
  C3. Inserting the next node and pruning for it turns the alive set of a node into the alive
  set of the next one, and everything pruned was alive.
\<close>

theorem alive_set_evolves:
  assumes "unat node + 1 < 2 ^ 63"
  shows "set (fst (alive_after (node + 1))) =
      insert (node + 1) (set (fst (alive_after node)) - set (fst (prune (node + 1)))) \<and>
    set (fst (prune (node + 1))) \<subseteq> set (fst (alive_after node))"
  using alive_step [OF assms] prune_step_alive [OF assms] by blast

theorem alive_set_evolves_witness:
  "set (fst (alive_after (23 + 1))) =
      insert (23 + 1) (set (fst (alive_after 23)) - set (fst (prune (23 + 1)))) \<and>
    set (fst (prune (23 + 1))) \<subseteq> set (fst (alive_after 23))"
  by (rule alive_set_evolves [of 23]) simp

text \<open>
  A node lives from its insertion until just before its time of demise, and is among the
  nodes pruned at that time; the routine returns that time where it does not wrap around.
\<close>

theorem node_lifetime:
  assumes "node \<noteq> 0" and "unat node + 3 * lsb (unat node) < 2 ^ 63"
  shows "\<exists>t. time_of_demise node = Inr t \<and> unat t = unat node + 3 * lsb (unat node) \<and>
    node \<in> set (fst (prune t)) \<and>
    (\<forall>m. unat m < 2 ^ 63 \<longrightarrow> (node \<in> set (fst (alive_after m)) \<longleftrightarrow> node \<le> m \<and> m < t))"
proof -
  define t :: u64 where "t = word_of_nat (demise (unat node))"
  have n: "0 < unat node" using assms(1) by (simp add: unat_gt_0)
  have t: "unat t = demise (unat node)"
    using assms(2) unfolding t_def by (subst unat_of_nat) (simp add: demise_def)
  have "time_of_demise node = Inr t"
    unfolding t_def using assms by (intro unat_demise) (simp_all add: demise_def)
  moreover have "node \<in> set (fst (prune t))"
    using assms n by (simp add: in_prune t demise_def pruned_set_def)
  moreover have "node \<in> set (fst (alive_after m)) \<longleftrightarrow> node \<le> m \<and> m < t" if "unat m < 2 ^ 63" for m
    using that n by (simp add: in_alive_after alive_until_demise word_le_nat_alt word_less_nat_alt t)
  ultimately show ?thesis using t by (auto simp: demise_def)
qed

theorem node_lifetime_witness:
  "\<exists>t. time_of_demise 20 = Inr t \<and> unat t = unat (20 :: u64) + 3 * lsb (unat (20 :: u64)) \<and>
    20 \<in> set (fst (prune t)) \<and>
    (\<forall>m. unat m < 2 ^ 63 \<longrightarrow> (20 \<in> set (fst (alive_after m)) \<longleftrightarrow> 20 \<le> m \<and> m < t))"
  by (rule node_lifetime [of 20]) (simp_all add: lsb.simps)

text \<open>
  C4. The lifetime invariant: the whole Fenwick path of a node is alive, the alive set is closed
  under parents, and pruning for a node never touches its path.
\<close>

theorem fenwick_path_preserved:
  assumes "unat node < 2 ^ 63"
  shows "set (fenwick_path_inc_root node) \<subseteq> set (fst (alive_after node)) \<and>
    fenwick_parent ` set (fst (alive_after node)) \<subseteq> set (fst (alive_after node)) \<and>
    set (fst (prune node)) \<inter> set (fenwick_path_inc_root node) = {}"
  using path_in_alive [OF assms] alive_parent [OF assms] path_not_pruned [OF assms] by blast

theorem fenwick_path_preserved_witness:
  "set (fenwick_path_inc_root 24) \<subseteq> set (fst (alive_after 24)) \<and>
    fenwick_parent ` set (fst (alive_after 24)) \<subseteq> set (fst (alive_after 24)) \<and>
    set (fst (prune 24)) \<inter> set (fenwick_path_inc_root 24) = {}"
  by (rule fenwick_path_preserved) simp

text \<open>
  The parent of the next node is always on the current node's path, so the difference for
  the next snapshot is taken against a snapshot the repository must still hold.
\<close>

lemma next_parent_on_path:
  assumes "unat node + 1 < 2 ^ 64"
  shows "fenwick_parent (node + 1) \<in> set (fenwick_path_inc_root node)"
  using next_parent_in_path [of "unat node"]
  by (simp add: in_path_inc_root unat_fenwick_parent unat_Suc [OF assms])

text \<open>
  C5. The repository size and depth invariants: below \<open>2 ^ d\<close> at most \<open>2 * d\<close> nodes are alive and
  a path, the root included, has at most \<open>d + 1\<close> nodes.
\<close>

theorem logarithmic_size:
  assumes "0 < d" and "d \<le> 63" and "unat node < 2 ^ d"
  shows "length (fst (alive_after node)) \<le> 2 * d \<and> length (fenwick_path_inc_root node) \<le> d + 1"
proof -
  have n: "unat node < 2 ^ 63"
    using assms power_increasing [of d 63 "2 :: nat"] by linarith
  then obtain xs where "fst (alive_after node) = xs" "map unat xs = alive_list (unat node)"
    using alive_after_list by fastforce
  then have "length (fst (alive_after node)) \<le> 2 * d"
    using alive_list_length [OF assms(3,1)] by (metis length_map)
  moreover have "length (fenwick_path_exc_root node) \<le> d"
    using npath_length [of "unat node" d 0] assms(3) by (simp flip: map_path)
  ultimately show ?thesis by (simp add: fenwick_path_inc_root_def)
qed

theorem logarithmic_size_witness:
  "length (fst (alive_after 1000000)) \<le> 2 * 20 \<and> length (fenwick_path_inc_root 1000000) \<le> 20 + 1"
  by (rule logarithmic_size) simp_all

text \<open>
  C6. The node distribution invariant: for every distance \<open>m\<close> into the past some alive node lies
  between \<open>m\<close> and half of \<open>m\<close> before the current one; and the run of missing nodes between an
  alive node \<open>a\<close> and the next alive one \<open>p\<close> is at most half the distance of \<open>a\<close>.
\<close>

theorem node_distribution:
  assumes "unat node < 2 ^ 63"
  shows "(\<forall>m. 0 < m \<and> m \<le> unat node \<longrightarrow>
      (\<exists>k \<in> set (fst (alive_after node)). unat node - m \<le> unat k \<and> unat k \<le> unat node - m div 2)) \<and>
    (\<forall>a \<in> set (fst (alive_after node)). \<forall>p \<in> set (fst (alive_after node)).
      a < p \<and> (\<forall>x \<in> set (fst (alive_after node)). a < x \<longrightarrow> p \<le> x) \<longrightarrow>
        2 * (unat p - unat a - 1) \<le> unat node - unat a)"
  using alive_near [OF assms] alive_gap [OF assms] by blast

theorem node_distribution_witness:
  "\<exists>k \<in> set (fst (alive_after 23)). unat (23 :: u64) - 10 \<le> unat k \<and> unat k \<le> unat (23 :: u64) - 10 div 2"
proof -
  have "unat (23 :: u64) < 2 ^ 63" "0 < (10 :: nat) \<and> 10 \<le> unat (23 :: u64)" by simp_all
  then show ?thesis using node_distribution [of 23] by blast
qed

text \<open>
  C7. Over all 64-bit nodes the two loops end: \<open>alive_after\<close> throws ``Node too big'' exactly from
  \<open>2 ^ 63\<close> on, \<open>prune\<close> only at \<open>2 ^ 63\<close> and \<open>2 ^ 63 + 2 ^ 62\<close> (the multiples of \<open>2 ^ 62\<close> there),
  and no assertion ever fails.
\<close>

theorem tree_loops_outcome:
  "snd (alive_after node) = (if unat node < 2 ^ 63 then Done else Threw (RuntimeError ''Node too big'')) \<and>
   snd (prune node) = (if 2 ^ 63 \<le> unat node \<and> 2 ^ 62 dvd unat node
     then Threw (RuntimeError ''Node too big'') else Done)"
  unfolding alive_after_outcome prune_refines(2) node_too_big_def by simp

end
