(* ===== verification/Node.thy ===== *)
theory Node
  imports FenwickTree
begin

text \<open>
  \<^verbatim>\<open>src/Node.hpp\<close>: the node identifier, a 64-bit value with the order of its default
  \<^verbatim>\<open>operator<=>\<close>, the checked successor and advance, and the tree routines lifted to nodes.
\<close>

section \<open>The type\<close>

datatype node = Node (node_value: u64)

instantiation node :: linorder
begin

definition less_eq_node :: "node \<Rightarrow> node \<Rightarrow> bool" where
  "less_eq_node a b \<longleftrightarrow> node_value a \<le> node_value b"

definition less_node :: "node \<Rightarrow> node \<Rightarrow> bool" where
  "less_node a b \<longleftrightarrow> node_value a < node_value b"

instance
  by standard (auto simp: less_eq_node_def less_node_def node.expand)

end

lemma node_less_simps [simp]:
  "Node a \<le> Node b \<longleftrightarrow> a \<le> b"
  "Node a < Node b \<longleftrightarrow> a < b"
  by (simp_all add: less_eq_node_def less_node_def)

lemma inj_Node [simp]: "inj_on Node A"
  by (simp add: inj_on_def)

section \<open>Operations\<close>

definition initial_value :: node where
  "initial_value = Node 0"

definition advance :: "node \<Rightarrow> u64 \<Rightarrow> node result" where
  "advance node n =
     (if - 1 - node_value node < n then Inl (RuntimeError ''Node too big'')
      else Inr (Node (node_value node + n)))"

definition next_node :: "node \<Rightarrow> node result" where
  "next_node node =
     (if node_value node = - 1 then Inl (RuntimeError ''Node too big'')
      else Inr (Node (node_value node + 1)))"

definition isRoot :: "node \<Rightarrow> bool" where
  "isRoot node \<longleftrightarrow> node_value node = node_value initial_value"

definition node_path_exc_root :: "node \<Rightarrow> node list" where
  "node_path_exc_root node = map Node (fenwick_path_exc_root (node_value node))"

definition node_path_inc_root :: "node \<Rightarrow> node list" where
  "node_path_inc_root node = map Node (fenwick_path_inc_root (node_value node))"

definition node_parent :: "node \<Rightarrow> node" where
  "node_parent node = Node (fenwick_parent (node_value node))"

definition node_maybe_parent :: "node \<Rightarrow> node option" where
  "node_maybe_parent node = (if isRoot node then None else Some (node_parent node))"

definition node_alive_after :: "node \<Rightarrow> node trace" where
  "node_alive_after node = map_trace Node (alive_after (node_value node))"

definition node_time_of_demise :: "node \<Rightarrow> node result" where
  "node_time_of_demise node = bindR (time_of_demise (node_value node)) (\<lambda>t. Inr (Node t))"

definition node_prune :: "node \<Rightarrow> node trace" where
  "node_prune node = map_trace Node (prune (node_value node))"

section \<open>Facts\<close>

lemma next_node_Inr: "next_node node = Inr n \<longleftrightarrow> node_value node \<noteq> - 1 \<and> n = Node (node_value node + 1)"
  by (auto simp: next_node_def)

lemma unat_max: "unat (- 1 :: 'a :: len word) = 2 ^ LENGTH('a) - 1"
  by (simp add: unsigned_minus_1_eq_mask mask_eq_exp_minus_1)

lemma not_max_less: "w \<noteq> - 1 \<Longrightarrow> unat (w :: u64) + 1 < 2 ^ 64"
proof -
  assume "w \<noteq> - 1"
  then have "unat w \<noteq> unat (- 1 :: u64)" by (simp only: word_unat_eq_iff) simp
  then have "unat w \<noteq> 18446744073709551615" unfolding unat_max by simp
  then have "unat w + 1 < 18446744073709551616" using unat_64_lt [of w] by linarith
  then show ?thesis by simp
qed

lemma next_node_less: "next_node node = Inr n \<Longrightarrow> node < n"
  using not_max_less [of "node_value node", THEN unat_Suc]
  by (simp add: next_node_Inr less_node_def word_less_nat_alt)

lemma advance_Inr:
  "advance node n = Inr m \<longleftrightarrow>
    unat (node_value node) + unat n < 2 ^ 64 \<and> m = Node (node_value node + n)"
proof -
  have "unat (- 1 - node_value node) = 2 ^ 64 - 1 - unat (node_value node)"
    by (subst unat_sub_le) (simp_all add: unat_max)
  then have "- 1 - node_value node < n \<longleftrightarrow> 2 ^ 64 - 1 - unat (node_value node) < unat n"
    by (simp only: word_less_nat_alt)
  moreover have "M - 1 - x < y \<longleftrightarrow> \<not> x + y < M" if "x < M" for x y M :: nat using that by linarith
  note this [of "unat (node_value node)" "2 ^ 64" "unat n"]
  ultimately have "- 1 - node_value node < n \<longleftrightarrow> \<not> unat (node_value node) + unat n < 2 ^ 64"
    by simp
  then show ?thesis by (auto simp: advance_def)
qed

lemma node_maybe_parent_less: "node_maybe_parent n = Some p \<Longrightarrow> p < n"
proof -
  assume "node_maybe_parent n = Some p"
  then have p: "node_value n \<noteq> 0" "p = node_parent n"
    by (auto simp: node_maybe_parent_def isRoot_def initial_value_def split: if_splits)
  then have "0 < unat (node_value n)" by (simp add: unat_gt_0)
  then have "unat (node_value n) - lsb (unat (node_value n)) < unat (node_value n)"
    using lsb_pos by simp
  then show ?thesis
    using p by (simp add: less_node_def node_parent_def word_less_nat_alt unat_fenwick_parent)
qed

lemma set_node_traces:
  "set (fst (node_alive_after n)) = Node ` set (fst (alive_after (node_value n)))"
  "set (fst (node_prune n)) = Node ` set (fst (prune (node_value n)))"
  "set (node_path_inc_root n) = Node ` set (fenwick_path_inc_root (node_value n))"
  by (simp_all add: node_alive_after_def node_prune_def node_path_inc_root_def map_trace_def)

end
