(* ===== verification/Serialisation.thy ===== *)
theory Serialisation
  imports Prelude
begin

text \<open>
  \<^verbatim>\<open>diffmonger/util/Serialisation.hpp\<close>: little-endian integers, and the codecs of strings,
  vectors, arrays and time points. A \<open>Serialiser\<close> only ever appends to its buffer, so
  \<open>serialise\<close> is modelled by the bytes it appends; a \<open>Deserialiser\<close> is a program over the
  bytes that are left between its two pointers. The locale \<open>codec\<close> is the contract between a
  pair of them; it is interpreted on every codec the program uses.
\<close>

section \<open>Integers\<close>

definition sizeof :: "'a :: len word itself \<Rightarrow> nat" where
  "sizeof _ = LENGTH('a) div 8"

definition to_bytes :: "'a :: len word \<Rightarrow> bytes" where
  "to_bytes v = map (\<lambda>i. ucast (drop_bit (i * 8) v)) [0..<LENGTH('a) div 8]"

fun from_bytes_loop :: "nat \<Rightarrow> bytes \<Rightarrow> 'a :: len word \<Rightarrow> 'a word" where
  "from_bytes_loop i [] uvalue = uvalue"
| "from_bytes_loop i (b # bs) uvalue = from_bytes_loop (Suc i) bs (uvalue OR push_bit (i * 8) (ucast b))"

definition from_bytes :: "bytes \<Rightarrow> 'a :: len word" where
  "from_bytes bs = from_bytes_loop 0 bs 0"

lemma length_to_bytes [simp]: "length (to_bytes (v :: 'a :: len word)) = LENGTH('a) div 8"
  by (simp add: to_bytes_def)

lemma bit_from_bytes_loop:
  "bit (from_bytes_loop i bs u :: 'a :: len word) k \<longleftrightarrow>
    bit u k \<or> (k < LENGTH('a) \<and> i * 8 \<le> k \<and> k div 8 < i + length bs \<and> bit (bs ! (k div 8 - i)) (k mod 8))"
proof (induction i bs u rule: from_bytes_loop.induct)
  case (1 i u)
  have "\<not> (i * 8 \<le> k \<and> k div 8 < i)" by auto
  then show ?case by auto
next
  case (2 i b bs u)
  consider "k < i * 8" | "i * 8 \<le> k" "k div 8 = i" | "i * 8 \<le> k" "Suc i * 8 \<le> k" "i < k div 8"
    by fastforce
  then show ?case
  proof cases
    case 1
    then have "\<not> Suc i * 8 \<le> k" by simp
    then show ?thesis using 1 2 by (simp add: bit_or_iff bit_push_bit_iff)
  next
    case 2
    then have "k - i * 8 = k mod 8" "\<not> Suc i * 8 \<le> k"
      by (metis minus_div_mult_eq_mod, metis div_le_mono lessI linorder_not_le nonzero_mult_div_cancel_right zero_neq_numeral)
    then show ?thesis using 2 \<open>bit (from_bytes_loop (Suc i) bs (u OR push_bit (i * 8) (ucast b))) k = _\<close>
      by (auto simp: bit_or_iff bit_push_bit_iff bit_ucast_iff dest: bit_imp_le_length)
  next
    case 3
    have "\<not> bit b (k - i * 8)"
    proof
      assume "bit b (k - i * 8)"
      then have "k - i * 8 < 8" using bit_imp_le_length [of b] by simp
      then show False using 3 by simp
    qed
    moreover obtain d where "k div 8 - i = Suc d" "k div 8 - Suc i = d"
      using 3(3) by (cases "k div 8 - i") auto
    ultimately show ?thesis using 3 2 by (auto simp: bit_or_iff bit_push_bit_iff bit_ucast_iff)
  qed
qed

lemma from_bytes_to_bytes:
  assumes "8 dvd LENGTH('a)"
  shows "from_bytes (to_bytes v) = (v :: 'a :: len word)"
proof (rule bit_word_eqI)
  fix k assume k: "k < LENGTH('a)"
  then have "k div 8 < LENGTH('a) div 8" using assms by (auto elim!: dvdE)
  moreover have "k mod 8 + k div 8 * 8 = k" by simp
  ultimately show "bit (from_bytes (to_bytes v) :: 'a word) k \<longleftrightarrow> bit v k"
    using k by (simp add: from_bytes_def bit_from_bytes_loop to_bytes_def bit_ucast_iff bit_drop_bit_eq
        algebra_simps) (auto intro: order_less_le_trans [OF mod_less_divisor])
qed

lemma to_bytes_from_bytes:
  assumes "8 dvd LENGTH('a)" and "length bs = LENGTH('a) div 8"
  shows "to_bytes (from_bytes bs :: 'a :: len word) = bs"
proof (rule nth_equalityI)
  show "length (to_bytes (from_bytes bs :: 'a word)) = length bs" using assms by simp
  fix i assume "i < length (to_bytes (from_bytes bs :: 'a word))"
  then have i: "i < LENGTH('a) div 8" by simp
  show "to_bytes (from_bytes bs :: 'a word) ! i = bs ! i"
  proof (rule bit_word_eqI)
    fix k assume "k < LENGTH(8)"
    then have k: "k < 8" by simp
    then have "(i * 8 + k) div 8 = i" "(i * 8 + k) mod 8 = k" "i * 8 + k < LENGTH('a)"
      using i assms(1) by (auto elim!: dvdE)
    then show "bit (to_bytes (from_bytes bs :: 'a word) ! i) k \<longleftrightarrow> bit (bs ! i) k"
      using i k assms(2)
      by (simp add: to_bytes_def from_bytes_def bit_from_bytes_loop bit_ucast_iff bit_drop_bit_eq
          algebra_simps)
  qed
qed

section \<open>The deserialiser\<close>

text \<open>\<open>Deserialiser::consume\<close>: exactly \<open>nbytes\<close> bytes or an exception.\<close>

definition consume :: "nat \<Rightarrow> (bytes, bytes) prog" where
  "consume nbytes data =
     (if length data < nbytes then (Inl (RuntimeError ''Insufficient data (corrupt stream)''), data)
      else (Inr (take nbytes data), drop nbytes data))"

lemma consume_append [simp]: "length xs = n \<Longrightarrow> consume n (xs @ rest) = (Inr xs, rest)"
  by (simp add: consume_def)

lemma consume_Inr: "consume n data = (Inr xs, rest) \<longleftrightarrow> data = xs @ rest \<and> length xs = n"
  by (auto simp: consume_def append_eq_conv_conj)

section \<open>The contract of a codec\<close>

text \<open>
  \<open>ok\<close> is the set of the values the type can hold (the length bounds of containers). What is
  written is read back whatever follows it, and nothing else is accepted.
\<close>

locale codec =
  fixes ser :: "'a \<Rightarrow> bytes"
    and des :: "(bytes, 'a) prog"
    and ok :: "'a \<Rightarrow> bool"
  assumes roundtrip: "ok x \<Longrightarrow> des (ser x @ rest) = (Inr x, rest)"
    and canonical: "des data = (Inr x, rest) \<Longrightarrow> ok x \<and> data = ser x @ rest"
begin

lemma accepts_iff: "des data = (Inr x, rest) \<longleftrightarrow> ok x \<and> data = ser x @ rest"
  using roundtrip canonical by blast

lemma exact: "ok x \<Longrightarrow> des (ser x) = (Inr x, [])"
  using roundtrip [of x "[]"] by simp

lemma prefix_free:
  assumes "ok x" and "ok y" and "ser x @ xs = ser y @ ys"
  shows "x = y \<and> xs = ys"
proof -
  have "(Inr x, xs) = des (ser x @ xs)" using roundtrip assms(1) by simp
  also have "\<dots> = (Inr y, ys)" unfolding assms(3) using roundtrip assms(2) by simp
  finally show ?thesis by simp
qed

lemma ser_inject: "ok x \<Longrightarrow> ok y \<Longrightarrow> ser x = ser y \<longleftrightarrow> x = y"
  using prefix_free [of x y "[]" "[]"] by auto

text \<open>A truncated encoding is never accepted, as any value at all.\<close>

lemma truncated:
  assumes "ok x" and "k < length (ser x)"
  shows "des (take k (ser x)) \<noteq> (Inr y, rest)"
proof
  assume "des (take k (ser x)) = (Inr y, rest)"
  then have y: "ok y" "take k (ser x) = ser y @ rest" using canonical by blast+
  then have "ser y @ rest @ drop k (ser x) = ser x @ []"
    by (metis append.assoc append_Nil2 append_take_drop_id)
  then have "rest @ drop k (ser x) = []" using prefix_free y(1) assms(1) by blast
  then show False using assms(2) by simp
qed

end

section \<open>Codecs\<close>

definition serialise_int :: "'a :: len word \<Rightarrow> bytes" where
  "serialise_int value = to_bytes value"

definition deserialise_int :: "(bytes, 'a :: len word) prog" where
  "deserialise_int = bindS (consume (LENGTH('a) div 8)) (\<lambda>span. retS (from_bytes span))"

definition serialise_byte :: "u8 \<Rightarrow> bytes" where
  "serialise_byte b = [b]"

definition deserialise_byte :: "(bytes, u8) prog" where
  "deserialise_byte = bindS (consume 1) (\<lambda>span. retS (hd span))"

text \<open>
  \<^verbatim>\<open>std::string\<close>: a \<^verbatim>\<open>size_t\<close> length and the bytes of the characters.
\<close>

definition bytes_of_string :: "string \<Rightarrow> bytes" where
  "bytes_of_string = map of_char"

definition string_of_bytes :: "bytes \<Rightarrow> string" where
  "string_of_bytes = map (\<lambda>b. char_of (unat b))"

definition serialise_string :: "string \<Rightarrow> bytes" where
  "serialise_string str = serialise_int (word_of_nat (length str) :: u64) @ bytes_of_string str"

definition deserialise_string :: "(bytes, string) prog" where
  "deserialise_string = bindS deserialise_int (\<lambda>n :: u64.
     bindS (consume (unat n)) (\<lambda>bytes. retS (string_of_bytes bytes)))"

text \<open>
  \<^verbatim>\<open>std::vector\<close> and \<^verbatim>\<open>std::span\<close>: a length, then the elements. \<open>reserve\<close> throws for a length
  above \<^verbatim>\<open>max_size\<close>, which is \<open>(2 ^ 63 - 1) / sizeof(T)\<close>; \<open>w\<close> is \<^verbatim>\<open>sizeof(T)\<close>.
\<close>

definition max_size :: "nat \<Rightarrow> nat" where
  "max_size w = (2 ^ 63 - 1) div w"

fun serialise_all :: "('a \<Rightarrow> bytes) \<Rightarrow> 'a list \<Rightarrow> bytes" where
  "serialise_all ser [] = []"
| "serialise_all ser (x # xs) = ser x @ serialise_all ser xs"

fun deserialise_all :: "(bytes, 'a) prog \<Rightarrow> nat \<Rightarrow> (bytes, 'a list) prog" where
  "deserialise_all des 0 = retS []"
| "deserialise_all des (Suc n) = bindS des (\<lambda>x. bindS (deserialise_all des n) (\<lambda>xs. retS (x # xs)))"

definition serialise_vector :: "('a \<Rightarrow> bytes) \<Rightarrow> 'a list \<Rightarrow> bytes" where
  "serialise_vector ser v = serialise_int (word_of_nat (length v) :: u64) @ serialise_all ser v"

definition deserialise_vector :: "nat \<Rightarrow> (bytes, 'a) prog \<Rightarrow> (bytes, 'a list) prog" where
  "deserialise_vector w des = bindS deserialise_int (\<lambda>n :: u64.
     if max_size w < unat n then throwS (LengthError ''vector::reserve'')
     else deserialise_all des (unat n))"

definition serialise_array :: "('a \<Rightarrow> bytes) \<Rightarrow> 'a list \<Rightarrow> bytes" where
  "serialise_array ser a = serialise_all ser a"

definition deserialise_array :: "nat \<Rightarrow> (bytes, 'a) prog \<Rightarrow> (bytes, 'a list) prog" where
  "deserialise_array n des = deserialise_all des n"

text \<open>A time point is its signed 64-bit count of nanoseconds since the epoch.\<close>

datatype time_point = TimePoint (since_epoch: u64)

definition serialise_time_point :: "time_point \<Rightarrow> bytes" where
  "serialise_time_point x = serialise_int (since_epoch x)"

definition deserialise_time_point :: "(bytes, time_point) prog" where
  "deserialise_time_point = bindS deserialise_int (\<lambda>count. retS (TimePoint count))"

section \<open>The codecs meet the contract\<close>

lemma codecI:
  "(\<And>data x rest. des data = (Inr x, rest) \<longleftrightarrow> ok x \<and> data = ser x @ rest) \<Longrightarrow> codec ser des ok"
  by unfold_locales blast+

lemma int_accepts:
  assumes "8 dvd LENGTH('a)"
  shows "deserialise_int data = (Inr (x :: 'a :: len word), rest) \<longleftrightarrow> data = serialise_int x @ rest"
  unfolding deserialise_int_def serialise_int_def bindS_eq_Inr consume_Inr
  using from_bytes_to_bytes [OF assms, of x] to_bytes_from_bytes [OF assms] by auto

interpretation u64_codec: codec "serialise_int :: u64 \<Rightarrow> bytes" deserialise_int "\<lambda>_. True"
  by (rule codecI) (simp add: int_accepts)

interpretation u32_codec: codec "serialise_int :: u32 \<Rightarrow> bytes" deserialise_int "\<lambda>_. True"
  by (rule codecI) (simp add: int_accepts)

interpretation byte_codec: codec serialise_byte deserialise_byte "\<lambda>_. True"
  by (rule codecI)
    (auto simp: deserialise_byte_def serialise_byte_def bindS_eq_Inr consume_Inr length_Suc_conv)

lemma size_roundtrip: "n < 2 ^ 64 \<Longrightarrow> unat (word_of_nat n :: u64) = n"
  by (simp add: unat_of_nat)

lemma unat_of_char: "unat (of_char c :: u8) = of_char c"
proof -
  have "(of_char c :: u8) = word_of_nat (of_char c)" by (simp only: of_nat_of_char)
  then have "unat (of_char c :: u8) = of_char c mod 2 ^ LENGTH(8)" by (simp only: unat_of_nat)
  then show ?thesis by simp
qed

lemma char_roundtrip: "char_of (unat (of_char c :: u8)) = c"
  by (simp add: unat_of_char)

lemma byte_roundtrip: "(of_char (char_of (unat (b :: u8))) :: u8) = b"
proof -
  have "unat b < 2 ^ LENGTH(8)" by (rule unsigned_less)
  then have "unat b mod 256 = unat b" by simp
  then have "unat (of_char (char_of (unat b)) :: u8) = unat b" by (simp only: unat_of_char of_char_of)
  then show ?thesis by (simp only: word_unat_eq_iff)
qed

lemma string_bytes [simp]:
  "length (bytes_of_string s) = length s"
  "length (string_of_bytes bs) = length bs"
  "string_of_bytes (bytes_of_string s) = s"
  "bytes_of_string (string_of_bytes bs) = bs"
  by (simp_all add: bytes_of_string_def string_of_bytes_def comp_def char_roundtrip byte_roundtrip)

interpretation string_codec: codec serialise_string deserialise_string "\<lambda>s. length s < 2 ^ 64"
proof (rule codecI)
  fix data x rest
  show "deserialise_string data = (Inr x, rest) \<longleftrightarrow> length x < 2 ^ 64 \<and> data = serialise_string x @ rest"
    unfolding deserialise_string_def serialise_string_def bindS_eq_Inr u64_codec.accepts_iff consume_Inr
    using size_roundtrip [of "length x"] unat_64_lt by (fastforce simp del: unat_64_lt)
qed

lemma deserialise_all_accepts:
  assumes "codec ser des ok"
  shows "deserialise_all des n data = (Inr xs, rest) \<longleftrightarrow>
    (length xs = n \<and> list_all ok xs) \<and> data = serialise_all ser xs @ rest"
proof (induction n arbitrary: data xs)
  case 0
  then show ?case by auto
next
  case (Suc n)
  then show ?case
    by (cases xs) (auto simp: bindS_eq_Inr codec.accepts_iff [OF assms])
qed

definition vector_ok :: "nat \<Rightarrow> ('a \<Rightarrow> bool) \<Rightarrow> 'a list \<Rightarrow> bool" where
  "vector_ok w ok v \<longleftrightarrow> length v \<le> max_size w \<and> list_all ok v"

lemma max_size_less: "max_size w < 2 ^ 64"
  unfolding max_size_def by (rule le_less_trans [OF div_le_dividend]) simp

lemma vector_codec:
  fixes ok :: "'a \<Rightarrow> bool"
  assumes "codec ser des ok"
  shows "codec (serialise_vector ser) (deserialise_vector w des) (vector_ok w ok)"
proof (rule codecI)
  fix data rest and x :: "'a list"
  have "unat (word_of_nat (length x) :: u64) = length x" if "length x \<le> max_size w"
    using that max_size_less [of w] by (intro size_roundtrip) (rule le_less_trans)
  moreover have "(if max_size w < unat n then throwS (LengthError ''vector::reserve'')
      else deserialise_all des (unat n)) bs = (Inr x, rest) \<longleftrightarrow>
    unat n \<le> max_size w \<and> length x = unat n \<and> list_all ok x \<and> bs = serialise_all ser x @ rest"
    for n :: u64 and bs
    by (auto simp: deserialise_all_accepts [OF assms])
  ultimately show "deserialise_vector w des data = (Inr x, rest) \<longleftrightarrow>
      vector_ok w ok x \<and> data = serialise_vector ser x @ rest"
    unfolding deserialise_vector_def serialise_vector_def bindS_eq_Inr u64_codec.accepts_iff vector_ok_def
    by auto
qed

lemma array_codec:
  assumes "codec ser des ok"
  shows "codec (serialise_array ser) (deserialise_array n des) (\<lambda>a. length a = n \<and> list_all ok a)"
  by (rule codecI)
    (simp add: deserialise_array_def serialise_array_def deserialise_all_accepts [OF assms])

lemma serialise_bytes: "serialise_all serialise_byte xs = xs"
  by (induction xs) (simp_all add: serialise_byte_def)

lemma list_all_True [simp]: "list_all (\<lambda>_. True) xs"
  by (simp add: list_all_iff)

interpretation bytes_codec: codec "serialise_vector serialise_byte"
  "deserialise_vector 1 deserialise_byte" "vector_ok 1 (\<lambda>_. True)"
  by (rule vector_codec) (rule byte_codec.codec_axioms)

text \<open>The initialisation arguments: a vector of strings, of 32 bytes each in memory.\<close>

interpretation strings_codec: codec "serialise_vector serialise_string"
  "deserialise_vector 32 deserialise_string" "vector_ok 32 (\<lambda>s. length s < 2 ^ 64)"
  by (rule vector_codec) (rule string_codec.codec_axioms)

interpretation time_point_codec: codec serialise_time_point deserialise_time_point "\<lambda>_. True"
proof (rule codecI)
  fix data x rest
  show "deserialise_time_point data = (Inr x, rest) \<longleftrightarrow> True \<and> data = serialise_time_point x @ rest"
    unfolding deserialise_time_point_def serialise_time_point_def bindS_eq_Inr u64_codec.accepts_iff
    by (cases x) auto
qed

end
