(* ===== verification/Uuid.thy ===== *)
theory Uuid
  imports Serialisation
begin

text \<open>
  \<^verbatim>\<open>diffmonger/util/Uuid.hpp\<close> and \<^verbatim>\<open>Uuid.cpp\<close>: sixteen bytes, their codec and their
  hexadecimal rendering, which names the snapshots of the backend.
\<close>

definition uuid_size :: nat where
  "uuid_size = 16"

datatype uuid = Uuid (uuid_bytes: bytes)

definition serialise_uuid :: "uuid \<Rightarrow> bytes" where
  "serialise_uuid uuid = serialise_array serialise_byte (uuid_bytes uuid)"

definition deserialise_uuid :: "(bytes, uuid) prog" where
  "deserialise_uuid = bindS (deserialise_array uuid_size deserialise_byte) (\<lambda>bytes. retS (Uuid bytes))"

definition uuid_ok :: "uuid \<Rightarrow> bool" where
  "uuid_ok uuid \<longleftrightarrow> length (uuid_bytes uuid) = uuid_size"

definition hex :: string where
  "hex = ''0123456789abcdef''"

fun ascii_loop :: "bytes \<Rightarrow> string \<Rightarrow> string" where
  "ascii_loop [] out = out"
| "ascii_loop (b # bytes) out =
    ascii_loop bytes (out @ [hex ! unat (drop_bit 4 b AND 0xf), hex ! unat (b AND 0xf)])"

definition ascii :: "uuid \<Rightarrow> string" where
  "ascii uuid = ascii_loop (uuid_bytes uuid) ''''"

section \<open>Facts\<close>

lemmas byte_array_codec = array_codec [OF byte_codec.codec_axioms]

interpretation uuid_codec: codec serialise_uuid deserialise_uuid uuid_ok
proof (rule codecI)
  fix data x rest
  show "deserialise_uuid data = (Inr x, rest) \<longleftrightarrow> uuid_ok x \<and> data = serialise_uuid x @ rest"
    unfolding deserialise_uuid_def serialise_uuid_def bindS_eq_Inr uuid_ok_def
      codec.accepts_iff [OF byte_array_codec]
    by (cases x) auto
qed

lemma length_serialise_uuid [simp]: "length (serialise_uuid u) = length (uuid_bytes u)"
  by (simp add: serialise_uuid_def serialise_array_def serialise_bytes)

lemma ascii_loop_append: "ascii_loop bs out = out @ ascii_loop bs ''''"
proof (induction bs arbitrary: out)
  case (Cons b bs)
  show ?case
    unfolding ascii_loop.simps by (subst Cons, subst (2) Cons) simp
qed simp

lemma length_ascii_loop [simp]: "length (ascii_loop bs out) = length out + 2 * length bs"
  by (induction bs arbitrary: out) simp_all

lemma length_ascii: "uuid_ok u \<Longrightarrow> length (ascii u) = 32"
  by (simp add: ascii_def uuid_ok_def uuid_size_def)

lemma distinct_hex: "distinct hex" and length_hex: "length hex = 16"
  by (simp_all add: hex_def)

lemma hex_inject: "i < 16 \<Longrightarrow> j < 16 \<Longrightarrow> hex ! i = hex ! j \<longleftrightarrow> i = j"
  using nth_eq_iff_index_eq [OF distinct_hex] by (simp add: length_hex)

lemma nibbles:
  "unat (drop_bit 4 b AND 0xf :: u8) = unat b div 16" "unat (b AND 0xf :: u8) = unat b mod 16"
proof -
  have m: "(0xf :: u8) = mask 4" by (simp add: mask_eq_exp_minus_1)
  show "unat (b AND 0xf :: u8) = unat b mod 16"
    unfolding m take_bit_eq_mask [symmetric] unsigned_take_bit_eq by (simp add: take_bit_eq_mod)
  have "unat (drop_bit 4 b) = unat b div 16" using unat_div_distrib [of b 16] by (simp add: drop_bit_eq_div)
  moreover have "unat b div 16 < 16" using unat_8_lt [of b] by simp
  ultimately show "unat (drop_bit 4 b AND 0xf :: u8) = unat b div 16"
    unfolding m take_bit_eq_mask [symmetric] unsigned_take_bit_eq by (simp add: take_bit_eq_mod)
qed

lemma ascii_loop_Cons:
  "ascii_loop (b # bs) [] = hex ! (unat b div 16) # hex ! (unat b mod 16) # ascii_loop bs []"
  unfolding ascii_loop.simps nibbles(1) unfolding nibbles(2) by (subst ascii_loop_append) simp

lemma ascii_loop_inject: "ascii_loop bs '''' = ascii_loop cs '''' \<Longrightarrow> bs = cs"
proof (induction bs arbitrary: cs)
  case Nil
  then have "length (ascii_loop cs '''') = 0" by simp
  then show ?case by simp
next
  case (Cons b bs)
  have "length cs = length (b # bs)" using arg_cong [OF Cons.prems, of length] by simp
  then obtain c cs' where cs: "cs = c # cs'" by (cases cs) auto
  have n: "unat w div 16 < 16" "unat w mod 16 < 16" for w :: u8 using unat_8_lt [of w] by simp_all
  have eq: "hex ! (unat b div 16) = hex ! (unat c div 16)" "hex ! (unat b mod 16) = hex ! (unat c mod 16)"
    "ascii_loop bs '''' = ascii_loop cs' ''''"
    using Cons.prems unfolding cs ascii_loop_Cons by simp_all
  then have "unat b = unat c" using n hex_inject by (metis div_mult_mod_eq)
  then show ?case using Cons.IH [OF eq(3)] cs by (simp add: word_unat_eq_iff)
qed

lemma ascii_inject: "ascii u = ascii v \<longleftrightarrow> u = v"
  using ascii_loop_inject by (auto simp: ascii_def uuid.expand)

end
