(* ===== verification/BackendDriver.thy ===== *)
theory BackendDriver
  imports Node Uuid
begin

text \<open>
  \<^verbatim>\<open>src/BackendDriver.hpp\<close> and \<^verbatim>\<open>BackendDriver.cpp\<close>: the encoded form of a snapshot
  identifier with its codec, and the abstract class \<open>BackendDriver\<close> as a record of its virtual
  methods over a backend state \<open>'b\<close> and the driver's identifiers \<open>'i\<close>. A method that is given
  a file descriptor to write to returns what it wrote before it ended or threw; one that is given
  a file descriptor to read from gets what it can read. The locale \<open>backend\<close> holds the laws
  the header documents and the controller relies on.
\<close>

section \<open>Encoded snapshot identifiers\<close>

record encoded =
  encoded_bytes :: bytes
  encoded_node :: node
  encoded_timestamp :: time_point

definition encoded_serialise :: "encoded \<Rightarrow> bytes" where
  "encoded_serialise e =
     serialise_vector serialise_byte (encoded_bytes e) @
     serialise_int (node_value (encoded_node e)) @
     serialise_time_point (encoded_timestamp e)"

definition encoded_codec_deserialise :: "(bytes, encoded) prog" where
  "encoded_codec_deserialise =
     bindS (deserialise_vector 1 deserialise_byte) (\<lambda>encoded_bytes.
     bindS deserialise_int (\<lambda>value.
     bindS deserialise_time_point (\<lambda>timestamp.
       retS \<lparr> encoded_bytes = encoded_bytes, encoded_node = Node value,
              encoded_timestamp = timestamp \<rparr>)))"

text \<open>Bytes behind the encoding are ignored.\<close>

definition encoded_deserialise :: "bytes \<Rightarrow> encoded result" where
  "encoded_deserialise bytes = fst (encoded_codec_deserialise bytes)"

definition encoded_ok :: "encoded \<Rightarrow> bool" where
  "encoded_ok e \<longleftrightarrow> vector_ok 1 (\<lambda>_. True) (encoded_bytes e)"

interpretation encoded_codec: codec encoded_serialise encoded_codec_deserialise encoded_ok
proof (rule codecI)
  fix data x rest
  show "encoded_codec_deserialise data = (Inr x, rest) \<longleftrightarrow>
      encoded_ok x \<and> data = encoded_serialise x @ rest"
    unfolding encoded_codec_deserialise_def encoded_serialise_def encoded_ok_def bindS_eq_Inr
      bytes_codec.accepts_iff u64_codec.accepts_iff time_point_codec.accepts_iff
    by (cases x; cases "encoded_node x") auto
qed

lemma encoded_roundtrip: "encoded_ok e \<Longrightarrow> encoded_deserialise (encoded_serialise e @ rest) = Inr e"
  by (simp add: encoded_deserialise_def encoded_codec.roundtrip)

lemma encoded_deserialise_Inr:
  "encoded_deserialise bs = Inr e \<longleftrightarrow> encoded_ok e \<and> (\<exists>rest. bs = encoded_serialise e @ rest)"
proof -
  have "encoded_deserialise bs = Inr e \<longleftrightarrow> (\<exists>rest. encoded_codec_deserialise bs = (Inr e, rest))"
    by (cases "encoded_codec_deserialise bs") (simp add: encoded_deserialise_def)
  then show ?thesis by (simp add: encoded_codec.accepts_iff)
qed

section \<open>The driver\<close>

type_synonym 'b stream_writer = "'b \<Rightarrow> bytes \<times> unit result \<times> 'b"

record ('b, 'i) driver =
  drv_snapshot :: "node \<Rightarrow> uuid \<Rightarrow> ('b, 'i \<times> bool) prog"
  drv_verify :: "'i \<Rightarrow> ('b, unit) prog"
  drv_exists :: "'i \<Rightarrow> ('b, bool) prog"
  drv_remove_snapshot :: "'i \<Rightarrow> ('b, unit) prog"
  drv_initial :: "'i \<Rightarrow> 'b stream_writer"
  drv_diff :: "'i \<Rightarrow> 'i \<Rightarrow> 'b stream_writer"
  drv_restoreInitial :: "'i \<Rightarrow> bytes \<Rightarrow> ('b, unit) prog"
  drv_restoreDiff :: "'i \<Rightarrow> 'i \<Rightarrow> bytes \<Rightarrow> ('b, unit) prog"
  drv_snapshotId :: "encoded \<Rightarrow> 'i result"
  drv_encoded :: "'i \<Rightarrow> encoded"
  drv_getNode :: "'i \<Rightarrow> node"
  drv_pretty :: "'i \<Rightarrow> string"

text \<open>
  What the controller needs of a driver: an identifier knows its node, the node survives
  encoding and decoding, a decoded identifier encodes again to an equal identifier, and a new
  snapshot is for the node it was asked for. \<open>valid\<close> are the identifiers the driver makes.
\<close>

locale backend =
  fixes snapshot :: "node \<Rightarrow> uuid \<Rightarrow> ('b, 'i \<times> bool) prog"
    and snapshotId :: "encoded \<Rightarrow> 'i result"
    and encoded :: "'i \<Rightarrow> encoded"
    and getNode :: "'i \<Rightarrow> node"
    and valid :: "'i \<Rightarrow> bool"
  assumes getNode_encoded: "getNode i = encoded_node (encoded i)"
    and decode_encoded: "valid i \<Longrightarrow> snapshotId (encoded i) = Inr i"
    and decoded_node: "snapshotId e = Inr i \<Longrightarrow> encoded_node (encoded i) = encoded_node e"
    and decoded_valid: "snapshotId e = Inr i \<Longrightarrow> valid i"
    and snapshot_node: "uuid_ok uuid \<Longrightarrow> snapshot node uuid b = (Inr (i, old), b') \<Longrightarrow> getNode i = node \<and> valid i"
    and encoded_small: "valid i \<Longrightarrow> encoded_ok (encoded i)"
begin

lemma encoded_inject: "valid i \<Longrightarrow> valid j \<Longrightarrow> encoded i = encoded j \<longleftrightarrow> i = j"
  using decode_encoded by (metis sum.inject(2))

text \<open>What a repository stores of an identifier gives the identifier back.\<close>

lemma stored_identifier:
  assumes "valid i"
  shows "bindR (encoded_deserialise (encoded_serialise (encoded i))) snapshotId = Inr i"
  using assms encoded_roundtrip [of "encoded i" "[]"] by (simp add: encoded_small decode_encoded)

lemma decode_getNode: "snapshotId e = Inr i \<Longrightarrow> getNode i = encoded_node e"
  by (simp add: getNode_encoded decoded_node)

end

end
