(* ===== verification/FileSystem.thy ===== *)
theory FileSystem
  imports Prelude "HOL-Library.Sublist"
begin

text \<open>
  The machine the program runs on: a file system, the system calls and the
  \<^verbatim>\<open>std::filesystem\<close> functions the program uses, and the functions of
  \<^verbatim>\<open>diffmonger/util/ioutil\<close> and \<^verbatim>\<open>src/cstdio-util.cpp\<close> above them. Every call asks \<open>fate\<close>
  whether it works, fails or is where the power goes; a call that stops halfway leaves what
  its \<open>progress\<close> says. Properties quantify over \<open>fate\<close>, so they hold for every crash point.
\<close>

section \<open>Paths and files\<close>

type_synonym path = "string list"

datatype entry = Dir | File (contents: bytes)

type_synonym file_system = "(path \<times> entry) list"

definition lookup :: "file_system \<Rightarrow> path \<Rightarrow> entry option" where
  "lookup fs p = map_of fs p"

definition put :: "path \<Rightarrow> entry \<Rightarrow> file_system \<Rightarrow> file_system" where
  "put p e fs = (p, e) # filter (\<lambda>(q, _). q \<noteq> p) fs"

definition drop_paths :: "(path \<Rightarrow> bool) \<Rightarrow> file_system \<Rightarrow> file_system" where
  "drop_paths gone fs = filter (\<lambda>(q, _). \<not> gone q) fs"

definition move_tree :: "path \<Rightarrow> path \<Rightarrow> file_system \<Rightarrow> file_system" where
  "move_tree from to fs =
     map (\<lambda>(q, e). (if prefix from q then to @ drop (length from) q else q, e))
       (drop_paths (prefix to) fs)"

definition children :: "file_system \<Rightarrow> path \<Rightarrow> string list" where
  "children fs p = map (\<lambda>(q, _). last q)
     (filter (\<lambda>(q, _). q \<noteq> [] \<and> butlast q = p) fs)"

definition parent_is_dir :: "file_system \<Rightarrow> path \<Rightarrow> bool" where
  "parent_is_dir fs p \<longleftrightarrow> p \<noteq> [] \<and> lookup fs (butlast p) = Some Dir"

named_theorems fs_simps \<open>lookups after changes of the file system\<close>

lemma map_of_filter_key: "map_of (filter (\<lambda>(q, _). P q) xs) k = (if P k then map_of xs k else None)"
  by (induction xs) auto

lemma lookup_put [fs_simps]: "lookup (put p e fs) q = (if q = p then Some e else lookup fs q)"
  by (simp add: lookup_def put_def map_of_filter_key)

lemma lookup_drop [fs_simps]: "lookup (drop_paths gone fs) q = (if gone q then None else lookup fs q)"
  by (simp add: lookup_def drop_paths_def map_of_filter_key)

lemma lookup_move [fs_simps]:
  assumes "\<not> prefix from to" and "\<not> prefix to from"
  shows "lookup (move_tree from to fs) q =
    (if prefix to q then lookup fs (from @ drop (length to) q)
     else if prefix from q then None else lookup fs q)"
proof (induction fs)
  case Nil
  then show ?case by (simp add: lookup_def move_tree_def drop_paths_def)
next
  case (Cons x fs)
  obtain p e where x: "x = (p, e)" by fastforce
  have moved: "prefix from p \<Longrightarrow> to @ drop (length from) p = q \<longleftrightarrow>
      prefix to q \<and> p = from @ drop (length to) q"
    by (auto simp: prefix_def)
  have "\<not> (prefix to r \<and> prefix from r)" for r
    using assms prefix_same_cases by blast
  then show ?case
    using Cons moved by (auto simp: lookup_def move_tree_def drop_paths_def x prefix_def)
qed

lemma children_iff: "n \<in> set (children fs p) \<longleftrightarrow> lookup fs (p @ [n]) \<noteq> None"
proof -
  have "lookup fs (p @ [n]) \<noteq> None \<longleftrightarrow> p @ [n] \<in> fst ` set fs"
    by (simp add: lookup_def map_of_eq_None_iff)
  moreover have "q \<noteq> [] \<and> butlast q = p \<and> last q = n \<longleftrightarrow> q = p @ [n]" for q
    by (metis append_butlast_last_id butlast_snoc last_snoc snoc_eq_iff_butlast)
  ultimately show ?thesis by (force simp: children_def image_iff)
qed

section \<open>The machine\<close>

text \<open>
  What an interrupted call has done: the number of bytes of a write that reached the file, and
  which entries of a recursive removal are gone.
\<close>

record progress =
  torn :: nat
  gone :: "path \<Rightarrow> bool"

datatype fate = Works | Fails errno progress | PowerOff progress

record machine =
  fs :: file_system
  fate :: "nat \<Rightarrow> fate"
  calls :: nat
  entropy :: "nat \<Rightarrow> u8"

abbreviation look :: "('z) machine_scheme \<Rightarrow> path \<Rightarrow> entry option" where
  "look s p \<equiv> lookup (fs s) p"

abbreviation undisturbed :: "('z) machine_scheme \<Rightarrow> bool" where
  "undisturbed s \<equiv> fate s = (\<lambda>_. Works)"

text \<open>
  A system call: \<open>full\<close> is its effect, or the error the state of the file system calls for;
  \<open>partial\<close> is the effect of an interrupted call.
\<close>

definition syscall ::
  "string \<Rightarrow> (file_system \<Rightarrow> errno + ('a \<times> file_system)) \<Rightarrow> (progress \<Rightarrow> file_system \<Rightarrow> file_system) \<Rightarrow>
    ('z machine_scheme, 'a) prog" where
  "syscall what full partial s =
    (case fate s (calls s) of
       Works \<Rightarrow>
        (case full (fs s) of
           Inl e \<Rightarrow> (Inl (SystemError e what), s\<lparr>calls := Suc (calls s)\<rparr>)
         | Inr (x, fs') \<Rightarrow> (Inr x, s\<lparr>calls := Suc (calls s), fs := fs'\<rparr>))
     | Fails e pr \<Rightarrow> (Inl (SystemError e what), s\<lparr>calls := Suc (calls s), fs := partial pr (fs s)\<rparr>)
     | PowerOff pr \<Rightarrow> (Inl PowerLoss, s\<lparr>calls := Suc (calls s), fs := partial pr (fs s)\<rparr>))"

abbreviation untouched :: "progress \<Rightarrow> file_system \<Rightarrow> file_system" where
  "untouched pr f \<equiv> f"

section \<open>Queries\<close>

definition fs_exists :: "path \<Rightarrow> ('z machine_scheme, bool) prog" where
  "fs_exists p = syscall ''status'' (\<lambda>f. Inr (lookup f p \<noteq> None, f)) untouched"

definition fs_is_directory :: "path \<Rightarrow> ('z machine_scheme, bool) prog" where
  "fs_is_directory p = syscall ''status'' (\<lambda>f. Inr (lookup f p = Some Dir, f)) untouched"

text \<open>\<^verbatim>\<open>std::filesystem::is_empty\<close>: no children for a directory, size 0 for a file.\<close>

definition fs_is_empty :: "path \<Rightarrow> ('z machine_scheme, bool) prog" where
  "fs_is_empty p = syscall ''is_empty'' (\<lambda>f. case lookup f p of
      None \<Rightarrow> Inl ENOENT
    | Some Dir \<Rightarrow> Inr (children f p = [], f)
    | Some (File bs) \<Rightarrow> Inr (bs = [], f)) untouched"

section \<open>Changes\<close>

definition k_mkdir :: "path \<Rightarrow> ('z machine_scheme, unit) prog" where
  "k_mkdir p = syscall ''create_directory'' (\<lambda>f. case lookup f p of
      Some Dir \<Rightarrow> Inr ((), f)
    | Some (File _) \<Rightarrow> Inl ENOTDIR
    | None \<Rightarrow> if p = [] \<or> parent_is_dir f p then Inr ((), put p Dir f) else Inl ENOENT) untouched"

text \<open>\<^verbatim>\<open>std::filesystem::create_directories\<close>: every missing prefix, from the top.\<close>

definition create_directories :: "path \<Rightarrow> ('z machine_scheme, unit) prog" where
  "create_directories p = forS k_mkdir (prefixes p)"

text \<open>\<open>open\<close> for writing, with \<^verbatim>\<open>O_CREAT|O_EXCL\<close> or \<^verbatim>\<open>O_CREAT|O_TRUNC\<close>; both leave an empty file.\<close>

definition k_open_new :: "string \<Rightarrow> path \<Rightarrow> ('z machine_scheme, unit) prog" where
  "k_open_new what p = syscall what (\<lambda>f.
     if lookup f p \<noteq> None then Inl EEXIST
     else if parent_is_dir f p then Inr ((), put p (File []) f) else Inl ENOENT) untouched"

definition k_open_trunc :: "string \<Rightarrow> path \<Rightarrow> ('z machine_scheme, unit) prog" where
  "k_open_trunc what p = syscall what (\<lambda>f.
     if lookup f p = Some Dir then Inl EISDIR
     else if lookup f p \<noteq> None \<or> parent_is_dir f p then Inr ((), put p (File []) f) else Inl ENOENT)
     untouched"

fun append_to :: "path \<Rightarrow> bytes \<Rightarrow> file_system \<Rightarrow> file_system" where
  "append_to p bs f =
     (case lookup f p of Some (File old) \<Rightarrow> put p (File (old @ bs)) f | _ \<Rightarrow> f)"
declare append_to.simps [simp del]

text \<open>
  \<open>ioutil::write\<close> on a descriptor of the file \<open>p\<close>: all the bytes, or a prefix of them when a
  \<open>write\<close> call fails or the machine stops.
\<close>

definition io_write :: "path \<Rightarrow> bytes \<Rightarrow> ('z machine_scheme, unit) prog" where
  "io_write p bs = syscall ''write() failed'' (\<lambda>f. Inr ((), append_to p bs f))
     (\<lambda>pr. append_to p (take (torn pr) bs))"

text \<open>\<open>rename\<close>, as POSIX defines it; it is atomic.\<close>

definition k_rename :: "path \<Rightarrow> path \<Rightarrow> ('z machine_scheme, unit) prog" where
  "k_rename from to = syscall ''Could not rename'' (\<lambda>f. case lookup f from of
      None \<Rightarrow> Inl ENOENT
    | Some e \<Rightarrow>
       if from = to then Inr ((), f)
       else if prefix from to then Inl EINVAL
       else if prefix to from then Inl ENOTEMPTY
       else if \<not> parent_is_dir f to then Inl ENOENT
       else (case (e, lookup f to) of
           (_, None) \<Rightarrow> Inr ((), move_tree from to f)
         | (Dir, Some Dir) \<Rightarrow> if children f to = [] then Inr ((), move_tree from to f) else Inl ENOTEMPTY
         | (Dir, Some (File _)) \<Rightarrow> Inl ENOTDIR
         | (File _, Some Dir) \<Rightarrow> Inl EISDIR
         | (File _, Some (File _)) \<Rightarrow> Inr ((), move_tree from to f))) untouched"

text \<open>\<open>remove\<close> of \<^verbatim>\<open>cstdio-util.cpp\<close>: a file or an empty directory.\<close>

definition k_remove :: "path \<Rightarrow> ('z machine_scheme, unit) prog" where
  "k_remove p = syscall ''Could not remove'' (\<lambda>f. case lookup f p of
      None \<Rightarrow> Inl ENOENT
    | Some Dir \<Rightarrow> if children f p = [] then Inr ((), drop_paths (\<lambda>q. q = p) f) else Inl ENOTEMPTY
    | Some (File _) \<Rightarrow> Inr ((), drop_paths (\<lambda>q. q = p) f)) untouched"

text \<open>\<^verbatim>\<open>std::filesystem::remove\<close>: no error when there is nothing to remove.\<close>

definition fs_remove :: "path \<Rightarrow> ('z machine_scheme, unit) prog" where
  "fs_remove p = syscall ''remove'' (\<lambda>f.
     if lookup f p = Some Dir \<and> children f p \<noteq> [] then Inl ENOTEMPTY
     else Inr ((), drop_paths (\<lambda>q. q = p) f)) untouched"

text \<open>\<^verbatim>\<open>std::filesystem::remove_all\<close>: entry by entry, so an interruption may leave any of them.\<close>

definition fs_remove_all :: "path \<Rightarrow> ('z machine_scheme, unit) prog" where
  "fs_remove_all p = syscall ''remove_all'' (\<lambda>f. Inr ((), drop_paths (prefix p) f))
     (\<lambda>pr. drop_paths (\<lambda>q. prefix p q \<and> gone pr q))"

text \<open>\<^verbatim>\<open>std::filesystem::directory_iterator\<close>: the names of the entries, in an order nobody relies on.\<close>

definition fs_entries :: "path \<Rightarrow> ('z machine_scheme, string list) prog" where
  "fs_entries p = syscall ''directory iterator cannot open directory'' (\<lambda>f. case lookup f p of
      None \<Rightarrow> Inl ENOENT
    | Some Dir \<Rightarrow> Inr (children f p, f)
    | Some (File _) \<Rightarrow> Inl ENOTDIR) untouched"

section \<open>ioutil\<close>

definition k_open_read :: "string \<Rightarrow> path \<Rightarrow> ('z machine_scheme, unit) prog" where
  "k_open_read what p = syscall what (\<lambda>f. if lookup f p = None then Inl ENOENT else Inr ((), f)) untouched"

definition io_read :: "path \<Rightarrow> ('z machine_scheme, bytes) prog" where
  "io_read p = syscall ''read() failed'' (\<lambda>f. case lookup f p of
      Some (File bs) \<Rightarrow> Inr (bs, f) | Some Dir \<Rightarrow> Inl EISDIR | None \<Rightarrow> Inl EBADF) untouched"

definition readfile :: "path \<Rightarrow> ('z machine_scheme, bytes) prog" where
  "readfile p = thenS (k_open_read ''open'' p) (io_read p)"

text \<open>\<open>tryReadFile\<close> returns the error of \<open>open\<close> as a value and throws an error of \<open>read\<close>.\<close>

definition tryReadFile :: "path \<Rightarrow> ('z machine_scheme, (errno \<times> string) + bytes) prog" where
  "tryReadFile p =
     bindS
       (catchS (bindS (k_open_read ''Could not read file'' p) (\<lambda>_. retS None))
         (\<lambda>e. case e of SystemError n what \<Rightarrow> retS (Some (n, what)) | _ \<Rightarrow> throwS e))
       (\<lambda>failed. case failed of
          Some err \<Rightarrow> retS (Inl err)
        | None \<Rightarrow> bindS (io_read p) (\<lambda>bs. retS (Inr bs)))"

definition writefile :: "path \<Rightarrow> bytes \<Rightarrow> bool \<Rightarrow> ('z machine_scheme, unit) prog" where
  "writefile p bs must_create =
     thenS (if must_create then k_open_new ''open'' p else k_open_trunc ''open'' p) (io_write p bs)"

text \<open>\<open>readBytesExact\<close> on a fresh descriptor: the first \<open>n\<close> bytes, or an exception at the end.\<close>

definition readBytesExact_file :: "path \<Rightarrow> nat \<Rightarrow> string \<Rightarrow> ('z machine_scheme, bytes) prog" where
  "readBytesExact_file p n what =
     bindS (io_read p) (\<lambda>bs. if length bs < n then throwS (RuntimeError what) else retS (take n bs))"

text \<open>Random bytes; the kernel's source does not fail once it is open.\<close>

definition random_bytes :: "nat \<Rightarrow> ('z machine_scheme, bytes) prog" where
  "random_bytes n s = (Inr (map (entropy s) [0..<n]), s\<lparr>entropy := \<lambda>i. entropy s (i + n)\<rparr>)"

section \<open>Reasoning about system calls\<close>

lemma syscall_Works:
  "fate s (calls s) = Works \<Longrightarrow> syscall what full part s =
    (case full (fs s) of
       Inl e \<Rightarrow> (Inl (SystemError e what), s\<lparr>calls := Suc (calls s)\<rparr>)
     | Inr (x, fs') \<Rightarrow> (Inr x, s\<lparr>calls := Suc (calls s), fs := fs'\<rparr>))"
  by (simp add: syscall_def)

lemma syscall_Inr:
  "syscall what full part s = (Inr x, s') \<longleftrightarrow>
    fate s (calls s) = Works \<and>
    (\<exists>fs'. full (fs s) = Inr (x, fs') \<and> s' = s\<lparr>calls := Suc (calls s), fs := fs'\<rparr>)"
  by (auto simp: syscall_def split: fate.splits sum.splits)

text \<open>Which paths a program may change, however it ends; fate is not its to change.\<close>

definition same_except :: "(path \<Rightarrow> bool) \<Rightarrow> 'z machine_scheme \<Rightarrow> 'z machine_scheme \<Rightarrow> bool" where
  "same_except P s s' \<longleftrightarrow>
     fate s' = fate s \<and> (\<forall>q. \<not> P q \<longrightarrow> look s' q = look s q)"

interpretation change: effect "same_except P" for P
  by unfold_locales (auto simp: same_except_def)

lemma same_except_mono: "always (same_except P) m \<Longrightarrow> (\<And>q. P q \<Longrightarrow> Q q) \<Longrightarrow> always (same_except Q) m"
  unfolding always_def same_except_def by blast

lemma syscall_change:
  assumes "\<And>f x f' q. full f = Inr (x, f') \<Longrightarrow> \<not> P q \<Longrightarrow> lookup f' q = lookup f q"
    and "\<And>pr f q. \<not> P q \<Longrightarrow> lookup (part pr f) q = lookup f q"
  shows "always (same_except P) (syscall what full part)"
proof (rule alwaysI)
  fix s :: "'z machine_scheme"
  show "same_except P s (snd (syscall what full part s))"
    using assms(1) [of "fs s"] assms(2) [of _ _ "fs s"]
    by (auto simp: syscall_def same_except_def split: fate.splits sum.splits)
qed

lemma lookup_append_other: "q \<noteq> p \<Longrightarrow> lookup (append_to p bs f) q = lookup f q"
  by (simp add: append_to.simps lookup_put split: option.splits entry.splits)

lemma lookup_append: "lookup f p = Some (File old) \<Longrightarrow> lookup (append_to p bs f) p = Some (File (old @ bs))"
  by (simp add: append_to.simps lookup_put)

lemma query_change:
  "always (same_except P) (fs_exists p)" "always (same_except P) (fs_is_directory p)"
  "always (same_except P) (fs_is_empty p)" "always (same_except P) (k_open_read what p)"
  "always (same_except P) (io_read p)"
  unfolding fs_exists_def fs_is_directory_def fs_is_empty_def k_open_read_def io_read_def
  by (rule syscall_change; auto split: option.splits entry.splits if_splits)+

lemma entry_change:
  assumes "P p"
  shows "always (same_except P) (k_mkdir p)" "always (same_except P) (k_open_new what p)"
    "always (same_except P) (k_open_trunc what p)" "always (same_except P) (io_write p bs)"
    "always (same_except P) (fs_remove p)"
proof -
  have ne: "\<not> P q \<Longrightarrow> (q = p) = False" for q using assms by auto
  show "always (same_except P) (k_mkdir p)" "always (same_except P) (k_open_new what p)"
    "always (same_except P) (k_open_trunc what p)" "always (same_except P) (io_write p bs)"
    "always (same_except P) (fs_remove p)"
    unfolding k_mkdir_def k_open_new_def k_open_trunc_def io_write_def fs_remove_def
    using assms by (auto intro!: syscall_change simp: fs_simps lookup_append_other ne
        split: option.splits entry.splits if_splits)
qed

lemma remove_all_change: "(\<And>q. prefix p q \<Longrightarrow> P q) \<Longrightarrow> always (same_except P) (fs_remove_all p)"
  unfolding fs_remove_all_def by (rule syscall_change) (auto simp: fs_simps)

lemma rename_change:
  assumes "\<And>q. prefix from q \<Longrightarrow> P q" and "\<And>q. prefix to q \<Longrightarrow> P q"
  shows "always (same_except P) (k_rename from to)"
  unfolding k_rename_def using assms
  by (intro syscall_change) (auto simp: fs_simps split: option.splits entry.splits if_splits)

lemma random_change: "always (same_except P) (random_bytes n)"
  by (simp add: always_def random_bytes_def same_except_def)

lemma file_change:
  assumes "P p"
  shows "always (same_except P) (writefile p bs must_create)"
  unfolding writefile_def using assms by (auto intro: change.seq entry_change)

lemma read_change:
  "always (same_except P) (readfile p)" "always (same_except P) (readBytesExact_file p n what)"
  "always (same_except P) (tryReadFile p)"
  unfolding readfile_def readBytesExact_file_def tryReadFile_def
  by (auto intro!: change.seq change.bind change.catch query_change split: exn.split option.split)

lemmas fs_change = query_change remove_all_change random_change read_change

text \<open>A machine on which every call works, for examples.\<close>

definition sample_machine :: "file_system \<Rightarrow> machine" where
  "sample_machine f = \<lparr> fs = f, fate = (\<lambda>_. Works), calls = 0, entropy = (\<lambda>i. word_of_nat i) \<rparr>"

end
