(* ===== verification/KeyPair.thy ===== *)
theory KeyPair
  imports Uuid FileSystem
begin

text \<open>
  \<^verbatim>\<open>src/KeyPair.hpp\<close> and \<^verbatim>\<open>KeyPair.cpp\<close>: the key pairs of a repository, their file format, and
  how a private key is kept under a password. The functions of libsodium are the record
  \<open>sodium\<close>, a parameter of the definitions that call them; \<open>sodium_laws\<close> states what its
  documentation promises of them. The contents of a \<open>PasswordBuffer\<close> are its bytes.
\<close>

section \<open>libsodium\<close>

type_synonym key = bytes

record 'st sodium =
  sodium_init :: bool
  pwhash :: "nat \<Rightarrow> bytes \<Rightarrow> bytes \<Rightarrow> u64 \<Rightarrow> u64 \<Rightarrow> u32 \<Rightarrow> errno + bytes"
  box_keypair :: "bytes \<Rightarrow> (key \<times> key) option"
  aead_encrypt :: "key \<Rightarrow> bytes \<Rightarrow> bytes \<Rightarrow> bytes \<Rightarrow> bytes"
  aead_decrypt :: "key \<Rightarrow> bytes \<Rightarrow> bytes \<Rightarrow> bytes \<Rightarrow> bytes option"
  box_seal :: "key \<Rightarrow> bytes \<Rightarrow> bytes \<Rightarrow> bytes option"
  box_seal_open :: "key \<Rightarrow> key \<Rightarrow> bytes \<Rightarrow> bytes option"
  init_push :: "key \<Rightarrow> bytes \<Rightarrow> (bytes \<times> 'st) option"
  push :: "'st \<Rightarrow> bytes \<Rightarrow> u8 \<Rightarrow> bytes \<times> 'st"
  init_pull :: "bytes \<Rightarrow> key \<Rightarrow> 'st option"
  pull :: "'st \<Rightarrow> bytes \<Rightarrow> (bytes \<times> u8 \<times> 'st) option"

section \<open>Data\<close>

definition crypto_pwhash_SALTBYTES :: nat where "crypto_pwhash_SALTBYTES = 16"
definition NPUBBYTES :: nat where "NPUBBYTES = 24"
definition PUBLICKEYBYTES :: nat where "PUBLICKEYBYTES = 32"
definition SECRETKEYBYTES :: nat where "SECRETKEYBYTES = 32"
definition AEAD_KEYBYTES :: nat where "AEAD_KEYBYTES = 32"
definition AEAD_ABYTES :: nat where "AEAD_ABYTES = 16"

lemmas key_sizes = crypto_pwhash_SALTBYTES_def NPUBBYTES_def PUBLICKEYBYTES_def SECRETKEYBYTES_def
  AEAD_KEYBYTES_def AEAD_ABYTES_def

record kdf_params =
  opslimit :: u64
  memlimit :: u64
  passwordHashAlgorithm :: u32

definition default_kdf_params :: kdf_params where
  "default_kdf_params = \<lparr> opslimit = 4, memlimit = 1073741824, passwordHashAlgorithm = 2 \<rparr>"

record key_pair =
  kp_salt :: bytes
  kp_nonce :: bytes
  kp_kdfParams :: kdf_params
  kp_pubKey :: key
  kp_privKeyRepresentation :: bytes
  kp_version :: uuid

definition keypair_version :: uuid where
  "keypair_version = Uuid [0xee, 0x2c, 0x0c, 0xcd, 0xd0, 0x53, 0x83, 0x8b,
                           0xe9, 0x97, 0x05, 0xd8, 0xfd, 0x1f, 0xfd, 0x61]"

text \<open>The identifier of a key is its salt.\<close>

definition getKeyId :: "key_pair \<Rightarrow> bytes" where
  "getKeyId k = kp_salt k"

section \<open>Codecs\<close>

definition serialise_kdf_params :: "kdf_params \<Rightarrow> bytes" where
  "serialise_kdf_params p =
     serialise_int (opslimit p) @ serialise_int (memlimit p) @ serialise_int (passwordHashAlgorithm p)"

definition deserialise_kdf_params :: "(bytes, kdf_params) prog" where
  "deserialise_kdf_params =
     bindS deserialise_int (\<lambda>ops. bindS deserialise_int (\<lambda>mem. bindS deserialise_int (\<lambda>alg.
       retS \<lparr> opslimit = ops, memlimit = mem, passwordHashAlgorithm = alg \<rparr>)))"

definition serialise_key_pair :: "key_pair \<Rightarrow> bytes" where
  "serialise_key_pair k =
     serialise_uuid keypair_version @
     serialise_array serialise_byte (kp_salt k) @
     serialise_array serialise_byte (kp_nonce k) @
     serialise_kdf_params (kp_kdfParams k) @
     serialise_array serialise_byte (kp_pubKey k) @
     serialise_array serialise_byte (kp_privKeyRepresentation k)"

definition deserialise_key_pair :: "(bytes, key_pair) prog" where
  "deserialise_key_pair =
     bindS deserialise_uuid (\<lambda>version.
     bindS (deserialise_array crypto_pwhash_SALTBYTES deserialise_byte) (\<lambda>salt.
     bindS (deserialise_array NPUBBYTES deserialise_byte) (\<lambda>nonce.
     bindS deserialise_kdf_params (\<lambda>kdfParams.
     bindS (deserialise_array PUBLICKEYBYTES deserialise_byte) (\<lambda>pubKey.
     bindS (deserialise_array (SECRETKEYBYTES + AEAD_ABYTES) deserialise_byte) (\<lambda>priv.
       if version \<noteq> keypair_version then throwS (RuntimeError ''Version mismatch'')
       else retS \<lparr> kp_salt = salt, kp_nonce = nonce, kp_kdfParams = kdfParams, kp_pubKey = pubKey,
                   kp_privKeyRepresentation = priv, kp_version = version \<rparr>))))))"

definition key_pair_ok :: "key_pair \<Rightarrow> bool" where
  "key_pair_ok k \<longleftrightarrow>
     length (kp_salt k) = crypto_pwhash_SALTBYTES \<and> length (kp_nonce k) = NPUBBYTES \<and>
     length (kp_pubKey k) = PUBLICKEYBYTES \<and>
     length (kp_privKeyRepresentation k) = SECRETKEYBYTES + AEAD_ABYTES \<and>
     kp_version k = keypair_version"

interpretation kdf_params_codec: codec serialise_kdf_params deserialise_kdf_params "\<lambda>_. True"
proof (rule codecI)
  fix data x rest
  show "deserialise_kdf_params data = (Inr x, rest) \<longleftrightarrow> True \<and> data = serialise_kdf_params x @ rest"
    unfolding deserialise_kdf_params_def serialise_kdf_params_def bindS_eq_Inr
      u64_codec.accepts_iff u32_codec.accepts_iff
    by (cases x) auto
qed

lemma keypair_version_ok [simp]: "uuid_ok keypair_version"
  by (simp add: uuid_ok_def uuid_size_def keypair_version_def)

interpretation key_pair_codec: codec serialise_key_pair deserialise_key_pair key_pair_ok
proof
  fix x rest assume "key_pair_ok x"
  then show "deserialise_key_pair (serialise_key_pair x @ rest) = (Inr x, rest)"
    by (simp add: deserialise_key_pair_def serialise_key_pair_def key_pair_ok_def
        uuid_codec.roundtrip kdf_params_codec.roundtrip codec.roundtrip [OF byte_array_codec])
next
  fix data x rest assume "deserialise_key_pair data = (Inr x, rest)"
  then show "key_pair_ok x \<and> data = serialise_key_pair x @ rest"
    unfolding deserialise_key_pair_def serialise_key_pair_def key_pair_ok_def bindS_eq_Inr
      uuid_codec.accepts_iff kdf_params_codec.accepts_iff codec.accepts_iff [OF byte_array_codec]
    by (auto split: if_splits)
qed

section \<open>Keys\<close>

record encryption_key =
  keyNotPassword :: key
  ek_salt :: bytes
  ek_kdfParams :: kdf_params

definition encryption_key :: "'st sodium \<Rightarrow> bytes \<Rightarrow> bytes \<Rightarrow> kdf_params \<Rightarrow> encryption_key result" where
  "encryption_key na password salt params =
     (case pwhash na AEAD_KEYBYTES password salt (opslimit params) (memlimit params)
            (passwordHashAlgorithm params) of
        Inl errno \<Rightarrow>
          if errno = EINVAL then Inl (RuntimeError ''Invalid parameters for password hashing'')
          else Inl (RuntimeError ''Password hashing failed: out of memory'')
      | Inr key \<Rightarrow> Inr \<lparr> keyNotPassword = key, ek_salt = salt, ek_kdfParams = params \<rparr>)"

definition encryption_key_for :: "'st sodium \<Rightarrow> bytes \<Rightarrow> key_pair \<Rightarrow> encryption_key result" where
  "encryption_key_for na password k = encryption_key na password (kp_salt k) (kp_kdfParams k)"

definition salt_create :: "('z machine_scheme, bytes) prog" where
  "salt_create = random_bytes crypto_pwhash_SALTBYTES"

definition nonce_create :: "('z machine_scheme, bytes) prog" where
  "nonce_create = random_bytes NPUBBYTES"

definition aeadAdditionalData :: "bytes \<Rightarrow> kdf_params \<Rightarrow> bytes \<Rightarrow> key \<Rightarrow> uuid \<Rightarrow> bytes" where
  "aeadAdditionalData salt params nonce pubkey version =
     serialise_array serialise_byte (uuid_bytes version) @
     serialise_array serialise_byte salt @
     serialise_array serialise_byte nonce @
     serialise_int (opslimit params) @
     serialise_int (memlimit params) @
     serialise_int (passwordHashAlgorithm params) @
     serialise_array serialise_byte pubkey"

record decrypted_key_pair =
  dk_keyPair :: key_pair
  dk_privKeyPlaintext :: key

text \<open>\<open>generateFromKey\<close>; the secret key of a box comes from 32 random bytes.\<close>

definition generateFromKey ::
  "'st sodium \<Rightarrow> encryption_key \<Rightarrow> ('z machine_scheme, decrypted_key_pair) prog" where
  "generateFromKey na key =
     (if \<not> sodium_init na then throwS (RuntimeError ''libsodium init failed'')
      else
        bindS (random_bytes SECRETKEYBYTES) (\<lambda>seed.
        case box_keypair na seed of
          None \<Rightarrow> throwS (RuntimeError ''Failed to create keypair'')
        | Some (pubKey, privKey) \<Rightarrow>
            bindS nonce_create (\<lambda>nonce.
              let ad = aeadAdditionalData (ek_salt key) (ek_kdfParams key) nonce pubKey keypair_version;
                  repr = aead_encrypt na (keyNotPassword key) nonce ad privKey
              in retS \<lparr> dk_keyPair = \<lparr> kp_salt = ek_salt key, kp_nonce = nonce,
                           kp_kdfParams = ek_kdfParams key, kp_pubKey = pubKey,
                           kp_privKeyRepresentation = repr, kp_version = keypair_version \<rparr>,
                         dk_privKeyPlaintext = privKey \<rparr>)))"

definition generateFromPassphrase ::
  "'st sodium \<Rightarrow> kdf_params \<Rightarrow> bytes \<Rightarrow> ('z machine_scheme, decrypted_key_pair) prog" where
  "generateFromPassphrase na params password =
     bindS salt_create (\<lambda>salt.
     bindS (liftR (encryption_key na password salt params)) (generateFromKey na))"

definition decrypt_with_key ::
  "'st sodium \<Rightarrow> key_pair \<Rightarrow> encryption_key \<Rightarrow> decrypted_key_pair result" where
  "decrypt_with_key na k key =
     (if \<not> sodium_init na then Inl (RuntimeError ''libsodium init failed'')
      else case aead_decrypt na (keyNotPassword key) (kp_nonce k)
             (aeadAdditionalData (kp_salt k) (kp_kdfParams k) (kp_nonce k) (kp_pubKey k) (kp_version k))
             (kp_privKeyRepresentation k) of
          None \<Rightarrow> Inl (RuntimeError ''Decryption failure'')
        | Some priv \<Rightarrow> Inr \<lparr> dk_keyPair = k, dk_privKeyPlaintext = priv \<rparr>)"

definition decrypt_with_password ::
  "'st sodium \<Rightarrow> key_pair \<Rightarrow> bytes \<Rightarrow> decrypted_key_pair result" where
  "decrypt_with_password na k password =
     bindR (encryption_key_for na password k) (decrypt_with_key na k)"

text \<open>A key pair for examples.\<close>

definition sample_key_pair :: key_pair where
  "sample_key_pair = \<lparr> kp_salt = replicate 16 7, kp_nonce = replicate 24 0,
     kp_kdfParams = default_kdf_params, kp_pubKey = replicate 32 1,
     kp_privKeyRepresentation = replicate 48 0, kp_version = keypair_version \<rparr>"

end
