(* ===== verification/Repository.thy ===== *)
theory Repository
  imports BackendDriver KeyPair Text
begin

text \<open>
  \<^verbatim>\<open>src/RepositoryStructure.hpp\<close> and \<^verbatim>\<open>RepositoryStructure.cpp\<close>: the repository on the file
  system. The record \<open>repository_structure\<close> is the in-memory object; its methods are programs over the
  machine extended by it. Advisory locking is not modelled beyond the lock file, since one
  process runs at a time.
\<close>

section \<open>State\<close>

record breadcrumb =
  untrusted_begin :: node
  last_trusted_node_authorised_at :: time_point

record repository_structure =
  rs_repository :: path
  rs_format :: uuid
  rs_initargs :: "string list"
  rs_breadcrumb :: breadcrumb
  rs_temporary :: "nat option"
  rs_checkouts :: nat

record repo_state = machine +
  rs :: repository_structure

definition snapshotsDirName :: string where "snapshotsDirName = ''snapshots''"
definition temporarySnapshotDirName :: string where "temporarySnapshotDirName = ''temporary-snapshot''"
definition payloadFileName :: string where "payloadFileName = ''blob''"
definition idFileName :: string where "idFileName = ''id''"
definition initArgsFileName :: string where "initArgsFileName = ''initargs''"
definition keysDirName :: string where "keysDirName = ''keys''"
definition userDataDirName :: string where "userDataDirName = ''user-data''"
definition breadcrumbFileName :: string where "breadcrumbFileName = ''breadcrumb''"
definition lockFileName :: string where "lockFileName = ''lock''"
definition uuidFileName :: string where "uuidFileName = ''repository-uuid''"

lemmas file_names = snapshotsDirName_def temporarySnapshotDirName_def payloadFileName_def
  idFileName_def initArgsFileName_def keysDirName_def userDataDirName_def breadcrumbFileName_def
  lockFileName_def uuidFileName_def

definition maxKeySlots :: nat where "maxKeySlots = 255"

definition pathForNode :: "repository_structure \<Rightarrow> node \<Rightarrow> path" where
  "pathForNode r node = rs_repository r @ [snapshotsDirName, to_string (unat (node_value node))]"

definition temporaryPath :: "repository_structure \<Rightarrow> path" where
  "temporaryPath r = rs_repository r @ [temporarySnapshotDirName]"

lemma path_updates [simp]:
  "temporaryPath (r\<lparr>rs_temporary := t\<rparr>) = temporaryPath r"
  "temporaryPath (r\<lparr>rs_breadcrumb := b\<rparr>) = temporaryPath r"
  "temporaryPath (r\<lparr>rs_checkouts := n\<rparr>) = temporaryPath r"
  "pathForNode (r\<lparr>rs_temporary := t\<rparr>) = pathForNode r"
  "pathForNode (r\<lparr>rs_breadcrumb := b\<rparr>) = pathForNode r"
  "pathForNode (r\<lparr>rs_checkouts := n\<rparr>) = pathForNode r"
  by (simp_all add: temporaryPath_def pathForNode_def fun_eq_iff)

section \<open>Key files\<close>

text \<open>
  The functor threads what it has collected and says whether to stop. At most \<open>maxKeySlots\<close>
  files are tried, in order, up to the first that is missing.
\<close>

fun key_file_loop ::
  "path \<Rightarrow> ('a \<Rightarrow> path \<Rightarrow> ('z machine_scheme, 'a \<times> bool) prog) \<Rightarrow> nat \<Rightarrow> nat \<Rightarrow> 'a \<Rightarrow>
    ('z machine_scheme, 'a) prog" where
  "key_file_loop dir f 0 i acc = retS acc"
| "key_file_loop dir f (Suc n) i acc =
     bindS (fs_exists (dir @ [to_string i])) (\<lambda>present.
       if present then
         bindS (f acc (dir @ [to_string i])) (\<lambda>(acc', stop).
           if stop then retS acc' else key_file_loop dir f n (Suc i) acc')
       else retS acc)"

definition withKeyFiles ::
  "path \<Rightarrow> ('a \<Rightarrow> path \<Rightarrow> ('z machine_scheme, 'a \<times> bool) prog) \<Rightarrow> 'a \<Rightarrow> ('z machine_scheme, 'a) prog" where
  "withKeyFiles repository f acc =
     (let dir = repository @ [keysDirName] in
      bindS (fs_exists dir) (\<lambda>present.
      bindS (if present then fs_is_directory dir else retS False) (\<lambda>ok.
        if \<not> ok then throwS (RuntimeError ''Invalid keys directory for repository'')
        else key_file_loop dir f maxKeySlots 0 acc)))"

definition getKeyFiles :: "path \<Rightarrow> ('z machine_scheme, path list) prog" where
  "getKeyFiles repository = withKeyFiles repository (\<lambda>acc p. retS (acc @ [p], False)) []"

definition withKeyPairs ::
  "path \<Rightarrow> ('a \<Rightarrow> key_pair \<Rightarrow> ('z machine_scheme, 'a \<times> bool) prog) \<Rightarrow> 'a \<Rightarrow> ('z machine_scheme, 'a) prog" where
  "withKeyPairs repository f =
     withKeyFiles repository (\<lambda>acc p.
       thenS (k_open_read ''Could not open keyfile'' p)
       (bindS (io_read p) (\<lambda>buf.
        bindS (liftR (fst (deserialise_key_pair buf))) (f acc))))"

definition readKeyPairs :: "('z repo_state_scheme, key_pair list) prog" where
  "readKeyPairs s = withKeyPairs (rs_repository (rs s)) (\<lambda>acc k. retS (acc @ [k], False)) [] s"

definition storeKeyPair :: "path \<Rightarrow> key_pair \<Rightarrow> ('z machine_scheme, unit) prog" where
  "storeKeyPair repository k =
     bindS (getKeyFiles repository) (\<lambda>paths.
       let p = repository @ [keysDirName, to_string (length paths)] in
       thenS (k_open_new ''open keyfile'' p) (io_write p (serialise_key_pair k)))"

section \<open>Snapshots\<close>

definition tryGetEncodedSnapshotId2 ::
  "node \<Rightarrow> ('z repo_state_scheme, (errno \<times> string) + encoded) prog" where
  "tryGetEncodedSnapshotId2 node s =
     bindS (tryReadFile (pathForNode (rs s) node @ [idFileName])) (\<lambda>bytes. case bytes of
         Inl err \<Rightarrow> retS (Inl err)
       | Inr bs \<Rightarrow> bindS (liftR (encoded_deserialise bs)) (\<lambda>out.
           if encoded_node out \<noteq> node
           then throwS (RuntimeError ''Node mismatch in repository: repository in invalid state'')
           else retS (Inr out))) s"

definition tryGetEncodedSnapshotId :: "node \<Rightarrow> ('z repo_state_scheme, encoded option) prog" where
  "tryGetEncodedSnapshotId node =
     bindS (tryGetEncodedSnapshotId2 node) (\<lambda>out. case out of
         Inr e \<Rightarrow> retS (Some e)
       | Inl (n, what) \<Rightarrow> if n = ENOENT then retS None else throwS (SystemError n what))"

definition getEncodedSnapshotId :: "node \<Rightarrow> ('z repo_state_scheme, encoded) prog" where
  "getEncodedSnapshotId node =
     bindS (tryGetEncodedSnapshotId2 node) (\<lambda>out. case out of
         Inr e \<Rightarrow> retS e
       | Inl (n, what) \<Rightarrow> throwS (SystemError n what))"

definition nodeExists :: "node \<Rightarrow> ('z repo_state_scheme, bool) prog" where
  "nodeExists node s = fs_exists (pathForNode (rs s) node) s"

definition createPayloadFdForReading :: "node \<Rightarrow> ('z repo_state_scheme, path) prog" where
  "createPayloadFdForReading node s =
     (let p = pathForNode (rs s) node @ [payloadFileName] in
      thenS (k_open_read ''open'' p) (retS p) s)"

definition deleteNode :: "node \<Rightarrow> ('z repo_state_scheme, unit) prog" where
  "deleteNode node s = fs_remove_all (pathForNode (rs s) node) s"

definition getRepositoryUuid :: "('z repo_state_scheme, uuid) prog" where
  "getRepositoryUuid s =
     (let p = rs_repository (rs s) @ [uuidFileName] in
      thenS (k_open_read ''open'' p)
        (bindS (readBytesExact_file p uuid_size ''Unexpected EOF'') (\<lambda>bytes. retS (Uuid bytes))) s)"

section \<open>The breadcrumb\<close>

definition serialise_breadcrumb :: "breadcrumb \<Rightarrow> bytes" where
  "serialise_breadcrumb b =
     serialise_int (node_value (untrusted_begin b)) @
     serialise_time_point (last_trusted_node_authorised_at b)"

definition deserialise_breadcrumb :: "(bytes, breadcrumb) prog" where
  "deserialise_breadcrumb =
     bindS deserialise_int (\<lambda>value. bindS deserialise_time_point (\<lambda>t.
       retS \<lparr> untrusted_begin = Node value, last_trusted_node_authorised_at = t \<rparr>))"

definition writeBreadcrumb :: "breadcrumb \<Rightarrow> ('z repo_state_scheme, unit) prog" where
  "writeBreadcrumb b s =
     thenS (writefile (rs_repository (rs s) @ [breadcrumbFileName]) (serialise_breadcrumb b) False)
       (modifyS (\<lambda>s. s\<lparr>rs := (rs s)\<lparr>rs_breadcrumb := b\<rparr>\<rparr>)) s"

definition getLatestTrustedNode :: "repository_structure \<Rightarrow> node option" where
  "getLatestTrustedNode r =
     (let node = untrusted_begin (rs_breadcrumb r)
      in if node = initial_value then None else Some node)"

section \<open>Temporary snapshots\<close>

text \<open>
  \<open>checkOutTemporarySnapshot\<close> empties or creates the temporary directory and opens a new
  payload file in it. The shared pointer to its \<open>Impl\<close> is a number no other one has.
\<close>

definition temporary_impl :: "path \<Rightarrow> ('z machine_scheme, unit) prog" where
  "temporary_impl tmp =
     thenS
       (bindS (fs_exists tmp) (\<lambda>present.
          if present
          then thenS (fs_remove (tmp @ [idFileName])) (fs_remove (tmp @ [payloadFileName]))
          else create_directories tmp))
       (k_open_new ''Could not open file'' (tmp @ [payloadFileName]))"

definition checkOutTemporarySnapshot :: "('z repo_state_scheme, nat) prog" where
  "checkOutTemporarySnapshot s =
     (if rs_temporary (rs s) \<noteq> None then throwS (LogicError ''TemporarySnapshot already checked out'')
      else
        thenS (temporary_impl (temporaryPath (rs s)))
          (let n = rs_checkouts (rs s) in
           thenS (modifyS (\<lambda>s. s\<lparr>rs := (rs s)\<lparr>rs_temporary := Some n, rs_checkouts := Suc n\<rparr>\<rparr>))
             (retS n))) s"

definition temporary_commit :: "encoded \<Rightarrow> ('z repo_state_scheme, unit) prog" where
  "temporary_commit e s =
     (let rename_to = pathForNode (rs s) (encoded_node e); tmp = temporaryPath (rs s) in
      thenS (writefile (tmp @ [idFileName]) (encoded_serialise e) False)
        (catchS (k_rename tmp rename_to) (\<lambda>err. case err of
             SystemError n what \<Rightarrow>
               bindS (fs_exists rename_to) (\<lambda>present.
                 if present
                 then throwS (RuntimeError (''Node '' @ to_string (unat (node_value (encoded_node e))) @
                   ''already exists in repository; this is unexpected''))
                 else throwS err)
           | _ \<Rightarrow> throwS err))) s"

definition commit :: "nat \<Rightarrow> encoded \<Rightarrow> ('z repo_state_scheme, unit) prog" where
  "commit temporarySnapshot e s =
     (if rs_temporary (rs s) \<noteq> Some temporarySnapshot
      then throwS (InvalidArgument ''Invalid TemporarySnapshot: owner mismatch'')
      else
        thenS (modifyS (\<lambda>s. s\<lparr>rs := (rs s)\<lparr>rs_temporary := None\<rparr>\<rparr>))
        (thenS (temporary_commit e)
        (bindS (liftR (next_node (encoded_node e))) (\<lambda>next.
           writeBreadcrumb
             \<lparr> untrusted_begin = next, last_trusted_node_authorised_at = encoded_timestamp e \<rparr>)))) s"

section \<open>Walking the nodes\<close>

text \<open>
  The loop of \<open>getNextSnapshotNode\<close>, which asks for the snapshot of \<open>prev\<close> and continues from
  the node stored in it. \<open>None\<close> is the loop that does not end.
\<close>

partial_function (option) next_snapshot_loop ::
  "node \<Rightarrow> 'z repo_state_scheme \<Rightarrow> (node result \<times> 'z repo_state_scheme) option" where
  "next_snapshot_loop prev s =
     (case tryGetEncodedSnapshotId prev s of
        (Inl e, s') \<Rightarrow> Some (Inl e, s')
      | (Inr None, s') \<Rightarrow> Some (Inr prev, s')
      | (Inr (Some next), s') \<Rightarrow> next_snapshot_loop (encoded_node next) s')"

definition getNextSnapshotNode :: "('z repo_state_scheme, node) prog" where
  "getNextSnapshotNode s =
     (case next_snapshot_loop (untrusted_begin (rs_breadcrumb (rs s))) s of
        None \<Rightarrow> (Inl Diverges, s)
      | Some r \<Rightarrow> r)"

function node_range :: "node \<Rightarrow> node \<Rightarrow> node list result" where
  "node_range node end_node =
     (if node = end_node then Inr []
      else case next_node node of
        Inl e \<Rightarrow> Inl e
      | Inr next \<Rightarrow> bindR (node_range next end_node) (\<lambda>rest. Inr (node # rest)))"
  by pat_completeness auto
termination
proof (relation "measure (\<lambda>(node, _). 2 ^ 64 - unat (node_value node))", goal_cases)
  case (2 node end_node n)
  then have "node_value node < node_value n"
    using next_node_less by (simp add: less_node_def)
  then show ?case using word_room by simp
qed simp
declare node_range.simps [simp del]

definition getNodesIncludingUntrusted :: "node \<Rightarrow> ('z repo_state_scheme, node list) prog" where
  "getNodesIncludingUntrusted end_node s =
     (let first = untrusted_begin (rs_breadcrumb (rs s)) in
      if first = initial_value then retS []
      else
        bindS (fold_trace (\<lambda>out node. bindS (nodeExists node) (\<lambda>present.
                 retS (if present then out @ [node] else out))) []
               (node_alive_after (Node (node_value first - 1)))) (\<lambda>out.
        bindS getNextSnapshotNode (\<lambda>next.
        bindS (liftR (node_range first (if end_node = Node 0 then next else min end_node next))) (\<lambda>untrusted.
          retS (sort (out @ untrusted)))))) s"

text \<open>\<open>foreachNode\<close>: entries of other kinds are ignored.\<close>

definition foreachNode :: "(node \<Rightarrow> ('z repo_state_scheme, unit) prog) \<Rightarrow> ('z repo_state_scheme, unit) prog" where
  "foreachNode f s =
     (let dir = rs_repository (rs s) @ [snapshotsDirName] in
      bindS (fs_entries dir) (forS (\<lambda>filename.
        bindS (fs_is_directory (dir @ [filename])) (\<lambda>isdir.
          if isdir \<and> list_all is_digit filename
          then bindS (liftR (stoull filename)) (\<lambda>n. f (Node n))
          else retS ())))) s"

text \<open>
  \<open>getNodeRelativeToLastTrusted\<close> computes in \<^verbatim>\<open>int64_t\<close>; \<open>offset\<close> is in its range.
\<close>

fun follow_snapshots :: "nat \<Rightarrow> encoded option \<Rightarrow> ('z repo_state_scheme, encoded option) prog" where
  "follow_snapshots 0 next = retS next"
| "follow_snapshots (Suc n) next =
     (case next of
        None \<Rightarrow> retS None
      | Some e \<Rightarrow>
          bindS (liftR (next_node (encoded_node e))) (\<lambda>node.
          bindS (tryGetEncodedSnapshotId node) (follow_snapshots n)))"

definition getNodeRelativeToLastTrusted :: "int \<Rightarrow> ('z repo_state_scheme, encoded option) prog" where
  "getNodeRelativeToLastTrusted offset s =
     (let first = node_value (untrusted_begin (rs_breadcrumb (rs s)));
          offset_prime = max (- (2 ^ 63) + 1) offset - 1
      in if 0 < offset_prime then
           bindS (tryGetEncodedSnapshotId (Node first)) (follow_snapshots (nat offset_prime))
         else if 2 ^ 63 - 1 < uint first then throwS (RuntimeError ''Node too big'')
         else if - uint first \<le> offset_prime
         then tryGetEncodedSnapshotId (Node (first + word_of_int offset))
         else retS None) s"

section \<open>Creating and opening a repository\<close>

definition timestamp_min :: time_point where
  "timestamp_min = TimePoint (2 ^ 63)"

definition deserialise_initargs :: "(bytes, uuid \<times> string list) prog" where
  "deserialise_initargs =
     bindS deserialise_uuid (\<lambda>format.
     bindS (deserialise_vector 32 deserialise_string) (\<lambda>args. retS (format, args)))"

text \<open>The constructor of \<open>RepositoryStructure\<close>.\<close>

definition open_repository :: "path \<Rightarrow> ('z machine_scheme, repository_structure) prog" where
  "open_repository repository =
     thenS (k_open_trunc (lockFileName) (repository @ [lockFileName]))
     (bindS (readfile (repository @ [initArgsFileName])) (\<lambda>data.
      bindS (liftR (fst (deserialise_initargs data))) (\<lambda>(format, initargs).
      if initargs = [] then throwS (RuntimeError ''Repository initargs were non-valid (empty)'')
      else
        bindS (fs_exists (repository @ [breadcrumbFileName])) (\<lambda>present.
        bindS (if present
               then bindS (readfile (repository @ [breadcrumbFileName])) (\<lambda>bytes.
                      liftR (fst (deserialise_breadcrumb bytes)))
               else retS \<lparr> untrusted_begin = Node 0, last_trusted_node_authorised_at = timestamp_min \<rparr>)
          (\<lambda>b. retS \<lparr> rs_repository = repository, rs_format = format, rs_initargs = initargs,
                      rs_breadcrumb = b, rs_temporary = None, rs_checkouts = 0 \<rparr>)))))"

text \<open>\<open>Uuid::random\<close> opens the kernel's random source and reads from it.\<close>

definition uuid_random :: "('z machine_scheme, uuid) prog" where
  "uuid_random =
     thenS (syscall ''open'' (\<lambda>f. Inr ((), f)) untouched)
       (bindS (random_bytes uuid_size) (\<lambda>bytes. retS (Uuid bytes)))"

definition createRepository ::
  "path \<Rightarrow> uuid \<Rightarrow> string list \<Rightarrow> ('z machine_scheme, repository_structure) prog" where
  "createRepository repository format initargs =
     (if initargs = [] then throwS (InvalidArgument ''Invalid initargs (empty)'')
      else
        bindS (fs_exists repository) (\<lambda>present.
        bindS (if present then fs_is_empty repository else retS True) (\<lambda>fresh.
        if \<not> fresh then throwS (RuntimeError ''Repository already exists'')
        else
          thenS (create_directories repository)
          (thenS (create_directories (repository @ [snapshotsDirName]))
          (thenS (create_directories (repository @ [userDataDirName]))
          (thenS (create_directories (repository @ [keysDirName]))
          (bindS uuid_random (\<lambda>uuid.
           thenS (writefile (repository @ [uuidFileName]) (uuid_bytes uuid) True)
           (thenS (writefile (repository @ [initArgsFileName])
                    (serialise_uuid format @ serialise_vector serialise_string initargs) True)
             (open_repository repository))))))))))"

end
