(* ===== verification/RepositoryFacts.thy ===== *)
theory RepositoryFacts
  imports Repository
begin

text \<open>
  What the operations of the repository do, on every path through them: the atomic commit of a
  snapshot under any failure, the persistence of the breadcrumb, the lookups of snapshots, key
  pairs and nodes, and the round trip of creating and opening a repository.
\<close>

section \<open>Single calls\<close>

lemma writefile_Inr: "writefile p bs must_create s = (Inr (), s') \<Longrightarrow> look s' p = Some (File bs)"
  by (auto simp: writefile_def thenS_eq_Inr k_open_new_def k_open_trunc_def io_write_def syscall_Inr
      append_to.simps lookup_put split: if_splits)

lemma writefile_other:
  assumes "writefile p bs must_create s = (r, s')" and "q \<noteq> p"
  shows "look s' q = look s q"
  using alwaysD [OF file_change assms(1), of "\<lambda>q. q = p"] assms(2) by (simp add: same_except_def)

lemma syscall_rest:
  "syscall what full part s = (r, s') \<Longrightarrow> s' = s\<lparr>calls := calls s', fs := fs s'\<rparr>"
  by (auto simp: syscall_def split: fate.splits sum.splits)

lemma rename_outcome:
  assumes "k_rename from to s = (r, s')" and "\<not> prefix from to" and "\<not> prefix to from"
  shows "(\<exists>e. r = Inl e) \<and> fs s' = fs s \<or> r = Inr () \<and> fs s' = move_tree from to (fs s)"
  using assms by (auto simp: k_rename_def syscall_def split: fate.splits sum.splits option.splits
      entry.splits if_splits)

lemma query_outcome:
  "fs_exists p s = (r, s') \<Longrightarrow> fs s' = fs s"
  by (auto simp: fs_exists_def syscall_def split: fate.splits sum.splits)

text \<open>The calls that do not look at the in-memory object leave it alone.\<close>

definition keeps_rs :: "'z repo_state_scheme \<Rightarrow> 'z repo_state_scheme \<Rightarrow> bool" where
  "keeps_rs s s' \<longleftrightarrow> rs s' = rs s"

interpretation keep: effect keeps_rs
  by unfold_locales (simp_all add: keeps_rs_def)

lemma syscall_keeps: "always keeps_rs (syscall what full part)"
  by (auto simp: always_def keeps_rs_def syscall_def split: fate.splits sum.splits)

lemma calls_keep:
  "always keeps_rs (fs_exists p)" "always keeps_rs (fs_is_directory p)" "always keeps_rs (fs_is_empty p)"
  "always keeps_rs (k_open_new what p)" "always keeps_rs (k_open_trunc what p)"
  "always keeps_rs (k_open_read what p)" "always keeps_rs (io_read p)" "always keeps_rs (io_write p bs)"
  "always keeps_rs (k_rename p q)" "always keeps_rs (fs_remove p)" "always keeps_rs (fs_remove_all p)"
  "always keeps_rs (k_mkdir p)"
  unfolding fs_exists_def fs_is_directory_def fs_is_empty_def k_open_new_def k_open_trunc_def
    k_open_read_def io_read_def io_write_def k_rename_def fs_remove_def fs_remove_all_def k_mkdir_def
  by (rule syscall_keeps)+

lemma files_keep:
  "always keeps_rs (writefile p bs must_create)" "always keeps_rs (readfile p)"
  "always keeps_rs (tryReadFile p)" "always keeps_rs (create_directories p)"
  unfolding writefile_def readfile_def tryReadFile_def create_directories_def
  by (auto intro!: keep.seq keep.bind keep.catch keep.loop calls_keep split: exn.split option.split)

section \<open>The atomic commit\<close>

lemma paths_apart:
  "\<not> prefix (temporaryPath r) (pathForNode r n)" "\<not> prefix (pathForNode r n) (temporaryPath r)"
  "\<not> prefix (temporaryPath r) (rs_repository r @ [breadcrumbFileName])"
  "\<not> prefix (pathForNode r n) (rs_repository r @ [breadcrumbFileName])"
  "\<not> prefix (rs_repository r @ [breadcrumbFileName]) (pathForNode r n)"
  by (simp_all add: temporaryPath_def pathForNode_def file_names)

lemma node_not_breadcrumb [simp]:
  "pathForNode r n \<noteq> rs_repository r @ [breadcrumbFileName]"
  "pathForNode r n @ xs \<noteq> rs_repository r @ [breadcrumbFileName]"
  by (auto simp: pathForNode_def file_names)

lemma node_paths_apart: "m \<noteq> n \<Longrightarrow> \<not> prefix (pathForNode r m) (pathForNode r n @ q)"
  by (auto simp: pathForNode_def word_unat_eq_iff node.expand)

text \<open>
  \<open>stored s n e payload\<close>: the node's directory holds exactly what the temporary snapshot held,
  and the identifier \<open>e\<close>.
\<close>

definition stored :: "'z repo_state_scheme \<Rightarrow> node \<Rightarrow> encoded \<Rightarrow> bytes \<Rightarrow> bool" where
  "stored s n e payload \<longleftrightarrow>
     look s (pathForNode (rs s) n) = Some Dir \<and>
     look s (pathForNode (rs s) n @ [idFileName]) = Some (File (encoded_serialise e)) \<and>
     look s (pathForNode (rs s) n @ [payloadFileName]) = Some (File payload)"

definition absent :: "'z repo_state_scheme \<Rightarrow> node \<Rightarrow> bool" where
  "absent s n \<longleftrightarrow> (\<forall>q. prefix (pathForNode (rs s) n) q \<longrightarrow> look s q = None)"

definition temporary_ready :: "'z repo_state_scheme \<Rightarrow> bytes \<Rightarrow> bool" where
  "temporary_ready s payload \<longleftrightarrow>
     look s (temporaryPath (rs s)) = Some Dir \<and>
     look s (temporaryPath (rs s) @ [payloadFileName]) = Some (File payload)"

lemma temporary_commit_outcome:
  assumes "temporary_commit e s = (r, s')" and "temporary_ready s payload"
  shows "rs s' = rs s \<and>
    (\<forall>q. \<not> prefix (temporaryPath (rs s)) q \<and> \<not> prefix (pathForNode (rs s) (encoded_node e)) q \<longrightarrow>
      look s' q = look s q) \<and>
    ((\<exists>x. r = Inl x) \<and> (absent s (encoded_node e) \<longrightarrow> absent s' (encoded_node e)) \<or>
     r = Inr () \<and> stored s' (encoded_node e) e payload)"
proof -
  define tmp where "tmp = temporaryPath (rs s)"
  define dst where "dst = pathForNode (rs s) (encoded_node e)"
  have apart: "\<not> prefix tmp dst" "\<not> prefix dst tmp" unfolding tmp_def dst_def by (rule paths_apart)+
  obtain r1 s1 where w: "writefile (tmp @ [idFileName]) (encoded_serialise e) False s = (r1, s1)" by fastforce
  have rs1: "rs s1 = rs s" using alwaysD [OF files_keep(1) w] by (simp add: keeps_rs_def)
  have other: "look s1 q = look s q" if "q \<noteq> tmp @ [idFileName]" for q using writefile_other [OF w that] .
  have dst_same: "prefix dst q \<Longrightarrow> look s1 q = look s q" for q
    using apart by (intro other) (metis prefix_order.trans prefixI prefix_same_cases)
  have frame1: "\<not> prefix tmp q \<Longrightarrow> look s1 q = look s q" for q by (rule other) auto
  show ?thesis
  proof (cases r1)
    case (Inl x)
    then have "r = Inl x" "s' = s1"
      using assms(1) w by (simp_all add: temporary_commit_def Let_def tmp_def)
    then show ?thesis
      using rs1 dst_same frame1 by (auto simp: absent_def tmp_def dst_def)
  next
    case (Inr u)
    then have id: "look s1 (tmp @ [idFileName]) = Some (File (encoded_serialise e))"
      using writefile_Inr [of "tmp @ [idFileName]"] w by simp
    obtain r2 s2 where k: "k_rename tmp dst s1 = (r2, s2)" by fastforce
    have rs2: "rs s2 = rs s" using alwaysD [OF calls_keep(9) k] rs1 by (simp add: keeps_rs_def)
    show ?thesis
    proof (cases r2)
      case (Inr u')
      then have r: "r = Inr ()" "s' = s2"
        using assms(1) w k \<open>r1 = Inr u\<close> by (simp_all add: temporary_commit_def Let_def tmp_def dst_def)
      have m: "fs s2 = move_tree tmp dst (fs s1)" using rename_outcome [OF k apart] Inr by auto
      have "look s1 tmp = Some Dir" "look s1 (tmp @ [payloadFileName]) = Some (File payload)"
        using assms(2) other by (auto simp: temporary_ready_def tmp_def file_names)
      then have "stored s2 (encoded_node e) e payload"
        using id apart by (simp add: stored_def m lookup_move rs2 flip: dst_def)
      moreover have "look s2 q = look s q" if "\<not> prefix tmp q" "\<not> prefix dst q" for q
        using that frame1 apart by (simp add: m lookup_move)
      ultimately show ?thesis using r rs2 by (simp add: tmp_def dst_def)
    next
      case (Inl x)
      then have same: "fs s2 = fs s1" using rename_outcome [OF k apart] by auto
      have "(\<exists>x. r = Inl x) \<and> fs s' = fs s2 \<and> rs s' = rs s2"
      proof (cases "\<exists>n what. x = SystemError n what")
        case True
        obtain r3 s3 where ex: "fs_exists dst s2 = (r3, s3)" by fastforce
        have "fs s3 = fs s2" "rs s3 = rs s2"
          using query_outcome [OF ex] alwaysD [OF calls_keep(1) ex] by (simp_all add: keeps_rs_def)
        then show ?thesis
          using True ex assms(1) w k Inl \<open>r1 = Inr u\<close>
          by (cases r3) (auto simp: temporary_commit_def Let_def tmp_def dst_def split: if_splits)
      next
        case False
        then show ?thesis
          using assms(1) w k Inl \<open>r1 = Inr u\<close>
          by (cases x) (auto simp: temporary_commit_def Let_def tmp_def dst_def)
      qed
      then show ?thesis
        using same rs2 dst_same frame1 by (auto simp: absent_def tmp_def dst_def)
    qed
  qed
qed

lemma writeBreadcrumb_outcome:
  assumes "writeBreadcrumb b s = (r, s')"
  shows "(\<forall>q. q \<noteq> rs_repository (rs s) @ [breadcrumbFileName] \<longrightarrow> look s' q = look s q) \<and>
    ((\<exists>x. r = Inl x) \<and> rs s' = rs s \<or>
     r = Inr () \<and> rs s' = (rs s)\<lparr>rs_breadcrumb := b\<rparr> \<and>
       look s' (rs_repository (rs s) @ [breadcrumbFileName]) = Some (File (serialise_breadcrumb b)))"
proof -
  let ?p = "rs_repository (rs s) @ [breadcrumbFileName]"
  obtain r1 s1 where w: "writefile ?p (serialise_breadcrumb b) False s = (r1, s1)" by fastforce
  have "rs s1 = rs s" using alwaysD [OF files_keep(1) w] by (simp add: keeps_rs_def)
  moreover have "r1 = Inr () \<Longrightarrow> look s1 ?p = Some (File (serialise_breadcrumb b))"
    using writefile_Inr w by blast
  ultimately show ?thesis
    using assms w writefile_other [OF w] by (cases r1) (auto simp: writeBreadcrumb_def)
qed

lemma commit_outcome:
  assumes "commit tok e s = (r, s')" and "temporary_ready s payload" and "absent s (encoded_node e)"
  shows "(\<forall>q. \<not> prefix (temporaryPath (rs s)) q \<and> \<not> prefix (pathForNode (rs s) (encoded_node e)) q \<and>
      q \<noteq> rs_repository (rs s) @ [breadcrumbFileName] \<longrightarrow> look s' q = look s q) \<and>
    (absent s' (encoded_node e) \<or> stored s' (encoded_node e) e payload) \<and>
    (r = Inr () \<longrightarrow> stored s' (encoded_node e) e payload \<and>
      (\<exists>b. next_node (encoded_node e) = Inr (untrusted_begin b) \<and>
        last_trusted_node_authorised_at b = encoded_timestamp e \<and>
        rs s' = (rs s)\<lparr>rs_temporary := None, rs_breadcrumb := b\<rparr> \<and>
        look s' (rs_repository (rs s) @ [breadcrumbFileName]) = Some (File (serialise_breadcrumb b))))"
proof (cases "rs_temporary (rs s) = Some tok")
  case False
  then show ?thesis using assms by (auto simp: commit_def)
next
  case True
  define s0 where "s0 = s\<lparr>rs := (rs s)\<lparr>rs_temporary := None\<rparr>\<rparr>"
  have s0: "look s0 q = look s q" "rs s0 = (rs s)\<lparr>rs_temporary := None\<rparr>" for q by (simp_all add: s0_def)
  obtain r1 s1 where c: "temporary_commit e s0 = (r1, s1)" by fastforce
  have "temporary_ready s0 payload" "absent s0 (encoded_node e)"
    using assms(2,3) s0(1) by (simp_all add: temporary_ready_def absent_def s0)
  note out = temporary_commit_outcome [OF c this(1)] this(2)
  have step: "commit tok e s = bindS (temporary_commit e) (\<lambda>_. bindS (liftR (next_node (encoded_node e)))
      (\<lambda>n. writeBreadcrumb \<lparr> untrusted_begin = n, last_trusted_node_authorised_at = encoded_timestamp e \<rparr>)) s0"
    using True by (simp add: commit_def thenS_def s0_def bindS_def)
  show ?thesis
  proof (cases r1)
    case (Inl x)
    then have "r = Inl x" "s' = s1" using assms(1) step c by simp_all
    then show ?thesis using out Inl by (auto simp: s0)
  next
    case (Inr u)
    then have st: "stored s1 (encoded_node e) e payload" "rs s1 = rs s0" using out by auto
    show ?thesis
    proof (cases "next_node (encoded_node e)")
      case nn: (Inl x)
      then have "r = Inl x" "s' = s1" using assms(1) step c Inr by simp_all
      then show ?thesis using out Inr by (auto simp: s0)
    next
      case nn: (Inr n)
      let ?b = "\<lparr> untrusted_begin = n, last_trusted_node_authorised_at = encoded_timestamp e \<rparr>"
      have w: "writeBreadcrumb ?b s1 = (r, s')" using assms(1) step c Inr nn by simp
      note wo = writeBreadcrumb_outcome [OF w]
      have bc: "rs_repository (rs s1) @ [breadcrumbFileName] = rs_repository (rs s) @ [breadcrumbFileName]"
        using st by (simp add: s0)
      have pn: "pathForNode (rs s') m = pathForNode (rs s) m" for m
        using wo st by (auto simp: s0)
      have keep: "look s' (pathForNode (rs s) m) = look s1 (pathForNode (rs s) m)"
        "look s' (pathForNode (rs s) m @ xs) = look s1 (pathForNode (rs s) m @ xs)" for m xs
        using wo node_not_breadcrumb unfolding bc by blast+
      have "stored s' (encoded_node e) e payload"
        using st(1) keep by (simp add: stored_def pn st(2) s0)
      then show ?thesis
        using out wo nn Inr by (auto simp: bc st s0 intro!: exI [of _ ?b])
    qed
  qed
qed

section \<open>Runs without failures\<close>

text \<open>
  When every call works, the queries answer from the file system and only the call counter
  moves; these equations evaluate a program step by step.
\<close>

named_theorems calm \<open>evaluation of calls that work\<close>

lemma calm_queries [calm]:
  assumes "undisturbed s"
  shows "fs_exists p s = (Inr (look s p \<noteq> None), s\<lparr>calls := Suc (calls s)\<rparr>)"
    and "fs_is_directory p s = (Inr (look s p = Some Dir), s\<lparr>calls := Suc (calls s)\<rparr>)"
  using assms by (simp_all add: fs_exists_def fs_is_directory_def syscall_Works)

lemma calm_read_file [calm]:
  assumes "undisturbed s" and "look s p = Some (File bs)"
  shows "tryReadFile p s = (Inr (Inr bs), s\<lparr>calls := Suc (Suc (calls s))\<rparr>)"
    and "k_open_read what p s = (Inr (), s\<lparr>calls := Suc (calls s)\<rparr>)"
    and "io_read p s = (Inr bs, s\<lparr>calls := Suc (calls s)\<rparr>)"
    and "readfile p s = (Inr bs, s\<lparr>calls := Suc (Suc (calls s))\<rparr>)"
  using assms by (simp_all add: tryReadFile_def k_open_read_def io_read_def readfile_def syscall_Works)

lemma calm_read_missing [calm]:
  assumes "undisturbed s" and "look s p = None"
  shows "tryReadFile p s = (Inr (Inl (ENOENT, ''Could not read file'')), s\<lparr>calls := Suc (calls s)\<rparr>)"
    and "k_open_read what p s = (Inl (SystemError ENOENT what), s\<lparr>calls := Suc (calls s)\<rparr>)"
  using assms by (simp_all add: tryReadFile_def k_open_read_def syscall_Works)

abbreviation id_path :: "repository_structure \<Rightarrow> node \<Rightarrow> path" where
  "id_path r n \<equiv> pathForNode r n @ [idFileName]"

lemma snapshot_lookup_missing [calm]:
  assumes "undisturbed s" and "look s (id_path (rs s) n) = None"
  shows "tryGetEncodedSnapshotId n s = (Inr None, s\<lparr>calls := Suc (calls s)\<rparr>)"
    and "getEncodedSnapshotId n s =
      (Inl (SystemError ENOENT ''Could not read file''), s\<lparr>calls := Suc (calls s)\<rparr>)"
  using assms
  by (simp_all add: tryGetEncodedSnapshotId_def getEncodedSnapshotId_def tryGetEncodedSnapshotId2_def calm)

lemma snapshot_lookup_present [calm]:
  assumes "undisturbed s" and "look s (id_path (rs s) n) = Some (File (encoded_serialise e @ junk))"
    and "encoded_ok e" and "encoded_node e = n"
  shows "tryGetEncodedSnapshotId n s = (Inr (Some e), s\<lparr>calls := Suc (Suc (calls s))\<rparr>)"
    and "getEncodedSnapshotId n s = (Inr e, s\<lparr>calls := Suc (Suc (calls s))\<rparr>)"
  using assms encoded_roundtrip [OF assms(3), of junk]
  by (simp_all add: tryGetEncodedSnapshotId_def getEncodedSnapshotId_def tryGetEncodedSnapshotId2_def calm)

lemma nodeExists_calm [calm]:
  "undisturbed s \<Longrightarrow> nodeExists n s = (Inr (look s (pathForNode (rs s) n) \<noteq> None), s\<lparr>calls := Suc (calls s)\<rparr>)"
  by (simp add: nodeExists_def calm)

text \<open>A snapshot at \<open>n\<close> that reads back as one of \<open>n\<close>.\<close>

definition has_snapshot :: "'z repo_state_scheme \<Rightarrow> node \<Rightarrow> encoded \<Rightarrow> bool" where
  "has_snapshot s n e \<longleftrightarrow> encoded_ok e \<and> encoded_node e = n \<and>
     (\<exists>junk. look s (id_path (rs s) n) = Some (File (encoded_serialise e @ junk)))"

lemma stored_has_snapshot:
  "stored s n e payload \<Longrightarrow> encoded_ok e \<Longrightarrow> encoded_node e = n \<Longrightarrow> has_snapshot s n e"
  unfolding stored_def has_snapshot_def by (metis append_Nil2)

lemma next_snapshot_ends:
  assumes "undisturbed s" and "look s (id_path (rs s) (untrusted_begin (rs_breadcrumb (rs s)))) = None"
  shows "getNextSnapshotNode s = (Inr (untrusted_begin (rs_breadcrumb (rs s))), s\<lparr>calls := Suc (calls s)\<rparr>)"
  using assms by (simp add: getNextSnapshotNode_def next_snapshot_loop.simps calm)

lemma next_snapshot_loop_None:
  "next_snapshot_loop n s = Some y \<Longrightarrow> undisturbed s \<longrightarrow> \<not> has_snapshot s n e"
proof (rule next_snapshot_loop.raw_induct [where P = "\<lambda>n s y. undisturbed s \<longrightarrow> \<not> has_snapshot s n e"])
  fix loop :: "node \<Rightarrow> 'z repo_state_scheme \<Rightarrow> (node result \<times> 'z repo_state_scheme) option" and n s y
  assume ih: "\<And>n s y. loop n s = Some y \<Longrightarrow> undisturbed s \<longrightarrow> \<not> has_snapshot s n e"
    and step: "(case tryGetEncodedSnapshotId n s of
        (Inl e, s') \<Rightarrow> Some (Inl e, s')
      | (Inr None, s') \<Rightarrow> Some (Inr n, s')
      | (Inr (Some next), s') \<Rightarrow> loop (encoded_node next) s') = Some y"
  show "undisturbed s \<longrightarrow> \<not> has_snapshot s n e"
  proof (intro impI notI)
    assume "undisturbed s" "has_snapshot s n e"
    then have "tryGetEncodedSnapshotId n s = (Inr (Some e), s\<lparr>calls := Suc (Suc (calls s))\<rparr>)"
      "encoded_node e = n" by (auto simp: has_snapshot_def calm)
    then have "loop n (s\<lparr>calls := Suc (Suc (calls s))\<rparr>) = Some y" using step by simp
    then show False using ih \<open>undisturbed s\<close> \<open>has_snapshot s n e\<close> by (fastforce simp: has_snapshot_def)
  qed
qed

lemma next_snapshot_diverges:
  assumes "undisturbed s" and "has_snapshot s (untrusted_begin (rs_breadcrumb (rs s))) e"
  shows "getNextSnapshotNode s = (Inl Diverges, s)"
proof (cases "next_snapshot_loop (untrusted_begin (rs_breadcrumb (rs s))) s")
  case None
  then show ?thesis by (simp add: getNextSnapshotNode_def)
next
  case (Some y)
  then show ?thesis using next_snapshot_loop_None [OF Some, of e] assms by blast
qed

section \<open>Writing without failures\<close>

definition writable :: "'z machine_scheme \<Rightarrow> path \<Rightarrow> bool" where
  "writable s p \<longleftrightarrow> look s p \<noteq> Some Dir \<and> (look s p \<noteq> None \<or> parent_is_dir (fs s) p)"

definition file_put :: "path \<Rightarrow> bytes \<Rightarrow> file_system \<Rightarrow> file_system" where
  "file_put p bs f = append_to p bs (put p (File []) f)"

lemma lookup_file_put [fs_simps]:
  "lookup (file_put p bs f) q = (if q = p then Some (File bs) else lookup f q)"
  by (simp add: file_put_def append_to.simps lookup_put)

lemma writefile_calm [calm]:
  assumes "undisturbed s" and "writable s p"
  shows "writefile p bs False s =
    (Inr (), s\<lparr>calls := Suc (Suc (calls s)), fs := file_put p bs (fs s)\<rparr>)"
  using assms
  by (simp add: writefile_def k_open_trunc_def io_write_def syscall_Works writable_def file_put_def)

lemma writefile_new_calm [calm]:
  assumes "undisturbed s" and "look s p = None" and "parent_is_dir (fs s) p"
  shows "writefile p bs True s =
    (Inr (), s\<lparr>calls := Suc (Suc (calls s)), fs := file_put p bs (fs s)\<rparr>)"
  using assms
  by (simp add: writefile_def k_open_new_def io_write_def syscall_Works file_put_def)

lemma rename_calm [calm]:
  assumes "undisturbed s" and "look s from = Some Dir" and "look s to = None"
    and "\<not> prefix from to" and "\<not> prefix to from" and "parent_is_dir (fs s) to"
  shows "k_rename from to s = (Inr (), s\<lparr>calls := Suc (calls s), fs := move_tree from to (fs s)\<rparr>)"
  using assms by (auto simp: k_rename_def syscall_Works)

lemma writeBreadcrumb_calm [calm]:
  assumes "undisturbed s" and "writable s (rs_repository (rs s) @ [breadcrumbFileName])"
  shows "writeBreadcrumb b s =
    (Inr (), s\<lparr>calls := Suc (Suc (calls s)),
                fs := file_put (rs_repository (rs s) @ [breadcrumbFileName]) (serialise_breadcrumb b) (fs s),
                rs := (rs s)\<lparr>rs_breadcrumb := b\<rparr>\<rparr>)"
  using assms by (simp add: writeBreadcrumb_def calm)

interpretation breadcrumb_codec: codec serialise_breadcrumb deserialise_breadcrumb "\<lambda>_. True"
proof (rule codecI)
  fix data x rest
  show "deserialise_breadcrumb data = (Inr x, rest) \<longleftrightarrow> True \<and> data = serialise_breadcrumb x @ rest"
    unfolding deserialise_breadcrumb_def serialise_breadcrumb_def bindS_eq_Inr
      u64_codec.accepts_iff time_point_codec.accepts_iff
    by (cases x; cases "untrusted_begin x") auto
qed

definition serialise_initargs :: "uuid \<times> string list \<Rightarrow> bytes" where
  "serialise_initargs = (\<lambda>(format, args). serialise_uuid format @ serialise_vector serialise_string args)"

definition initargs_ok :: "uuid \<times> string list \<Rightarrow> bool" where
  "initargs_ok = (\<lambda>(format, args). uuid_ok format \<and> vector_ok 32 (\<lambda>s. length s < 2 ^ 64) args)"

interpretation initargs_codec: codec serialise_initargs deserialise_initargs initargs_ok
proof (rule codecI)
  fix data x rest
  show "deserialise_initargs data = (Inr x, rest) \<longleftrightarrow> initargs_ok x \<and> data = serialise_initargs x @ rest"
    unfolding deserialise_initargs_def serialise_initargs_def initargs_ok_def bindS_eq_Inr
      uuid_codec.accepts_iff strings_codec.accepts_iff
    by (cases x) auto
qed

text \<open>A repository on the disk that opens: its files, apart from the snapshots.\<close>

definition openable :: "'z machine_scheme \<Rightarrow> path \<Rightarrow> uuid \<Rightarrow> string list \<Rightarrow> bool" where
  "openable s r format initargs \<longleftrightarrow>
     look s r = Some Dir \<and> writable s (r @ [lockFileName]) \<and>
     look s (r @ [initArgsFileName]) = Some (File (serialise_initargs (format, initargs))) \<and>
     initargs_ok (format, initargs) \<and> initargs \<noteq> []"

definition fresh_breadcrumb :: breadcrumb where
  "fresh_breadcrumb = \<lparr> untrusted_begin = Node 0, last_trusted_node_authorised_at = timestamp_min \<rparr>"

definition breadcrumb_on_disk :: "'z machine_scheme \<Rightarrow> path \<Rightarrow> breadcrumb \<Rightarrow> bool" where
  "breadcrumb_on_disk s r b \<longleftrightarrow>
     (case look s (r @ [breadcrumbFileName]) of
        None \<Rightarrow> b = fresh_breadcrumb
      | Some (File bs) \<Rightarrow> \<exists>junk. bs = serialise_breadcrumb b @ junk
      | Some Dir \<Rightarrow> False)"

lemma open_repository_calm:
  assumes "undisturbed s" and "openable s r format initargs" and "breadcrumb_on_disk s r b"
  shows "\<exists>s'. open_repository r s =
      (Inr \<lparr> rs_repository = r, rs_format = format, rs_initargs = initargs, rs_breadcrumb = b,
             rs_temporary = None, rs_checkouts = 0 \<rparr>, s') \<and>
    undisturbed s' \<and> (\<forall>q. look s' q = (if q = r @ [lockFileName] then Some (File []) else look s q))"
proof -
  have lock: "k_open_trunc lockFileName (r @ [lockFileName]) s =
      (Inr (), s\<lparr>calls := Suc (calls s), fs := put (r @ [lockFileName]) (File []) (fs s)\<rparr>)"
    using assms(1,2) by (simp add: k_open_trunc_def syscall_Works openable_def writable_def)
  have args: "fst (deserialise_initargs (serialise_initargs (format, initargs))) = Inr (format, initargs)"
    using initargs_codec.exact [of "(format, initargs)"] assms(2) by (simp add: openable_def)
  have crumb: "look s (r @ [breadcrumbFileName]) = Some (File bs) \<Longrightarrow>
      fst (deserialise_breadcrumb bs) = Inr b" for bs
    using assms(3) breadcrumb_codec.roundtrip by (auto simp: breadcrumb_on_disk_def)
  have distinct: "lockFileName \<noteq> initArgsFileName" "lockFileName \<noteq> breadcrumbFileName"
    by (simp_all add: file_names)
  show ?thesis
  proof (cases "look s (r @ [breadcrumbFileName])")
    case None
    then show ?thesis
      using assms lock args distinct
      by (simp add: open_repository_def calm openable_def lookup_put breadcrumb_on_disk_def
          fresh_breadcrumb_def)
  next
    case (Some e)
    then obtain bs where "look s (r @ [breadcrumbFileName]) = Some (File bs)"
      using assms(3) by (cases e) (auto simp: breadcrumb_on_disk_def)
    then show ?thesis
      using assms lock args crumb distinct
      by (simp add: open_repository_def calm openable_def lookup_put)
  qed
qed

section \<open>Committing without failures\<close>

definition commit_ready :: "'z repo_state_scheme \<Rightarrow> nat \<Rightarrow> encoded \<Rightarrow> bytes \<Rightarrow> bool" where
  "commit_ready s tok e payload \<longleftrightarrow>
     undisturbed s \<and> rs_temporary (rs s) = Some tok \<and> temporary_ready s payload \<and>
     look s (temporaryPath (rs s) @ [idFileName]) = None \<and>
     absent s (encoded_node e) \<and> encoded_ok e \<and> node_value (encoded_node e) \<noteq> - 1 \<and>
     look s (rs_repository (rs s)) = Some Dir \<and>
     look s (rs_repository (rs s) @ [snapshotsDirName]) = Some Dir \<and>
     look s (rs_repository (rs s) @ [breadcrumbFileName]) \<noteq> Some Dir"

lemma temporary_commit_calm:
  assumes "undisturbed s" and "temporary_ready s payload"
    and "look s (temporaryPath (rs s) @ [idFileName]) = None" and "absent s (encoded_node e)"
    and "look s (rs_repository (rs s) @ [snapshotsDirName]) = Some Dir"
  shows "\<exists>s'. temporary_commit e s = (Inr (), s') \<and> undisturbed s'"
proof -
  let ?tmp = "temporaryPath (rs s)" and ?dst = "pathForNode (rs s) (encoded_node e)"
  have "writable s (?tmp @ [idFileName])"
    using assms(2,3) by (simp add: writable_def parent_is_dir_def temporary_ready_def)
  then have w: "writefile (?tmp @ [idFileName]) (encoded_serialise e) False s =
      (Inr (), s\<lparr>calls := Suc (Suc (calls s)),
                fs := file_put (?tmp @ [idFileName]) (encoded_serialise e) (fs s)\<rparr>)"
    using assms(1) by (simp add: calm)
  have ne: "?dst \<noteq> ?tmp @ [idFileName]" using paths_apart(1) by (metis prefixI)
  have par: "butlast ?dst = rs_repository (rs s) @ [snapshotsDirName]" "?dst \<noteq> []"
    "rs_repository (rs s) @ [snapshotsDirName] \<noteq> ?tmp @ [idFileName]"
    by (simp_all add: pathForNode_def butlast_append temporaryPath_def)
  show ?thesis
    unfolding temporary_commit_def Let_def
    using assms w ne par paths_apart
    by (simp add: calm fs_simps temporary_ready_def absent_def parent_is_dir_def)
qed

lemma commit_calm:
  assumes "commit_ready s tok e payload"
  shows "\<exists>s'. commit tok e s = (Inr (), s') \<and> undisturbed s'"
proof -
  define s0 where "s0 = s\<lparr>rs := (rs s)\<lparr>rs_temporary := None\<rparr>\<rparr>"
  note ready = assms [unfolded commit_ready_def]
  have s0: "temporary_ready s0 payload" "absent s0 (encoded_node e)" "undisturbed s0"
    using ready by (simp_all add: s0_def temporary_ready_def absent_def)
  obtain s1 where c: "temporary_commit e s0 = (Inr (), s1)" "undisturbed s1"
    using temporary_commit_calm [OF s0(3,1) _ s0(2)] ready by (auto simp: s0_def)
  note out = temporary_commit_outcome [OF c(1) s0(1)]
  have rs1: "rs_repository (rs s1) = rs_repository (rs s)" using out by (simp add: s0_def)
  have "look s1 q = look s q" if "q = rs_repository (rs s) \<or> q = rs_repository (rs s) @ [breadcrumbFileName]" for q
  proof -
    have "\<not> prefix (temporaryPath (rs s)) q \<and> \<not> prefix (pathForNode (rs s) (encoded_node e)) q"
      using that by (auto simp: temporaryPath_def pathForNode_def file_names)
    then show ?thesis using out by (auto simp: s0_def)
  qed
  then have "writable s1 (rs_repository (rs s1) @ [breadcrumbFileName])"
    using ready unfolding rs1 by (simp add: writable_def parent_is_dir_def)
  then show ?thesis
    using c ready unfolding commit_def
    by (simp add: s0_def [symmetric] next_node_def calm)
qed

section \<open>Properties\<close>


definition sample_encoded :: "u64 \<Rightarrow> encoded" where
  "sample_encoded n = \<lparr> encoded_bytes = [42], encoded_node = Node n, encoded_timestamp = TimePoint 1000 \<rparr>"

definition sample_uuid :: uuid where
  "sample_uuid = Uuid (replicate 16 5)"

definition sample_files :: file_system where
  "sample_files =
     [([], Dir), ([snapshotsDirName], Dir), ([temporarySnapshotDirName], Dir),
      ([temporarySnapshotDirName, payloadFileName], File [1, 2]),
      ([initArgsFileName], File (serialise_initargs (sample_uuid, [''zfs''])))]"

definition sample_repository :: repository_structure where
  "sample_repository = \<lparr> rs_repository = [], rs_format = sample_uuid, rs_initargs = [''zfs''],
     rs_breadcrumb = fresh_breadcrumb, rs_temporary = Some 0, rs_checkouts = 1 \<rparr>"

definition sample_state :: "(nat \<Rightarrow> fate) \<Rightarrow> repo_state" where
  "sample_state f = \<lparr> fs = sample_files, fate = f, calls = 0, entropy = (\<lambda>i. word_of_nat i),
     rs = sample_repository \<rparr>"

lemma sample_state_ready:
  "temporary_ready (sample_state f) [1, 2]" "absent (sample_state f) (encoded_node (sample_encoded n))"
  by (auto simp: temporary_ready_def absent_def sample_state_def sample_files_def sample_repository_def
      lookup_def temporaryPath_def pathForNode_def file_names)

definition power_cut :: "nat \<Rightarrow> nat \<Rightarrow> nat \<Rightarrow> fate" where
  "power_cut k written n = (if n = k then PowerOff \<lparr> torn = written, gone = (\<lambda>_. False) \<rparr> else Works)"


text \<open>
  C15. A commit on a machine that does its part returns; the snapshot is then found under its
  node with its payload, and whoever opens the repository next reads the breadcrumb that makes
  its node trusted.
\<close>

theorem commit_durable:
  assumes "commit_ready s tok e payload" and "openable s (rs_repository (rs s)) format initargs"
  shows "\<exists>s' b. commit tok e s = (Inr (), s') \<and> fst (getEncodedSnapshotId (encoded_node e) s') = Inr e \<and>
    look s' (pathForNode (rs s) (encoded_node e) @ [payloadFileName]) = Some (File payload) \<and>
    next_node (encoded_node e) = Inr (untrusted_begin b) \<and>
    fst (open_repository (rs_repository (rs s)) s') =
      Inr \<lparr> rs_repository = rs_repository (rs s), rs_format = format, rs_initargs = initargs,
            rs_breadcrumb = b, rs_temporary = None, rs_checkouts = 0 \<rparr>"
proof -
  let ?r = "rs_repository (rs s)"
  note ready = assms(1) [unfolded commit_ready_def]
  obtain s' where s': "commit tok e s = (Inr (), s')" "undisturbed s'" using commit_calm [OF assms(1)] by blast
  then obtain b where b: "next_node (encoded_node e) = Inr (untrusted_begin b)"
      "rs s' = (rs s)\<lparr>rs_temporary := None, rs_breadcrumb := b\<rparr>"
      "look s' (?r @ [breadcrumbFileName]) = Some (File (serialise_breadcrumb b))"
      "stored s' (encoded_node e) e payload"
    and frame: "\<And>q. \<not> prefix (temporaryPath (rs s)) q \<Longrightarrow> \<not> prefix (pathForNode (rs s) (encoded_node e)) q \<Longrightarrow>
      q \<noteq> ?r @ [breadcrumbFileName] \<Longrightarrow> look s' q = look s q"
    using commit_outcome [OF s'(1)] ready by blast
  have "look s' q = look s q" if "q \<in> {?r, ?r @ [lockFileName], ?r @ [initArgsFileName]}" for q
    using that by (intro frame) (auto simp: temporaryPath_def pathForNode_def file_names)
  then have "openable s' ?r format initargs"
    using assms(2) by (simp add: openable_def writable_def parent_is_dir_def)
  moreover have "breadcrumb_on_disk s' ?r b" using b(3) by (simp add: breadcrumb_on_disk_def)
  ultimately have "fst (open_repository ?r s') =
      Inr \<lparr> rs_repository = ?r, rs_format = format, rs_initargs = initargs,
            rs_breadcrumb = b, rs_temporary = None, rs_checkouts = 0 \<rparr>"
    using open_repository_calm [OF s'(2)] by fastforce
  moreover have "has_snapshot s' (encoded_node e) e" using b(4) ready by (intro stored_has_snapshot) auto
  then have "fst (getEncodedSnapshotId (encoded_node e) s') = Inr e"
    using s'(2) by (auto simp: has_snapshot_def calm)
  ultimately show ?thesis using s'(1) b by (auto simp: stored_def)
qed

lemma sample_commit_ready: "commit_ready (sample_state (\<lambda>_. Works)) 0 (sample_encoded 0) [1, 2]"
  unfolding commit_ready_def
  by (intro conjI sample_state_ready)
    (simp_all add: sample_state_def sample_repository_def sample_files_def sample_encoded_def lookup_def
      temporaryPath_def file_names encoded_ok_def vector_ok_def max_size_def)

lemma sample_openable: "openable (sample_state f) [] sample_uuid [''zfs'']"
  by (simp add: openable_def sample_state_def sample_files_def lookup_def writable_def parent_is_dir_def
      file_names initargs_ok_def vector_ok_def max_size_def sample_uuid_def uuid_ok_def uuid_size_def)

theorem commit_durable_witness:
  "\<exists>s' b. commit 0 (sample_encoded 0) (sample_state (\<lambda>_. Works)) = (Inr (), s') \<and>
    fst (getEncodedSnapshotId (Node 0) s') = Inr (sample_encoded 0) \<and>
    look s' (pathForNode sample_repository (Node 0) @ [payloadFileName]) = Some (File [1, 2]) \<and>
    next_node (Node 0) = Inr (untrusted_begin b) \<and>
    fst (open_repository [] s') =
      Inr \<lparr> rs_repository = [], rs_format = sample_uuid, rs_initargs = [''zfs''],
            rs_breadcrumb = b, rs_temporary = None, rs_checkouts = 0 \<rparr>"
  using commit_durable [OF sample_commit_ready, of sample_uuid "[''zfs'']"] sample_openable [of "\<lambda>_. Works"]
  by (simp add: sample_state_def sample_repository_def sample_encoded_def)

text \<open>
  C17. \<open>getNextSnapshotNode\<close> returns exactly when the first untrusted node has no snapshot, and
  then returns that node. When the snapshot is there (a commit that was interrupted before its
  breadcrumb, or a mirror that received it) the loop asks for the same node again and never
  ends, because it continues with \<open>next->node\<close> and not with its successor.
\<close>

theorem next_snapshot_node:
  assumes "undisturbed s"
  shows "(look s (id_path (rs s) (untrusted_begin (rs_breadcrumb (rs s)))) = None \<longrightarrow>
      fst (getNextSnapshotNode s) = Inr (untrusted_begin (rs_breadcrumb (rs s)))) \<and>
    (\<forall>e. has_snapshot s (untrusted_begin (rs_breadcrumb (rs s))) e \<longrightarrow>
      next_snapshot_loop (untrusted_begin (rs_breadcrumb (rs s))) s = None \<and>
      fst (getNextSnapshotNode s) = Inl Diverges)"
proof (intro conjI allI impI)
  show "fst (getNextSnapshotNode s) = Inr (untrusted_begin (rs_breadcrumb (rs s)))"
    if "look s (id_path (rs s) (untrusted_begin (rs_breadcrumb (rs s)))) = None"
    using next_snapshot_ends [OF assms that] by simp
  fix e assume e: "has_snapshot s (untrusted_begin (rs_breadcrumb (rs s))) e"
  show "next_snapshot_loop (untrusted_begin (rs_breadcrumb (rs s))) s = None"
    using next_snapshot_loop_None [of _ s _ e] e assms by (metis not_None_eq)
  show "fst (getNextSnapshotNode s) = Inl Diverges"
    using next_snapshot_diverges [OF assms e] by simp
qed

text \<open>The disk after a power cut between the rename of a commit and its breadcrumb.\<close>

definition interrupted_state :: repo_state where
  "interrupted_state = (sample_state (\<lambda>_. Works))
     \<lparr>fs := ([snapshotsDirName, ''0''], Dir) #
            ([snapshotsDirName, ''0'', idFileName], File (encoded_serialise (sample_encoded 0))) # sample_files\<rparr>"

lemma to_string_0: "to_string 0 = ''0''"
  by code_simp

lemma interrupted_has_snapshot: "has_snapshot interrupted_state (Node 0) (sample_encoded 0)"
proof -
  have "encoded_ok (sample_encoded 0)" by (simp add: encoded_ok_def vector_ok_def max_size_def sample_encoded_def)
  moreover have "look interrupted_state (id_path (rs interrupted_state) (Node 0)) =
      Some (File (encoded_serialise (sample_encoded 0) @ []))"
    by (simp add: interrupted_state_def sample_state_def sample_repository_def pathForNode_def to_string_0
        lookup_def file_names)
  ultimately show ?thesis unfolding has_snapshot_def by (auto simp: sample_encoded_def)
qed

theorem next_snapshot_node_witness:
  "fst (getNextSnapshotNode interrupted_state) = Inl Diverges \<and>
   fst (getNextSnapshotNode (sample_state (\<lambda>_. Works))) = Inr (Node 0)"
proof
  have "undisturbed interrupted_state" "rs_breadcrumb (rs interrupted_state) = fresh_breadcrumb"
    by (simp_all add: interrupted_state_def sample_state_def sample_repository_def)
  then show "fst (getNextSnapshotNode interrupted_state) = Inl Diverges"
    using next_snapshot_node [of interrupted_state] interrupted_has_snapshot
    unfolding fresh_breadcrumb_def by (simp only: breadcrumb.simps; blast)
  show "fst (getNextSnapshotNode (sample_state (\<lambda>_. Works))) = Inr (Node 0)"
    using next_snapshot_node [of "sample_state (\<lambda>_. Works)"]
    by (simp add: sample_state_def sample_repository_def sample_files_def lookup_def pathForNode_def
        fresh_breadcrumb_def file_names)
qed

section \<open>The breadcrumb and the power\<close>

lemma torn_breadcrumb:
  assumes "length bs < 16"
  shows "fst (deserialise_breadcrumb bs) = Inl (RuntimeError ''Insufficient data (corrupt stream)'')"
  using assms by (simp add: deserialise_breadcrumb_def deserialise_time_point_def deserialise_int_def
      consume_def bindS_def) arith

text \<open>
  C26. The breadcrumb is not written atomically: if the power goes while its bytes are being
  written (after the file was truncated, before all sixteen are there) the repository does not
  open again, although its snapshots are intact. The comment in \<open>commit\<close> calls a power cut there
  harmless.
\<close>

theorem breadcrumb_write_torn:
  assumes "openable s (rs_repository (rs s)) format initargs"
    and "writable s (rs_repository (rs s) @ [breadcrumbFileName])"
    and "fate s (calls s) = Works" and "fate s (Suc (calls s)) = PowerOff pr" and "torn pr < 16"
  shows "\<exists>s'. writeBreadcrumb b s = (Inl PowerLoss, s') \<and>
    fst (open_repository (rs_repository (rs s)) (s'\<lparr>fate := \<lambda>_. Works\<rparr>)) =
      Inl (RuntimeError ''Insufficient data (corrupt stream)'')"
proof -
  let ?p = "rs_repository (rs s) @ [breadcrumbFileName]"
  let ?bs = "take (torn pr) (serialise_breadcrumb b)"
  define s' where "s' = s\<lparr>calls := Suc (Suc (calls s)), fs := file_put ?p ?bs (fs s)\<rparr>"
  have "writeBreadcrumb b s = (Inl PowerLoss, s')"
    using assms(2,3,4)
    by (simp add: writeBreadcrumb_def writefile_def k_open_trunc_def io_write_def syscall_def writable_def
        s'_def file_put_def)
  moreover have "fst (deserialise_initargs (serialise_initargs (format, initargs))) = Inr (format, initargs)"
    using initargs_codec.exact [of "(format, initargs)"] assms(1) by (simp add: openable_def)
  moreover have "fst (deserialise_breadcrumb ?bs) = Inl (RuntimeError ''Insufficient data (corrupt stream)'')"
    using assms(5) by (intro torn_breadcrumb) simp
  moreover have "lockFileName \<noteq> initArgsFileName" "lockFileName \<noteq> breadcrumbFileName"
    "breadcrumbFileName \<noteq> initArgsFileName" by (simp_all add: file_names)
  ultimately show ?thesis
    using assms(1)
    by (simp add: open_repository_def k_open_trunc_def syscall_Works calm openable_def writable_def
        parent_is_dir_def s'_def fs_simps)
qed

theorem breadcrumb_write_torn_witness:
  "\<exists>s'. writeBreadcrumb \<lparr> untrusted_begin = Node 1, last_trusted_node_authorised_at = TimePoint 0 \<rparr>
      (sample_state (power_cut 1 7)) = (Inl PowerLoss, s') \<and>
    fst (open_repository [] (s'\<lparr>fate := \<lambda>_. Works\<rparr>)) =
      Inl (RuntimeError ''Insufficient data (corrupt stream)'')"
proof -
  have r: "rs_repository (rs (sample_state f)) = []" for f by (simp add: sample_state_def sample_repository_def)
  show ?thesis
  proof (rule breadcrumb_write_torn [of "sample_state (power_cut 1 7)" _ _ "\<lparr> torn = 7, gone = (\<lambda>_. False) \<rparr>",
      unfolded r])
    show "openable (sample_state (power_cut 1 7)) [] sample_uuid [''zfs'']" by (rule sample_openable)
    show "writable (sample_state (power_cut 1 7)) ([] @ [breadcrumbFileName])"
      by (simp add: writable_def sample_state_def sample_files_def lookup_def parent_is_dir_def file_names)
  qed (simp_all add: sample_state_def power_cut_def)
qed

section \<open>Creating a repository\<close>

lemma create_directories_calm:
  assumes "undisturbed s" and "\<And>q. prefix q p \<Longrightarrow> look s q = None \<or> look s q = Some Dir"
  shows "\<exists>s'. create_directories p s = (Inr (), s') \<and> undisturbed s' \<and>
    (\<forall>q. look s' q = (if prefix q p then Some Dir else look s q))"
  using assms(2)
proof (induction p rule: rev_induct)
  case Nil
  then have "look s [] = None \<or> look s [] = Some Dir" by simp
  then show ?case
    using assms(1) by (auto simp: create_directories_def k_mkdir_def syscall_Works lookup_put)
next
  case (snoc x p)
  obtain s1 where s1: "create_directories p s = (Inr (), s1)" "undisturbed s1"
    "\<And>q. look s1 q = (if prefix q p then Some Dir else look s q)"
    using snoc.IH snoc.prems by (auto simp: prefix_snoc)
  have "look s1 p = Some Dir" using s1(3) by simp
  moreover have "look s1 (p @ [x]) = None \<or> look s1 (p @ [x]) = Some Dir" using s1(3) snoc.prems [of "p @ [x]"] by simp
  ultimately obtain s2 where s2: "k_mkdir (p @ [x]) s1 = (Inr (), s2)" "undisturbed s2"
    "\<And>q. look s2 q = (if q = p @ [x] then Some Dir else look s1 q)"
    using s1(2) by (auto simp: k_mkdir_def syscall_Works lookup_put parent_is_dir_def)
  have "create_directories (p @ [x]) s = (Inr (), s2)"
    using s1(1) s2(1) by (simp add: create_directories_def prefixes_snoc forS_append)
  moreover have "look s2 q = (if prefix q (p @ [x]) then Some Dir else look s q)" for q
    using s2(3) s1(3) by (auto simp: prefix_snoc)
  ultimately show ?case using s2(2) by blast
qed

lemma uuid_random_calm: "undisturbed s \<Longrightarrow> \<exists>uuid s'. uuid_random s = (Inr uuid, s') \<and> uuid_ok uuid \<and>
    undisturbed s' \<and> fs s' = fs s"
  by (simp add: uuid_random_def syscall_Works random_bytes_def uuid_ok_def uuid_size_def)

lemma createRepository_fresh:
  assumes "undisturbed s" and "\<And>q. prefix q r \<Longrightarrow> look s q = None \<or> look s q = Some Dir"
    and "\<And>q. prefix r q \<Longrightarrow> look s q = None" and "initargs \<noteq> []" and "initargs_ok (format, initargs)"
  shows "\<exists>s'. createRepository r format initargs s =
      (Inr \<lparr> rs_repository = r, rs_format = format, rs_initargs = initargs,
             rs_breadcrumb = fresh_breadcrumb, rs_temporary = None, rs_checkouts = 0 \<rparr>, s') \<and>
    undisturbed s' \<and> openable s' r format initargs \<and> breadcrumb_on_disk s' r fresh_breadcrumb \<and>
    look s' (r @ [snapshotsDirName]) = Some Dir \<and> look s' (r @ [keysDirName]) = Some Dir"
proof -
  define t0 where "t0 = s\<lparr>calls := Suc (calls s)\<rparr>"
  have e: "fs_exists r s = (Inr False, t0)" using assms(1,3) by (simp add: calm t0_def)
  obtain t1 where t1: "create_directories r t0 = (Inr (), t1)" "undisturbed t1"
    "\<And>q. look t1 q = (if prefix q r then Some Dir else look s q)"
    using create_directories_calm [of t0 r] assms(1,2) by (auto simp: t0_def)
  have sub: "\<exists>t'. create_directories (r @ [d]) t = (Inr (), t') \<and> undisturbed t' \<and>
      (\<forall>q. look t' q = (if q = r @ [d] then Some Dir else look t q))"
    if "undisturbed t" "\<And>q. prefix q r \<Longrightarrow> look t q = Some Dir" "look t (r @ [d]) = None" for t d
  proof -
    note hyps = that
    obtain t' where "create_directories (r @ [d]) t = (Inr (), t')" "undisturbed t'"
      "\<And>q. look t' q = (if prefix q (r @ [d]) then Some Dir else look t q)"
      using create_directories_calm [of t "r @ [d]"] hyps by (auto simp: prefix_snoc)
    then show ?thesis using hyps(2) by (auto simp: prefix_snoc)
  qed
  have none: "look t1 (r @ x # xs) = None" for x xs using t1(3) assms(3) by simp
  have distinct: "distinct [snapshotsDirName, userDataDirName, keysDirName, uuidFileName, initArgsFileName,
      lockFileName, breadcrumbFileName]" by (simp add: file_names)
  have distinct': "initArgsFileName \<noteq> uuidFileName" "breadcrumbFileName \<noteq> uuidFileName"
    "breadcrumbFileName \<noteq> initArgsFileName" "lockFileName \<noteq> uuidFileName" "lockFileName \<noteq> initArgsFileName"
    by (simp_all add: file_names)
  obtain t2 where t2: "create_directories (r @ [snapshotsDirName]) t1 = (Inr (), t2)" "undisturbed t2"
    "\<And>q. look t2 q = (if q = r @ [snapshotsDirName] then Some Dir else look t1 q)"
    using sub [of t1 snapshotsDirName] t1 none by auto
  have d2: "prefix q r \<Longrightarrow> look t2 q = Some Dir" for q using t1(3) t2(3) by simp
  obtain t3 where t3: "create_directories (r @ [userDataDirName]) t2 = (Inr (), t3)" "undisturbed t3"
    "\<And>q. look t3 q = (if q = r @ [userDataDirName] then Some Dir else look t2 q)"
    using sub [of t2 userDataDirName] d2 t2 none distinct by auto
  have d3: "prefix q r \<Longrightarrow> look t3 q = Some Dir" for q using d2 t3(3) by simp
  obtain t4 where t4: "create_directories (r @ [keysDirName]) t3 = (Inr (), t4)" "undisturbed t4"
    "\<And>q. look t4 q = (if q = r @ [keysDirName] then Some Dir else look t3 q)"
    using sub [of t3 keysDirName] d3 t2 t3 none distinct by auto
  obtain uuid t5 where t5: "uuid_random t4 = (Inr uuid, t5)" "undisturbed t5" "fs t5 = fs t4"
    using uuid_random_calm [OF t4(2)] by blast
  have l5: "look t5 r = Some Dir" "look t5 (r @ [uuidFileName]) = None" "look t5 (r @ [initArgsFileName]) = None"
    "look t5 (r @ [breadcrumbFileName]) = None" "look t5 (r @ [lockFileName]) = None"
    "look t5 (r @ [snapshotsDirName]) = Some Dir" "look t5 (r @ [keysDirName]) = Some Dir"
    using t1(3) t2(3) t3(3) t4(3) t5(3) none distinct by auto
  obtain t6 where t6: "writefile (r @ [uuidFileName]) (uuid_bytes uuid) True t5 = (Inr (), t6)" "undisturbed t6"
    "fs t6 = file_put (r @ [uuidFileName]) (uuid_bytes uuid) (fs t5)"
    using t5(2) l5 by (simp add: calm parent_is_dir_def)
  obtain t7 where t7: "writefile (r @ [initArgsFileName])
        (serialise_uuid format @ serialise_vector serialise_string initargs) True t6 = (Inr (), t7)" "undisturbed t7"
    "fs t7 = file_put (r @ [initArgsFileName])
        (serialise_uuid format @ serialise_vector serialise_string initargs) (fs t6)"
    using t6 l5 distinct' by (simp add: calm parent_is_dir_def fs_simps)
  have l7: "openable t7 r format initargs" "breadcrumb_on_disk t7 r fresh_breadcrumb"
    using l5 t6(3) t7(3) distinct' distinct assms(4,5)
    by (simp_all add: openable_def breadcrumb_on_disk_def fs_simps writable_def parent_is_dir_def
        serialise_initargs_def)
  obtain s' where s': "open_repository r t7 =
      (Inr \<lparr> rs_repository = r, rs_format = format, rs_initargs = initargs, rs_breadcrumb = fresh_breadcrumb,
             rs_temporary = None, rs_checkouts = 0 \<rparr>, s')" "undisturbed s'"
    "\<And>q. look s' q = (if q = r @ [lockFileName] then Some (File []) else look t7 q)"
    using open_repository_calm [OF t7(2) l7] by blast
  have "openable s' r format initargs" "breadcrumb_on_disk s' r fresh_breadcrumb"
    "look s' (r @ [snapshotsDirName]) = Some Dir" "look s' (r @ [keysDirName]) = Some Dir"
    using l7 l5 distinct distinct' s'(3) t6(3) t7(3)
    by (auto simp: openable_def breadcrumb_on_disk_def writable_def parent_is_dir_def fs_simps)
  moreover have "createRepository r format initargs s = open_repository r t7"
    using e t1 t2 t3 t4 t5 t6 t7 assms(4) by (simp add: createRepository_def)
  ultimately show ?thesis using s' by simp
qed

text \<open>
  Creating a repository: without arguments, or on a directory that is not empty, it throws
  and changes nothing; on a path that does not exist yet it returns the repository with these
  arguments and the breadcrumb of an empty one, and opening what is then on the disk gives the
  same repository.
\<close>

theorem create_repository:
  assumes "undisturbed s"
  shows "(initargs = [] \<longrightarrow>
      createRepository r format initargs s = (Inl (InvalidArgument ''Invalid initargs (empty)''), s)) \<and>
    (initargs \<noteq> [] \<and> look s r = Some Dir \<and> look s (r @ [x]) \<noteq> None \<longrightarrow>
      (\<exists>s'. createRepository r format initargs s = (Inl (RuntimeError ''Repository already exists''), s') \<and>
        fs s' = fs s)) \<and>
    ((\<forall>q. prefix q r \<longrightarrow> look s q = None \<or> look s q = Some Dir) \<and> (\<forall>q. prefix r q \<longrightarrow> look s q = None) \<and>
      initargs \<noteq> [] \<and> initargs_ok (format, initargs) \<longrightarrow>
      (\<exists>s' x. createRepository r format initargs s = (Inr x, s') \<and> rs_initargs x = initargs \<and>
        rs_format x = format \<and> rs_breadcrumb x = fresh_breadcrumb \<and> fst (open_repository r s') = Inr x))"
proof (intro conjI impI)
  show "initargs = [] \<Longrightarrow>
      createRepository r format initargs s = (Inl (InvalidArgument ''Invalid initargs (empty)''), s)"
    by (simp add: createRepository_def)
next
  assume a: "initargs \<noteq> [] \<and> look s r = Some Dir \<and> look s (r @ [x]) \<noteq> None"
  then have "children (fs s) r \<noteq> []" using children_iff [of x "fs s" r] by auto
  then show "\<exists>s'. createRepository r format initargs s = (Inl (RuntimeError ''Repository already exists''), s') \<and>
      fs s' = fs s"
    using a assms by (simp add: createRepository_def calm fs_is_empty_def syscall_Works)
next
  assume a: "(\<forall>q. prefix q r \<longrightarrow> look s q = None \<or> look s q = Some Dir) \<and> (\<forall>q. prefix r q \<longrightarrow> look s q = None) \<and>
      initargs \<noteq> [] \<and> initargs_ok (format, initargs)"
  then obtain s' where s': "createRepository r format initargs s =
      (Inr \<lparr> rs_repository = r, rs_format = format, rs_initargs = initargs,
             rs_breadcrumb = fresh_breadcrumb, rs_temporary = None, rs_checkouts = 0 \<rparr>, s')"
    "undisturbed s'" "openable s' r format initargs" "breadcrumb_on_disk s' r fresh_breadcrumb"
    using createRepository_fresh [OF assms, of r initargs format] by blast
  then show "\<exists>s' x. createRepository r format initargs s = (Inr x, s') \<and> rs_initargs x = initargs \<and>
        rs_format x = format \<and> rs_breadcrumb x = fresh_breadcrumb \<and> fst (open_repository r s') = Inr x"
    using open_repository_calm [OF s'(2-4)] by fastforce
qed

section \<open>Key slots\<close>

fun until_stop :: "('a \<Rightarrow> 'b \<Rightarrow> 'a \<times> bool) \<Rightarrow> 'b list \<Rightarrow> 'a \<Rightarrow> 'a" where
  "until_stop g [] acc = acc"
| "until_stop g (x # xs) acc = (case g acc x of (acc', stop) \<Rightarrow> if stop then acc' else until_stop g xs acc')"

abbreviation slot_path :: "path \<Rightarrow> nat \<Rightarrow> path" where
  "slot_path r i \<equiv> r @ [keysDirName, to_string i]"

definition keys_on_disk :: "'z machine_scheme \<Rightarrow> path \<Rightarrow> key_pair list \<Rightarrow> bool" where
  "keys_on_disk s r ks \<longleftrightarrow>
     look s (r @ [keysDirName]) = Some Dir \<and> list_all key_pair_ok ks \<and>
     (\<forall>i. look s (slot_path r i) =
       (if i < length ks then Some (File (serialise_key_pair (ks ! i))) else None))"

lemma calls_same: "\<exists>n. s = s\<lparr>calls := n\<rparr>"
  by (rule exI [of _ "calls s"]) simp

lemma key_file_loop_calm:
  assumes step: "\<And>i acc s. i < m \<Longrightarrow> undisturbed s \<Longrightarrow> look s (slot_path r i) = Some (content i) \<Longrightarrow>
      \<exists>n. f acc (slot_path r i) s = (Inr (g acc i), s\<lparr>calls := n\<rparr>)"
  shows "undisturbed s \<Longrightarrow> (\<And>i. look s (slot_path r i) = (if i < m then Some (content i) else None)) \<Longrightarrow>
    \<exists>n. key_file_loop (r @ [keysDirName]) f fuel i acc s =
      (Inr (until_stop g [i..<min m (i + fuel)] acc), s\<lparr>calls := n\<rparr>)"
proof (induction fuel arbitrary: i acc s)
  case 0
  then show ?case by (auto intro: exI [of _ "calls s"])
next
  case (Suc fuel)
  let ?s = "s\<lparr>calls := Suc (calls s)\<rparr>"
  have e: "fs_exists (r @ [keysDirName, to_string i]) s = (Inr (i < m), ?s)"
    using Suc.prems by (simp add: calm)
  show ?case
  proof (cases "i < m")
    case False
    then show ?thesis using e by (auto intro: exI [of _ "Suc (calls s)"])
  next
    case True
    then obtain n where n: "f acc (slot_path r i) ?s = (Inr (g acc i), ?s\<lparr>calls := n\<rparr>)"
      using step [of i ?s acc] Suc.prems by auto
    obtain acc' stop where g: "g acc i = (acc', stop)" by fastforce
    have "[i..<min m (i + Suc fuel)] = i # [Suc i..<min m (Suc i + fuel)]"
      using True by (subst upt_conv_Cons) auto
    moreover obtain n' where "key_file_loop (r @ [keysDirName]) f fuel (Suc i) acc' (s\<lparr>calls := n\<rparr>) =
        (Inr (until_stop g [Suc i..<min m (Suc i + fuel)] acc'), s\<lparr>calls := n\<rparr>\<lparr>calls := n'\<rparr>)"
      using Suc.IH [of "s\<lparr>calls := n\<rparr>" "Suc i" acc'] Suc.prems by auto
    ultimately show ?thesis using e n g True by (cases stop) auto
  qed
qed

lemma until_stop_nth:
  "until_stop (\<lambda>acc i. g acc (xs ! i)) [0..<min (length xs) m] acc = until_stop g (take m xs) acc"
proof -
  have "until_stop (\<lambda>acc i. g acc (h i)) is acc = until_stop g (map h is) acc" for h "is" acc
    by (induction "is" arbitrary: acc) (auto split: prod.split)
  moreover have "map ((!) xs) [0..<min (length xs) m] = take m xs"
    by (rule nth_equalityI) simp_all
  ultimately show ?thesis by metis
qed

lemma withKeyFiles_calm:
  fixes f :: "'a \<Rightarrow> path \<Rightarrow> ('z machine_scheme, 'a \<times> bool) prog"
  assumes "undisturbed s" and "keys_on_disk s r ks"
    and step: "\<And>i acc s. i < length ks \<Longrightarrow> undisturbed s \<Longrightarrow>
      look s (slot_path r i) = Some (File (serialise_key_pair (ks ! i))) \<Longrightarrow>
      \<exists>n. f acc (slot_path r i) s = (Inr (g acc i), s\<lparr>calls := n\<rparr>)"
  shows "\<exists>n. withKeyFiles r f acc s =
    (Inr (until_stop g [0..<min (length ks) maxKeySlots] acc), s\<lparr>calls := n\<rparr>)"
proof -
  let ?s = "s\<lparr>calls := Suc (Suc (calls s))\<rparr>"
  have "withKeyFiles r f acc s = key_file_loop (r @ [keysDirName]) f maxKeySlots 0 acc ?s"
    using assms(1,2) by (simp add: withKeyFiles_def Let_def calm keys_on_disk_def)
  moreover have "\<exists>n. key_file_loop (r @ [keysDirName]) f maxKeySlots 0 acc ?s =
      (Inr (until_stop g [0..<min (length ks) (0 + maxKeySlots)] acc), ?s\<lparr>calls := n\<rparr>)"
  proof (rule key_file_loop_calm [where content = "\<lambda>i. File (serialise_key_pair (ks ! i))"])
    fix i acc and t :: "'z machine_scheme"
    assume "i < length ks" "undisturbed t" "look t (slot_path r i) = Some (File (serialise_key_pair (ks ! i)))"
    then show "\<exists>n. f acc (slot_path r i) t = (Inr (g acc i), t\<lparr>calls := n\<rparr>)" by (rule step)
  qed (use assms(1,2) in \<open>simp_all add: keys_on_disk_def\<close>)
  ultimately show ?thesis by auto
qed

lemma withKeyPairs_calm:
  assumes "undisturbed s" and "keys_on_disk s r ks"
  shows "\<exists>n. withKeyPairs r (\<lambda>acc k. retS (g acc k)) acc s =
    (Inr (until_stop g (take maxKeySlots ks) acc), s\<lparr>calls := n\<rparr>)"
proof -
  have "fst (deserialise_key_pair (serialise_key_pair (ks ! i))) = Inr (ks ! i)" if "i < length ks" for i
    using that assms(2) key_pair_codec.exact [of "ks ! i"] by (simp add: keys_on_disk_def list_all_length)
  then have "\<exists>n. withKeyPairs r (\<lambda>acc k. retS (g acc k)) acc s =
    (Inr (until_stop (\<lambda>acc i. g acc (ks ! i)) [0..<min (length ks) maxKeySlots] acc), s\<lparr>calls := n\<rparr>)"
    unfolding withKeyPairs_def
    by (intro withKeyFiles_calm [OF assms]) (auto simp: calm)
  then show ?thesis by (simp only: until_stop_nth)
qed

lemma until_stop_collect: "until_stop (\<lambda>acc x. (acc @ [x], False)) xs acc = acc @ xs"
  by (induction xs arbitrary: acc) simp_all

lemma getKeyFiles_calm:
  assumes "undisturbed s" and "keys_on_disk s r ks"
  shows "\<exists>n paths. getKeyFiles r s = (Inr paths, s\<lparr>calls := n\<rparr>) \<and> length paths = min (length ks) maxKeySlots"
proof -
  have "until_stop (\<lambda>acc i. (acc @ [slot_path r i], False)) is acc = acc @ map (slot_path r) is" for "is" acc
    by (induction "is" arbitrary: acc) simp_all
  moreover have "\<exists>n. getKeyFiles r s =
    (Inr (until_stop (\<lambda>acc i. (acc @ [slot_path r i], False)) [0..<min (length ks) maxKeySlots] []), s\<lparr>calls := n\<rparr>)"
    unfolding getKeyFiles_def
    by (intro withKeyFiles_calm [OF assms]) (simp add: calls_same)
  ultimately show ?thesis by auto
qed

text \<open>
  Key slots: \<open>storeKeyPair\<close> puts a key pair into the first free slot, and \<open>readKeyPairs\<close>
  then reads the pairs of the first 255 slots in order. A repository with 255 key pairs accepts
  one more that is never read back.
\<close>

theorem key_slots:
  assumes "undisturbed s" and "keys_on_disk s (rs_repository (rs s)) ks" and "length ks \<le> maxKeySlots"
    and "key_pair_ok k"
  shows "\<exists>s'. storeKeyPair (rs_repository (rs s)) k s = (Inr (), s') \<and>
    keys_on_disk s' (rs_repository (rs s)) (ks @ [k]) \<and>
    fst (readKeyPairs s') = Inr (if length ks < maxKeySlots then ks @ [k] else ks)"
proof -
  let ?r = "rs_repository (rs s)"
  let ?p = "slot_path ?r (length ks)"
  let ?bs = "serialise_key_pair k"
  obtain n paths where g: "getKeyFiles ?r s = (Inr paths, s\<lparr>calls := n\<rparr>)" "length paths = length ks"
    using getKeyFiles_calm [OF assms(1,2)] assms(3) by auto
  have new: "look s ?p = None" "parent_is_dir (fs s) ?p"
    using assms(2) by (simp_all add: keys_on_disk_def parent_is_dir_def butlast_append)
  define s' where "s' = s\<lparr>calls := n + 2, fs := file_put ?p ?bs (fs s)\<rparr>"
  have s': "storeKeyPair ?r k s = (Inr (), s')"
    using g new assms(1)
    by (simp add: storeKeyPair_def Let_def k_open_new_def io_write_def syscall_Works s'_def file_put_def)
  have disk: "keys_on_disk s' ?r (ks @ [k])"
    using assms(2,4) by (auto simp: keys_on_disk_def s'_def fs_simps nth_append)
  have "undisturbed s'" "rs_repository (rs s') = ?r" using assms(1) by (simp_all add: s'_def)
  then have "fst (readKeyPairs s') = Inr (take maxKeySlots (ks @ [k]))"
    using withKeyPairs_calm [of s' ?r "ks @ [k]" "\<lambda>acc k. (acc @ [k], False)" "[]"] disk
    by (auto simp: readKeyPairs_def until_stop_collect)
  with s' disk assms(3) show ?thesis by auto
qed

theorem key_slots_witness:
  "\<exists>s'. storeKeyPair [] sample_key_pair ((sample_state (\<lambda>_. Works))\<lparr>fs := [([], Dir), ([keysDirName], Dir)]\<rparr>)
      = (Inr (), s') \<and>
    keys_on_disk s' [] ([] @ [sample_key_pair]) \<and> fst (readKeyPairs s') = Inr ([] @ [sample_key_pair])"
proof -
  let ?s = "(sample_state (\<lambda>_. Works))\<lparr>fs := [([], Dir), ([keysDirName], Dir)]\<rparr>"
  have r: "rs_repository (rs ?s) = []" by (simp add: sample_state_def sample_repository_def)
  have "keys_on_disk ?s [] []" by (auto simp: keys_on_disk_def lookup_def)
  moreover have "key_pair_ok sample_key_pair" by (simp add: sample_key_pair_def key_pair_ok_def key_sizes)
  ultimately show ?thesis
    using key_slots [of ?s "[]" sample_key_pair, unfolded r]
    by (simp add: maxKeySlots_def sample_state_def)
qed

end
