(* ===== verification/Trust.thy ===== *)
theory Trust
  imports RepositoryFacts
begin

text \<open>
  \<^verbatim>\<open>src/Trust.cpp\<close>: when a repository that receives snapshots from another one starts to
  trust the next of them. Time points are signed 64-bit counts of nanoseconds; sums wrap around
  as the machine's do, and the properties assume the one sum the code forms does not.
\<close>

definition ts :: "time_point \<Rightarrow> int" where
  "ts t = sint (since_epoch t)"

definition time_max :: "time_point \<Rightarrow> time_point \<Rightarrow> time_point" where
  "time_max a b = (if ts a < ts b then b else a)"

definition time_plus :: "time_point \<Rightarrow> u64 \<Rightarrow> time_point" where
  "time_plus t d = TimePoint (since_epoch t + d)"

text \<open>The decision, once the timestamp of the last trusted snapshot is known.\<close>

definition trust_decision ::
  "breadcrumb \<Rightarrow> time_point \<Rightarrow> encoded \<Rightarrow> u64 \<Rightarrow> time_point \<Rightarrow> breadcrumb option result" where
  "trust_decision b cursnapshot candidate min_time now =
     (if ts (encoded_timestamp candidate) < ts cursnapshot then Inr None
      else
        let effective_now = time_max (last_trusted_node_authorised_at b) now;
            quarantine_ends = time_plus (last_trusted_node_authorised_at b) min_time;
            trusted_at = time_max quarantine_ends (encoded_timestamp candidate)
        in if ts trusted_at \<le> ts effective_now then
             bindR (next_node (encoded_node candidate)) (\<lambda>next.
               Inr (Some \<lparr> untrusted_begin = next, last_trusted_node_authorised_at = trusted_at \<rparr>))
           else Inr None)"

definition maybeUpdateBreadcrumb ::
  "breadcrumb \<Rightarrow> encoded \<Rightarrow> u64 \<Rightarrow> time_point \<Rightarrow> ('z repo_state_scheme, breadcrumb option) prog" where
  "maybeUpdateBreadcrumb b candidate min_time now =
     (if untrusted_begin b = initial_value then
        bindS (liftR (next_node (untrusted_begin b))) (\<lambda>next.
          retS (Some \<lparr> untrusted_begin = next, last_trusted_node_authorised_at = now \<rparr>))
      else if encoded_node candidate \<noteq> untrusted_begin b
      then throwS (InvalidArgument ''is_trusted: invalid candidate'')
      else
        bindS (getEncodedSnapshotId (Node (node_value (untrusted_begin b) - 1))) (\<lambda>cursnapshot.
          liftR (trust_decision b (encoded_timestamp cursnapshot) candidate min_time now)))"

section \<open>Facts\<close>

text \<open>The sum of the last authorisation and the minimum time stays in range.\<close>

definition no_overflow :: "time_point \<Rightarrow> u64 \<Rightarrow> bool" where
  "no_overflow t d \<longleftrightarrow> sint d \<ge> 0 \<and> ts t + sint d < 2 ^ 63"

lemma ts_plus: "no_overflow t d \<Longrightarrow> ts (time_plus t d) = ts t + sint d"
proof -
  assume a: "no_overflow t d"
  have "- (2 ^ 63) \<le> sint (since_epoch t)" using sint_ge [of "since_epoch t"] by simp
  then have "- (2 ^ 63) \<le> ts t + sint d" using a by (simp add: no_overflow_def ts_def)
  then have "signed_take_bit 63 (ts t + sint d) = ts t + sint d"
    using a by (intro signed_take_bit_int_eq_self) (simp_all add: no_overflow_def)
  then show ?thesis by (simp add: ts_def time_plus_def sint_word_ariths(1))
qed

lemma ts_max: "ts (time_max a b) = max (ts a) (ts b)"
  by (simp add: time_max_def max_def)

lemma trust_decision_Some:
  assumes "trust_decision b cur candidate d now = Inr (Some b')"
    and "no_overflow (last_trusted_node_authorised_at b) d"
  shows "next_node (encoded_node candidate) = Inr (untrusted_begin b') \<and>
    ts (last_trusted_node_authorised_at b') =
      max (ts (last_trusted_node_authorised_at b) + sint d) (ts (encoded_timestamp candidate)) \<and>
    ts (last_trusted_node_authorised_at b') \<le> max (ts (last_trusted_node_authorised_at b)) (ts now) \<and>
    ts cur \<le> ts (encoded_timestamp candidate)"
  using assms
  by (auto simp: trust_decision_def Let_def bindR_eq_Inr ts_max ts_plus split: if_splits)

lemma getEncodedSnapshotId_keeps: "always keeps_rs (tryGetEncodedSnapshotId2 n)"
  "always keeps_rs (tryGetEncodedSnapshotId n)" "always keeps_rs (getEncodedSnapshotId n)"
proof -
  show k: "always keeps_rs (tryGetEncodedSnapshotId2 n)"
  proof (rule alwaysI)
    fix s :: "'z repo_state_scheme"
    let ?m = "bindS (tryReadFile (id_path (rs s) n)) (\<lambda>bytes. case bytes of
         Inl err \<Rightarrow> retS (Inl err)
       | Inr bs \<Rightarrow> bindS (liftR (encoded_deserialise bs)) (\<lambda>out.
           if encoded_node out \<noteq> n
           then throwS (RuntimeError ''Node mismatch in repository: repository in invalid state'')
           else retS (Inr out)))"
    have "always keeps_rs ?m" by (auto intro!: keep.bind keep.pure files_keep split: sum.split)
    then have "keeps_rs s (snd (?m s))" unfolding always_def ..
    then show "keeps_rs s (snd (tryGetEncodedSnapshotId2 n s))"
      by (simp only: tryGetEncodedSnapshotId2_def)
  qed
  show "always keeps_rs (tryGetEncodedSnapshotId n)" "always keeps_rs (getEncodedSnapshotId n)"
    unfolding tryGetEncodedSnapshotId_def getEncodedSnapshotId_def
    by (auto intro!: keep.bind keep.pure k split: sum.split)
qed

lemma maybeUpdateBreadcrumb_keeps: "always keeps_rs (maybeUpdateBreadcrumb b c d now)"
  unfolding maybeUpdateBreadcrumb_def by (auto intro!: keep.bind keep.pure getEncodedSnapshotId_keeps)

lemma maybeUpdateBreadcrumb_Some:
  assumes "maybeUpdateBreadcrumb b c d now s = (Inr (Some b'), s')"
  shows "next_node (untrusted_begin b) = Inr (untrusted_begin b')"
proof (cases "untrusted_begin b = initial_value")
  case True
  then show ?thesis using assms
    by (auto simp: maybeUpdateBreadcrumb_def bindS_def initial_value_def next_node_def split: if_splits)
next
  case False
  then obtain cur where "encoded_node c = untrusted_begin b" "trust_decision b cur c d now = Inr (Some b')"
    using assms by (auto simp: maybeUpdateBreadcrumb_def bindS_eq_Inr split: if_splits)
  then show ?thesis
    by (auto simp: trust_decision_def Let_def bindR_eq_Inr split: if_splits)
qed

section \<open>The decision\<close>

text \<open>
  The rule the comments of \<^verbatim>\<open>Trust.cpp\<close> argue for, over integers: a candidate that is not older
  than the last trusted snapshot is admitted once the clock has reached both the end of the
  quarantine and its own timestamp.
\<close>

definition admitted_at :: "int \<Rightarrow> int \<Rightarrow> int \<Rightarrow> int \<Rightarrow> int \<Rightarrow> int option" where
  "admitted_at prev d now cur candidate =
     (if cur \<le> candidate \<and> max (prev + d) candidate \<le> max prev now
      then Some (max (prev + d) candidate) else None)"

lemma admitted_later:
  "admitted_at prev d now cur c = Some t \<Longrightarrow> now \<le> now' \<Longrightarrow> admitted_at prev d now' cur c = Some t"
  by (auto simp: admitted_at_def split: if_splits)

text \<open>
  The candidate for the next node is trusted exactly when the rule admits it, and the
  breadcrumb then moves to its successor with the time the rule gives; an admitted candidate
  stays admitted as the clock goes on, and its time is at least the minimum time after the last
  one.
\<close>

theorem trust_step:
  assumes "undisturbed s" and "untrusted_begin b = Node (n + 1)" and "n + 1 \<noteq> 0" and "n + 1 \<noteq> - 1"
    and "has_snapshot s (Node n) cur" and "encoded_node e = Node (n + 1)"
    and "no_overflow (last_trusted_node_authorised_at b) d"
  shows "case admitted_at (ts (last_trusted_node_authorised_at b)) (sint d) (ts now)
           (ts (encoded_timestamp cur)) (ts (encoded_timestamp e)) of
      None \<Rightarrow> fst (maybeUpdateBreadcrumb b e d now s) = Inr None
    | Some t \<Rightarrow> \<exists>b'. fst (maybeUpdateBreadcrumb b e d now s) = Inr (Some b') \<and>
        untrusted_begin b' = Node (n + 2) \<and> ts (last_trusted_node_authorised_at b') = t \<and>
        ts (last_trusted_node_authorised_at b) + sint d \<le> t \<and>
        (\<forall>now'. ts now \<le> ts now' \<longrightarrow> fst (maybeUpdateBreadcrumb b e d now' s) = Inr (Some b'))"
proof -
  have "encoded_ok cur" "encoded_node cur = Node n"
    "\<exists>junk. look s (id_path (rs s) (Node n)) = Some (File (encoded_serialise cur @ junk))"
    using assms(5) by (simp_all add: has_snapshot_def)
  then have get: "getEncodedSnapshotId (Node n) s = (Inr cur, s\<lparr>calls := Suc (Suc (calls s))\<rparr>)"
    using snapshot_lookup_present(2) [OF assms(1)] by blast
  have run: "fst (maybeUpdateBreadcrumb b e d now' s) = trust_decision b (encoded_timestamp cur) e d now'" for now'
    using assms(2,3,6) get by (simp add: maybeUpdateBreadcrumb_def initial_value_def)
  have nn: "next_node (encoded_node e) = Inr (Node (n + 2))"
    using assms(4,6) by (simp add: next_node_def)
  note facts = run trust_decision_def Let_def ts_max ts_plus [OF assms(7)] nn admitted_at_def
  show ?thesis
  proof (cases "admitted_at (ts (last_trusted_node_authorised_at b)) (sint d) (ts now)
           (ts (encoded_timestamp cur)) (ts (encoded_timestamp e))")
    case None
    then show ?thesis by (auto simp: facts split: if_splits)
  next
    case (Some t)
    then have ok: "ts (encoded_timestamp cur) \<le> ts (encoded_timestamp e)"
      "max (ts (last_trusted_node_authorised_at b) + sint d) (ts (encoded_timestamp e)) = t"
      "t \<le> max (ts (last_trusted_node_authorised_at b)) (ts now)"
      by (auto simp: admitted_at_def split: if_splits)
    let ?t = "time_max (time_plus (last_trusted_node_authorised_at b) d) (encoded_timestamp e)"
    have t: "ts ?t = t" using ok(2) by (simp add: facts)
    have "fst (maybeUpdateBreadcrumb b e d now' s) =
        Inr (Some \<lparr> untrusted_begin = Node (n + 2), last_trusted_node_authorised_at = ?t \<rparr>)"
      if "ts now \<le> ts now'" for now'
      using ok(1,3) that unfolding run trust_decision_def Let_def t by (simp add: ts_max nn)
    moreover have "ts (last_trusted_node_authorised_at b) + sint d \<le> t" using ok(2) by simp
    ultimately show ?thesis using Some t by auto
  qed
qed

theorem trust_step_witness:
  "\<exists>b'. fst (maybeUpdateBreadcrumb
      \<lparr> untrusted_begin = Node 1, last_trusted_node_authorised_at = TimePoint 1000 \<rparr>
      \<lparr> encoded_bytes = [], encoded_node = Node 1, encoded_timestamp = TimePoint 2000 \<rparr>
      500 (TimePoint 3000) interrupted_state) = Inr (Some b') \<and>
    untrusted_begin b' = Node 2 \<and> ts (last_trusted_node_authorised_at b') = 2000"
proof -
  let ?b = "\<lparr> untrusted_begin = Node 1, last_trusted_node_authorised_at = TimePoint 1000 \<rparr>"
  let ?e = "\<lparr> encoded_bytes = [], encoded_node = Node 1, encoded_timestamp = TimePoint 2000 \<rparr>"
  have "undisturbed interrupted_state" by (simp add: interrupted_state_def sample_state_def)
  moreover have "ts (TimePoint 1000) = 1000" "ts (TimePoint 2000) = 2000" "ts (TimePoint 3000) = 3000"
    "sint (500 :: u64) = 500" by (simp_all add: ts_def)
  moreover from this have "no_overflow (TimePoint 1000) 500" by (simp add: no_overflow_def)
  moreover have "admitted_at 1000 500 3000 1000 2000 = Some 2000" by (simp add: admitted_at_def)
  ultimately show ?thesis
    using trust_step [of interrupted_state ?b 0 "sample_encoded 0" ?e 500 "TimePoint 3000"]
      interrupted_has_snapshot
    by (auto simp: sample_encoded_def)
qed

end
