(* ===== verification/EncryptionUtil.thy ===== *)
theory EncryptionUtil
  imports KeyPair
begin

text \<open>
  \<^verbatim>\<open>src/EncryptionUtil.cpp\<close>: the format of an encrypted payload. A random session key is
  sealed once per key pair of the repository, each entry marked whether it is the last; then
  come the header of the secret stream, the chunks of the plaintext with their lengths, and a
  final empty chunk. \<open>encryptToFd\<close> writes through \<open>out\<close>, the \<open>ioutil::write\<close> to its
  descriptor; \<open>decryptFromFd\<close> maps what it can read to what it wrote and how it ended.
\<close>

section \<open>Encryption\<close>

definition plaintextChunkSize :: nat where "plaintextChunkSize = 8192"
definition STREAM_ABYTES :: nat where "STREAM_ABYTES = 17"
definition STREAM_HEADERBYTES :: nat where "STREAM_HEADERBYTES = 24"
definition SEALBYTES :: nat where "SEALBYTES = 48"
definition TAG_FINAL :: u8 where "TAG_FINAL = 3"

definition ciphertextMaxChunkSize :: nat where
  "ciphertextMaxChunkSize = plaintextChunkSize + STREAM_ABYTES"

lemmas stream_sizes = plaintextChunkSize_def STREAM_ABYTES_def STREAM_HEADERBYTES_def SEALBYTES_def
  TAG_FINAL_def ciphertextMaxChunkSize_def

text \<open>
  \<open>ioutil::consume\<close>: the buffer is filled again and again until the end of the input cuts it
  short; the functor is not called on an empty buffer.
\<close>

function consume_chunks :: "nat \<Rightarrow> bytes \<Rightarrow> bytes list" where
  "consume_chunks bufsize input =
     (if input = [] \<or> bufsize = 0 then []
      else take bufsize input # consume_chunks bufsize (drop bufsize input))"
  by pat_completeness auto
termination by (relation "measure (\<lambda>(n, xs). length xs)") auto
declare consume_chunks.simps [simp del]

fun seal_entries ::
  "'st sodium \<Rightarrow> (bytes \<Rightarrow> ('z machine_scheme, unit) prog) \<Rightarrow> key \<Rightarrow> key_pair list \<Rightarrow>
    ('z machine_scheme, unit) prog" where
  "seal_entries na out symKey [] = retS ()"
| "seal_entries na out symKey (k # ks) =
     bindS (random_bytes 32) (\<lambda>seed.
     case box_seal na (kp_pubKey k) seed symKey of
       None \<Rightarrow> throwS (RuntimeError ''Failed to encrypt symmetric key'')
     | Some encryptedSymKey \<Rightarrow>
         thenS (out (getKeyId k @ encryptedSymKey @ [if ks = [] then 1 else 0]))
           (seal_entries na out symKey ks))"

definition write_chunk ::
  "(bytes \<Rightarrow> ('z machine_scheme, unit) prog) \<Rightarrow> bytes \<Rightarrow> ('z machine_scheme, unit) prog" where
  "write_chunk out c = thenS (out (to_bytes (word_of_nat (length c) :: u32))) (out c)"

fun push_chunks ::
  "'st sodium \<Rightarrow> (bytes \<Rightarrow> ('z machine_scheme, unit) prog) \<Rightarrow> 'st \<Rightarrow> bytes list \<Rightarrow>
    ('z machine_scheme, unit) prog" where
  "push_chunks na out st [] =
     (let (c, st') = push na st [] TAG_FINAL in write_chunk out c)"
| "push_chunks na out st (buffer # buffers) =
     (let (c, st') = push na st buffer 0 in thenS (write_chunk out c) (push_chunks na out st' buffers))"

definition encryptToFd ::
  "'st sodium \<Rightarrow> key_pair list \<Rightarrow> bytes \<Rightarrow> (bytes \<Rightarrow> ('z machine_scheme, unit) prog) \<Rightarrow>
    ('z machine_scheme, unit) prog" where
  "encryptToFd na keyPairs input out =
     (if \<not> sodium_init na then throwS (RuntimeError ''libsodium init failed'')
      else
        bindS (random_bytes AEAD_KEYBYTES) (\<lambda>symKey.
        thenS (seal_entries na out symKey keyPairs)
        (bindS (random_bytes STREAM_HEADERBYTES) (\<lambda>seed.
         case init_push na symKey seed of
           None \<Rightarrow> throwS (RuntimeError ''Failed to init secret stream'')
         | Some (header, st) \<Rightarrow>
             thenS (out header) (push_chunks na out st (consume_chunks plaintextChunkSize input))))))"

section \<open>Decryption\<close>

text \<open>\<open>readBytesExact\<close>.\<close>

definition read_exact :: "nat \<Rightarrow> bytes \<Rightarrow> (bytes \<times> bytes) result" where
  "read_exact n input =
     (if length input < n then Inl (RuntimeError ''Unexpected EOF'')
      else Inr (take n input, drop n input))"

definition entry_size :: nat where
  "entry_size = crypto_pwhash_SALTBYTES + (SEALBYTES + AEAD_KEYBYTES) + 1"

text \<open>The loop over the key entries; \<open>found\<close> is the session key, once its entry was seen.\<close>

function open_entries ::
  "'st sodium \<Rightarrow> decrypted_key_pair \<Rightarrow> key option \<Rightarrow> bytes \<Rightarrow> (key \<times> bytes) result" where
  "open_entries na dk found input =
     (case read_exact entry_size input of
        Inl e \<Rightarrow> Inl e
      | Inr (entry, rest) \<Rightarrow>
          let keyId = take crypto_pwhash_SALTBYTES entry;
              encryptedSymKey = take (SEALBYTES + AEAD_KEYBYTES) (drop crypto_pwhash_SALTBYTES entry);
              is_last = (last entry \<noteq> 0);
              mine = (keyId = getKeyId (dk_keyPair dk));
              opened = box_seal_open na (kp_pubKey (dk_keyPair dk)) (dk_privKeyPlaintext dk) encryptedSymKey;
              found' = (if mine then opened else found)
          in if mine \<and> opened = None then Inl (RuntimeError ''Error decrypting session key'')
             else if is_last then
               (case found' of
                  None \<Rightarrow> Inl (RuntimeError ''Decryption key not present in any key slot'')
                | Some symKey \<Rightarrow> Inr (symKey, rest))
             else open_entries na dk found' rest)"
  by pat_completeness auto
termination
  by (relation "measure (\<lambda>(na, dk, found, input). length input)")
    (auto simp: read_exact_def entry_size_def split: if_splits)
declare open_entries.simps [simp del]

text \<open>What was written, and how it ended.\<close>

type_synonym transcript = "bytes \<times> unit result"

definition wrote :: "bytes \<Rightarrow> transcript \<Rightarrow> transcript" where
  "wrote bs r = (bs @ fst r, snd r)"

function pull_chunks :: "'st sodium \<Rightarrow> 'st \<Rightarrow> bytes \<Rightarrow> transcript" where
  "pull_chunks na st input =
     (case read_exact 4 input of
        Inl e \<Rightarrow> ([], Inl e)
      | Inr (nbytesbuf, rest) \<Rightarrow>
          let nbytes = min ciphertextMaxChunkSize (unat (from_bytes nbytesbuf :: u32))
          in (case read_exact nbytes rest of
                Inl e \<Rightarrow> ([], Inl e)
              | Inr (buf, rest') \<Rightarrow>
                  (case pull na st buf of
                     None \<Rightarrow> ([], Inl (RuntimeError ''Failed to decrypt data''))
                   | Some (m, tag, st') \<Rightarrow>
                       wrote m
                         (if tag = 0 then pull_chunks na st' rest'
                          else if tag \<noteq> TAG_FINAL
                          then ([], Inl (RuntimeError ''Invalid data (tag) while decrypting''))
                          else ([], Inr ())))))"
  by pat_completeness auto
termination
  by (relation "measure (\<lambda>(na, st, input). length input)")
    (auto simp: read_exact_def split: if_splits)
declare pull_chunks.simps [simp del]

definition decryptFromFd :: "'st sodium \<Rightarrow> decrypted_key_pair \<Rightarrow> bytes \<Rightarrow> transcript" where
  "decryptFromFd na dk input =
     (if \<not> sodium_init na then ([], Inl (RuntimeError ''libsodium init failed''))
      else case open_entries na dk None input of
        Inl e \<Rightarrow> ([], Inl e)
      | Inr (symKey, rest) \<Rightarrow>
          (case read_exact STREAM_HEADERBYTES rest of
             Inl e \<Rightarrow> ([], Inl e)
           | Inr (header, rest') \<Rightarrow>
               (case init_pull na header symKey of
                  None \<Rightarrow> ([], Inl (RuntimeError ''Failed to init secret stream''))
                | Some st \<Rightarrow> pull_chunks na st rest')))"

section \<open>What libsodium promises\<close>

text \<open>
  The documented behaviour: decryption inverts encryption, a sealed box opens with the secret key
  of the pair it was sealed for, and after \<open>init_pull\<close> on the header of \<open>init_push\<close> the two
  streams stay in step.
\<close>

definition box_pair :: "'st sodium \<Rightarrow> key \<Rightarrow> key \<Rightarrow> bool" where
  "box_pair na pk sk \<longleftrightarrow>
     (\<forall>seed m c. box_seal na pk seed m = Some c \<longrightarrow> box_seal_open na pk sk c = Some m)"

text \<open>
  The laws of the boxes, of the authenticated encryption and of the stream apart; messages are
  within the limits of \<^verbatim>\<open>MESSAGEBYTES_MAX\<close>, and \<open>ok\<close> holds of the states a stream goes through.
\<close>

definition AEAD_MESSAGEBYTES_MAX :: nat where "AEAD_MESSAGEBYTES_MAX = 2 ^ 64 - 1 - AEAD_ABYTES"
definition STREAM_MESSAGEBYTES_MAX :: nat where "STREAM_MESSAGEBYTES_MAX = 64 * (2 ^ 32 - 2)"

definition box_laws :: "'st sodium \<Rightarrow> bool" where
  "box_laws na \<longleftrightarrow>
     (\<forall>seed pk sk. box_keypair na seed = Some (pk, sk) \<longrightarrow>
        length pk = PUBLICKEYBYTES \<and> length sk = SECRETKEYBYTES \<and> box_pair na pk sk) \<and>
     (\<forall>pk seed m c. box_seal na pk seed m = Some c \<longrightarrow> length c = SEALBYTES + length m)"

definition aead_law :: "'st sodium \<Rightarrow> bool" where
  "aead_law na \<longleftrightarrow>
     (\<forall>k n ad m. length m \<le> AEAD_MESSAGEBYTES_MAX \<longrightarrow>
        aead_decrypt na k n ad (aead_encrypt na k n ad m) = Some m \<and>
        length (aead_encrypt na k n ad m) = length m + AEAD_ABYTES)"

definition stream_law :: "'st sodium \<Rightarrow> ('st \<Rightarrow> bool) \<Rightarrow> bool" where
  "stream_law na ok \<longleftrightarrow>
     (\<forall>k seed header st. length seed = STREAM_HEADERBYTES \<and> init_push na k seed = Some (header, st) \<longrightarrow>
        length header = STREAM_HEADERBYTES \<and> init_pull na header k = Some st \<and> ok st) \<and>
     (\<forall>st m t c st'. ok st \<and> length m \<le> STREAM_MESSAGEBYTES_MAX \<and> push na st m t = (c, st') \<longrightarrow>
        length c = length m + STREAM_ABYTES \<and> pull na st c = Some (m, t, st') \<and> ok st')"

definition sodium_laws :: "'st sodium \<Rightarrow> bool" where
  "sodium_laws na \<longleftrightarrow> box_laws na \<and> aead_law na \<and> (\<exists>ok. stream_law na ok)"

lemma box_lawsD:
  assumes "sodium_laws na"
  shows "box_keypair na seed = Some (pk, sk) \<Longrightarrow>
      length pk = PUBLICKEYBYTES \<and> length sk = SECRETKEYBYTES \<and> box_pair na pk sk"
    and "box_seal na pk seed m = Some c \<Longrightarrow> length c = SEALBYTES + length m"
  using assms unfolding sodium_laws_def box_laws_def by blast+

lemma aead_lawD:
  assumes "sodium_laws na" and "length m \<le> AEAD_MESSAGEBYTES_MAX"
  shows "aead_decrypt na k n ad (aead_encrypt na k n ad m) = Some m"
    and "length (aead_encrypt na k n ad m) = length m + AEAD_ABYTES"
  using assms unfolding sodium_laws_def aead_law_def by blast+

lemma stream_lawD:
  assumes "stream_law na ok"
  shows "length seed = STREAM_HEADERBYTES \<Longrightarrow> init_push na k seed = Some (header, st) \<Longrightarrow>
      length header = STREAM_HEADERBYTES \<and> init_pull na header k = Some st \<and> ok st"
    and "ok st \<Longrightarrow> length m \<le> STREAM_MESSAGEBYTES_MAX \<Longrightarrow> push na st m t = (c, st') \<Longrightarrow>
      length c = length m + STREAM_ABYTES \<and> pull na st c = Some (m, t, st') \<and> ok st'"
  using assms unfolding stream_law_def by blast+

lemma chunk_in_limit: "length m \<le> plaintextChunkSize \<Longrightarrow> length m \<le> STREAM_MESSAGEBYTES_MAX"
  by (simp add: plaintextChunkSize_def STREAM_MESSAGEBYTES_MAX_def)

section \<open>The stream\<close>

definition framed :: "bytes \<Rightarrow> bytes" where
  "framed c = to_bytes (word_of_nat (length c) :: u32) @ c"

lemma length_framed [simp]: "length (framed c) = 4 + length c"
  by (simp add: framed_def)

lemma framed_length:
  assumes "length c \<le> ciphertextMaxChunkSize"
  shows "min ciphertextMaxChunkSize (unat (from_bytes (to_bytes (word_of_nat (length c) :: u32)) :: u32)) = length c"
proof -
  have "length c < 2 ^ 32" using assms by (simp add: stream_sizes)
  then have "unat (word_of_nat (length c) :: u32) = length c" by (simp add: unat_of_nat)
  then show ?thesis using assms by (simp add: from_bytes_to_bytes)
qed

lemma read_exact_append: "length xs = n \<Longrightarrow> read_exact n (xs @ ys) = Inr (xs, ys)"
  by (simp add: read_exact_def)

lemma pull_framed:
  assumes "length c \<le> ciphertextMaxChunkSize" and "pull na st c = Some (m, tag, st')"
  shows "pull_chunks na st (framed c @ rest) =
    wrote m (if tag = 0 then pull_chunks na st' rest
             else if tag \<noteq> TAG_FINAL then ([], Inl (RuntimeError ''Invalid data (tag) while decrypting''))
             else ([], Inr ()))"
  using framed_length [OF assms(1)] assms(2)
  by (subst pull_chunks.simps) (simp add: framed_def read_exact_append Let_def)

lemma pull_truncated_frame:
  assumes "length c \<le> ciphertextMaxChunkSize" and "n < length (framed c)"
  shows "pull_chunks na st (take n (framed c)) = ([], Inl (RuntimeError ''Unexpected EOF''))"
proof (cases "n < 4")
  case True
  then show ?thesis by (subst pull_chunks.simps) (simp add: read_exact_def)
next
  case False
  have t: "take n (framed c) = to_bytes (word_of_nat (length c) :: u32) @ take (n - 4) c"
    using False by (simp add: framed_def)
  have "n - 4 < length c" using assms(2) False by simp
  then show ?thesis
    unfolding t using framed_length [OF assms(1)]
    by (subst pull_chunks.simps)
      (simp add: read_exact_append Let_def read_exact_def del: min_less_iff_conj)
qed

text \<open>
  A descriptor that appends: \<open>written\<close> is what is behind it, as long as it is \<open>ready\<close>.
\<close>

locale sink =
  fixes out :: "bytes \<Rightarrow> ('z machine_scheme, unit) prog"
    and ready :: "'z machine_scheme \<Rightarrow> bool"
    and written :: "'z machine_scheme \<Rightarrow> bytes"
  assumes append: "ready s \<Longrightarrow> out bs s = (Inr (), s') \<Longrightarrow> ready s' \<and> written s' = written s @ bs"
    and random: "ready s \<Longrightarrow> random_bytes n s = (Inr r, s') \<Longrightarrow> ready s' \<and> written s' = written s"
begin

lemma write_chunk_framed:
  assumes "ready s" and "write_chunk out c s = (Inr (), s')"
  shows "ready s' \<and> written s' = written s @ framed c"
proof -
  obtain s1 where "out (to_bytes (word_of_nat (length c) :: u32)) s = (Inr (), s1)" "out c s1 = (Inr (), s')"
    using assms(2) by (auto simp: write_chunk_def thenS_eq_Inr)
  then show ?thesis using append [of s] append [of s1] assms(1) by (simp add: framed_def)
qed

text \<open>
  The chunks that were pushed are pulled again, whatever follows them; a strict prefix of them
  ends in an exception after a prefix of the plaintext.
\<close>

lemma push_chunks_pull:
  assumes laws: "stream_law na ok"
  shows "ready s \<Longrightarrow> ok st \<Longrightarrow> list_all (\<lambda>b. length b \<le> plaintextChunkSize) bufs \<Longrightarrow>
    push_chunks na out st bufs s = (Inr (), s') \<Longrightarrow>
    \<exists>c. ready s' \<and> written s' = written s @ c \<and>
      (\<forall>rest. pull_chunks na st (c @ rest) = (concat bufs, Inr ())) \<and>
      (\<forall>n < length c. \<exists>m e. pull_chunks na st (take n c) = (m, Inl e) \<and> prefix m (concat bufs))"
proof (induction bufs arbitrary: st s)
  case Nil
  obtain c st' where c: "push na st [] TAG_FINAL = (c, st')" by fastforce
  have law: "length c = STREAM_ABYTES \<and> pull na st c = Some ([], TAG_FINAL, st') \<and> ok st'"
    using stream_lawD(2) [OF laws Nil.prems(2) chunk_in_limit c] by simp
  have "length c \<le> ciphertextMaxChunkSize" using law by (simp add: ciphertextMaxChunkSize_def)
  moreover have "write_chunk out c s = (Inr (), s')" using Nil.prems(4) c by simp
  note write_chunk_framed [OF Nil.prems(1) this]
  moreover have "TAG_FINAL \<noteq> 0" by (simp add: TAG_FINAL_def)
  ultimately show ?case
    using law pull_framed [of c na st "[]" TAG_FINAL st'] pull_truncated_frame [of c _ na st]
    by (intro exI [of _ "framed c"]) (auto simp: wrote_def)
next
  case (Cons b bufs)
  obtain c st' where c: "push na st b 0 = (c, st')" by fastforce
  have "length b \<le> plaintextChunkSize" using Cons.prems(3) by simp
  note law = stream_lawD(2) [OF laws Cons.prems(2) chunk_in_limit [OF this] c]
  have max: "length c \<le> ciphertextMaxChunkSize"
    using law Cons.prems(3) by (simp add: ciphertextMaxChunkSize_def)
  obtain s1 where s1: "write_chunk out c s = (Inr (), s1)" "push_chunks na out st' bufs s1 = (Inr (), s')"
    using Cons.prems(4) c by (auto simp: thenS_eq_Inr)
  note w = write_chunk_framed [OF Cons.prems(1) s1(1)]
  obtain d where d: "ready s'" "written s' = written s1 @ d"
    "\<And>rest. pull_chunks na st' (d @ rest) = (concat bufs, Inr ())"
    "\<And>n. n < length d \<Longrightarrow> \<exists>m e. pull_chunks na st' (take n d) = (m, Inl e) \<and> prefix m (concat bufs)"
    using Cons.IH [of s1 st'] w law Cons.prems(3) s1(2) by auto
  have step: "pull_chunks na st (framed c @ r) = wrote b (pull_chunks na st' r)" for r
    using pull_framed [of c na st b 0 st' r] law max by simp
  have "\<exists>m e. pull_chunks na st (take n (framed c @ d)) = (m, Inl e) \<and> prefix m (b @ concat bufs)"
    if n: "n < length (framed c @ d)" for n
  proof (cases "n < length (framed c)")
    case True
    then show ?thesis using pull_truncated_frame [OF max True, of na st] by simp
  next
    case False
    then have "n - length (framed c) < length d" using n by simp
    then obtain m e where "pull_chunks na st' (take (n - length (framed c)) d) = (m, Inl e)"
      "prefix m (concat bufs)" using d(4) by blast
    then show ?thesis using False step by (simp add: wrote_def)
  qed
  moreover have "pull_chunks na st ((framed c @ d) @ rest) = (concat (b # bufs), Inr ())" for rest
    using step d(3) by (simp add: wrote_def)
  ultimately show ?case using d(1,2) w by (intro exI [of _ "framed c @ d"]) auto
qed

end

section \<open>The key entries\<close>

definition entry_of :: "bytes \<Rightarrow> bytes \<Rightarrow> bool \<Rightarrow> bytes" where
  "entry_of keyId sealed is_last = keyId @ sealed @ [if is_last then 1 else 0]"

definition can_open :: "'st sodium \<Rightarrow> decrypted_key_pair \<Rightarrow> key_pair list \<Rightarrow> bool" where
  "can_open na dk ks \<longleftrightarrow>
     box_pair na (kp_pubKey (dk_keyPair dk)) (dk_privKeyPlaintext dk) \<and>
     list_all (\<lambda>k. key_pair_ok k \<and>
       (getKeyId k = getKeyId (dk_keyPair dk) \<longrightarrow> kp_pubKey k = kp_pubKey (dk_keyPair dk))) ks"

definition has_key :: "decrypted_key_pair \<Rightarrow> key_pair list \<Rightarrow> bool" where
  "has_key dk ks \<longleftrightarrow> list_ex (\<lambda>k. getKeyId k = getKeyId (dk_keyPair dk)) ks"

lemma open_entries_step:
  assumes "length keyId = crypto_pwhash_SALTBYTES" and "length sealed = SEALBYTES + AEAD_KEYBYTES"
    and "keyId = getKeyId (dk_keyPair dk) \<Longrightarrow>
      box_seal_open na (kp_pubKey (dk_keyPair dk)) (dk_privKeyPlaintext dk) sealed = Some symKey"
    and "found = None \<or> found = Some symKey"
  shows "open_entries na dk found (entry_of keyId sealed is_last @ rest) =
    (let found' = (if keyId = getKeyId (dk_keyPair dk) then Some symKey else found)
     in if is_last then
          (case found' of
             None \<Rightarrow> Inl (RuntimeError ''Decryption key not present in any key slot'')
           | Some _ \<Rightarrow> Inr (symKey, rest))
        else open_entries na dk found' rest)"
  using assms
  by (subst open_entries.simps)
    (auto simp: read_exact_def entry_of_def entry_size_def Let_def split: option.splits)

lemma open_entries_short: "length input < entry_size \<Longrightarrow> \<exists>e. open_entries na dk found input = Inl e"
  by (subst open_entries.simps) (simp add: read_exact_def)

lemma length_entry_of:
  "length keyId = crypto_pwhash_SALTBYTES \<Longrightarrow> length sealed = SEALBYTES + AEAD_KEYBYTES \<Longrightarrow>
    length (entry_of keyId sealed is_last) = entry_size"
  by (simp add: entry_of_def entry_size_def)

context sink
begin

lemma seal_entries_open:
  assumes laws: "sodium_laws na" and key: "length symKey = AEAD_KEYBYTES"
  shows "ks \<noteq> [] \<Longrightarrow> can_open na dk ks \<Longrightarrow> ready s \<Longrightarrow> found = None \<or> found = Some symKey \<Longrightarrow>
    seal_entries na out symKey ks s = (Inr (), s') \<Longrightarrow>
    \<exists>c. ready s' \<and> written s' = written s @ c \<and>
      (\<forall>rest. open_entries na dk found (c @ rest) =
        (if found \<noteq> None \<or> has_key dk ks then Inr (symKey, rest)
         else Inl (RuntimeError ''Decryption key not present in any key slot''))) \<and>
      (\<forall>n < length c. \<exists>e. open_entries na dk found (take n c) = Inl e)"
proof (induction ks arbitrary: s found)
  case (Cons k ks)
  obtain seed s1 where s1: "random_bytes 32 s = (Inr seed, s1)" by (simp add: random_bytes_def)
  note r1 = random [OF Cons.prems(3) s1]
  obtain sealed s2 where sealed: "box_seal na (kp_pubKey k) seed symKey = Some sealed"
    and s2: "out (entry_of (getKeyId k) sealed (ks = [])) s1 = (Inr (), s2)"
    and s3: "seal_entries na out symKey ks s2 = (Inr (), s')"
    using Cons.prems(5) s1 by (auto simp: thenS_eq_Inr entry_of_def split: option.splits)
  note r2 = append [OF conjunct1 [OF r1] s2]
  define id where "id = getKeyId k"
  have id: "length id = crypto_pwhash_SALTBYTES"
    using Cons.prems(2) by (simp add: id_def can_open_def key_pair_ok_def getKeyId_def)
  have len: "length sealed = SEALBYTES + AEAD_KEYBYTES"
    using box_lawsD(2) [OF laws sealed] key by simp
  have opens: "box_seal_open na (kp_pubKey (dk_keyPair dk)) (dk_privKeyPlaintext dk) sealed = Some symKey"
    if "id = getKeyId (dk_keyPair dk)"
    using that sealed Cons.prems(2) by (auto simp: can_open_def box_pair_def id_def)
  note step = open_entries_step [OF id len opens, where found = found, OF _ Cons.prems(4)]
  define found' where "found' = (if id = getKeyId (dk_keyPair dk) then Some symKey else found)"
  let ?e = "entry_of id sealed (ks = [])"
  have short: "\<exists>e. open_entries na dk found (take n ?e) = Inl e" if "n < length ?e" for n
    using that length_entry_of [OF id len] by (intro open_entries_short) simp
  show ?case
  proof (cases "ks = []")
    case True
    then have "ready s' \<and> written s' = written s @ ?e" using s3 r1 r2 by (simp add: id_def)
    moreover have "open_entries na dk found (?e @ rest) =
        (if found \<noteq> None \<or> has_key dk (k # ks) then Inr (symKey, rest)
         else Inl (RuntimeError ''Decryption key not present in any key slot''))" for rest
      using True step [of True rest] by (auto simp: has_key_def id_def)
    ultimately show ?thesis using short by (intro exI [of _ ?e]) auto
  next
    case False
    have "can_open na dk ks" "found' = None \<or> found' = Some symKey"
      using Cons.prems(2,4) by (auto simp: can_open_def found'_def)
    from Cons.IH [OF False this(1) conjunct1 [OF r2] this(2) s3]
    obtain c where c: "ready s'" "written s' = written s2 @ c"
      "\<And>rest. open_entries na dk found' (c @ rest) =
        (if found' \<noteq> None \<or> has_key dk ks then Inr (symKey, rest)
         else Inl (RuntimeError ''Decryption key not present in any key slot''))"
      "\<And>n. n < length c \<Longrightarrow> \<exists>e. open_entries na dk found' (take n c) = Inl e"
      by blast
    have next_: "open_entries na dk found (?e @ rest) = open_entries na dk found' rest" for rest
      using False step [of False rest] by (simp add: found'_def)
    have "(found' \<noteq> None \<or> has_key dk ks) = (found \<noteq> None \<or> has_key dk (k # ks))"
      by (auto simp: found'_def has_key_def id_def)
    moreover have "\<exists>e. open_entries na dk found (take n (?e @ c)) = Inl e" if "n < length (?e @ c)" for n
      using short [of n] c(4) [of "n - length ?e"] that by (cases "n < length ?e") (simp_all add: next_)
    moreover have "written s' = written s @ (?e @ c)" using c(2) r1 r2 by (simp add: id_def)
    ultimately show ?thesis using c(1,3) next_ by (intro exI [of _ "?e @ c"]) auto
  qed
qed simp

end

section \<open>The whole payload\<close>

lemma consume_chunks_concat: "0 < n \<Longrightarrow> concat (consume_chunks n xs) = xs"
  by (induction n xs rule: consume_chunks.induct, subst consume_chunks.simps) simp

lemma consume_chunks_length: "list_all (\<lambda>b. length b \<le> n \<and> b \<noteq> []) (consume_chunks n xs)"
  by (induction n xs rule: consume_chunks.induct, subst consume_chunks.simps) auto

lemma chunk_list_ok: "list_all (\<lambda>b. length b \<le> plaintextChunkSize) (consume_chunks plaintextChunkSize xs)"
  using consume_chunks_length [of plaintextChunkSize xs] by (rule list.pred_mono_strong) simp

context sink
begin

lemma encrypt_decrypt:
  assumes laws: "sodium_laws na" and "ks \<noteq> []" and "can_open na dk ks" and "ready s"
    and enc: "encryptToFd na ks input out s = (Inr (), s')"
  shows "\<exists>c. ready s' \<and> written s' = written s @ c \<and>
    decryptFromFd na dk c =
      (if has_key dk ks then (input, Inr ())
       else ([], Inl (RuntimeError ''Decryption key not present in any key slot''))) \<and>
    (\<forall>n < length c. \<exists>m e. decryptFromFd na dk (take n c) = (m, Inl e) \<and> prefix m input)"
proof -
  have init: "sodium_init na" using enc by (auto simp: encryptToFd_def split: if_splits)
  obtain symKey s1 s2 where s1: "random_bytes AEAD_KEYBYTES s = (Inr symKey, s1)"
    and s2: "seal_entries na out symKey ks s1 = (Inr (), s2)"
    and rest: "bindS (random_bytes STREAM_HEADERBYTES) (\<lambda>seed.
         case init_push na symKey seed of
           None \<Rightarrow> throwS (RuntimeError ''Failed to init secret stream'')
         | Some (header, st) \<Rightarrow>
             thenS (out header) (push_chunks na out st (consume_chunks plaintextChunkSize input))) s2 = (Inr (), s')"
    using enc init by (auto simp: encryptToFd_def bindS_eq_Inr thenS_eq_Inr)
  obtain seed s3 where s3: "random_bytes STREAM_HEADERBYTES s2 = (Inr seed, s3)" by (simp add: random_bytes_def)
  obtain header st s4 where i: "init_push na symKey seed = Some (header, st)"
    and s4: "out header s3 = (Inr (), s4)"
    and s5: "push_chunks na out st (consume_chunks plaintextChunkSize input) s4 = (Inr (), s')"
    using rest s3 by (auto simp: thenS_eq_Inr split: option.splits)
  note r1 = random [OF assms(4) s1]
  have key: "length symKey = AEAD_KEYBYTES" using s1 by (auto simp: random_bytes_def)
  obtain c1 where c1: "ready s2" "written s2 = written s1 @ c1"
    "\<And>rest. open_entries na dk None (c1 @ rest) = (if has_key dk ks then Inr (symKey, rest)
       else Inl (RuntimeError ''Decryption key not present in any key slot''))"
    "\<And>n. n < length c1 \<Longrightarrow> \<exists>e. open_entries na dk None (take n c1) = Inl e"
    using seal_entries_open [OF laws key assms(2,3) conjunct1 [OF r1] _ s2, of None] by auto
  note r3 = random [OF c1(1) s3]
  note r4 = append [OF conjunct1 [OF r3] s4]
  obtain ok where stream: "stream_law na ok" using laws by (auto simp: sodium_laws_def)
  have "length seed = STREAM_HEADERBYTES" using s3 by (auto simp: random_bytes_def)
  note hdr = stream_lawD(1) [OF stream this i]
  obtain c2 where c2: "ready s'" "written s' = written s4 @ c2"
    "\<And>rest. pull_chunks na st (c2 @ rest) = (input, Inr ())"
    "\<And>n. n < length c2 \<Longrightarrow> \<exists>m e. pull_chunks na st (take n c2) = (m, Inl e) \<and> prefix m input"
    using push_chunks_pull [OF stream conjunct1 [OF r4] _ chunk_list_ok s5] hdr consume_chunks_concat
    by (auto simp: plaintextChunkSize_def)
  have pull: "decryptFromFd na dk (c1 @ header @ d) =
      (if has_key dk ks then pull_chunks na st d
       else ([], Inl (RuntimeError ''Decryption key not present in any key slot'')))" for d
    using init hdr by (simp add: decryptFromFd_def c1(3) read_exact_append)
  have short: "\<exists>e. decryptFromFd na dk (c1 @ take n header) = ([], Inl e)" if "n < length header" for n
    using init that hdr by (simp add: decryptFromFd_def c1(3) read_exact_def)
  have "\<exists>m e. decryptFromFd na dk (take n (c1 @ header @ c2)) = (m, Inl e) \<and> prefix m input"
    if n: "n < length (c1 @ header @ c2)" for n
  proof -
    consider "n < length c1" | "length c1 \<le> n" "n - length c1 < length header"
      | "length c1 + length header \<le> n" by linarith
    then show ?thesis
    proof cases
      case 1
      then show ?thesis using c1(4) [of n] by (auto simp: decryptFromFd_def)
    next
      case 2
      then show ?thesis using short [of "n - length c1"] by auto
    next
      case 3
      then have "n - length c1 - length header < length c2" using n by simp
      then show ?thesis using 3 c2(4) pull by (auto simp: take_append)
    qed
  qed
  moreover have "written s' = written s @ c1 @ header @ c2" using c1 c2 r1 r3 r4 by simp
  moreover have "decryptFromFd na dk (c1 @ header @ c2) = (if has_key dk ks then (input, Inr ())
      else ([], Inl (RuntimeError ''Decryption key not present in any key slot'')))"
    using pull c2(3) [of "[]"] by simp
  ultimately show ?thesis using c2(1) by blast
qed

end

section \<open>Writing to a file\<close>

definition is_file :: "path \<Rightarrow> 'z machine_scheme \<Rightarrow> bool" where
  "is_file p s \<longleftrightarrow> (\<exists>bs. look s p = Some (File bs))"

definition file_bytes :: "path \<Rightarrow> 'z machine_scheme \<Rightarrow> bytes" where
  "file_bytes p s = (case look s p of Some (File bs) \<Rightarrow> bs | _ \<Rightarrow> [])"

interpretation file_sink: sink "io_write p" "is_file p" "file_bytes p" for p
  by unfold_locales
    (auto simp: is_file_def file_bytes_def io_write_def syscall_Inr lookup_append random_bytes_def)

lemma io_write_returns: "returns (\<lambda>s. undisturbed s \<and> is_file p s) (io_write p bs)"
  by (auto simp: returns_def io_write_def syscall_Works is_file_def lookup_append)

lemma random_returns: "returns (\<lambda>s. undisturbed s \<and> is_file p s) (random_bytes n)"
  by (simp add: returns_def random_bytes_def is_file_def)

definition seals :: "'st sodium \<Rightarrow> key_pair list \<Rightarrow> bool" where
  "seals na ks \<longleftrightarrow>
     list_all (\<lambda>k. \<forall>seed m. box_seal na (kp_pubKey k) seed m \<noteq> None) ks \<and>
     (\<forall>k seed. init_push na k seed \<noteq> None)"

lemma seal_entries_returns:
  assumes "seals na ks"
  shows "returns (\<lambda>s. undisturbed s \<and> is_file p s) (seal_entries na (io_write p) symKey ks)"
  using assms
proof (induction ks)
  case (Cons k ks)
  then have "seals na ks" by (simp add: seals_def)
  note ih = Cons.IH [OF this]
  have "box_seal na (kp_pubKey k) seed symKey \<noteq> None" for seed
    using Cons.prems by (simp add: seals_def)
  then show ?case
    unfolding seal_entries.simps
    by (intro returns_bind returns_then returns_option random_returns io_write_returns ih)
qed (simp add: returns_ret)

lemma push_chunks_returns:
  "returns (\<lambda>s. undisturbed s \<and> is_file p s) (push_chunks na (io_write p) st bufs)"
  by (induction bufs arbitrary: st)
    (auto simp: write_chunk_def intro!: returns_then io_write_returns split: prod.split)

lemma encryptToFd_returns:
  assumes "sodium_init na" and "seals na ks"
  shows "returns (\<lambda>s. undisturbed s \<and> is_file p s) (encryptToFd na ks input (io_write p))"
proof -
  have "init_push na k seed \<noteq> None" for k seed using assms(2) by (simp only: seals_def) blast
  then show ?thesis
    using assms by (auto simp only: encryptToFd_def not_True_eq_False if_False split_paired_all prod.case
        intro!: returns_bind returns_then returns_option random_returns io_write_returns push_chunks_returns
        seal_entries_returns)
qed

section \<open>A stand-in for libsodium\<close>

text \<open>The identity with the right lengths: it shows that the laws can hold.\<close>

definition plain_sodium :: "unit sodium" where
  "plain_sodium = \<lparr>
     sodium_init = True,
     pwhash = (\<lambda>n password salt ops mem alg. Inr (replicate n 0)),
     box_keypair = (\<lambda>seed. Some (replicate 32 1, replicate 32 2)),
     aead_encrypt = (\<lambda>k n ad m. m @ replicate 16 0),
     aead_decrypt = (\<lambda>k n ad c. Some (take (length c - 16) c)),
     box_seal = (\<lambda>pk seed m. Some (replicate 48 0 @ m)),
     box_seal_open = (\<lambda>pk sk c. Some (drop 48 c)),
     init_push = (\<lambda>k seed. Some (replicate 24 0, ())),
     push = (\<lambda>st m t. (m @ replicate 16 0 @ [t], ())),
     init_pull = (\<lambda>header k. Some ()),
     pull = (\<lambda>st c. Some (take (length c - 17) c, last c, ())) \<rparr>"

lemma plain_sodium_laws: "sodium_laws plain_sodium"
proof -
  have "stream_law plain_sodium (\<lambda>_. True)" by (simp add: stream_law_def plain_sodium_def stream_sizes)
  then show ?thesis
    by (auto simp: sodium_laws_def box_laws_def aead_law_def plain_sodium_def box_pair_def key_sizes stream_sizes)
qed

section \<open>Properties\<close>

text \<open>
  An encrypted payload: on a machine that does its part \<open>encryptToFd\<close> returns, and what it
  appended to the payload file decrypts, for every key pair that has an entry, to exactly the
  input; cut short anywhere, it makes the decryption throw after a prefix of the plaintext, so a
  truncated payload never passes for a complete one.
\<close>

theorem encrypted_payload:
  assumes "sodium_laws na" and "sodium_init na" and "seals na ks" and "ks \<noteq> []"
    and "can_open na dk ks" and "has_key dk ks"
    and "undisturbed s" and "look s p = Some (File old)"
  shows "\<exists>s' c. encryptToFd na ks input (io_write p) s = (Inr (), s') \<and>
    look s' p = Some (File (old @ c)) \<and> decryptFromFd na dk c = (input, Inr ()) \<and>
    (\<forall>n < length c. \<exists>m e. decryptFromFd na dk (take n c) = (m, Inl e) \<and> prefix m input)"
proof -
  have "is_file p s" using assms(8) by (simp add: is_file_def)
  then obtain s' where s': "encryptToFd na ks input (io_write p) s = (Inr (), s')"
    using returnsD [OF encryptToFd_returns [OF assms(2,3)], of s p] assms(7) by auto
  have "\<exists>c. is_file p s' \<and> file_bytes p s' = file_bytes p s @ c \<and>
      decryptFromFd na dk c = (input, Inr ()) \<and>
      (\<forall>n < length c. \<exists>m e. decryptFromFd na dk (take n c) = (m, Inl e) \<and> prefix m input)"
    using file_sink.encrypt_decrypt [OF assms(1,4,5) \<open>is_file p s\<close> s'] by (simp only: assms(6) if_True)
  with s' show ?thesis using assms(8) by (auto simp: is_file_def file_bytes_def)
qed

theorem encrypted_payload_witness:
  "\<exists>s' c. encryptToFd plain_sodium [sample_key_pair] [1, 2, 3] (io_write [''blob''])
       (sample_machine [([''blob''], File []), ([], Dir)]) = (Inr (), s') \<and>
    look s' [''blob''] = Some (File ([] @ c)) \<and>
    decryptFromFd plain_sodium \<lparr> dk_keyPair = sample_key_pair, dk_privKeyPlaintext = replicate 32 2 \<rparr> c
      = ([1, 2, 3], Inr ()) \<and>
    (\<forall>n < length c. \<exists>m e. decryptFromFd plain_sodium
       \<lparr> dk_keyPair = sample_key_pair, dk_privKeyPlaintext = replicate 32 2 \<rparr> (take n c) = (m, Inl e) \<and>
       prefix m [1, 2, 3])"
proof (rule encrypted_payload)
  show "sodium_laws plain_sodium" by (rule plain_sodium_laws)
qed (simp_all add: plain_sodium_def seals_def can_open_def has_key_def box_pair_def sample_key_pair_def
    key_pair_ok_def key_sizes getKeyId_def sample_machine_def lookup_def)

lemma generateFromKey_decrypts:
  assumes laws: "sodium_laws na" and "length (ek_salt key) = crypto_pwhash_SALTBYTES"
    and gen: "generateFromKey na key s = (Inr dk, s')"
  shows "key_pair_ok (dk_keyPair dk) \<and> decrypt_with_key na (dk_keyPair dk) key = Inr dk \<and>
    kp_salt (dk_keyPair dk) = ek_salt key \<and> kp_kdfParams (dk_keyPair dk) = ek_kdfParams key \<and>
    can_open na dk [dk_keyPair dk]"
proof -
  have init: "sodium_init na" using gen by (auto simp: generateFromKey_def split: if_splits)
  then obtain seed pk sk nonce where p: "box_keypair na seed = Some (pk, sk)" "length nonce = NPUBBYTES"
    and dk: "dk = \<lparr> dk_keyPair = \<lparr> kp_salt = ek_salt key, kp_nonce = nonce,
        kp_kdfParams = ek_kdfParams key, kp_pubKey = pk,
        kp_privKeyRepresentation = aead_encrypt na (keyNotPassword key) nonce
          (aeadAdditionalData (ek_salt key) (ek_kdfParams key) nonce pk keypair_version) sk,
        kp_version = keypair_version \<rparr>, dk_privKeyPlaintext = sk \<rparr>"
    using gen by (auto simp: generateFromKey_def bindS_eq_Inr nonce_create_def random_bytes_def Let_def
        split: option.splits)
  note box = box_lawsD(1) [OF laws p(1)]
  then have "length sk \<le> AEAD_MESSAGEBYTES_MAX" by (simp add: AEAD_MESSAGEBYTES_MAX_def key_sizes)
  then show ?thesis
    using init aead_lawD [OF laws] box p(2) assms(2)
    by (simp add: dk key_pair_ok_def decrypt_with_key_def can_open_def)
qed

text \<open>
  A key pair made under a password: \<open>generateFromPassphrase\<close> returns one whose file form
  reads back as the same key pair, and the same password recovers its private key, which opens
  the boxes sealed for it.
\<close>

theorem keypair_password_roundtrip:
  assumes "sodium_laws na" and "sodium_init na" and "\<forall>seed. box_keypair na seed \<noteq> None"
    and "\<forall>salt. \<exists>key. pwhash na AEAD_KEYBYTES password salt (opslimit params) (memlimit params)
      (passwordHashAlgorithm params) = Inr key"
  shows "\<exists>dk s'. generateFromPassphrase na params password s = (Inr dk, s') \<and>
    deserialise_key_pair (serialise_key_pair (dk_keyPair dk) @ rest) = (Inr (dk_keyPair dk), rest) \<and>
    decrypt_with_password na (dk_keyPair dk) password = Inr dk \<and>
    can_open na dk [dk_keyPair dk]"
proof -
  obtain salt s1 where s1: "salt_create s = (Inr salt, s1)" by (simp add: salt_create_def random_bytes_def)
  then have salt: "length salt = crypto_pwhash_SALTBYTES" by (auto simp: salt_create_def random_bytes_def)
  obtain key where key: "encryption_key na password salt params = Inr key" "ek_salt key = salt"
    "ek_kdfParams key = params"
  proof -
    obtain k where "pwhash na AEAD_KEYBYTES password salt (opslimit params) (memlimit params)
        (passwordHashAlgorithm params) = Inr k" using assms(4) by blast
    then show ?thesis by (intro that) (auto simp: encryption_key_def)
  qed
  obtain seed s2 where s2: "random_bytes SECRETKEYBYTES s1 = (Inr seed, s2)" by (simp add: random_bytes_def)
  obtain pk sk where "box_keypair na seed = Some (pk, sk)" using assms(3) by fastforce
  then obtain dk s' where gen: "generateFromKey na key s1 = (Inr dk, s')"
    using assms(2) s2 by (simp add: generateFromKey_def nonce_create_def random_bytes_def Let_def bindS_def)
  then have "generateFromPassphrase na params password s = (Inr dk, s')"
    using s1 key(1) by (simp add: generateFromPassphrase_def)
  then show ?thesis
    using generateFromKey_decrypts [OF assms(1) _ gen] salt key key_pair_codec.roundtrip
    by (auto simp: decrypt_with_password_def encryption_key_for_def)
qed

theorem keypair_password_roundtrip_witness:
  "\<exists>dk s'. generateFromPassphrase plain_sodium default_kdf_params [104, 105] (sample_machine []) = (Inr dk, s') \<and>
    deserialise_key_pair (serialise_key_pair (dk_keyPair dk) @ [9]) = (Inr (dk_keyPair dk), [9]) \<and>
    decrypt_with_password plain_sodium (dk_keyPair dk) [104, 105] = Inr dk \<and>
    can_open plain_sodium dk [dk_keyPair dk]"
proof (rule keypair_password_roundtrip)
  show "sodium_laws plain_sodium" by (rule plain_sodium_laws)
qed (simp_all add: plain_sodium_def)

end
