(* ===== verification/Controller.thy ===== *)
theory Controller
  imports Trust EncryptionUtil
begin

text \<open>
  \<^verbatim>\<open>src/Controller.hpp\<close> and \<^verbatim>\<open>Controller.cpp\<close>: the commands, over the repository and a backend
  driver. The state is the machine, the repository object and the state \<open>'b\<close> behind the driver
  (the dataset and every process outside). A child process is its program, run where the parent
  waits for its data; what it throws reaches the parent as a failed command. Messages on the
  terminal are left out.
\<close>

section \<open>State and parameters\<close>

record 'b system = repo_state +
  backend :: 'b

record repository_params =
  encryption :: bool
  min_seconds_between_snapshots :: u64

record restore_params =
  rp_password :: "bytes option"
  rp_node :: node
  rp_skip_existing :: bool

datatype exit_status = SUCCESS | PARTIAL_FUNCTIONALITY

definition liftB :: "('b, 'a) prog \<Rightarrow> ('b system, 'a) prog" where
  "liftB m s = (case m (backend s) of (r, b') \<Rightarrow> (r, s\<lparr>backend := b'\<rparr>))"

text \<open>\<open>PidOwner::runInChild\<close> and \<open>wait_or_throw\<close>: an exception in the child aborts it.\<close>

definition SIGABRT :: int where "SIGABRT = 6"

definition aborted :: "'a result \<Rightarrow> unit result" where
  "aborted r = (case r of
       Inr _ \<Rightarrow> Inr ()
     | Inl PowerLoss \<Rightarrow> Inl PowerLoss
     | Inl Diverges \<Rightarrow> Inl Diverges
     | Inl _ \<Rightarrow> Inl (CommandFailed SIGABRT '': command failed due to signal: SIGABRT''))"

definition in_child :: "('s, 'a) prog \<Rightarrow> ('s, unit) prog" where
  "in_child m s = (case m s of (r, s') \<Rightarrow> (aborted r, s'))"

section \<open>Storing a snapshot\<close>

definition store_source ::
  "('b, 'i) driver \<Rightarrow> 'i \<Rightarrow> 'i option \<Rightarrow> 'b stream_writer" where
  "store_source drv snapshotId maybeParent =
     (if drv_getNode drv snapshotId = initial_value then drv_initial drv snapshotId
      else case maybeParent of
        None \<Rightarrow> (\<lambda>b. ([], Inl (LogicError ''Bug: store_snapshot() not given parent when needed''), b))
      | Some parent \<Rightarrow> drv_diff drv parent snapshotId)"

text \<open>The bytes the backend writes go to the payload file, encrypted in a child or as they are.\<close>

definition store_payload ::
  "'st sodium \<Rightarrow> bool \<Rightarrow> 'b stream_writer \<Rightarrow> ('b system, unit) prog" where
  "store_payload na encrypt source s =
     (case source (backend s) of (bytes, result, b') \<Rightarrow>
        let out = io_write (temporaryPath (rs s) @ [payloadFileName]) in
        if encrypt then
          bindS (catchS (thenS (in_child (bindS readKeyPairs (\<lambda>ks. encryptToFd na ks bytes out))) (retS None))
                   (\<lambda>e. if e = PowerLoss then throwS e else retS (Some e)))
            (\<lambda>child. case result of
               Inl e \<Rightarrow> throwS e
             | Inr _ \<Rightarrow> (case child of Some e \<Rightarrow> throwS e | None \<Rightarrow> retS ())) (s\<lparr>backend := b'\<rparr>)
        else thenS (out bytes) (liftR result) (s\<lparr>backend := b'\<rparr>))"

definition store_snapshot ::
  "'st sodium \<Rightarrow> ('b, 'i) driver \<Rightarrow> repository_params \<Rightarrow> 'i \<Rightarrow> 'i option \<Rightarrow> ('b system, unit) prog" where
  "store_snapshot na drv params snapshotId maybeParent =
     bindS checkOutTemporarySnapshot (\<lambda>temporarySnapshot.
     thenS (store_payload na (encryption params) (store_source drv snapshotId maybeParent))
       (commit temporarySnapshot (drv_encoded drv snapshotId)))"

definition nodeToSnapshotId :: "('b, 'i) driver \<Rightarrow> node \<Rightarrow> ('b system, 'i) prog" where
  "nodeToSnapshotId drv node = bindS (getEncodedSnapshotId node) (\<lambda>e. liftR (drv_snapshotId drv e))"

definition prune_trusted :: "(node \<Rightarrow> ('b system, unit) prog) \<Rightarrow> ('b system, unit) prog" where
  "prune_trusted fremove s =
     (case getLatestTrustedNode (rs s) of
        None \<Rightarrow> retS ()
      | Some node \<Rightarrow> for_trace fremove (node_prune node)) s"

section \<open>snapshot\<close>

text \<open>The functor \<open>_snapshot\<close> prunes with.\<close>

definition remove_pruned :: "('b, 'i) driver \<Rightarrow> node \<Rightarrow> ('b system, unit) prog" where
  "remove_pruned drv node =
     catchS
       (thenS (deleteNode node)
         (bindS (tryGetEncodedSnapshotId node) (\<lambda>m. case m of
             None \<Rightarrow> retS ()
           | Some e \<Rightarrow> bindS (liftR (drv_snapshotId drv e)) (\<lambda>i. liftB (drv_remove_snapshot drv i)))))
       (\<lambda>e. case e of SnapshotDoesNotExist _ \<Rightarrow> retS () | _ \<Rightarrow> throwS e)"

definition parent_snapshot :: "('b, 'i) driver \<Rightarrow> node \<Rightarrow> ('b system, 'i option) prog" where
  "parent_snapshot drv node =
     (case node_maybe_parent node of
        None \<Rightarrow> retS None
      | Some parent \<Rightarrow>
          bindS (nodeToSnapshotId drv parent) (\<lambda>i.
          bindS (liftB (drv_exists drv i)) (\<lambda>present.
            if present then retS (Some i)
            else throwS (SnapshotDoesNotExist (''Parent snapshot ('' @ drv_pretty drv i @
              '') does not exist; it must be created by restoring to the dataset.'')))))"

definition snapshot_once ::
  "'st sodium \<Rightarrow> ('b, 'i) driver \<Rightarrow> repository_params \<Rightarrow> ('b system, bool) prog" where
  "snapshot_once na drv params =
     bindS getNextSnapshotNode (\<lambda>node.
     thenS (prune_trusted (remove_pruned drv))
     (bindS (parent_snapshot drv node) (\<lambda>maybeParent.
      bindS getRepositoryUuid (\<lambda>uuid.
      bindS (liftB (drv_snapshot drv node uuid)) (\<lambda>(snapshot, already_old).
      thenS (store_snapshot na drv params snapshot maybeParent)
        (retS (\<not> already_old)))))))"

partial_function (option) snapshot_loop ::
  "'st sodium \<Rightarrow> ('b, 'i) driver \<Rightarrow> repository_params \<Rightarrow> 'b system \<Rightarrow> (unit result \<times> 'b system) option" where
  "snapshot_loop na drv params s =
     (case snapshot_once na drv params s of
        (Inl e, s') \<Rightarrow> Some (Inl e, s')
      | (Inr done, s') \<Rightarrow> if done then Some (Inr (), s') else snapshot_loop na drv params s')"

definition snapshot :: "'st sodium \<Rightarrow> ('b, 'i) driver \<Rightarrow> repository_params \<Rightarrow> ('b system, unit) prog" where
  "snapshot na drv params s =
     (case snapshot_loop na drv params s of None \<Rightarrow> (Inl Diverges, s) | Some r \<Rightarrow> r)"

text \<open>\<open>snapshot_import\<close>; \<open>input\<close> is what it reads from its standard input.\<close>

definition snapshot_import ::
  "'st sodium \<Rightarrow> ('b, 'i) driver \<Rightarrow> repository_params \<Rightarrow> bool \<Rightarrow> bytes \<Rightarrow> ('b system, unit) prog" where
  "snapshot_import na drv params create_snapshot input =
     bindS (liftR (encoded_deserialise input)) (\<lambda>e.
     bindS (nodeExists (encoded_node e)) (\<lambda>present.
       if present then throwS (RuntimeError ''Cannot import snapshot: node already exists'')
       else
         bindS (if create_snapshot
                then bindS getRepositoryUuid (\<lambda>uuid.
                       bindS (liftB (drv_snapshot drv (encoded_node e) uuid)) (\<lambda>(i, old). retS i))
                else liftR (drv_snapshotId drv e)) (\<lambda>i.
         bindS (case node_maybe_parent (encoded_node e) of
                  None \<Rightarrow> retS None
                | Some parent \<Rightarrow> bindS (nodeToSnapshotId drv parent) (\<lambda>p. retS (Some p))) (\<lambda>maybeParent.
           store_snapshot na drv params i maybeParent))))"

section \<open>restore\<close>

text \<open>
  The functor of \<open>decryptKeyPair\<close> returns \<^verbatim>\<open>true\<close>, which ends the walk over the key slots,
  whether or not the slot could be decrypted.
\<close>

definition try_slot ::
  "'st sodium \<Rightarrow> bytes \<Rightarrow> decrypted_key_pair option \<Rightarrow> key_pair \<Rightarrow>
    ('z machine_scheme, decrypted_key_pair option \<times> bool) prog" where
  "try_slot na password found k =
     (case decrypt_with_password na k password of
        Inr dk \<Rightarrow> retS (Some dk, True)
      | Inl e \<Rightarrow> if is_runtime_error e then retS (found, True) else throwS e)"

definition decryptKeyPair ::
  "'st sodium \<Rightarrow> bytes \<Rightarrow> ('z repo_state_scheme, decrypted_key_pair option) prog" where
  "decryptKeyPair na password s =
     withKeyPairs (rs_repository (rs s)) (try_slot na password) None s"

text \<open>
  \<open>withDecryptedInput\<close>: the child decrypts the payload into a pipe, \<open>f\<close> gets what comes out of
  it, and a failure of the child is reported after \<open>f\<close> has returned.
\<close>

definition withDecryptedInput ::
  "'st sodium \<Rightarrow> path \<Rightarrow> decrypted_key_pair \<Rightarrow> (bytes \<Rightarrow> ('b system, unit) prog) \<Rightarrow> ('b system, unit) prog" where
  "withDecryptedInput na p dk f s =
     (case io_read p s of
        (Inl PowerLoss, s') \<Rightarrow> (Inl PowerLoss, s')
      | (Inl e, s') \<Rightarrow> thenS (f []) (liftR (aborted (Inl e :: unit result))) s'
      | (Inr input, s') \<Rightarrow>
          (case decryptFromFd na dk input of
             (written, result) \<Rightarrow> thenS (f written) (liftR (aborted result)) s'))"

definition decrypted ::
  "'st sodium \<Rightarrow> decrypted_key_pair option \<Rightarrow> node \<Rightarrow> (bytes \<Rightarrow> ('b system, unit) prog) \<Rightarrow> ('b system, unit) prog" where
  "decrypted na dk node f =
     bindS (createPayloadFdForReading node) (\<lambda>input.
       case dk of
         Some d \<Rightarrow> withDecryptedInput na input d f
       | None \<Rightarrow> bindS (io_read input) f)"

text \<open>The nodes to restore, in increasing order, as the iteration over a \<^verbatim>\<open>std::set\<close>.\<close>

fun self_contained :: "node \<Rightarrow> node list \<Rightarrow> node list \<Rightarrow> node list" where
  "self_contained last_node nodes [] = nodes"
| "self_contained last_node nodes (node # rest) =
     (if last_node < node then nodes
      else self_contained last_node
        (if node_parent node \<in> set nodes \<or> node = initial_value then insort node (removeAll node nodes)
         else nodes) rest)"

definition nodes_to_restore :: "bool \<Rightarrow> node \<Rightarrow> ('b system, node list) prog" where
  "nodes_to_restore restore_all_available_nodes node =
     (if \<not> restore_all_available_nodes then retS (sort (remdups (node_path_inc_root node)))
      else bindS (getNodesIncludingUntrusted (Node 0)) (\<lambda>available.
             retS (self_contained node [] available)))"

definition restore_node ::
  "'st sodium \<Rightarrow> ('b, 'i) driver \<Rightarrow> decrypted_key_pair option \<Rightarrow> bool \<Rightarrow> ('i \<Rightarrow> ('b system, unit) prog) \<Rightarrow>
    node \<Rightarrow> ('b system, unit) prog" where
  "restore_node na drv dk skip_existing uponEachSnapshot node =
     bindS (nodeToSnapshotId drv node) (\<lambda>i.
     bindS (liftB (drv_exists drv i)) (\<lambda>present.
     thenS
       (if \<not> present \<or> \<not> skip_existing then
          decrypted na dk node (\<lambda>input.
            if node = initial_value then liftB (drv_restoreInitial drv i input)
            else bindS (nodeToSnapshotId drv (node_parent node)) (\<lambda>p.
                   liftB (drv_restoreDiff drv p i input)))
        else retS ())
       (uponEachSnapshot i)))"

definition restore_with ::
  "'st sodium \<Rightarrow> ('b, 'i) driver \<Rightarrow> repository_params \<Rightarrow> restore_params \<Rightarrow> bool \<Rightarrow>
    ('i \<Rightarrow> ('b system, unit) prog) \<Rightarrow> ('b system, unit) prog" where
  "restore_with na drv params rp restore_all_available_nodes uponEachSnapshot =
     bindS
       (if encryption params then
          (case rp_password rp of
             None \<Rightarrow> throwS (RuntimeError ''Password needed but not given'')
           | Some password \<Rightarrow> decryptKeyPair na password)
        else retS None) (\<lambda>dk.
     bindS (nodes_to_restore restore_all_available_nodes (rp_node rp)) (\<lambda>nodes.
       forS (restore_node na drv dk (rp_skip_existing rp) uponEachSnapshot) nodes))"

definition restore ::
  "'st sodium \<Rightarrow> ('b, 'i) driver \<Rightarrow> repository_params \<Rightarrow> restore_params \<Rightarrow> ('b system, unit) prog" where
  "restore na drv params rp = restore_with na drv params rp False (\<lambda>_. retS ())"

section \<open>prune-repository\<close>

text \<open>
  One turn of the loop of \<open>prune_repository\<close>, with whether there is another one. The minimum
  time in seconds becomes nanoseconds in 64 bits.
\<close>

definition min_time :: "repository_params \<Rightarrow> u64" where
  "min_time params = min_seconds_between_snapshots params * 1000000000"

definition prune_step :: "repository_params \<Rightarrow> time_point \<Rightarrow> ('z repo_state_scheme, bool) prog" where
  "prune_step params now s =
     (let b = rs_breadcrumb (rs s) in
      bindS (tryGetEncodedSnapshotId (untrusted_begin b)) (\<lambda>maybe_snapshot. case maybe_snapshot of
          None \<Rightarrow> retS False
        | Some e \<Rightarrow>
            bindS (maybeUpdateBreadcrumb b e (min_time params) now) (\<lambda>maybe_updated. case maybe_updated of
                None \<Rightarrow> retS False
              | Some b' \<Rightarrow>
                  thenS (for_trace deleteNode (node_prune (untrusted_begin b)))
                    (thenS (writeBreadcrumb b') (retS True))))) s"

lemma for_trace_keeps: "(\<And>x. always keeps_rs (f x)) \<Longrightarrow> always keeps_rs (for_trace f t)"
  unfolding for_trace_def
  by (auto intro!: keep.seq keep.loop keep.pure split: outcome.split)

lemma deleteNode_keeps: "always keeps_rs (deleteNode n)"
proof (rule alwaysI)
  fix s :: "'z repo_state_scheme"
  show "keeps_rs s (snd (deleteNode n s))"
    using calls_keep(11) [of "pathForNode (rs s) n"] unfolding always_def deleteNode_def by blast
qed

lemma prune_step_advances:
  assumes "prune_step params now s = (Inr True, s')"
  shows "next_node (untrusted_begin (rs_breadcrumb (rs s))) = Inr (untrusted_begin (rs_breadcrumb (rs s')))"
proof -
  let ?b = "rs_breadcrumb (rs s)"
  obtain m s1 where m: "tryGetEncodedSnapshotId (untrusted_begin ?b) s = (Inr m, s1)"
    "(case m of None \<Rightarrow> retS False | Some e \<Rightarrow>
        bindS (maybeUpdateBreadcrumb ?b e (min_time params) now) (\<lambda>u. case u of None \<Rightarrow> retS False
          | Some b' \<Rightarrow> thenS (for_trace deleteNode (node_prune (untrusted_begin ?b)))
              (thenS (writeBreadcrumb b') (retS True)))) s1 = (Inr True, s')"
    using assms by (auto simp: prune_step_def Let_def bindS_eq_Inr)
  then obtain e where e: "m = Some e" by (cases m) auto
  then obtain u s2 where u: "maybeUpdateBreadcrumb ?b e (min_time params) now s1 = (Inr u, s2)"
    "(case u of None \<Rightarrow> retS False | Some b' \<Rightarrow> thenS (for_trace deleteNode (node_prune (untrusted_begin ?b)))
              (thenS (writeBreadcrumb b') (retS True))) s2 = (Inr True, s')"
    using m(2) by (auto simp: bindS_eq_Inr)
  then obtain b' where b': "u = Some b'" by (cases u) auto
  then obtain s3 s4 where w: "writeBreadcrumb b' s3 = (Inr (), s4)" "s' = s4"
    using u(2) by (auto simp: thenS_eq_Inr)
  have "rs_breadcrumb (rs s') = b'" using writeBreadcrumb_outcome [OF w(1)] w(2) by auto
  then show ?thesis using maybeUpdateBreadcrumb_Some u(1) b' by simp
qed

function prune_repository_loop ::
  "repository_params \<Rightarrow> time_point \<Rightarrow> ('z repo_state_scheme, unit) prog" where
  "prune_repository_loop params now s =
     (case prune_step params now s of
        (Inl e, s') \<Rightarrow> (Inl e, s')
      | (Inr continue, s') \<Rightarrow> if continue then prune_repository_loop params now s' else (Inr (), s'))"
  by pat_completeness auto
termination
proof (relation "measure (\<lambda>(_, _, s). 2 ^ 64 - unat (node_value (untrusted_begin (rs_breadcrumb (rs s)))))",
    goal_cases)
  case (2 params now s r s' x)
  then have "untrusted_begin (rs_breadcrumb (rs s)) < untrusted_begin (rs_breadcrumb (rs s'))"
    using prune_step_advances [of params now s s'] next_node_less by simp
  then show ?case
    using word_room by (simp add: less_node_def)
qed simp
declare prune_repository_loop.simps [simp del]

definition prune_repository ::
  "repository_params \<Rightarrow> time_point \<Rightarrow> ('z repo_state_scheme, unit) prog" where
  "prune_repository params now = prune_repository_loop params now"

section \<open>export\<close>

text \<open>\<open>run\<close> is the import command: it reads an encoded identifier and succeeds or throws.\<close>

definition export_repository ::
  "'st sodium \<Rightarrow> ('b, 'i) driver \<Rightarrow> repository_params \<Rightarrow> bytes option \<Rightarrow> string list \<Rightarrow>
    (string list \<Rightarrow> bytes \<Rightarrow> ('b, unit) prog) \<Rightarrow> ('b system, exit_status) prog" where
  "export_repository na drv params password importCommand run =
     bindS getNextSnapshotNode (\<lambda>next.
       if next = initial_value then retS SUCCESS
       else if importCommand = [] then throwS (RuntimeError ''Invalid command: empty command'')
       else
         thenS
           (restore_with na drv params
              \<lparr> rp_password = password, rp_node = Node (node_value next - 1), rp_skip_existing = False \<rparr>
              True
              (\<lambda>i. catchS (liftB (run importCommand (encoded_serialise (drv_encoded drv i))))
                 (\<lambda>e. case e of
                    CommandFailed n what \<Rightarrow> throwS (RuntimeError (''Snapshot command failed: '' @ what))
                  | _ \<Rightarrow> throwS e)))
           (retS SUCCESS))"

section \<open>The other commands\<close>

definition init_repository :: "path \<Rightarrow> uuid \<Rightarrow> string list \<Rightarrow> ('z machine_scheme, unit) prog" where
  "init_repository repository format initargs =
     thenS (createRepository repository format initargs) (retS ())"

definition init_keypair :: "'st sodium \<Rightarrow> path \<Rightarrow> bytes \<Rightarrow> u64 \<Rightarrow> ('z machine_scheme, unit) prog" where
  "init_keypair na repository password limit =
     bindS (generateFromPassphrase na (default_kdf_params\<lparr>memlimit := limit\<rparr>) password) (\<lambda>dk.
       storeKeyPair repository (dk_keyPair dk))"

text \<open>\<open>show_init\<close> with null separators; otherwise a shell quotes the arguments.\<close>

definition show_init_nullsep :: "repository_structure \<Rightarrow> string" where
  "show_init_nullsep r = concat (map (\<lambda>arg. arg @ [char_of (0 :: nat)]) (rs_initargs r))"

text \<open>\<open>list_nodes\<close>: the lines it prints, as the node and the timestamp it renders.\<close>

definition list_nodes :: "bool \<Rightarrow> ('b system, (node \<times> time_point option) list) prog" where
  "list_nodes show_timestamps =
     bindS (getNodesIncludingUntrusted (Node 0)) (\<lambda>nodes.
       foldS (\<lambda>out node.
         if show_timestamps
         then bindS (getEncodedSnapshotId node) (\<lambda>e. retS (out @ [(node, Some (encoded_timestamp e))]))
         else retS (out @ [(node, None)])) [] nodes)"

end
