(* ===== verification/ControllerFacts.thy ===== *)
theory ControllerFacts
  imports Controller
begin

text \<open>
  What the commands do: which files they may touch however they end, the rate at which
  \<open>prune_repository\<close> trusts nodes, that taking snapshots keeps the repository at the alive set of the
  tree, and what restoring feeds to the backend.
\<close>

section \<open>What a command touches\<close>

text \<open>
  \<open>touches Q\<close>: of the files below the repository only those with \<open>Q\<close> may change, and the
  repository stays where it is.
\<close>

definition touches :: "(path \<Rightarrow> path \<Rightarrow> bool) \<Rightarrow> 'z repo_state_scheme \<Rightarrow> 'z repo_state_scheme \<Rightarrow> bool" where
  "touches Q s s' \<longleftrightarrow> rs_repository (rs s') = rs_repository (rs s) \<and>
     (\<forall>q. \<not> Q (rs_repository (rs s)) q \<longrightarrow> look s' q = look s q)"

interpretation touch: effect "touches Q" for Q
  by unfold_locales (auto simp: touches_def)

lemma touchesI:
  assumes "\<And>s. m s = n (rs s) s"
    and "\<And>r. always (same_except (Q (rs_repository r))) (n r)" and "\<And>r. always keeps_rs (n r)"
  shows "always (touches Q) m"
proof (rule alwaysI)
  fix s
  have "same_except (Q (rs_repository (rs s))) s (snd (n (rs s) s))" "keeps_rs s (snd (n (rs s) s))"
    using assms(2,3) by (auto simp: always_def)
  then show "touches Q s (snd (m s))"
    by (simp add: assms(1) touches_def same_except_def keeps_rs_def)
qed

lemma touches_mono:
  "always (touches P) m \<Longrightarrow> (\<And>r q. P r q \<Longrightarrow> Q r q) \<Longrightarrow> always (touches Q) m"
  unfolding always_def touches_def by blast

definition in_nodes :: "node set \<Rightarrow> path \<Rightarrow> path \<Rightarrow> bool" where
  "in_nodes M r q \<longleftrightarrow> (\<exists>n \<in> M. prefix (r @ [snapshotsDirName, to_string (unat (node_value n))]) q)"

lemma lookup_touches:
  "always (touches Q) (tryGetEncodedSnapshotId2 n)" "always (touches Q) (tryGetEncodedSnapshotId n)"
  "always (touches Q) (getEncodedSnapshotId n)"
proof -
  show t: "always (touches Q) (tryGetEncodedSnapshotId2 n)" for Q :: "path \<Rightarrow> path \<Rightarrow> bool"
    unfolding tryGetEncodedSnapshotId2_def
    by (rule touchesI [where n = "\<lambda>r. bindS (tryReadFile (id_path r n)) (\<lambda>bytes. case bytes of
         Inl err \<Rightarrow> retS (Inl err)
       | Inr bs \<Rightarrow> bindS (liftR (encoded_deserialise bs)) (\<lambda>out.
           if encoded_node out \<noteq> n
           then throwS (RuntimeError ''Node mismatch in repository: repository in invalid state'')
           else retS (Inr out)))", OF refl])
      (auto intro!: change.bind change.pure keep.bind keep.pure read_change files_keep split: sum.split)
  show "always (touches Q) (tryGetEncodedSnapshotId n)" "always (touches Q) (getEncodedSnapshotId n)"
    unfolding tryGetEncodedSnapshotId_def getEncodedSnapshotId_def
    by (auto intro!: touch.bind touch.pure t split: sum.split)
qed

lemma deleteNode_touches: "n \<in> M \<Longrightarrow> always (touches (in_nodes M)) (deleteNode n)"
  unfolding deleteNode_def
  by (rule touchesI [where n = "\<lambda>r. fs_remove_all (pathForNode r n)", OF refl])
    (auto intro!: remove_all_change calls_keep simp: in_nodes_def pathForNode_def)

lemma for_trace_touches:
  "(\<And>n. n \<in> set (fst t) \<Longrightarrow> always (touches Q) (f n)) \<Longrightarrow> always (touches Q) (for_trace f t)"
  unfolding for_trace_def by (auto intro!: touch.seq touch.loop touch.pure split: outcome.split)

lemma writeBreadcrumb_touches:
  "always (touches (\<lambda>r q. q = r @ [breadcrumbFileName])) (writeBreadcrumb b)"
proof (rule alwaysI)
  fix s :: "'z repo_state_scheme"
  obtain r s' where w: "writeBreadcrumb b s = (r, s')" by fastforce
  then show "touches (\<lambda>r q. q = r @ [breadcrumbFileName]) s (snd (writeBreadcrumb b s))"
    using writeBreadcrumb_outcome [OF w] by (auto simp: touches_def)
qed

lemma maybeUpdateBreadcrumb_touches: "always (touches Q) (maybeUpdateBreadcrumb b c d now)"
  unfolding maybeUpdateBreadcrumb_def by (auto intro!: touch.bind touch.pure lookup_touches)

section \<open>Trusting nodes at a bounded rate\<close>

text \<open>One turn: either the breadcrumb in memory stays, or it moves as \<open>maybeUpdateBreadcrumb\<close> says.\<close>

lemma for_trace_rs: "always keeps_rs (for_trace deleteNode t)"
  by (rule for_trace_keeps) (rule deleteNode_keeps)

lemma prune_step_touches:
  "always (touches (\<lambda>r q. in_nodes (set (fst (node_prune (untrusted_begin b)))) r q \<or> q = r @ [breadcrumbFileName]))
    (bindS (tryGetEncodedSnapshotId (untrusted_begin b)) (\<lambda>maybe_snapshot. case maybe_snapshot of
          None \<Rightarrow> retS False
        | Some e \<Rightarrow>
            bindS (maybeUpdateBreadcrumb b e d now) (\<lambda>maybe_updated. case maybe_updated of
                None \<Rightarrow> retS False
              | Some b' \<Rightarrow>
                  thenS (for_trace deleteNode (node_prune (untrusted_begin b)))
                    (thenS (writeBreadcrumb b') (retS True)))))"
proof -
  let ?M = "set (fst (node_prune (untrusted_begin b)))"
  have d: "always (touches (\<lambda>r q. in_nodes ?M r q \<or> q = r @ [breadcrumbFileName]))
      (for_trace deleteNode (node_prune (untrusted_begin b)))"
    by (rule for_trace_touches, rule touches_mono [OF deleteNode_touches]) auto
  have w: "always (touches (\<lambda>r q. in_nodes ?M r q \<or> q = r @ [breadcrumbFileName])) (writeBreadcrumb b')" for b'
    by (rule touches_mono [OF writeBreadcrumb_touches]) simp
  show ?thesis
    by (auto intro!: touch.bind touch.seq touch.pure lookup_touches maybeUpdateBreadcrumb_touches d w
        split: option.split)
qed

lemma prune_step_outcome:
  fixes s :: "'z repo_state_scheme"
  assumes "prune_step params now s = (r, s')"
  shows "touches (\<lambda>rp q. in_nodes (set (fst (node_prune (untrusted_begin (rs_breadcrumb (rs s)))))) rp q \<or>
      q = rp @ [breadcrumbFileName]) s s' \<and>
    (r \<noteq> Inr True \<and> rs s' = rs s \<or>
     r = Inr True \<and> (\<exists>b' e s1 s2. rs s' = (rs s)\<lparr>rs_breadcrumb := b'\<rparr> \<and>
       maybeUpdateBreadcrumb (rs_breadcrumb (rs s)) e (min_time params) now s1 = (Inr (Some b'), s2 :: 'z repo_state_scheme)))"
proof (intro conjI)
  let ?b = "rs_breadcrumb (rs s)"
  show "touches (\<lambda>rp q. in_nodes (set (fst (node_prune (untrusted_begin ?b)))) rp q \<or>
      q = rp @ [breadcrumbFileName]) s s'"
    using alwaysD [OF prune_step_touches] assms unfolding prune_step_def Let_def .
  obtain m s1 where m: "tryGetEncodedSnapshotId (untrusted_begin ?b) s = (m, s1)" by fastforce
  have rs1: "rs s1 = rs s" using alwaysD [OF getEncodedSnapshotId_keeps(2) m] by (simp add: keeps_rs_def)
  show "r \<noteq> Inr True \<and> rs s' = rs s \<or>
     r = Inr True \<and> (\<exists>b' e s1 s2. rs s' = (rs s)\<lparr>rs_breadcrumb := b'\<rparr> \<and>
       maybeUpdateBreadcrumb ?b e (min_time params) now s1 = (Inr (Some b'), s2 :: 'z repo_state_scheme))"
  proof (cases "\<exists>e. m = Inr (Some e)")
    case False
    have "r \<noteq> Inr True \<and> s' = s1"
    proof (cases m)
      case (Inl x)
      then show ?thesis using assms m by (auto simp: prune_step_def Let_def)
    next
      case (Inr x)
      then have "m = Inr None" using False by (cases x) auto
      then show ?thesis using assms m by (auto simp: prune_step_def Let_def)
    qed
    then show ?thesis using rs1 by simp
  next
    case True
    then obtain e where e: "m = Inr (Some e)" by blast
    obtain u s2 where u: "maybeUpdateBreadcrumb ?b e (min_time params) now s1 = (u, s2)" by fastforce
    have rs2: "rs s2 = rs s" using alwaysD [OF maybeUpdateBreadcrumb_keeps u] rs1 by (simp add: keeps_rs_def)
    show ?thesis
    proof (cases "\<exists>b'. u = Inr (Some b')")
      case False
      have "r \<noteq> Inr True \<and> s' = s2"
      proof (cases u)
        case (Inl x)
        then show ?thesis using assms m e u by (auto simp: prune_step_def Let_def)
      next
        case (Inr x)
        then have "u = Inr None" using False by (cases x) auto
        then show ?thesis using assms m e u by (auto simp: prune_step_def Let_def)
      qed
      then show ?thesis using rs2 by simp
    next
      case True
      then obtain b' where b': "u = Inr (Some b')" by blast
      obtain d s3 where d: "for_trace deleteNode (node_prune (untrusted_begin ?b)) s2 = (d, s3)" by fastforce
      have rs3: "rs s3 = rs s" using alwaysD [OF for_trace_rs d] rs2 by (simp add: keeps_rs_def)
      obtain w s4 where w: "writeBreadcrumb b' s3 = (w, s4)" by fastforce
      show ?thesis
      proof (cases d)
        case (Inl x)
        then show ?thesis using assms m e u b' d rs3 by (auto simp: prune_step_def Let_def)
      next
        case (Inr x)
        have "\<exists>e s1 s2. maybeUpdateBreadcrumb ?b e (min_time params) now s1 =
            (Inr (Some b'), s2 :: 'z repo_state_scheme)"
          using u b' by blast
        then show ?thesis
          using assms m e u b' d w writeBreadcrumb_outcome [OF w] rs3 Inr
          by (cases w) (auto simp: prune_step_def Let_def intro!: exI [of _ b'])
      qed
    qed
  qed
qed

definition pruned_between :: "node \<Rightarrow> node \<Rightarrow> node set" where
  "pruned_between a b = {m. \<exists>k. a \<le> k \<and> k \<le> b \<and> m \<in> set (fst (node_prune k))}"

abbreviation mark :: "'z repo_state_scheme \<Rightarrow> node" where
  "mark s \<equiv> untrusted_begin (rs_breadcrumb (rs s))"

abbreviation authorised :: "'z repo_state_scheme \<Rightarrow> int" where
  "authorised s \<equiv> ts (last_trusted_node_authorised_at (rs_breadcrumb (rs s)))"

text \<open>The clock is far enough from the end of time that the code's sum does not wrap around.\<close>

definition clock_ok :: "'z repo_state_scheme \<Rightarrow> u64 \<Rightarrow> time_point \<Rightarrow> bool" where
  "clock_ok s d now \<longleftrightarrow> 0 \<le> sint d \<and> max (authorised s) (ts now) + sint d < 2 ^ 63"

lemma update_rate:
  assumes "maybeUpdateBreadcrumb b e d now s = (Inr (Some b'), s')" and "untrusted_begin b \<noteq> initial_value"
    and "no_overflow (last_trusted_node_authorised_at b) d"
  shows "ts (last_trusted_node_authorised_at b) + sint d \<le> ts (last_trusted_node_authorised_at b') \<and>
    ts (last_trusted_node_authorised_at b') \<le> max (ts (last_trusted_node_authorised_at b)) (ts now)"
proof -
  obtain cur where "trust_decision b cur e d now = Inr (Some b')"
    using assms(1,2) by (auto simp: maybeUpdateBreadcrumb_def bindS_eq_Inr split: if_splits)
  from trust_decision_Some [OF this assms(3)] show ?thesis by auto
qed

lemma next_not_initial: "next_node n = Inr m \<Longrightarrow> m \<noteq> initial_value"
  using next_node_less [of n m] by (auto simp: initial_value_def less_node_def)

lemma prune_step_rate:
  fixes s :: "'z repo_state_scheme"
  assumes "prune_step params now s = (Inr True, s')" and "mark s \<noteq> initial_value"
    and "clock_ok s (min_time params) now"
  shows "next_node (mark s) = Inr (mark s')" and "mark s' \<noteq> initial_value"
    and "authorised s + sint (min_time params) \<le> authorised s'"
    and "authorised s' \<le> max (authorised s) (ts now)" and "clock_ok s' (min_time params) now"
proof -
  obtain b' e s1 s2 where b': "rs s' = (rs s)\<lparr>rs_breadcrumb := b'\<rparr>"
      "maybeUpdateBreadcrumb (rs_breadcrumb (rs s)) e (min_time params) now s1 = (Inr (Some b'), s2 :: 'z repo_state_scheme)"
    using prune_step_outcome [OF assms(1)] by auto
  have "no_overflow (last_trusted_node_authorised_at (rs_breadcrumb (rs s))) (min_time params)"
    using assms(3) by (auto simp: clock_ok_def no_overflow_def)
  note rate = update_rate [OF b'(2) assms(2) this]
  show "next_node (mark s) = Inr (mark s')" using maybeUpdateBreadcrumb_Some [OF b'(2)] b'(1) by simp
  then show "mark s' \<noteq> initial_value" by (rule next_not_initial)
  show "authorised s + sint (min_time params) \<le> authorised s'"
    "authorised s' \<le> max (authorised s) (ts now)" using rate b'(1) by simp_all
  then show "clock_ok s' (min_time params) now" using assms(3) by (auto simp: clock_ok_def)
qed

lemma prune_loop_rate:
  assumes "prune_repository_loop params now s = (r, s')" and "mark s \<noteq> initial_value"
    and "clock_ok s (min_time params) now"
  shows "mark s \<le> mark s' \<and>
    int (unat (node_value (mark s')) - unat (node_value (mark s))) * sint (min_time params)
      \<le> authorised s' - authorised s \<and>
    authorised s' \<le> max (authorised s) (ts now) \<and>
    touches (\<lambda>rp q. in_nodes (pruned_between (mark s) (mark s')) rp q \<or> q = rp @ [breadcrumbFileName]) s s'"
  using assms
proof (induction params now s rule: prune_repository_loop.induct)
  case (1 params now s)
  obtain x s1 where step: "prune_step params now s = (x, s1)" by fastforce
  note out = prune_step_outcome [OF step]
  let ?d = "sint (min_time params)"
  have first: "set (fst (node_prune (mark s))) \<subseteq> pruned_between (mark s) m" if "mark s \<le> m" for m
    using that by (auto simp: pruned_between_def)
  show ?case
  proof (cases "x = Inr True")
    case False
    then have "s' = s1" using "1.prems"(1) step by (cases x) (auto simp: prune_repository_loop.simps)
    then show ?thesis
      using out False first [of "mark s"] by (auto simp: touches_def in_nodes_def)
  next
    case True
    have step': "prune_step params now s = (Inr True, s1)" using step True by simp
    note rate = prune_step_rate [OF step' "1.prems"(2,3)]
    have rest: "prune_repository_loop params now s1 = (r, s')"
      using "1.prems"(1) step' by (simp add: prune_repository_loop.simps [of params now s])
    note ih = "1.IH" [OF step'[symmetric] refl TrueI rest rate(2,5)]
    have lt: "mark s < mark s1" using rate(1) by (rule next_node_less)
    have suc: "unat (node_value (mark s1)) = Suc (unat (node_value (mark s)))"
      using rate(1) not_max_less unat_Suc by (auto simp: next_node_Inr)
    have le: "mark s1 \<le> mark s'" using ih by simp
    then have "unat (node_value (mark s1)) \<le> unat (node_value (mark s'))"
      by (simp add: less_eq_node_def word_le_nat_alt)
    then have "int (unat (node_value (mark s')) - unat (node_value (mark s))) * ?d =
        ?d + int (unat (node_value (mark s')) - unat (node_value (mark s1))) * ?d"
      unfolding suc by (simp add: algebra_simps of_nat_diff Suc_le_eq)
    moreover have "touches (\<lambda>rp q. in_nodes (pruned_between (mark s) (mark s')) rp q \<or>
        q = rp @ [breadcrumbFileName]) s s'"
    proof (rule touch.trans)
      have "pruned_between (mark s1) (mark s') \<subseteq> pruned_between (mark s) (mark s')"
        using lt by (auto simp: pruned_between_def intro: less_imp_le order_trans)
      then show "touches (\<lambda>rp q. in_nodes (pruned_between (mark s) (mark s')) rp q \<or>
          q = rp @ [breadcrumbFileName]) s1 s'"
        using ih by (auto simp: touches_def in_nodes_def)
      show "touches (\<lambda>rp q. in_nodes (pruned_between (mark s) (mark s')) rp q \<or>
          q = rp @ [breadcrumbFileName]) s s1"
        using out first [OF less_imp_le [OF less_le_trans [OF lt le]]] unfolding touches_def in_nodes_def by blast
    qed
    ultimately show ?thesis using ih rate(3,4) lt le by auto
  qed
qed

lemma alive_not_pruned:
  assumes "unat (node_value b) < 2 ^ 63" and "m \<in> set (fst (node_alive_after b))"
  shows "m \<notin> pruned_between a b"
proof
  assume "m \<in> pruned_between a b"
  then obtain k where k: "k \<le> b" "m \<in> set (fst (node_prune k))" by (auto simp: pruned_between_def)
  have "unat (node_value k) \<le> unat (node_value b)"
    using k(1) by (simp add: less_eq_node_def word_le_nat_alt)
  moreover from this have "unat (node_value m) \<in> pruned_set (unat (node_value k))"
    using k(2) assms(1) by (auto simp: set_node_traces in_prune)
  moreover have "unat (node_value m) \<in> alive_set (unat (node_value b))"
    using assms by (auto simp: set_node_traces in_alive_after)
  ultimately show False by (auto simp: pruned_set_def alive_set_def)
qed

lemma not_in_nodes: "m \<notin> M \<Longrightarrow> \<not> in_nodes M (rs_repository r) (pathForNode r m @ q)"
  using node_paths_apart [of _ m r q] unfolding in_nodes_def pathForNode_def by (metis append.assoc)

lemma touches_elsewhere:
  assumes "touches (\<lambda>rp q. in_nodes M rp q \<or> q = rp @ [breadcrumbFileName]) s s'" and "m \<notin> M"
  shows "look s' (pathForNode (rs s) m @ q) = look s (pathForNode (rs s) m @ q)"
  using assms not_in_nodes [OF assms(2), of "rs s" q] by (simp add: touches_def)

text \<open>
  C16. Quarantine: however \<open>prune_repository\<close> ends, the number of nodes it starts to trust times the
  minimum time between snapshots is at most the time that has passed since the last node was
  authorised, whatever timestamps the snapshots carry; and the files of no node that is alive at
  the new mark have changed.
\<close>

theorem prune_repository_rate:
  assumes "prune_repository params now s = (r, s')" and "mark s \<noteq> initial_value"
    and "clock_ok s (min_time params) now"
  shows "mark s \<le> mark s' \<and>
    int (unat (node_value (mark s')) - unat (node_value (mark s))) * sint (min_time params)
      \<le> max (authorised s) (ts now) - authorised s \<and>
    (unat (node_value (mark s')) < 2 ^ 63 \<longrightarrow> (\<forall>m \<in> set (fst (node_alive_after (mark s'))). \<forall>q.
      look s' (pathForNode (rs s) m @ q) = look s (pathForNode (rs s) m @ q)))"
proof -
  note out = prune_loop_rate [OF assms(1) [unfolded prune_repository_def] assms(2,3)]
  show ?thesis
    using out alive_not_pruned touches_elsewhere [of "pruned_between (mark s) (mark s')" s s'] by fastforce
qed

definition mirror_state :: repo_state where
  "mirror_state = interrupted_state\<lparr>rs := sample_repository\<lparr>rs_breadcrumb :=
     \<lparr> untrusted_begin = Node 1, last_trusted_node_authorised_at = TimePoint 1000 \<rparr>\<rparr>\<rparr>"

theorem prune_repository_rate_witness:
  "let s' = snd (prune_repository \<lparr> encryption = False, min_seconds_between_snapshots = 2 \<rparr> (TimePoint 3000)
        mirror_state)
   in int (unat (node_value (mark s')) - 1) * 2000000000 \<le> 2000"
proof -
  let ?p = "\<lparr> encryption = False, min_seconds_between_snapshots = 2 \<rparr>"
  obtain r s' where run: "prune_repository ?p (TimePoint 3000) mirror_state = (r, s')" by fastforce
  have d: "min_time ?p = 2000000000" by (simp add: min_time_def)
  have "sint (2000000000 :: u64) = 2000000000" "ts (TimePoint 1000) = 1000" "ts (TimePoint 3000) = 3000"
    by (simp_all add: ts_def)
  moreover have "mark mirror_state = Node 1" "authorised mirror_state = ts (TimePoint 1000)"
    by (simp_all add: mirror_state_def)
  ultimately show ?thesis
    using prune_repository_rate [OF run] run
    by (simp add: d clock_ok_def initial_value_def Let_def)
qed

section \<open>What never reaches the backend\<close>

definition keeps_backend :: "'b system \<Rightarrow> 'b system \<Rightarrow> bool" where
  "keeps_backend s s' \<longleftrightarrow> backend s' = backend s"

interpretation aside: effect keeps_backend
  by unfold_locales (simp_all add: keeps_backend_def)

lemma syscall_aside: "always keeps_backend (syscall what full part)"
  by (auto simp: always_def keeps_backend_def syscall_def split: fate.splits sum.splits)

lemma calls_aside:
  "always keeps_backend (fs_exists p)" "always keeps_backend (k_open_new what p)"
  "always keeps_backend (k_open_trunc what p)" "always keeps_backend (k_open_read what p)"
  "always keeps_backend (io_read p)" "always keeps_backend (io_write p bs)"
  "always keeps_backend (k_rename p q)" "always keeps_backend (fs_remove p)"
  "always keeps_backend (fs_remove_all p)" "always keeps_backend (k_mkdir p)"
  unfolding fs_exists_def k_open_new_def k_open_trunc_def k_open_read_def io_read_def io_write_def
    k_rename_def fs_remove_def fs_remove_all_def k_mkdir_def
  by (rule syscall_aside)+

lemma files_aside:
  "always keeps_backend (writefile p bs must_create)" "always keeps_backend (readfile p)"
  "always keeps_backend (tryReadFile p)" "always keeps_backend (create_directories p)"
  "always keeps_backend (temporary_impl p)"
  unfolding writefile_def readfile_def tryReadFile_def create_directories_def temporary_impl_def
  by (auto intro!: aside.seq aside.bind aside.catch aside.loop calls_aside split: exn.split option.split)

lemma asideI: "(\<And>s. m s = n (rs s) s) \<Longrightarrow> (\<And>r. always keeps_backend (n r)) \<Longrightarrow> always keeps_backend m"
  by (simp add: always_def)

lemma modify_aside: "always keeps_backend (modifyS (\<lambda>s. s\<lparr>rs := g (rs s)\<rparr>))"
  by (simp add: always_def keeps_backend_def)

lemma lookup_aside:
  "always keeps_backend (tryGetEncodedSnapshotId2 n)" "always keeps_backend (tryGetEncodedSnapshotId n)"
  "always keeps_backend (getEncodedSnapshotId n)"
proof -
  show t: "always keeps_backend (tryGetEncodedSnapshotId2 n)"
    unfolding tryGetEncodedSnapshotId2_def
    by (rule asideI [where n = "\<lambda>r. bindS (tryReadFile (id_path r n)) (\<lambda>bytes. case bytes of
         Inl err \<Rightarrow> retS (Inl err)
       | Inr bs \<Rightarrow> bindS (liftR (encoded_deserialise bs)) (\<lambda>out.
           if encoded_node out \<noteq> n
           then throwS (RuntimeError ''Node mismatch in repository: repository in invalid state'')
           else retS (Inr out)))", OF refl])
      (auto intro!: aside.bind aside.pure files_aside split: sum.split)
  show "always keeps_backend (tryGetEncodedSnapshotId n)" "always keeps_backend (getEncodedSnapshotId n)"
    unfolding tryGetEncodedSnapshotId_def getEncodedSnapshotId_def
    by (auto intro!: aside.bind aside.pure t split: sum.split)
qed

lemma deleteNode_aside: "always keeps_backend (deleteNode n)"
  unfolding deleteNode_def
  by (rule asideI [where n = "\<lambda>r. fs_remove_all (pathForNode r n)", OF refl]) (rule calls_aside)

lemma writeBreadcrumb_aside: "always keeps_backend (writeBreadcrumb b)"
  unfolding writeBreadcrumb_def
  by (rule asideI [where n = "\<lambda>r. thenS (writefile (rs_repository r @ [breadcrumbFileName])
      (serialise_breadcrumb b) False) (modifyS (\<lambda>s. s\<lparr>rs := (rs s)\<lparr>rs_breadcrumb := b\<rparr>\<rparr>))", OF refl])
    (intro aside.seq files_aside modify_aside)

lemma commit_aside: "always keeps_backend (commit tok e)"
proof -
  have t: "always keeps_backend (temporary_commit e)"
    unfolding temporary_commit_def Let_def
    by (rule asideI [where n = "\<lambda>r. thenS (writefile (temporaryPath r @ [idFileName]) (encoded_serialise e) False)
        (catchS (k_rename (temporaryPath r) (pathForNode r (encoded_node e))) (\<lambda>err. case err of
             SystemError n what \<Rightarrow>
               bindS (fs_exists (pathForNode r (encoded_node e))) (\<lambda>present.
                 if present
                 then throwS (RuntimeError (''Node '' @ to_string (unat (node_value (encoded_node e))) @
                   ''already exists in repository; this is unexpected''))
                 else throwS err)
           | _ \<Rightarrow> throwS err))", OF refl])
      (auto intro!: aside.seq aside.bind aside.catch aside.pure files_aside calls_aside split: exn.split)
  show ?thesis
    unfolding commit_def
    by (rule asideI [where n = "\<lambda>r. if rs_temporary r \<noteq> Some tok
        then throwS (InvalidArgument ''Invalid TemporarySnapshot: owner mismatch'')
        else thenS (modifyS (\<lambda>s. s\<lparr>rs := (rs s)\<lparr>rs_temporary := None\<rparr>\<rparr>))
          (thenS (temporary_commit e) (bindS (liftR (next_node (encoded_node e))) (\<lambda>next.
             writeBreadcrumb \<lparr> untrusted_begin = next, last_trusted_node_authorised_at = encoded_timestamp e \<rparr>)))",
        OF refl])
      (auto intro!: aside.seq aside.bind aside.pure t writeBreadcrumb_aside modify_aside)
qed

lemma checkOut_aside: "always keeps_backend checkOutTemporarySnapshot"
  unfolding checkOutTemporarySnapshot_def Let_def
  by (rule asideI [where n = "\<lambda>r. if rs_temporary r \<noteq> None
        then throwS (LogicError ''TemporarySnapshot already checked out'')
        else thenS (temporary_impl (temporaryPath r))
          (thenS (modifyS (\<lambda>s. s\<lparr>rs := (rs s)\<lparr>rs_temporary := Some (rs_checkouts r), rs_checkouts := Suc (rs_checkouts r)\<rparr>\<rparr>))
             (retS (rs_checkouts r)))", OF refl])
    (auto intro!: aside.seq aside.pure files_aside modify_aside)

section \<open>Pruned snapshots stay in the backend\<close>

lemma missing_file_unread:
  "look s p = None \<Longrightarrow> tryReadFile p s = (r, s') \<Longrightarrow> \<nexists>bs. r = Inr (Inr bs)"
  by (auto simp: tryReadFile_def k_open_read_def syscall_def bindS_def catchS_def
      split: fate.splits sum.splits prod.splits)

lemma missing_snapshot_unread:
  assumes "look s (id_path (rs s) n) = None" and "tryGetEncodedSnapshotId n s = (r, s')"
  shows "\<nexists>e. r = Inr (Some e)"
proof -
  obtain x s1 where x: "tryReadFile (id_path (rs s) n) s = (x, s1)" by fastforce
  note unread = missing_file_unread [OF assms(1) x]
  show ?thesis
    using assms(2) x unread
    by (auto simp: tryGetEncodedSnapshotId_def tryGetEncodedSnapshotId2_def bindS_def
        split: sum.splits prod.splits if_splits)
qed

lemma deleted_is_missing: "deleteNode n s = (Inr (), s') \<Longrightarrow> look s' (pathForNode (rs s') n @ q) = None"
  by (auto simp: deleteNode_def fs_remove_all_def syscall_Inr lookup_drop)

lemma remove_pruned_aside: "always keeps_backend (remove_pruned drv n)"
proof (rule alwaysI)
  fix s :: "'a system"
  let ?look = "bindS (tryGetEncodedSnapshotId n) (\<lambda>m. case m of
             None \<Rightarrow> retS ()
           | Some e \<Rightarrow> bindS (liftR (drv_snapshotId drv e)) (\<lambda>i. liftB (drv_remove_snapshot drv i)))"
  obtain d s1 where d: "deleteNode n s = (d, s1)" by fastforce
  have b1: "backend s1 = backend s" using alwaysD [OF deleteNode_aside d] by (simp add: keeps_backend_def)
  have "backend (snd (thenS (deleteNode n) ?look s)) = backend s"
  proof (cases d)
    case (Inl x)
    then show ?thesis using d b1 by simp
  next
    case (Inr u)
    obtain r s2 where r: "tryGetEncodedSnapshotId n s1 = (r, s2)" by fastforce
    have "\<nexists>e. r = Inr (Some e)"
      using missing_snapshot_unread [OF deleted_is_missing r] d Inr by simp
    moreover have "backend s2 = backend s1" using alwaysD [OF lookup_aside(2) r] by (simp add: keeps_backend_def)
    ultimately show ?thesis using d Inr r b1
      by (auto simp: bindS_def split: sum.split option.split)
  qed
  then show "keeps_backend s (snd (remove_pruned drv n s))"
    by (auto simp: remove_pruned_def keeps_backend_def catchS_def split: prod.split sum.split exn.split)
qed

text \<open>
  C25. Pruning never removes a snapshot from the backend: the functor of \<open>_snapshot\<close> deletes the
  node's directory first and then looks for the identifier in it, so whatever the driver does and
  whichever call fails, \<open>remove_snapshot\<close> is not called.
\<close>

theorem pruning_keeps_backend:
  "backend (snd (prune_trusted (remove_pruned drv) s)) = backend s"
proof -
  have "always keeps_backend (for_trace (remove_pruned drv) t)" for t
    unfolding for_trace_def
    by (auto intro!: aside.seq aside.loop aside.pure remove_pruned_aside split: outcome.split)
  then show ?thesis
    by (cases "getLatestTrustedNode (rs s)") (auto simp: prune_trusted_def always_def keeps_backend_def)
qed

end
