(* ===== verification/Retention.thy ===== *)
theory Retention
  imports ControllerFacts
begin

text \<open>
  Taking snapshots keeps the repository at the alive set of the tree. The retention policy is an
  interface that the tree routines implement; the contract of a driver that does its part is
  \<open>serves\<close>; the run of \<open>snapshot\<close> is followed call by call on a machine that does its part.
\<close>

section \<open>The policy\<close>

text \<open>
  \<open>held k\<close> are the nodes a repository holds before it stores the node \<open>k\<close>, and \<open>dropped k\<close> those
  it deletes for it.
\<close>

locale policy =
  fixes held :: "u64 \<Rightarrow> node set" and dropped :: "u64 \<Rightarrow> node set" and parent :: "u64 \<Rightarrow> node option"
    and limit :: nat
  assumes empty: "held 0 = {}"
    and step: "unat k < limit \<Longrightarrow> held (k + 1) = insert (Node k) (held k - dropped k)"
    and parent_held: "unat k < limit \<Longrightarrow> parent k = Some p \<Longrightarrow> p \<in> held k - dropped k"
    and older: "unat k < limit \<Longrightarrow> n \<in> held k \<Longrightarrow> n < Node k"
begin

lemma fresh: "unat k < limit \<Longrightarrow> Node k \<notin> held k"
  using older by blast

text \<open>Every parent that storing a node needs is still held when the node is dropped at last.\<close>

lemma parent_stays: "unat k < limit \<Longrightarrow> parent k = Some p \<Longrightarrow> p \<in> held (k + 1)"
  using step parent_held by blast

end

definition alive_before :: "u64 \<Rightarrow> node set" where
  "alive_before k = (if k = 0 then {} else set (fst (node_alive_after (Node (k - 1)))))"

definition dropped_for :: "u64 \<Rightarrow> node set" where
  "dropped_for k = (if k = 0 then {} else set (fst (node_prune (Node k))))"

lemma pred_unat: "k \<noteq> 0 \<Longrightarrow> unat (k - 1 :: u64) = unat k - 1"
  using unat_minus_one by blast

lemma parent_in_path: "0 < n \<Longrightarrow> n - lsb n = 0 \<or> n - lsb n \<in> set (npath n)"
  by (subst npath.simps, subst npath.simps) auto

interpretation tree: policy alive_before dropped_for "\<lambda>k. node_maybe_parent (Node k)" "2 ^ 63"
proof
  show "alive_before 0 = {}" by (simp add: alive_before_def)
next
  fix k :: u64 assume k: "unat k < 2 ^ 63"
  have "unat (k + 1) = Suc (unat k)" using k by (intro unat_Suc) simp
  then have nz: "k + 1 \<noteq> 0" by (metis nat.distinct(1) unat_0)
  show "alive_before (k + 1) = insert (Node k) (alive_before k - dropped_for k)"
  proof (cases "k = 0")
    case True
    then show ?thesis by (simp add: alive_before_def dropped_for_def set_node_traces)
  next
    case False
    have "unat (k - 1) + 1 < 2 ^ 63" using k False pred_unat by (simp add: unat_gt_0 Suc_le_eq)
    from alive_step [OF this] show ?thesis
      using False nz by (auto simp: alive_before_def dropped_for_def set_node_traces)
  qed
next
  fix k p assume k: "unat (k :: u64) < 2 ^ 63" "node_maybe_parent (Node k) = Some p"
  then have p: "k \<noteq> 0" "p = Node (fenwick_parent k)"
    by (auto simp: node_maybe_parent_def isRoot_def initial_value_def node_parent_def split: if_splits)
  have b: "unat (k - 1) < 2 ^ 63" "unat (k - 1) + 1 < 2 ^ 64"
    using k(1) p(1) pred_unat by (simp_all add: unat_gt_0 Suc_le_eq)
  have "Suc (unat (k - 1)) = unat k" using p(1) pred_unat by (simp add: unat_gt_0)
  then have "fenwick_parent k \<in> set (fenwick_path_inc_root (k - 1))"
    using next_parent_in_path [of "unat (k - 1)"] by (simp add: in_path_inc_root unat_fenwick_parent)
  then have "fenwick_parent k \<in> set (fst (alive_after (k - 1)))" using path_in_alive [OF b(1)] by blast
  moreover have "fenwick_parent k \<in> set (fenwick_path_inc_root k)"
    using p(1) parent_in_path [of "unat k"]
    by (auto simp: in_path_inc_root unat_fenwick_parent unat_gt_0 [symmetric] simp del: unat_gt_0)
  then have "fenwick_parent k \<notin> set (fst (prune k))" using path_not_pruned [OF k(1)] by blast
  ultimately show "p \<in> alive_before k - dropped_for k"
    using p by (auto simp: alive_before_def dropped_for_def set_node_traces)
next
  fix k :: u64 and n assume k: "unat k < 2 ^ 63" "n \<in> alive_before k"
  then have nz: "k \<noteq> 0" by (auto simp: alive_before_def)
  then have "unat (k - 1) < unat k" "unat (k - 1) < 2 ^ 63"
    using k(1) pred_unat by (simp_all add: unat_gt_0 less_diff_conv2)
  then show "n < Node k"
    using k(2) nz
    by (auto simp: alive_before_def set_node_traces in_alive_after alive_set_def word_less_nat_alt)
qed

section \<open>Deleting without failures\<close>

text \<open>
  What a run leaves: the object in memory and the backend are the same, and of the files those
  with \<open>gone\<close> are no longer there.
\<close>

definition deleted :: "(path \<Rightarrow> bool) \<Rightarrow> 'b system \<Rightarrow> 'b system \<Rightarrow> bool" where
  "deleted P s s' \<longleftrightarrow> undisturbed s' \<and> rs s' = rs s \<and> backend s' = backend s \<and>
     (\<forall>q. look s' q = (if P q then None else look s q))"

lemma remove_pruned_calm:
  assumes "undisturbed s"
  shows "\<exists>s'. remove_pruned drv n s = (Inr (), s') \<and> deleted (prefix (pathForNode (rs s) n)) s s'"
proof -
  let ?s = "s\<lparr>calls := Suc (calls s), fs := drop_paths (prefix (pathForNode (rs s) n)) (fs s)\<rparr>"
  have d: "deleteNode n s = (Inr (), ?s)"
    using assms by (simp add: deleteNode_def fs_remove_all_def syscall_Works)
  have "look ?s (id_path (rs ?s) n) = None" by (simp add: lookup_drop)
  then have "tryGetEncodedSnapshotId n ?s = (Inr None, ?s\<lparr>calls := Suc (calls ?s)\<rparr>)"
    using assms by (intro snapshot_lookup_missing) simp_all
  then show ?thesis
    using assms d by (simp add: remove_pruned_def deleted_def lookup_drop)
qed

lemma deleted_trans:
  "deleted P s t \<Longrightarrow> deleted Q t u \<Longrightarrow> deleted (\<lambda>q. P q \<or> Q q) s u"
  by (simp add: deleted_def)

lemma remove_all_pruned_calm:
  "undisturbed s \<Longrightarrow> \<exists>s'. forS (remove_pruned drv) ns s = (Inr (), s') \<and>
    deleted (in_nodes (set ns) (rs_repository (rs s))) s s'"
proof (induction ns arbitrary: s)
  case Nil
  then show ?case by (simp add: deleted_def in_nodes_def)
next
  case (Cons n ns)
  obtain s1 where s1: "remove_pruned drv n s = (Inr (), s1)" "deleted (prefix (pathForNode (rs s) n)) s s1"
    using remove_pruned_calm [OF Cons.prems] by blast
  then obtain s2 where s2: "forS (remove_pruned drv) ns s1 = (Inr (), s2)"
      "deleted (in_nodes (set ns) (rs_repository (rs s))) s1 s2"
    using Cons.IH [of s1] by (auto simp: deleted_def)
  have "(\<lambda>q. prefix (pathForNode (rs s) n) q \<or> in_nodes (set ns) (rs_repository (rs s)) q) =
      in_nodes (set (n # ns)) (rs_repository (rs s))"
    by (auto simp: in_nodes_def pathForNode_def fun_eq_iff)
  then show ?case using s1(1) s2(1) deleted_trans [OF s1(2) s2(2)] by simp
qed

lemma prune_trusted_calm:
  assumes "undisturbed s" and "mark s = Node k" and "unat k < 2 ^ 63"
  shows "\<exists>s'. prune_trusted (remove_pruned drv) s = (Inr (), s') \<and>
    deleted (in_nodes (dropped_for k) (rs_repository (rs s))) s s'"
proof (cases "k = 0")
  case True
  then show ?thesis
    using assms(1,2) by (simp add: prune_trusted_def getLatestTrustedNode_def initial_value_def deleted_def
        dropped_for_def in_nodes_def)
next
  case False
  have "snd (node_prune (Node k)) = Done" using prune_small_outcome [OF assms(3)] by (simp add: node_prune_def)
  then show ?thesis
    using False assms(1,2) remove_all_pruned_calm [OF assms(1), of drv "fst (node_prune (Node k))"]
    by (auto simp: prune_trusted_def getLatestTrustedNode_def initial_value_def for_trace_def dropped_for_def)
qed

section \<open>Storing without failures\<close>

text \<open>Whatever an earlier attempt left in the temporary directory can be cleared.\<close>

definition temporary_clean :: "'z repo_state_scheme \<Rightarrow> bool" where
  "temporary_clean s \<longleftrightarrow>
     (let tmp = temporaryPath (rs s) in
      (\<forall>q. prefix tmp q \<longrightarrow> look s q = None) \<or>
      look s tmp = Some Dir \<and> look s (tmp @ [idFileName]) \<noteq> Some Dir \<and>
      look s (tmp @ [payloadFileName]) \<noteq> Some Dir)"

definition sound :: "'z repo_state_scheme \<Rightarrow> bool" where
  "sound s \<longleftrightarrow> undisturbed s \<and> rs_temporary (rs s) = None \<and> temporary_clean s \<and>
     (\<forall>q. prefix q (rs_repository (rs s)) \<longrightarrow> look s q = Some Dir) \<and>
     look s (rs_repository (rs s) @ [snapshotsDirName]) = Some Dir \<and>
     look s (rs_repository (rs s) @ [breadcrumbFileName]) \<noteq> Some Dir \<and>
     (\<exists>bs. look s (rs_repository (rs s) @ [uuidFileName]) = Some (File bs) \<and> uuid_size \<le> length bs)"

lemma fs_remove_calm:
  assumes "undisturbed s" and "look s p \<noteq> Some Dir"
  shows "fs_remove p s = (Inr (), s\<lparr>calls := Suc (calls s), fs := drop_paths (\<lambda>q. q = p) (fs s)\<rparr>)"
  using assms by (simp add: fs_remove_def syscall_Works)

lemma k_open_new_calm:
  assumes "undisturbed s" and "look s p = None" and "parent_is_dir (fs s) p"
  shows "k_open_new what p s = (Inr (), s\<lparr>calls := Suc (calls s), fs := put p (File []) (fs s)\<rparr>)"
  using assms by (simp add: k_open_new_def syscall_Works)

lemma id_not_payload: "idFileName \<noteq> payloadFileName"
  by (simp add: file_names)

lemma temporary_impl_calm:
  assumes "undisturbed s" and "tmp \<noteq> []" and "\<And>q. prefix q (butlast tmp) \<Longrightarrow> look s q = Some Dir"
    and "(\<forall>q. prefix tmp q \<longrightarrow> look s q = None) \<or> look s tmp = Some Dir \<and>
      look s (tmp @ [idFileName]) \<noteq> Some Dir \<and> look s (tmp @ [payloadFileName]) \<noteq> Some Dir"
  shows "\<exists>s'. temporary_impl tmp s = (Inr (), s') \<and> undisturbed s' \<and> look s' tmp = Some Dir \<and>
    look s' (tmp @ [payloadFileName]) = Some (File []) \<and> look s' (tmp @ [idFileName]) = None \<and>
    (\<forall>q. \<not> prefix tmp q \<longrightarrow> look s' q = look s q)"
proof (cases "look s tmp")
  case None
  then have none: "\<forall>q. prefix tmp q \<longrightarrow> look s q = None" using assms(4) by auto
  let ?s = "s\<lparr>calls := Suc (calls s)\<rparr>"
  have tmp: "prefix q tmp \<longleftrightarrow> q = tmp \<or> prefix q (butlast tmp)" for q
    using assms(2) prefix_snoc [of q "butlast tmp" "last tmp"] by simp
  have "prefix q tmp \<Longrightarrow> look ?s q = None \<or> look ?s q = Some Dir" for q
    using none assms(3) by (auto simp: tmp)
  then obtain s1 where s1: "create_directories tmp ?s = (Inr (), s1)" "undisturbed s1"
      "\<And>q. look s1 q = (if prefix q tmp then Some Dir else look s q)"
    using create_directories_calm [of ?s tmp] assms(1) by auto
  have "k_open_new ''Could not open file'' (tmp @ [payloadFileName]) s1 =
      (Inr (), s1\<lparr>calls := Suc (calls s1), fs := put (tmp @ [payloadFileName]) (File []) (fs s1)\<rparr>)"
    using s1 none by (intro k_open_new_calm) (simp_all add: parent_is_dir_def)
  moreover have "fs_exists tmp s = (Inr False, ?s)" using assms(1) None by (simp add: calm)
  moreover have "look s1 q = look s q" if "\<not> prefix tmp q" for q
  proof (cases "prefix q tmp")
    case True
    then have "prefix q (butlast tmp)" using that tmp by auto
    then show ?thesis using s1(3) assms(3) True by simp
  qed (use s1(3) in simp)
  ultimately show ?thesis
    using s1 none id_not_payload by (simp add: temporary_impl_def lookup_put)
next
  case (Some e)
  then have dir: "look s tmp = Some Dir" "look s (tmp @ [idFileName]) \<noteq> Some Dir"
    "look s (tmp @ [payloadFileName]) \<noteq> Some Dir" using assms(4) by auto
  show ?thesis
    using assms(1) dir id_not_payload
    by (simp add: temporary_impl_def calm fs_remove_calm k_open_new_calm lookup_drop lookup_put parent_is_dir_def)
qed

lemma checkOut_calm:
  assumes "sound s"
  shows "\<exists>s' t. checkOutTemporarySnapshot s = (Inr t, s') \<and> undisturbed s' \<and>
    rs s' = (rs s)\<lparr>rs_temporary := Some t, rs_checkouts := Suc (rs_checkouts (rs s))\<rparr> \<and>
    temporary_ready s' [] \<and> look s' (temporaryPath (rs s) @ [idFileName]) = None \<and>
    (\<forall>q. \<not> prefix (temporaryPath (rs s)) q \<longrightarrow> look s' q = look s q)"
proof -
  let ?tmp = "temporaryPath (rs s)"
  have "?tmp \<noteq> []" "butlast ?tmp = rs_repository (rs s)" by (simp_all add: temporaryPath_def)
  then obtain s1 where s1: "temporary_impl ?tmp s = (Inr (), s1)" "undisturbed s1" "look s1 ?tmp = Some Dir"
      "look s1 (?tmp @ [payloadFileName]) = Some (File [])" "look s1 (?tmp @ [idFileName]) = None"
      "\<forall>q. \<not> prefix ?tmp q \<longrightarrow> look s1 q = look s q"
    using temporary_impl_calm [of s ?tmp] assms by (auto simp: sound_def temporary_clean_def Let_def)
  have k: "always keeps_rs (temporary_impl ?tmp)"
    unfolding temporary_impl_def by (auto intro!: keep.seq keep.bind calls_keep files_keep)
  have "rs s1 = rs s" using alwaysD [OF k s1(1)] by (simp add: keeps_rs_def)
  then show ?thesis
    using s1 assms
    by (simp add: checkOutTemporarySnapshot_def Let_def sound_def temporary_ready_def)
qed

text \<open>What \<open>encryptToFd\<close> does to the state is what its output and the random bytes do.\<close>

lemma encryptToFd_effect:
  fixes R :: "'z machine_scheme \<Rightarrow> 'z machine_scheme \<Rightarrow> bool"
  assumes "effect R" and out: "\<And>bs. always R (out bs)" and rnd: "\<And>n. always R (random_bytes n)"
  shows "always R (encryptToFd na ks input out)"
proof -
  note rules = effect.pure [OF assms(1)] effect.bind [OF assms(1)] effect.seq [OF assms(1)]
  have seal: "always R (seal_entries na out k ks)" for k ks
    by (induction ks) (auto intro!: rules rnd out split: option.split simp del: prog_simps)
  have push: "always R (push_chunks na out st bufs)" for st bufs
    by (induction bufs arbitrary: st) (auto simp: write_chunk_def intro!: rules out split: prod.split simp del: prog_simps)
  show ?thesis
    unfolding encryptToFd_def
    by (auto intro!: rules rnd out seal push split: option.split prod.split simp del: prog_simps)
qed

definition can_store :: "'st sodium \<Rightarrow> repository_params \<Rightarrow> 'z repo_state_scheme \<Rightarrow> key_pair list \<Rightarrow> bool" where
  "can_store na params s ks \<longleftrightarrow> (encryption params \<longrightarrow>
     sodium_init na \<and> keys_on_disk s (rs_repository (rs s)) ks \<and> seals na (take maxKeySlots ks))"

text \<open>The payload file \<open>content\<close> gives the stream \<open>bytes\<close> back.\<close>

definition payload_of :: "'st sodium \<Rightarrow> repository_params \<Rightarrow> key_pair list \<Rightarrow> bytes \<Rightarrow> bytes \<Rightarrow> bool" where
  "payload_of na params ks bytes content \<longleftrightarrow>
     (if encryption params then
        sodium_laws na \<and> ks \<noteq> [] \<longrightarrow>
          (\<forall>dk. can_open na dk (take maxKeySlots ks) \<and> has_key dk (take maxKeySlots ks) \<longrightarrow>
            decryptFromFd na dk content = (bytes, Inr ()))
      else content = bytes)"

lemma random_keeps: "always keeps_rs (random_bytes n)" "always keeps_backend (random_bytes n)"
  by (simp_all add: always_def random_bytes_def keeps_rs_def keeps_backend_def)

lemma readKeyPairs_calm:
  assumes "undisturbed s" and "keys_on_disk s (rs_repository (rs s)) ks"
  shows "\<exists>n. readKeyPairs s = (Inr (take maxKeySlots ks), s\<lparr>calls := n\<rparr>)"
  using withKeyPairs_calm [OF assms, of "\<lambda>acc k. (acc @ [k], False)" "[]"]
  by (auto simp: readKeyPairs_def until_stop_collect)

lemma encrypt_calm:
  fixes s :: "'b system"
  assumes "undisturbed s" and "keys_on_disk s (rs_repository (rs s)) ks" and "sodium_init na"
    and "seals na (take maxKeySlots ks)" and "look s p = Some (File [])"
  shows "\<exists>s' c. bindS readKeyPairs (\<lambda>ks. encryptToFd na ks bytes (io_write p)) s = (Inr (), s') \<and>
    undisturbed s' \<and> rs s' = rs s \<and> backend s' = backend s \<and> look s' p = Some (File c) \<and>
    (\<forall>q. q \<noteq> p \<longrightarrow> look s' q = look s q) \<and>
    (sodium_laws na \<and> ks \<noteq> [] \<longrightarrow>
      (\<forall>dk. can_open na dk (take maxKeySlots ks) \<and> has_key dk (take maxKeySlots ks) \<longrightarrow>
        decryptFromFd na dk c = (bytes, Inr ())))"
proof -
  let ?ks = "take maxKeySlots ks"
  obtain n where n: "readKeyPairs s = (Inr ?ks, s\<lparr>calls := n\<rparr>)" using readKeyPairs_calm [OF assms(1,2)] by blast
  let ?s = "s\<lparr>calls := n\<rparr>"
  have start: "is_file p ?s" "file_bytes p ?s = []" using assms(5) by (simp_all add: is_file_def file_bytes_def)
  then obtain s' where s': "encryptToFd na ?ks bytes (io_write p) ?s = (Inr (), s')" "undisturbed s'" "is_file p s'"
    using returnsD [OF encryptToFd_returns [OF assms(3,4)], of ?s p] assms(1) by auto
  have rs: "always keeps_rs (encryptToFd na ?ks bytes (io_write p) :: ('b system, unit) prog)"
    by (rule encryptToFd_effect [OF keep.effect_axioms calls_keep(8) random_keeps(1)])
  have bk: "always keeps_backend (encryptToFd na ?ks bytes (io_write p) :: ('b system, unit) prog)"
    by (rule encryptToFd_effect [OF aside.effect_axioms calls_aside(6) random_keeps(2)])
  have ch: "always (same_except (\<lambda>q. q = p)) (encryptToFd na ?ks bytes (io_write p) :: ('b system, unit) prog)"
    by (rule encryptToFd_effect [OF change.effect_axioms entry_change(4) random_change]) simp
  have dec: "decryptFromFd na dk (file_bytes p s') = (bytes, Inr ())"
    if "sodium_laws na" "ks \<noteq> []" "can_open na dk ?ks" "has_key dk ?ks" for dk
  proof -
    have "?ks \<noteq> []" using that(2) by (simp add: maxKeySlots_def)
    then show ?thesis using file_sink.encrypt_decrypt [OF that(1) _ that(3) start(1) s'(1)] that(4) start(2) by auto
  qed
  show ?thesis
    using n s' alwaysD [OF rs s'(1)] alwaysD [OF bk s'(1)] alwaysD [OF ch s'(1)] dec
    by (auto simp: keeps_rs_def keeps_backend_def same_except_def is_file_def file_bytes_def)
qed

lemma store_payload_calm:
  assumes "undisturbed s" and "look s (temporaryPath (rs s) @ [payloadFileName]) = Some (File [])"
    and "can_store na params s ks" and "source (backend s) = (bytes, Inr (), b')"
  shows "\<exists>s' c. store_payload na (encryption params) source s = (Inr (), s') \<and> undisturbed s' \<and>
    rs s' = rs s \<and> backend s' = b' \<and> payload_of na params ks bytes c \<and>
    look s' (temporaryPath (rs s) @ [payloadFileName]) = Some (File c) \<and>
    (\<forall>q. q \<noteq> temporaryPath (rs s) @ [payloadFileName] \<longrightarrow> look s' q = look s q)"
proof (cases "encryption params")
  case False
  then show ?thesis
    using assms by (simp add: store_payload_def Let_def io_write_def syscall_Works payload_of_def
        append_to.simps lookup_put)
next
  case True
  let ?p = "temporaryPath (rs s) @ [payloadFileName]" and ?s = "s\<lparr>backend := b'\<rparr>"
  obtain s' c where e: "bindS readKeyPairs (\<lambda>ks. encryptToFd na ks bytes (io_write ?p)) ?s = (Inr (), s')"
    and "undisturbed s'" "rs s' = rs s" "backend s' = b'" "look s' ?p = Some (File c)"
    "\<forall>q. q \<noteq> ?p \<longrightarrow> look s' q = look s q"
    "sodium_laws na \<and> ks \<noteq> [] \<longrightarrow>
      (\<forall>dk. can_open na dk (take maxKeySlots ks) \<and> has_key dk (take maxKeySlots ks) \<longrightarrow>
        decryptFromFd na dk c = (bytes, Inr ()))"
    using encrypt_calm [of ?s ks na ?p bytes] assms True by (auto simp: can_store_def keys_on_disk_def)
  moreover have "in_child (bindS readKeyPairs (\<lambda>ks. encryptToFd na ks bytes (io_write ?p))) ?s = (Inr (), s')"
    using e by (simp add: in_child_def aborted_def)
  ultimately show ?thesis
    using True assms(4) by (simp add: store_payload_def Let_def payload_of_def)
qed

section \<open>The temporary directory after a commit\<close>

lemma temporary_commit_moves:
  assumes "temporary_commit e s = (Inr (), s')" and "prefix (temporaryPath (rs s)) q"
  shows "look s' q = None"
proof -
  let ?tmp = "temporaryPath (rs s)" and ?dst = "pathForNode (rs s) (encoded_node e)"
  obtain s1 where w: "writefile (?tmp @ [idFileName]) (encoded_serialise e) False s = (Inr (), s1)"
    and c: "catchS (k_rename ?tmp ?dst) (\<lambda>err. case err of
             SystemError n what \<Rightarrow>
               bindS (fs_exists ?dst) (\<lambda>present.
                 if present
                 then throwS (RuntimeError (''Node '' @ to_string (unat (node_value (encoded_node e))) @
                   ''already exists in repository; this is unexpected''))
                 else throwS err)
           | _ \<Rightarrow> throwS err) s1 = (Inr (), s')"
    using assms(1) by (auto simp: temporary_commit_def Let_def thenS_eq_Inr)
  obtain x s2 where k: "k_rename ?tmp ?dst s1 = (x, s2)" by fastforce
  have "x = Inr ()"
  proof (cases x)
    case (Inl err)
    then show ?thesis using c k
      by (cases err) (auto simp: bindS_def split: sum.splits prod.splits if_splits)
  qed simp
  then have "s' = s2" "fs s2 = move_tree ?tmp ?dst (fs s1)"
    using c k rename_outcome [OF k paths_apart(1,2)] by auto
  moreover have "\<not> prefix ?dst q" using assms(2) paths_apart(1,2) prefix_same_cases by blast
  ultimately show ?thesis using assms(2) paths_apart(1,2) by (simp add: lookup_move)
qed

lemma commit_rs:
  assumes "temporary_commit e s = (r, s')"
  shows "rs s' = rs s"
proof -
  have k: "always keeps_rs (thenS (writefile (temporaryPath r @ [idFileName]) (encoded_serialise e) False)
        (catchS (k_rename (temporaryPath r) (pathForNode r (encoded_node e))) (\<lambda>err. case err of
             SystemError n what \<Rightarrow>
               bindS (fs_exists (pathForNode r (encoded_node e))) (\<lambda>present.
                 if present
                 then throwS (RuntimeError (''Node '' @ to_string (unat (node_value (encoded_node e))) @
                   ''already exists in repository; this is unexpected''))
                 else throwS err)
           | _ \<Rightarrow> throwS err)))" for r
    by (auto intro!: keep.seq keep.bind keep.catch keep.pure files_keep calls_keep split: exn.split)
  have "keeps_rs s (snd (temporary_commit e s))"
    unfolding temporary_commit_def Let_def using k [of "rs s", unfolded always_def] by (rule spec)
  then show ?thesis using assms by (simp add: keeps_rs_def)
qed

lemma commit_moves:
  assumes "commit tok e s = (Inr (), s')" and "prefix (temporaryPath (rs s)) q"
  shows "look s' q = None"
proof -
  define s0 where "s0 = s\<lparr>rs := (rs s)\<lparr>rs_temporary := None\<rparr>\<rparr>"
  obtain n s1 where c: "temporary_commit e s0 = (Inr (), s1)"
    and w: "writeBreadcrumb \<lparr> untrusted_begin = n, last_trusted_node_authorised_at = encoded_timestamp e \<rparr> s1
      = (Inr (), s')"
    using assms(1) by (auto simp: commit_def s0_def thenS_eq_Inr bindS_eq_Inr split: if_splits)
  have "rs_repository (rs s1) = rs_repository (rs s)"
    using commit_rs [OF c] by (simp add: s0_def)
  then have "q \<noteq> rs_repository (rs s1) @ [breadcrumbFileName]" using assms(2) paths_apart(3) by metis
  then show ?thesis
    using writeBreadcrumb_outcome [OF w] temporary_commit_moves [OF c, of q] assms(2) by (simp add: s0_def)
qed

section \<open>A driver that does its part\<close>

text \<open>
  \<open>H\<close> are the snapshots behind the driver, by node. Identifiers of known snapshots decode and
  exist, a new snapshot is found under its node (and is an old one exactly if there was one), and
  the streams of known snapshots are written without an error.
\<close>

type_synonym snapshots = "node \<Rightarrow> encoded option"

definition known :: "('b, 'i) driver \<Rightarrow> snapshots \<Rightarrow> 'i \<Rightarrow> bool" where
  "known drv H i \<longleftrightarrow> H (drv_getNode drv i) = Some (drv_encoded drv i) \<and>
     drv_snapshotId drv (drv_encoded drv i) = Inr i"

text \<open>A new snapshot is newer than all others, unless the driver takes over what is there.\<close>

definition newest :: "snapshots \<Rightarrow> node \<Rightarrow> bool" where
  "newest H n \<longleftrightarrow> (\<forall>m \<in> dom H. m < n)"

definition serves :: "('b, 'i) driver \<Rightarrow> uuid \<Rightarrow> (snapshots \<Rightarrow> 'b \<Rightarrow> bool) \<Rightarrow> bool" where
  "serves drv U good \<longleftrightarrow> (\<forall>H b. good H b \<longrightarrow>
     finite (dom H) \<and>
     (\<forall>n e. H n = Some e \<longrightarrow> encoded_node e = n \<and> encoded_ok e \<and>
       (\<exists>i b'. drv_snapshotId drv e = Inr i \<and> drv_encoded drv i = e \<and> drv_getNode drv i = n \<and>
         drv_exists drv i b = (Inr True, b') \<and> good H b')) \<and>
     (\<forall>n. newest H n \<longrightarrow> (\<exists>i b'. drv_snapshot drv n U b = (Inr (i, False), b') \<and> drv_getNode drv i = n \<and>
       drv_snapshotId drv (drv_encoded drv i) = Inr i \<and> good (H(n \<mapsto> drv_encoded drv i)) b')) \<and>
     (\<forall>i. known drv H i \<longrightarrow>
       (\<exists>bs b'. drv_initial drv i b = (bs, Inr (), b') \<and> good H b') \<and>
       (\<forall>p. known drv H p \<and> drv_getNode drv p < drv_getNode drv i \<longrightarrow> (\<exists>bs b'. drv_diff drv p i b = (bs, Inr (), b') \<and> good H b'))))"

text \<open>A driver that takes over the snapshot of a node that is there already.\<close>

definition adopts :: "('b, 'i) driver \<Rightarrow> uuid \<Rightarrow> (snapshots \<Rightarrow> 'b \<Rightarrow> bool) \<Rightarrow> bool" where
  "adopts drv U good \<longleftrightarrow> (\<forall>H b n. good H b \<longrightarrow>
     (\<exists>i b'. drv_snapshot drv n U b = (Inr (i, H n \<noteq> None), b') \<and> drv_getNode drv i = n \<and>
       drv_snapshotId drv (drv_encoded drv i) = Inr i \<and> good (H(n \<mapsto> drv_encoded drv i)) b'))"

lemma servesI:
  assumes "\<And>H b. good H b \<Longrightarrow> finite (dom H)"
    and "\<And>H b n e. good H b \<Longrightarrow> H n = Some e \<Longrightarrow> encoded_node e = n"
    and "\<And>H b n e. good H b \<Longrightarrow> H n = Some e \<Longrightarrow> encoded_ok e"
    and "\<And>H b n e. good H b \<Longrightarrow> H n = Some e \<Longrightarrow>
      \<exists>i b'. drv_snapshotId drv e = Inr i \<and> drv_encoded drv i = e \<and> drv_getNode drv i = n \<and>
        drv_exists drv i b = (Inr True, b') \<and> good H b'"
    and "\<And>H b n. good H b \<Longrightarrow> newest H n \<Longrightarrow>
      \<exists>i b'. drv_snapshot drv n U b = (Inr (i, False), b') \<and> drv_getNode drv i = n \<and>
        drv_snapshotId drv (drv_encoded drv i) = Inr i \<and> good (H(n \<mapsto> drv_encoded drv i)) b'"
    and "\<And>H b i. good H b \<Longrightarrow> known drv H i \<Longrightarrow> \<exists>bs b'. drv_initial drv i b = (bs, Inr (), b') \<and> good H b'"
    and "\<And>H b i p. good H b \<Longrightarrow> known drv H i \<Longrightarrow> known drv H p \<Longrightarrow> drv_getNode drv p < drv_getNode drv i \<Longrightarrow>
      \<exists>bs b'. drv_diff drv p i b = (bs, Inr (), b') \<and> good H b'"
  shows "serves drv U good"
  unfolding serves_def by (intro allI impI conjI; (elim conjE)?) (rule assms; assumption)+

lemma servesD:
  assumes "serves drv U good" and "good H b"
  shows "finite (dom H)"
    and "H n = Some e \<Longrightarrow> encoded_node e = n \<and> encoded_ok e \<and>
       (\<exists>i b'. drv_snapshotId drv e = Inr i \<and> drv_encoded drv i = e \<and> drv_getNode drv i = n \<and>
         drv_exists drv i b = (Inr True, b') \<and> good H b')"
    and "newest H n \<Longrightarrow> \<exists>i b'. drv_snapshot drv n U b = (Inr (i, False), b') \<and> drv_getNode drv i = n \<and>
      drv_snapshotId drv (drv_encoded drv i) = Inr i \<and>  good (H(n \<mapsto> drv_encoded drv i)) b'"
    and "known drv H i \<Longrightarrow> \<exists>bs b'. drv_initial drv i b = (bs, Inr (), b') \<and> good H b'"
    and "known drv H i \<Longrightarrow> known drv H p \<Longrightarrow> drv_getNode drv p < drv_getNode drv i \<Longrightarrow> \<exists>bs b'. drv_diff drv p i b = (bs, Inr (), b') \<and> good H b'"
proof -
  note body = assms(1) [unfolded serves_def, THEN spec, THEN spec, THEN mp, OF assms(2)]
  show "finite (dom H)" using body by (rule conjunct1)
  note body2 = body [THEN conjunct2]
  show "H n = Some e \<Longrightarrow> encoded_node e = n \<and> encoded_ok e \<and>
       (\<exists>i b'. drv_snapshotId drv e = Inr i \<and> drv_encoded drv i = e \<and> drv_getNode drv i = n \<and>
         drv_exists drv i b = (Inr True, b') \<and> good H b')"
    by (rule body2 [THEN conjunct1, rule_format])
  note body3 = body2 [THEN conjunct2]
  show "newest H n \<Longrightarrow> \<exists>i b'. drv_snapshot drv n U b = (Inr (i, False), b') \<and> drv_getNode drv i = n \<and>
      drv_snapshotId drv (drv_encoded drv i) = Inr i \<and>  good (H(n \<mapsto> drv_encoded drv i)) b'"
    by (rule body3 [THEN conjunct1, rule_format])
  note body4 = body3 [THEN conjunct2, THEN spec, THEN mp]
  show "known drv H i \<Longrightarrow> \<exists>bs b'. drv_initial drv i b = (bs, Inr (), b') \<and> good H b'"
    by (drule body4) (erule conjunct1)
  show "known drv H i \<Longrightarrow> known drv H p \<Longrightarrow> drv_getNode drv p < drv_getNode drv i \<Longrightarrow> \<exists>bs b'. drv_diff drv p i b = (bs, Inr (), b') \<and> good H b'"
    by (drule body4, drule conjunct2, drule spec, erule mp, erule conjI)
qed

lemma serves_known:
  assumes "serves drv U good" and "good H b" and "H n = Some e"
  shows "\<exists>i b'. drv_snapshotId drv e = Inr i \<and> known drv H i \<and> drv_getNode drv i = n \<and>
      drv_exists drv i b = (Inr True, b') \<and> good H b'"
  using servesD(2) [OF assms] assms(3) by (auto simp: known_def)

lemma newest_None: "newest H n \<Longrightarrow> H n = None"
  by (auto simp: newest_def dom_def)

lemma adoptsD:
  assumes "adopts drv U good" and "good H b"
  shows "\<exists>i b'. drv_snapshot drv n U b = (Inr (i, H n \<noteq> None), b') \<and> drv_getNode drv i = n \<and>
    drv_snapshotId drv (drv_encoded drv i) = Inr i \<and> good (H(n \<mapsto> drv_encoded drv i)) b'"
  by (rule assms(1) [unfolded adopts_def, THEN spec, THEN spec, THEN spec, THEN mp, OF assms(2)])

lemma serves_snapshot:
  assumes "serves drv U good" and "good H b" and "newest H n \<or> adopts drv U good"
  shows "\<exists>i b'. drv_snapshot drv n U b = (Inr (i, H n \<noteq> None), b') \<and> drv_getNode drv i = n \<and>
    good (H(n \<mapsto> drv_encoded drv i)) b' \<and> known drv (H(n \<mapsto> drv_encoded drv i)) i"
  using assms(3)
proof
  assume n: "newest H n"
  obtain i b' where "drv_snapshot drv n U b = (Inr (i, False), b')" "drv_getNode drv i = n"
      "drv_snapshotId drv (drv_encoded drv i) = Inr i" "good (H(n \<mapsto> drv_encoded drv i)) b'"
    using servesD(3) [OF assms(1,2) n] by blast
  then show ?thesis using newest_None [OF n] by (intro exI [of _ i] exI [of _ b'] conjI) (simp_all add: known_def)
next
  assume "adopts drv U good"
  from adoptsD [OF this assms(2)] show ?thesis unfolding known_def by (metis fun_upd_same)
qed

lemma serves_source:
  assumes "serves drv U good" and "good H b" and "known drv H i"
    and "drv_getNode drv i \<noteq> initial_value \<Longrightarrow>
      \<exists>p. parent = Some p \<and> known drv H p \<and> drv_getNode drv p < drv_getNode drv i"
  shows "\<exists>bs b'. store_source drv i parent b = (bs, Inr (), b') \<and> good H b'"
proof (cases "drv_getNode drv i = initial_value")
  case True
  then show ?thesis using servesD(4) [OF assms(1-3)] by (simp add: store_source_def)
next
  case False
  then obtain p where "parent = Some p" "known drv H p" "drv_getNode drv p < drv_getNode drv i" using assms(4) by blast
  then show ?thesis using False servesD(5) [OF assms(1-3)] by (simp add: store_source_def)
qed

section \<open>One snapshot\<close>

text \<open>
  \<open>settled s H k\<close>: the node \<open>k\<close> is next, and the repository holds exactly the nodes that are
  alive before it, each as the backend knows it.
\<close>

definition stocked :: "'z repo_state_scheme \<Rightarrow> snapshots \<Rightarrow> node set \<Rightarrow> bool" where
  "stocked s H N \<longleftrightarrow> (\<forall>n \<in> N. \<exists>e. H n = Some e \<and> has_snapshot s n e) \<and> (\<forall>n. n \<notin> N \<longrightarrow> absent s n)"

definition settled :: "'z repo_state_scheme \<Rightarrow> snapshots \<Rightarrow> u64 \<Rightarrow> bool" where
  "settled s H k \<longleftrightarrow> sound s \<and> mark s = Node k \<and> stocked s H (alive_before k)"

lemma absent_id: "absent s n \<Longrightarrow> look s (id_path (rs s) n) = None"
  by (simp add: absent_def)

lemma has_snapshot_cong:
  "rs_repository (rs s') = rs_repository (rs s) \<Longrightarrow> look s' (id_path (rs s) n) = look s (id_path (rs s) n) \<Longrightarrow>
    has_snapshot s' n e = has_snapshot s n e"
  by (simp add: has_snapshot_def pathForNode_def)

lemma stocked_deleted:
  assumes "stocked s H N" and "deleted (in_nodes D (rs_repository (rs s))) s s'"
  shows "stocked s' H (N - D)"
proof -
  have rs: "rs s' = rs s" and look: "\<And>q. look s' q = (if in_nodes D (rs_repository (rs s)) q then None else look s q)"
    using assms(2) by (simp_all add: deleted_def)
  have "absent s' n" if "n \<notin> N - D" for n
  proof (cases "n \<in> D")
    case True
    then have "in_nodes D (rs_repository (rs s)) q" if "prefix (pathForNode (rs s) n) q" for q
      using that by (auto simp: in_nodes_def pathForNode_def)
    then show ?thesis by (simp add: absent_def rs look)
  next
    case False
    then show ?thesis using that assms(1) by (simp add: absent_def rs look stocked_def)
  qed
  moreover have "\<exists>e. H n = Some e \<and> has_snapshot s' n e" if "n \<in> N - D" for n
    using that assms(1) not_in_nodes [of n D "rs s" "[idFileName]"]
    by (auto simp: stocked_def has_snapshot_def rs look)
  ultimately show ?thesis by (auto simp: stocked_def)
qed

text \<open>Nothing but the call counter and the backend has moved.\<close>

definition steady :: "'b system \<Rightarrow> 'b system \<Rightarrow> bool" where
  "steady s s' \<longleftrightarrow> undisturbed s' \<and> rs s' = rs s \<and> fs s' = fs s"

lemma steady_trans: "steady s t \<Longrightarrow> steady t u \<Longrightarrow> steady s u"
  by (simp add: steady_def)

lemma getNext_calm:
  assumes "sound s" and "mark s = Node k" and "absent s (Node k)"
  shows "\<exists>s'. getNextSnapshotNode s = (Inr (Node k), s') \<and> steady s s' \<and> backend s' = backend s"
  using assms next_snapshot_ends [of s] absent_id [of s "Node k"] by (simp add: sound_def steady_def)

lemma settled_fresh: "settled s H k \<Longrightarrow> unat k < 2 ^ 63 \<Longrightarrow> absent s (Node k)"
  using tree.fresh by (simp add: settled_def stocked_def)

lemma parent_calm:
  assumes "undisturbed s" and "stocked s H N" and "serves drv U good" and "good H (backend s)"
    and "\<And>p. node_maybe_parent n = Some p \<Longrightarrow> p \<in> N"
  shows "\<exists>s' parent. parent_snapshot drv n s = (Inr parent, s') \<and> steady s s' \<and> good H (backend s') \<and>
    (n \<noteq> initial_value \<longrightarrow> (\<exists>p. parent = Some p \<and> known drv H p \<and> drv_getNode drv p \<in> N))"
proof (cases "node_maybe_parent n")
  case None
  then have "n = initial_value"
    by (auto simp: node_maybe_parent_def isRoot_def initial_value_def node.expand split: if_splits)
  then show ?thesis using None assms by (simp add: parent_snapshot_def steady_def)
next
  case (Some p)
  then obtain e where e: "H p = Some e" "has_snapshot s p e" using assms(2,5) by (auto simp: stocked_def)
  then obtain i b' where i: "drv_snapshotId drv e = Inr i" "known drv H i" "drv_getNode drv i = p"
      "drv_exists drv i (backend s) = (Inr True, b')" "good H b'"
    using serves_known [OF assms(3,4)] by blast
  obtain n' where "getEncodedSnapshotId p s = (Inr e, s\<lparr>calls := n'\<rparr>)"
    using e(2) assms(1) snapshot_lookup_present(2) [of s p e] by (auto simp: has_snapshot_def)
  then show ?thesis
    using Some i assms(1) assms(5) [OF Some] by (simp add: parent_snapshot_def nodeToSnapshotId_def bindS_def liftB_def steady_def)
qed

text \<open>The identifier in the repository's file.\<close>

definition uuid_of :: "'z repo_state_scheme \<Rightarrow> uuid" where
  "uuid_of s = (case look s (rs_repository (rs s) @ [uuidFileName]) of
     Some (File bs) \<Rightarrow> Uuid (take uuid_size bs) | _ \<Rightarrow> Uuid [])"

lemma uuid_of_ok: "sound s \<Longrightarrow> uuid_ok (uuid_of s)"
  by (auto simp: sound_def uuid_of_def uuid_ok_def)

lemma uuid_calm:
  assumes "sound s"
  shows "\<exists>s'. getRepositoryUuid s = (Inr (uuid_of s), s') \<and> steady s s' \<and> backend s' = backend s"
proof -
  obtain bs where "look s (rs_repository (rs s) @ [uuidFileName]) = Some (File bs)" "uuid_size \<le> length bs"
    using assms by (auto simp: sound_def)
  then show ?thesis
    using assms
    by (simp add: getRepositoryUuid_def Let_def calm readBytesExact_file_def sound_def uuid_of_def steady_def)
qed

text \<open>The files a stored snapshot may change.\<close>

definition storing :: "repository_structure \<Rightarrow> node \<Rightarrow> path \<Rightarrow> bool" where
  "storing r n q \<longleftrightarrow> prefix (temporaryPath r) q \<or> prefix (pathForNode r n) q \<or>
     q = rs_repository r @ [breadcrumbFileName]"

lemma storing_elsewhere:
  "\<not> storing r n (rs_repository r @ [snapshotsDirName])" "\<not> storing r n (rs_repository r @ [uuidFileName])"
  "\<not> storing r n (rs_repository r @ keysDirName # x)" "m \<noteq> n \<Longrightarrow> \<not> storing r n (pathForNode r m @ x)"
  "prefix q (rs_repository r) \<Longrightarrow> \<not> storing r n q"
proof -
  show "\<not> storing r n (pathForNode r m @ x)" if "m \<noteq> n"
    using node_paths_apart [OF that [symmetric], of r x]
    by (auto simp: storing_def temporaryPath_def pathForNode_def file_names)
  show "\<not> storing r n q" if "prefix q (rs_repository r)"
    using that by (auto simp: storing_def temporaryPath_def pathForNode_def file_names prefix_def)
qed (simp_all add: storing_def temporaryPath_def pathForNode_def file_names)

lemma sound_after_store:
  assumes "sound s" and "undisturbed s'" and "rs_temporary (rs s') = None"
    and "rs_repository (rs s') = rs_repository (rs s)"
    and "\<And>q. prefix (temporaryPath (rs s)) q \<Longrightarrow> look s' q = None"
    and "look s' (rs_repository (rs s) @ [breadcrumbFileName]) \<noteq> Some Dir"
    and "\<And>q. \<not> storing (rs s) n q \<Longrightarrow> look s' q = look s q"
  shows "sound s'"
proof -
  have "temporaryPath (rs s') = temporaryPath (rs s)" using assms(4) by (simp add: temporaryPath_def)
  then show ?thesis
    using assms storing_elsewhere
    by (auto simp: sound_def temporary_clean_def Let_def)
qed

lemma store_snapshot_calm:
  assumes "sound s" and "unat k < 2 ^ 63" and "absent s (Node k)"
    and "serves drv U good" and "good H (backend s)" and "known drv H i" and "drv_getNode drv i = Node k"
    and parent: "Node k \<noteq> initial_value \<Longrightarrow>
      \<exists>p. parent = Some p \<and> known drv H p \<and> drv_getNode drv p < Node k"
    and "can_store na params s ks"
  shows "\<exists>s' bytes c. store_snapshot na drv params i parent s = (Inr (), s') \<and> sound s' \<and>
    mark s' = Node (k + 1) \<and> rs_repository (rs s') = rs_repository (rs s) \<and> good H (backend s') \<and>
    stored s' (Node k) (drv_encoded drv i) c \<and> payload_of na params ks bytes c \<and>
    (\<forall>q. \<not> storing (rs s) (Node k) q \<longrightarrow> look s' q = look s q)"
proof -
  let ?tmp = "temporaryPath (rs s)" and ?e = "drv_encoded drv i"
  have e: "encoded_node ?e = Node k" "encoded_ok ?e"
    using servesD(2) [OF assms(4,5)] assms(6,7) by (auto simp: known_def)
  obtain s1 t where s1: "checkOutTemporarySnapshot s = (Inr t, s1)" "undisturbed s1"
      "rs s1 = (rs s)\<lparr>rs_temporary := Some t, rs_checkouts := Suc (rs_checkouts (rs s))\<rparr>"
      "temporary_ready s1 []" "look s1 (?tmp @ [idFileName]) = None"
      "\<And>q. \<not> prefix ?tmp q \<Longrightarrow> look s1 q = look s q"
    using checkOut_calm [OF assms(1)] by blast
  have b1: "backend s1 = backend s" using alwaysD [OF checkOut_aside s1(1)] by (simp add: keeps_backend_def)
  obtain bytes b' where src: "store_source drv i parent (backend s1) = (bytes, Inr (), b')" "good H b'"
    using serves_source [OF assms(4,5,6)] parent assms(7) b1 by metis
  have keys: "can_store na params s1 ks"
    using assms(9) s1(3,6) by (simp add: can_store_def keys_on_disk_def temporaryPath_def file_names)
  have "look s1 (temporaryPath (rs s1) @ [payloadFileName]) = Some (File [])"
    using s1(4) by (simp add: temporary_ready_def)
  then obtain s2 c where s2: "store_payload na (encryption params) (store_source drv i parent) s1 = (Inr (), s2)"
      "undisturbed s2" "rs s2 = rs s1" "backend s2 = b'" "payload_of na params ks bytes c"
      "look s2 (?tmp @ [payloadFileName]) = Some (File c)"
      "\<And>q. q \<noteq> ?tmp @ [payloadFileName] \<Longrightarrow> look s2 q = look s1 q"
    using store_payload_calm [where source = "store_source drv i parent", OF s1(2) _ keys src(1)] s1(3) by auto
  have outside: "\<not> prefix ?tmp q \<Longrightarrow> look s2 q = look s q" for q
    using s2(7) s1(6) by (metis prefixI)
  have node: "look s2 q = look s q" if "prefix (pathForNode (rs s) (Node k)) q" for q
    using that paths_apart(1,2) prefix_same_cases by (intro outside) blast
  have ready: "commit_ready s2 t ?e c"
    unfolding commit_ready_def e(1)
  proof (intro conjI)
    show "temporary_ready s2 c"
      using s2(3,6,7) s1(3,4) by (simp add: temporary_ready_def)
    show "look s2 (temporaryPath (rs s2) @ [idFileName]) = None"
      using s2(3,7) s1(3,5) id_not_payload by simp
    show "absent s2 (Node k)" using assms(3) node s2(3) s1(3) by (simp add: absent_def)
    show "node_value (Node k) \<noteq> - 1" using assms(2) unat_max [where 'a = 64] by auto
  qed (use assms(1) outside s2 s1 e in \<open>auto simp: sound_def temporaryPath_def file_names\<close>)
  then obtain s3 where s3: "commit t ?e s2 = (Inr (), s3)" "undisturbed s3" using commit_calm by blast
  have rdy: "temporary_ready s2 c" "absent s2 (encoded_node ?e)" using ready by (simp_all add: commit_ready_def)
  obtain b where b: "next_node (Node k) = Inr (untrusted_begin b)"
      "rs s3 = (rs s2)\<lparr>rs_temporary := None, rs_breadcrumb := b\<rparr>"
      "look s3 (rs_repository (rs s2) @ [breadcrumbFileName]) = Some (File (serialise_breadcrumb b))"
      "stored s3 (Node k) ?e c"
    and frame: "\<And>q. \<not> prefix (temporaryPath (rs s2)) q \<Longrightarrow> \<not> prefix (pathForNode (rs s2) (Node k)) q \<Longrightarrow>
      q \<noteq> rs_repository (rs s2) @ [breadcrumbFileName] \<Longrightarrow> look s3 q = look s2 q"
    using commit_outcome [OF s3(1) rdy] unfolding e(1) by blast
  have same: "\<not> storing (rs s) (Node k) q \<Longrightarrow> look s3 q = look s q" for q
    using frame [of q] outside [of q] s2(3) s1(3) by (simp add: storing_def)
  have moved: "prefix ?tmp q \<Longrightarrow> look s3 q = None" for q
    using commit_moves [OF s3(1), of q] s2(3) s1(3) by simp
  have "sound s3"
    by (rule sound_after_store [OF assms(1) s3(2) _ _ moved _ same])
      (use b s2(3) s1(3) in auto)
  moreover have "mark s3 = Node (k + 1)" using b(1,2) by (auto simp: next_node_Inr)
  moreover have "good H (backend s3)"
    using alwaysD [OF commit_aside s3(1)] s2(4) src(2) by (simp add: keeps_backend_def)
  moreover have "store_snapshot na drv params i parent s = (Inr (), s3)"
    using s1(1) s2(1) s3(1) by (simp add: store_snapshot_def)
  ultimately show ?thesis using b same s2(3,5) s1(3) by auto
qed

lemma stocked_after_store:
  assumes "stocked s H N" and "stored s' n e c" and "H n = Some e" and "encoded_ok e" and "encoded_node e = n"
    and "rs_repository (rs s') = rs_repository (rs s)" and same: "\<And>q. \<not> storing (rs s) n q \<Longrightarrow> look s' q = look s q"
  shows "stocked s' H (insert n N)"
proof -
  have same: "look s' (pathForNode (rs s) m @ q) = look s (pathForNode (rs s) m @ q)" if "m \<noteq> n" for m q
    using same storing_elsewhere(4) [OF that] by blast
  show ?thesis
    unfolding stocked_def
  proof (intro conjI ballI allI impI)
    fix m assume m: "m \<in> insert n N"
    show "\<exists>e. H m = Some e \<and> has_snapshot s' m e"
    proof (cases "m = n")
      case True
      then show ?thesis using stored_has_snapshot [OF assms(2,4,5)] assms(3) by simp
    next
      case False
      then obtain f where "H m = Some f" "has_snapshot s m f" using m assms(1) by (auto simp: stocked_def)
      then show ?thesis using has_snapshot_cong [of s' s m f] assms(6) same [OF False] by auto
    qed
  next
    fix m assume m: "m \<notin> insert n N"
    then have "absent s m" "m \<noteq> n" using assms(1) by (auto simp: stocked_def)
    then show "absent s' m" using same assms(6) by (auto simp: absent_def pathForNode_def prefix_def)
  qed
qed

lemma deleted_sound:
  assumes "sound s" and "deleted (in_nodes D (rs_repository (rs s))) s s'"
  shows "sound s'"
proof -
  have rs: "rs s' = rs s" "undisturbed s'"
    and look: "\<And>q. look s' q = (if in_nodes D (rs_repository (rs s)) q then None else look s q)"
    using assms(2) by (simp_all add: deleted_def)
  have "\<not> in_nodes D (rs_repository (rs s)) (rs_repository (rs s) @ [x])" for x
    by (auto simp: in_nodes_def)
  moreover have "\<not> in_nodes D (rs_repository (rs s)) q" if "prefix q (rs_repository (rs s))" for q
    using that by (auto simp: in_nodes_def prefix_def)
  moreover have "\<not> in_nodes D (rs_repository (rs s)) (temporaryPath (rs s) @ q)" for q
    by (auto simp: in_nodes_def temporaryPath_def file_names)
  ultimately show ?thesis
    using assms(1) unfolding sound_def temporary_clean_def Let_def rs look
    by (auto simp: temporaryPath_def)
qed

lemma steady_sound: "steady s s' \<Longrightarrow> sound s \<Longrightarrow> sound s'"
  by (simp add: steady_def sound_def temporary_clean_def)

lemma steady_uuid: "steady s s' \<Longrightarrow> uuid_of s' = uuid_of s"
  by (simp add: steady_def uuid_of_def)

lemma deleted_uuid:
  assumes "deleted (in_nodes D (rs_repository (rs s))) s s'"
  shows "uuid_of s' = uuid_of s"
proof -
  have "\<not> in_nodes D (rs_repository (rs s)) (rs_repository (rs s) @ [uuidFileName])"
    by (auto simp: in_nodes_def)
  then show ?thesis using assms by (simp add: uuid_of_def deleted_def)
qed

lemma steady_stocked: "steady s s' \<Longrightarrow> stocked s' H N = stocked s H N"
  by (simp add: steady_def stocked_def has_snapshot_def absent_def)

lemma steady_store: "steady s s' \<Longrightarrow> can_store na params s' ks = can_store na params s ks"
  by (simp add: steady_def can_store_def keys_on_disk_def)

lemma deleted_store:
  assumes "deleted (in_nodes D (rs_repository (rs s))) s s'"
  shows "can_store na params s' ks = can_store na params s ks"
proof -
  have "\<not> in_nodes D (rs_repository (rs s)) (rs_repository (rs s) @ keysDirName # x)" for x
    by (auto simp: in_nodes_def file_names)
  then show ?thesis using assms by (simp add: can_store_def keys_on_disk_def deleted_def)
qed

text \<open>
  One turn of \<open>snapshot\<close>: the repository moves from the alive set of one node to that of the next,
  the node is stored with what the backend wrote, and no held node's files have changed.
\<close>

lemma snapshot_once_calm:
  assumes "serves drv (uuid_of s) good" and "good H (backend s)" and "settled s H k" and "unat k < 2 ^ 63"
    and "can_store na params s ks" and "newest H (Node k) \<or> adopts drv (uuid_of s) good"
  shows "\<exists>s' e bytes c. snapshot_once na drv params s = (Inr (H (Node k) = None), s') \<and>
    good (H(Node k \<mapsto> e)) (backend s') \<and> settled s' (H(Node k \<mapsto> e)) (k + 1) \<and>
    can_store na params s' ks \<and> rs_repository (rs s') = rs_repository (rs s) \<and> uuid_of s' = uuid_of s \<and>
    stored s' (Node k) e c \<and> payload_of na params ks bytes c \<and>
    (\<forall>m \<in> alive_before k - dropped_for k. \<forall>q.
      look s' (pathForNode (rs s) m @ q) = look s (pathForNode (rs s) m @ q))"
proof -
  let ?D = "dropped_for k" and ?N = "alive_before k - dropped_for k"
  have sound: "sound s" "mark s = Node k" "stocked s H (alive_before k)" "undisturbed s"
    using assms(3) by (simp_all add: settled_def sound_def)
  obtain s1 where s1: "getNextSnapshotNode s = (Inr (Node k), s1)" "steady s s1" "backend s1 = backend s"
    using getNext_calm [OF sound(1,2) settled_fresh [OF assms(3,4)]] by blast
  have m1: "undisturbed s1" "mark s1 = Node k" "rs s1 = rs s" using s1(2) sound(2) by (simp_all add: steady_def)
  obtain s2 where s2: "prune_trusted (remove_pruned drv) s1 = (Inr (), s2)"
      "deleted (in_nodes ?D (rs_repository (rs s1))) s1 s2"
    using prune_trusted_calm [OF m1(1,2) assms(4)] by blast
  have st2: "stocked s2 H ?N" "sound s2" "can_store na params s2 ks" "undisturbed s2"
    using stocked_deleted [OF _ s2(2)] steady_stocked [OF s1(2)] sound(3)
      deleted_sound [OF steady_sound [OF s1(2) sound(1)] s2(2)]
      deleted_store [OF s2(2), of na params ks] steady_store [OF s1(2), of na params ks] assms(5) s2(2)
    by (simp_all add: deleted_def)
  have b2: "good H (backend s2)" using assms(2) s1(3) s2(2) by (simp add: deleted_def)
  obtain s3 parent where s3: "parent_snapshot drv (Node k) s2 = (Inr parent, s3)" "steady s2 s3" "good H (backend s3)"
      "Node k \<noteq> initial_value \<Longrightarrow> \<exists>p. parent = Some p \<and> known drv H p \<and> drv_getNode drv p \<in> ?N"
    using parent_calm [OF st2(4,1) assms(1) b2 tree.parent_held [OF assms(4)]] by blast
  have u: "uuid_of s3 = uuid_of s"
    using steady_uuid [OF s3(2)] deleted_uuid [OF s2(2)] steady_uuid [OF s1(2)] by simp
  obtain s4 where s4: "getRepositoryUuid s3 = (Inr (uuid_of s), s4)" "steady s3 s4" "backend s4 = backend s3"
    using uuid_calm [OF steady_sound [OF s3(2) st2(2)]] u by metis
  obtain i b' where i: "drv_snapshot drv (Node k) (uuid_of s) (backend s4) = (Inr (i, H (Node k) \<noteq> None), b')"
      "drv_getNode drv i = Node k" "good (H(Node k \<mapsto> drv_encoded drv i)) b'"
      "known drv (H(Node k \<mapsto> drv_encoded drv i)) i"
    using serves_snapshot [OF assms(1) s3(3) assms(6)] s4(3) by metis
  let ?H = "H(Node k \<mapsto> drv_encoded drv i)"
  define s5 where "s5 = s4\<lparr>backend := b'\<rparr>"
  have st: "steady s2 s5" using steady_trans [OF s3(2) s4(2)] by (simp add: s5_def steady_def)
  have s5: "sound s5" "good ?H (backend s5)" "stocked s5 H ?N" "can_store na params s5 ks"
    using steady_sound [OF st st2(2)] steady_stocked [OF st] st2(1,3) steady_store [OF st, of na params ks] i(3)
    by (simp_all add: s5_def)
  have "Node k \<notin> ?N" using tree.fresh [OF assms(4)] by simp
  then have ab: "absent s5 (Node k)" using s5(3) by (simp add: stocked_def)
  have par: "\<exists>p. parent = Some p \<and> known drv ?H p \<and> drv_getNode drv p < Node k" if n0: "Node k \<noteq> initial_value"
  proof -
    obtain p where p: "parent = Some p" "known drv H p" "drv_getNode drv p \<in> ?N" using s3(4) [OF n0] by blast
    then show ?thesis using \<open>Node k \<notin> ?N\<close> tree.older [OF assms(4)] by (auto simp: known_def)
  qed
  obtain s6 bytes c where s6: "store_snapshot na drv params i parent s5 = (Inr (), s6)" "sound s6"
      "mark s6 = Node (k + 1)" "rs_repository (rs s6) = rs_repository (rs s5)" "good ?H (backend s6)"
      "stored s6 (Node k) (drv_encoded drv i) c" "payload_of na params ks bytes c"
      "\<And>q. \<not> storing (rs s5) (Node k) q \<Longrightarrow> look s6 q = look s5 q"
    using store_snapshot_calm [OF s5(1) assms(4) ab assms(1) s5(2) i(4,2) par s5(4)] by blast
  have same: "look s6 (pathForNode (rs s) m @ q) = look s5 (pathForNode (rs s) m @ q)" if "m \<noteq> Node k" for m q
    using s6(8) storing_elsewhere(4) [OF that] st s2(2) s1(2) by (simp add: steady_def deleted_def)
  have rs: "rs s5 = rs s" using st s2(2) s1(2) by (simp add: steady_def deleted_def)
  have enc: "encoded_node (drv_encoded drv i) = Node k" "encoded_ok (drv_encoded drv i)"
    using servesD(2) [OF assms(1) s6(5), of "Node k"] by simp_all
  have "stocked s5 ?H ?N" using s5(3) \<open>Node k \<notin> ?N\<close> by (auto simp: stocked_def)
  from stocked_after_store [OF this s6(6) _ enc(2,1) s6(4,8)]
  have "stocked s6 ?H (alive_before (k + 1))" unfolding tree.step [OF assms(4)] by simp
  then have "settled s6 ?H (k + 1)" using s6(2,3) by (simp add: settled_def)
  moreover have "uuid_of s6 = uuid_of s"
    using s6(4,8) storing_elsewhere(2) u steady_uuid [OF s4(2)] by (simp add: uuid_of_def s5_def)
  moreover have "can_store na params s6 ks"
    using s5(4) s6(4,8) storing_elsewhere(3) by (simp add: can_store_def keys_on_disk_def)
  moreover have "look s6 (pathForNode (rs s) m @ q) = look s (pathForNode (rs s) m @ q)" if "m \<in> ?N" for m q
  proof -
    have "m \<noteq> Node k" using that \<open>Node k \<notin> ?N\<close> by blast
    moreover have "look s5 (pathForNode (rs s) m @ q) = look s (pathForNode (rs s) m @ q)"
      using that st s2(2) s1(2) not_in_nodes [of m ?D "rs s" q] by (auto simp: steady_def deleted_def)
    ultimately show ?thesis using same rs by simp
  qed
  moreover have "snapshot_once na drv params s = (Inr (H (Node k) = None), s6)"
    using s1(1) s2(1) s3(1) s4(1) i(1) s6(1) by (simp add: snapshot_once_def liftB_def s5_def)
  ultimately show ?thesis using s6(4-7) rs by (intro exI conjI) auto
qed

section \<open>A driver for examples\<close>

text \<open>Its state is the map from nodes to the snapshots it took.\<close>

definition plain_driver :: "(snapshots, encoded) driver" where
  "plain_driver = \<lparr>
     drv_snapshot = (\<lambda>n u b.
       let e = \<lparr> encoded_bytes = [], encoded_node = n, encoded_timestamp = TimePoint 0 \<rparr>
       in (Inr (e, b n \<noteq> None), b(n \<mapsto> e))),
     drv_verify = (\<lambda>i. retS ()),
     drv_exists = (\<lambda>i b. (Inr (b (encoded_node i) = Some i), b)),
     drv_remove_snapshot = (\<lambda>i b. (Inr (), b(encoded_node i := None))),
     drv_initial = (\<lambda>i b. ([1, 2, 3], Inr (), b)),
     drv_diff = (\<lambda>p i b. ([4, 5], Inr (), b)),
     drv_restoreInitial = (\<lambda>i input b. (Inr (), b(encoded_node i \<mapsto> i))),
     drv_restoreDiff = (\<lambda>p i input b. (Inr (), b(encoded_node i \<mapsto> i))),
     drv_snapshotId = (\<lambda>e. Inr e),
     drv_encoded = (\<lambda>i. i),
     drv_getNode = encoded_node,
     drv_pretty = (\<lambda>i. ''snapshot'') \<rparr>"

definition plain_good :: "snapshots \<Rightarrow> snapshots \<Rightarrow> bool" where
  "plain_good H b \<longleftrightarrow> b = H \<and> finite (dom H) \<and> (\<forall>n e. H n = Some e \<longrightarrow> encoded_node e = n \<and> encoded_ok e)"

lemma plain_goodD:
  assumes "plain_good H b"
  shows "b = H" "finite (dom H)" "H n = Some e \<Longrightarrow> encoded_node e = n" "H n = Some e \<Longrightarrow> encoded_ok e"
  using assms by (simp_all only: plain_good_def)

lemma plain_serves: "serves plain_driver U plain_good"
proof (rule servesI, goal_cases)
  case (4 H b n e)
  then show ?case using plain_goodD(1,3) [OF 4(1)] by (simp add: plain_driver_def)
next
  case (5 H b n)
  then show ?case
    using newest_None [of H n]
    by (simp add: plain_driver_def plain_good_def Let_def encoded_ok_def vector_ok_def max_size_def)
next
  case (6 H b i)
  show ?case by (intro exI conjI, subst plain_driver_def, simp, fact)
next
  case (7 H b i p)
  show ?case by (intro exI conjI, subst plain_driver_def, simp, fact)
qed (fact plain_goodD(2) | fact plain_goodD(3) | fact plain_goodD(4))+

lemma plain_adopts: "adopts plain_driver U plain_good"
  by (auto simp: adopts_def plain_driver_def plain_good_def Let_def encoded_ok_def vector_ok_def max_size_def)

definition sample_system :: "snapshots system" where
  "sample_system = \<lparr> fs = ([uuidFileName], File (replicate 16 5)) # sample_files, fate = (\<lambda>_. Works), calls = 0,
     entropy = (\<lambda>i. word_of_nat i), rs = sample_repository\<lparr>rs_temporary := None\<rparr>, backend = (\<lambda>_. None) \<rparr>"

definition plain_params :: repository_params where
  "plain_params = \<lparr> encryption = False, min_seconds_between_snapshots = 60 \<rparr>"

lemma sample_settled: "settled sample_system (\<lambda>_. None) 0"
  by (auto simp: settled_def sound_def stocked_def temporary_clean_def absent_def alive_before_def Let_def
      sample_system_def sample_files_def sample_repository_def lookup_def temporaryPath_def pathForNode_def
      file_names fresh_breadcrumb_def uuid_size_def)

lemma sample_can_store: "can_store plain_sodium plain_params sample_system []"
  by (simp add: can_store_def plain_params_def)

lemma plain_good_empty: "plain_good (\<lambda>_. None) (backend sample_system)"
  by (simp add: plain_good_def sample_system_def)

section \<open>Properties\<close>





end
