(* ===== verification/Restore.thy ===== *)
theory Restore
  imports Retention
begin

text \<open>
  Restoring: which key slot is tried, which nodes are restored in which order, and what the
  driver gets for each of them, as a refinement of a replay over the backend alone.
\<close>

section \<open>The key that decrypts\<close>

lemma encryption_key_runtime: "encryption_key na pw salt params = Inl e \<Longrightarrow> is_runtime_error e"
  by (auto simp: encryption_key_def split: sum.splits if_splits)

lemma decrypt_runtime: "decrypt_with_password na k pw = Inl e \<Longrightarrow> is_runtime_error e"
  using encryption_key_runtime [of na pw "kp_salt k" "kp_kdfParams k" e]
  by (auto simp: decrypt_with_password_def encryption_key_for_def decrypt_with_key_def bindR_def
      split: sum.splits option.splits if_splits)

definition tried :: "'st sodium \<Rightarrow> bytes \<Rightarrow> decrypted_key_pair option \<Rightarrow> key_pair \<Rightarrow> decrypted_key_pair option \<times> bool" where
  "tried na pw found k =
     (case decrypt_with_password na k pw of Inr dk \<Rightarrow> (Some dk, True) | Inl e \<Rightarrow> (found, True))"

lemma try_slot_tried: "try_slot na pw = (\<lambda>found k. retS (tried na pw found k))"
  using decrypt_runtime [of na _ pw]
  by (auto simp: fun_eq_iff try_slot_def tried_def split: sum.split)

text \<open>What \<open>decryptKeyPair\<close> finds: the key of the first slot, if the password opens it.\<close>

definition first_slot :: "'st sodium \<Rightarrow> bytes \<Rightarrow> key_pair list \<Rightarrow> decrypted_key_pair option" where
  "first_slot na pw ks =
     (case ks of [] \<Rightarrow> None
      | k # _ \<Rightarrow> (case decrypt_with_password na k pw of Inr dk \<Rightarrow> Some dk | Inl _ \<Rightarrow> None))"

lemma until_stop_first: "until_stop (tried na pw) ks None = first_slot na pw ks"
  by (cases ks) (auto simp: tried_def first_slot_def split: sum.split)

lemma decryptKeyPair_calm:
  assumes "undisturbed s" and "keys_on_disk s (rs_repository (rs s)) ks"
  shows "\<exists>n. decryptKeyPair na pw s = (Inr (first_slot na pw ks), s\<lparr>calls := n\<rparr>)"
proof -
  have "until_stop (tried na pw) (take maxKeySlots ks) None = first_slot na pw ks"
    unfolding until_stop_first by (cases ks) (simp_all add: first_slot_def maxKeySlots_def)
  then show ?thesis
    using withKeyPairs_calm [OF assms, of "tried na pw" None]
    by (simp add: decryptKeyPair_def try_slot_tried)
qed

section \<open>Replaying\<close>

text \<open>
  The restore over the backend alone: \<open>ident\<close> are the identifiers of the nodes and \<open>stream\<close> what
  their payloads decrypt to, and how that ends.
\<close>

fun replay_each :: "('b, 'i) driver \<Rightarrow> bool \<Rightarrow> (node \<Rightarrow> 'i) \<Rightarrow> (node \<Rightarrow> transcript) \<Rightarrow> ('i \<Rightarrow> ('b, unit) prog) \<Rightarrow>
    node list \<Rightarrow> ('b, unit) prog" where
  "replay_each drv skip ident stream upon [] = retS ()"
| "replay_each drv skip ident stream upon (n # ns) =
     bindS (drv_exists drv (ident n)) (\<lambda>present.
     thenS
       (thenS
         (if \<not> present \<or> \<not> skip then
            thenS
              (if n = initial_value then drv_restoreInitial drv (ident n) (fst (stream n))
               else drv_restoreDiff drv (ident (node_parent n)) (ident n) (fst (stream n)))
              (liftR (aborted (snd (stream n))))
          else retS ())
         (upon (ident n)))
       (replay_each drv skip ident stream upon ns))"

text \<open>Nothing else happens after each node.\<close>

definition replay :: "('b, 'i) driver \<Rightarrow> bool \<Rightarrow> (node \<Rightarrow> 'i) \<Rightarrow> (node \<Rightarrow> transcript) \<Rightarrow> node list \<Rightarrow> ('b, unit) prog" where
  "replay drv skip ident stream ns = replay_each drv skip ident stream (\<lambda>_. retS ()) ns"

definition available :: "('b, 'i) driver \<Rightarrow> 'z repo_state_scheme \<Rightarrow> node \<Rightarrow> 'i \<Rightarrow> bool" where
  "available drv s n i \<longleftrightarrow> (\<exists>e. has_snapshot s n e \<and> drv_snapshotId drv e = Inr i)"

definition delivers ::
  "'st sodium \<Rightarrow> decrypted_key_pair option \<Rightarrow> 'z repo_state_scheme \<Rightarrow> node \<Rightarrow> transcript \<Rightarrow> bool" where
  "delivers na dk s n t \<longleftrightarrow> (\<exists>content.
     look s (pathForNode (rs s) n @ [payloadFileName]) = Some (File content) \<and>
     (case dk of None \<Rightarrow> t = (content, Inr ()) | Some d \<Rightarrow> t = decryptFromFd na d content))"

lemma nodeToSnapshotId_calm:
  assumes "undisturbed s" and "available drv s n i"
  shows "\<exists>s'. nodeToSnapshotId drv n s = (Inr i, s') \<and> steady s s' \<and> backend s' = backend s"
  using assms by (auto simp: available_def has_snapshot_def nodeToSnapshotId_def calm steady_def)

lemma liftB_run: "drv b = (r, b') \<Longrightarrow> backend s = b \<Longrightarrow> liftB drv s = (r, s\<lparr>backend := b'\<rparr>)"
  by (simp add: liftB_def)

lemma available_steady: "steady s s' \<Longrightarrow> available drv s' n i = available drv s n i"
  by (simp add: available_def steady_def has_snapshot_def)

lemma delivers_steady: "steady s s' \<Longrightarrow> delivers na dk s' n t = delivers na dk s n t"
  by (simp add: delivers_def steady_def)

text \<open>A program over the system that does to the backend what \<open>m\<close> does, and nothing else.\<close>

definition does :: "('b system, 'a) prog \<Rightarrow> ('b, 'a) prog \<Rightarrow> 'b system \<Rightarrow> bool" where
  "does p m s \<longleftrightarrow> (\<exists>s'. p s = (fst (m (backend s)), s') \<and> backend s' = snd (m (backend s)) \<and> steady s s')"

lemma steady_refl: "undisturbed s \<Longrightarrow> steady s s"
  by (simp add: steady_def)

lemma does_lift: "undisturbed s \<Longrightarrow> does (liftB m) m s"
  by (simp add: does_def liftB_def steady_def split: prod.split)

lemma does_pure: "undisturbed s \<Longrightarrow> does (liftR r) (liftR r) s" "undisturbed s \<Longrightarrow> does (retS x) (retS x) s"
  by (simp_all add: does_def steady_def)

lemma does_bind:
  assumes "does p m s" and "\<And>x s'. steady s s' \<Longrightarrow> does (f x) (g x) s'"
  shows "does (bindS p f) (bindS m g) s"
proof -
  obtain s' where s': "p s = (fst (m (backend s)), s')" "backend s' = snd (m (backend s))" "steady s s'"
    using assms(1) by (auto simp: does_def)
  obtain r b where m: "m (backend s) = (r, b)" by fastforce
  show ?thesis
  proof (cases r)
    case (Inl e)
    then show ?thesis using s' m by (simp add: does_def)
  next
    case (Inr x)
    obtain t where "f x s' = (fst (g x b), t)" "backend t = snd (g x b)" "steady s' t"
      using assms(2) [OF s'(3), of x] s'(2) m by (auto simp: does_def)
    then show ?thesis using Inr s' m steady_trans [OF s'(3)] by (simp add: does_def)
  qed
qed

lemma does_then: "does p m s \<Longrightarrow> (\<And>s'. steady s s' \<Longrightarrow> does q n s') \<Longrightarrow> does (thenS p q) (thenS m n) s"
  unfolding thenS_def by (rule does_bind)

text \<open>A step that only reads the repository may come first.\<close>

lemma does_after:
  assumes "\<exists>s'. p s = (Inr x, s') \<and> steady s s' \<and> backend s' = backend s"
    and "\<And>s'. steady s s' \<Longrightarrow> does (f x) m s'"
  shows "does (bindS p f) m s"
proof -
  obtain s' where s': "p s = (Inr x, s')" "steady s s'" "backend s' = backend s" using assms(1) by blast
  then obtain t where "f x s' = (fst (m (backend s)), t)" "backend t = snd (m (backend s))" "steady s' t"
    using assms(2) [OF s'(2)] by (auto simp: does_def)
  then show ?thesis using s' steady_trans [OF s'(2)] by (auto simp: does_def)
qed

lemma decrypted_does:
  assumes "undisturbed s" and "delivers na dk s n t"
    and "\<And>s'. steady s s' \<Longrightarrow> does (f (fst t)) m s'"
  shows "does (decrypted na dk n f) (thenS m (liftR (aborted (snd t)))) s"
proof -
  let ?p = "pathForNode (rs s) n @ [payloadFileName]"
  obtain content where c: "look s ?p = Some (File content)"
    and t: "case dk of None \<Rightarrow> t = (content, Inr ()) | Some d \<Rightarrow> t = decryptFromFd na d content"
    using assms(2) by (auto simp: delivers_def)
  have fd: "\<exists>s'. createPayloadFdForReading n s = (Inr ?p, s') \<and> steady s s' \<and> backend s' = backend s"
    using assms(1) c by (simp add: createPayloadFdForReading_def Let_def calm steady_def)
  have rest: "does (thenS (f (fst t)) (liftR (aborted (snd t)))) (thenS m (liftR (aborted (snd t)))) s'"
    if "steady s s'" for s'
    using that assms(3) steady_trans by (intro does_then does_pure) (auto simp: steady_def)
  show ?thesis
    unfolding decrypted_def
  proof (rule does_after [where p = "createPayloadFdForReading n" and x = ?p, OF fd])
    fix s' assume s': "steady s s'"
    have rd: "io_read ?p s' = (Inr content, s'\<lparr>calls := Suc (calls s')\<rparr>)"
      using s' c by (intro calm) (simp_all add: steady_def)
    have st: "steady s (s'\<lparr>calls := Suc (calls s')\<rparr>)" using s' by (simp add: steady_def)
    show "does (case dk of Some d \<Rightarrow> withDecryptedInput na ?p d f | None \<Rightarrow> bindS (io_read ?p) f)
        (thenS m (liftR (aborted (snd t)))) s'"
    proof (cases dk)
      case None
      then have eq: "t = (content, Inr ())" using t by simp
      have "does (f content) m (s'\<lparr>calls := Suc (calls s')\<rparr>)" using assms(3) [OF st] eq by simp
      then show ?thesis
        using None rd eq s' by (auto simp: does_def aborted_def thenS_def bindS_def steady_def split: sum.splits prod.splits)
    next
      case (Some d)
      then have eq: "t = decryptFromFd na d content" using t by simp
      show ?thesis
        using Some rd eq rest [OF st] s'
        by (auto simp: does_def withDecryptedInput_def steady_def split: prod.split)
    qed
  qed
qed

lemma bindS_assoc: "bindS (bindS m f) g = bindS m (\<lambda>x. bindS (f x) g)"
  by (auto simp: fun_eq_iff bindS_def split: prod.split sum.split)

lemma does_branch: "(c \<Longrightarrow> does p m s) \<Longrightarrow> (\<not> c \<Longrightarrow> does q n s) \<Longrightarrow> does (if c then p else q) (if c then m else n) s"
  by simp

lemma restore_nodes_does:
  assumes up: "\<And>i s. undisturbed s \<Longrightarrow> does (upon i) (after i) s"
  shows "undisturbed s \<Longrightarrow>
    \<forall>n \<in> set ns. available drv s n (ident n) \<and> delivers na dk s n (stream n) \<and>
      (n \<noteq> initial_value \<longrightarrow> available drv s (node_parent n) (ident (node_parent n))) \<Longrightarrow>
    does (forS (restore_node na drv dk skip upon) ns) (replay_each drv skip ident stream after ns) s"
proof (induction ns arbitrary: s)
  case Nil
  then show ?case by (simp add: does_pure del: prog_simps)
next
  case (Cons n ns)
  let ?drive = "\<lambda>input. if n = initial_value then drv_restoreInitial drv (ident n) input
     else drv_restoreDiff drv (ident (node_parent n)) (ident n) input"
  have av: "available drv s n (ident n)" and de: "delivers na dk s n (stream n)"
    and pa: "n \<noteq> initial_value \<Longrightarrow> available drv s (node_parent n) (ident (node_parent n))"
    using Cons.prems(2) by simp_all
  have drive: "does (if n = initial_value then liftB (drv_restoreInitial drv (ident n) input)
        else bindS (nodeToSnapshotId drv (node_parent n)) (\<lambda>p. liftB (drv_restoreDiff drv p (ident n) input)))
      (?drive input) s'" if s': "steady s s'" for s' input
  proof (rule does_branch)
    have u: "undisturbed s'" using s' by (simp add: steady_def)
    show "does (liftB (drv_restoreInitial drv (ident n) input)) (drv_restoreInitial drv (ident n) input) s'"
      using u by (rule does_lift)
    assume "n \<noteq> initial_value"
    then have "available drv s' (node_parent n) (ident (node_parent n))"
      using pa available_steady [OF s', of drv] by simp
    then show "does (bindS (nodeToSnapshotId drv (node_parent n)) (\<lambda>p. liftB (drv_restoreDiff drv p (ident n) input)))
        (drv_restoreDiff drv (ident (node_parent n)) (ident n) input) s'"
      using nodeToSnapshotId_calm [OF u]
      by (intro does_after [where p = "nodeToSnapshotId drv (node_parent n)" and x = "ident (node_parent n)"]
          does_lift) (auto simp: steady_def)
  qed
  have one: "does (restore_node na drv dk skip upon n)
      (bindS (drv_exists drv (ident n)) (\<lambda>present.
         thenS (if \<not> present \<or> \<not> skip then thenS (?drive (fst (stream n))) (liftR (aborted (snd (stream n))))
         else retS ()) (after (ident n)))) s"
    unfolding restore_node_def
  proof (rule does_after [where p = "nodeToSnapshotId drv n" and x = "ident n",
      OF nodeToSnapshotId_calm [OF Cons.prems(1) av]], rule does_bind)
    fix s1 assume s1: "steady s s1"
    then show "does (liftB (drv_exists drv (ident n))) (drv_exists drv (ident n)) s1"
      by (intro does_lift) (simp add: steady_def)
    fix present s2 assume s2: "steady s1 s2"
    have st: "steady s s2" using steady_trans [OF s1 s2] .
    let ?load = "\<lambda>present. if \<not> present \<or> \<not> skip then decrypted na dk n (\<lambda>input.
          if n = initial_value then liftB (drv_restoreInitial drv (ident n) input)
          else bindS (nodeToSnapshotId drv (node_parent n)) (\<lambda>p. liftB (drv_restoreDiff drv p (ident n) input)))
        else retS ()"
    let ?body = "\<lambda>present. if \<not> present \<or> \<not> skip
        then thenS (?drive (fst (stream n))) (liftR (aborted (snd (stream n)))) else retS ()"
    have "does (?load present) (?body present) s2"
    proof (rule does_branch)
      show "does (decrypted na dk n (\<lambda>input. if n = initial_value then liftB (drv_restoreInitial drv (ident n) input)
          else bindS (nodeToSnapshotId drv (node_parent n)) (\<lambda>p. liftB (drv_restoreDiff drv p (ident n) input))))
          (thenS (?drive (fst (stream n))) (liftR (aborted (snd (stream n))))) s2"
        using st de delivers_steady [OF st, of na dk] drive steady_trans [OF st]
        by (intro decrypted_does) (auto simp: steady_def)
      show "does (retS ()) (retS ()) s2" using st by (intro does_pure) (simp add: steady_def)
    qed
    then show "does (thenS (?load present) (upon (ident n))) (thenS (?body present) (after (ident n))) s2"
      using up steady_trans [OF st] by (intro does_then) (auto simp: steady_def)
  qed
  have "does (forS (restore_node na drv dk skip upon) ns) (replay_each drv skip ident stream after ns) s'" if s': "steady s s'" for s'
    using s' Cons.prems available_steady [OF s', of drv] delivers_steady [OF s', of na dk]
    by (intro Cons.IH) (auto simp: steady_def)
  from does_then [OF one this] show ?case
    by (simp add: thenS_def bindS_assoc)
qed

section \<open>The order of the nodes\<close>

lemma npath_0 [simp]: "npath 0 = []"
  by (simp add: npath.simps)

lemma npath_le: "k \<in> set (npath n) \<Longrightarrow> 0 < k \<and> k \<le> n"
proof (induction n rule: npath.induct)
  case (1 n)
  then show ?case by (cases "n = 0") (auto simp: npath.simps [of n])
qed

lemma npath_decreasing: "sorted_wrt (>) (npath n @ [0])"
proof (induction n rule: npath.induct)
  case (1 n)
  show ?case
  proof (cases "n = 0")
    case False
    have "k < n" if "k \<in> set (npath (n - lsb n))" for k
      using npath_le [OF that] lsb_pos [of n] False by linarith
    then show ?thesis using 1 False by (subst npath.simps) auto
  qed (simp add: npath.simps)
qed

lemma npath_parent: "k \<in> set (npath n) \<Longrightarrow> k - lsb k = 0 \<or> k - lsb k \<in> set (npath n)"
proof (induction n rule: npath.induct)
  case (1 n)
  then show ?case
    using parent_in_path [of n] by (cases "n = 0") (auto simp: npath.simps [of n])
qed

lemma path_decreasing: "sorted_wrt (>) (node_path_inc_root n)"
proof -
  have "map unat (fenwick_path_inc_root (node_value n)) = npath (unat (node_value n)) @ [0]"
    by (simp add: fenwick_path_inc_root_def map_path)
  then have "sorted_wrt (>) (map unat (fenwick_path_inc_root (node_value n)))"
    using npath_decreasing by metis
  then have "sorted_wrt (>) (fenwick_path_inc_root (node_value n))" by (simp only: sorted_map_unat)
  then show ?thesis by (simp add: node_path_inc_root_def sorted_wrt_map)
qed

lemma path_parent:
  assumes "m \<in> set (node_path_inc_root n)" and "m \<noteq> initial_value"
  shows "node_parent m \<in> set (node_path_inc_root n)"
proof -
  obtain k where k: "m = Node k" "unat k \<in> set (npath (unat (node_value n))) \<union> {0}"
    using assms(1) by (auto simp: set_node_traces in_path_inc_root)
  then have "unat k \<noteq> 0" using assms(2) by (auto simp: initial_value_def unat_eq_zero)
  then have "unat (fenwick_parent k) \<in> set (npath (unat (node_value n))) \<union> {0}"
    using k(2) npath_parent [of "unat k"] by (auto simp: unat_fenwick_parent)
  then show ?thesis using k(1) by (simp add: node_parent_def set_node_traces in_path_inc_root)
qed

lemma sort_decreasing:
  assumes "sorted_wrt (>) (xs :: 'a :: linorder list)"
  shows "sort (remdups xs) = rev xs"
proof -
  have "sorted (rev xs)" "distinct xs"
    using assms sorted_wrt_gt_distinct
    by (auto simp: sorted_wrt_rev elim: sorted_wrt_mono_rel [rotated])
  then show ?thesis by (intro sorted_distinct_set_unique) (auto simp: distinct_remdups_id)
qed

section \<open>All available nodes\<close>

lemma path_initial: "set (node_path_inc_root initial_value) = {initial_value}"
  by (auto simp: node_path_inc_root_def fenwick_path_inc_root_def initial_value_def fenwick_path_exc_root.simps)

lemma path_step:
  assumes "n \<noteq> initial_value"
  shows "set (node_path_inc_root n) = insert n (set (node_path_inc_root (node_parent n)))"
proof -
  have "unat (node_value n) \<noteq> 0" using assms by (auto simp: initial_value_def unat_eq_zero node.expand)
  then have step: "npath (unat (node_value n)) = unat (node_value n) # npath (unat (fenwick_parent (node_value n)))"
    by (subst npath.simps) (simp add: unat_fenwick_parent)
  have "k \<in> set (fenwick_path_inc_root (node_value n)) \<longleftrightarrow>
      k = node_value n \<or> k \<in> set (fenwick_path_inc_root (fenwick_parent (node_value n)))" for k
    by (auto simp: in_path_inc_root step word_unat_eq_iff)
  then show ?thesis by (cases n) (auto simp: set_node_traces node_parent_def image_iff)
qed

lemma parent_less: "n \<noteq> initial_value \<Longrightarrow> node_parent n < n"
  using node_maybe_parent_less [of n "node_parent n"]
  by (cases n) (simp add: node_maybe_parent_def isRoot_def initial_value_def)

lemma insort_last: "(\<And>x. x \<in> set xs \<Longrightarrow> x < (n :: 'a :: linorder)) \<Longrightarrow> insort n (removeAll n xs) = xs @ [n]"
proof (induction xs)
  case (Cons x xs)
  then have "\<not> n \<le> x" "n \<noteq> x" "insort n (removeAll n xs) = xs @ [n]" by (auto simp: not_le)
  then show ?case by simp
qed simp

definition reachable_from_root :: "node set \<Rightarrow> node \<Rightarrow> bool" where
  "reachable_from_root avail n \<longleftrightarrow> set (node_path_inc_root n) \<subseteq> avail"

lemma self_contained_filter:
  assumes "sorted (seen @ rest)" and "distinct (seen @ rest)" and "set (seen @ rest) = A"
  shows "self_contained last_node (filter (\<lambda>n. n \<le> last_node \<and> reachable_from_root A n) seen) rest =
    filter (\<lambda>n. n \<le> last_node \<and> reachable_from_root A n) (seen @ rest)"
  using assms
proof (induction rest arbitrary: seen)
  case (Cons n rest)
  let ?P = "\<lambda>m. m \<le> last_node \<and> reachable_from_root A m"
  have below: "m < n" if "m \<in> set seen" for m
    using that Cons.prems(1,2) by (auto simp: sorted_append less_le)
  show ?case
  proof (cases "last_node < n")
    case True
    then have "filter ?P (n # rest) = []"
      using Cons.prems(1) by (fastforce simp: sorted_append filter_empty_conv)
    then show ?thesis using True by simp
  next
    case False
    have parent: "node_parent n \<in> set (filter ?P seen) \<or> n = initial_value \<longleftrightarrow> ?P n"
    proof (cases "n = initial_value")
      case True
      then show ?thesis using False Cons.prems(3) by (auto simp: reachable_from_root_def path_initial)
    next
      case n0: False
      have self: "m \<in> set (node_path_inc_root m)" for m
        using path_initial path_step [of m] by (cases "m = initial_value") auto
      have "node_parent n \<in> A \<longleftrightarrow> node_parent n \<in> set seen"
        using parent_less [OF n0] Cons.prems(1,3) by (auto simp: sorted_append)
      moreover have "n \<in> A" using Cons.prems(3) by auto
      ultimately show ?thesis
        using False n0 path_step [OF n0] parent_less [OF n0] self [of "node_parent n"]
        by (auto simp: reachable_from_root_def)
    qed
    have "insort n (removeAll n (filter ?P seen)) = filter ?P seen @ [n]"
      using below by (intro insort_last) auto
    then have "(if node_parent n \<in> set (filter ?P seen) \<or> n = initial_value
        then insort n (removeAll n (filter ?P seen)) else filter ?P seen) = filter ?P (seen @ [n])"
      unfolding parent by simp
    moreover have "self_contained last_node (filter ?P (seen @ [n])) rest = filter ?P ((seen @ [n]) @ rest)"
      using Cons.prems by (intro Cons.IH) simp_all
    ultimately show ?thesis using False by (simp only: self_contained.simps if_False append_assoc append_Cons append_Nil)
  qed
qed simp

text \<open>All of it: the key, the nodes, and what is done for each of them.\<close>

lemma restore_with_does:
  assumes "undisturbed s"
    and "encryption params \<Longrightarrow> rp_password rp = Some pw \<and> keys_on_disk s (rs_repository (rs s)) ks"
    and "dk = (if encryption params then first_slot na pw ks else None)"
    and nodes: "\<And>s1. steady s s1 \<Longrightarrow> \<exists>s2. nodes_to_restore every (rp_node rp) s1 = (Inr ns, s2) \<and>
      steady s1 s2 \<and> backend s2 = backend s1"
    and nodes_ok: "\<forall>n \<in> set ns. available drv s n (ident n) \<and> delivers na dk s n (stream n) \<and>
      (n \<noteq> initial_value \<longrightarrow> available drv s (node_parent n) (ident (node_parent n)))"
    and up: "\<And>i s. undisturbed s \<Longrightarrow> does (upon i) (after i) s"
  shows "does (restore_with na drv params rp every upon) (replay_each drv (rp_skip_existing rp) ident stream after ns) s"
proof -
  let ?key = "if encryption params then
      (case rp_password rp of
         None \<Rightarrow> throwS (RuntimeError ''Password needed but not given'')
       | Some password \<Rightarrow> decryptKeyPair na password)
    else retS None"
  have key: "\<exists>s'. ?key s = (Inr dk, s') \<and> steady s s' \<and> backend s' = backend s"
    using assms(1,2,3) decryptKeyPair_calm [OF assms(1), of ks na pw] by (auto simp: steady_def)
  show ?thesis
    unfolding restore_with_def
  proof (rule does_after [where x = dk and p = ?key, OF key])
    fix s1 assume s1: "steady s s1"
    show "does (bindS (nodes_to_restore every (rp_node rp))
        (\<lambda>nodes. forS (restore_node na drv dk (rp_skip_existing rp) upon) nodes))
        (replay_each drv (rp_skip_existing rp) ident stream after ns) s1"
    proof (rule does_after [where x = ns and p = "nodes_to_restore every (rp_node rp)", OF nodes [OF s1]])
      fix s2 assume s2: "steady s1 s2"
      have st: "steady s s2" using steady_trans [OF s1 s2] .
      show "does (forS (restore_node na drv dk (rp_skip_existing rp) upon) ns)
          (replay_each drv (rp_skip_existing rp) ident stream after ns) s2"
        using st nodes_ok available_steady [OF st, of drv] delivers_steady [OF st, of na dk]
        by (intro restore_nodes_does up) (auto simp: steady_def)
    qed
  qed
qed

section \<open>Properties\<close>

text \<open>
  The nodes that \<open>restore\<close> walks when it restores everything up to a node are exactly the
  available ones up to it whose whole path to the root is available, in increasing order; so the
  set is self contained, as its comment says: with every node it has the node's parent.
\<close>

theorem restore_all_self_contained:
  assumes "sorted available_nodes" and "distinct available_nodes"
  shows "self_contained last_node [] available_nodes =
      filter (\<lambda>n. n \<le> last_node \<and> set (node_path_inc_root n) \<subseteq> set available_nodes) available_nodes \<and>
    (\<forall>n \<in> set (self_contained last_node [] available_nodes). n = initial_value \<or>
      node_parent n \<in> set (self_contained last_node [] available_nodes))"
proof -
  have eq: "self_contained last_node [] available_nodes =
      filter (\<lambda>n. n \<le> last_node \<and> set (node_path_inc_root n) \<subseteq> set available_nodes) available_nodes"
    using self_contained_filter [of "[]" available_nodes "set available_nodes" last_node] assms by (simp add: reachable_from_root_def)
  have "node_parent n \<in> set (node_path_inc_root (node_parent n))" for n
    using path_initial path_step [of "node_parent n"] by (cases "node_parent n = initial_value") auto
  then show ?thesis
    unfolding eq using path_step less_imp_le [OF less_le_trans [OF parent_less]] by auto
qed

theorem restore_all_self_contained_witness:
  "self_contained (Node 7) [] [Node 0, Node 3, Node 4, Node 6, Node 8] = [Node 0, Node 4, Node 6]"
proof -
  let ?xs = "[Node 0, Node 3, Node 4, Node 6, Node 8]"
  have "self_contained (Node 7) [] ?xs =
      filter (\<lambda>n. n \<le> Node 7 \<and> set (node_path_inc_root n) \<subseteq> set ?xs) ?xs"
    using restore_all_self_contained [of ?xs "Node 7"] by simp
  moreover have "map node_path_inc_root ?xs =
      [[Node 0], [Node 3, Node 2, Node 0], [Node 4, Node 0], [Node 6, Node 4, Node 0], [Node 8, Node 0]]"
    by (simp add: node_path_inc_root_def fenwick_path_inc_root_def fenwick_path_exc_root.simps)
  ultimately show ?thesis by simp
qed

text \<open>
  Only the first key slot counts: on a repository with the key pairs \<open>ks\<close>,
  \<open>decryptKeyPair\<close> finds the private key of the first one if the password opens it and nothing
  otherwise, even when the password opens a later one, because its functor always asks to stop.
\<close>

theorem decrypt_first_slot_only:
  assumes "undisturbed s" and "keys_on_disk s (rs_repository (rs s)) (k # ks)"
  shows "fst (decryptKeyPair na pw s) =
    Inr (case decrypt_with_password na k pw of Inr dk \<Rightarrow> Some dk | Inl e \<Rightarrow> None)"
  using decryptKeyPair_calm [OF assms, of na pw] by (auto simp: first_slot_def)

text \<open>A machine with two key pairs, of which a picky libsodium opens only the second.\<close>

definition second_key_pair :: key_pair where
  "second_key_pair = sample_key_pair\<lparr>kp_privKeyRepresentation := replicate 48 9\<rparr>"

definition picky_sodium :: "unit sodium" where
  "picky_sodium = plain_sodium\<lparr>aead_decrypt := \<lambda>k n ad c. if hd c = 9 then Some (take 32 c) else None\<rparr>"

definition two_keys :: repo_state where
  "two_keys = (sample_state (\<lambda>_. Works))\<lparr>fs := [([], Dir), ([keysDirName], Dir),
     ([keysDirName, to_string 0], File (serialise_key_pair sample_key_pair)),
     ([keysDirName, to_string 1], File (serialise_key_pair second_key_pair))]\<rparr>"

lemma two_keys_on_disk: "keys_on_disk two_keys [] [sample_key_pair, second_key_pair]"
proof -
  have "key_pair_ok sample_key_pair" "key_pair_ok second_key_pair"
    by (simp_all add: sample_key_pair_def second_key_pair_def key_pair_ok_def key_sizes)
  moreover have "to_string i = to_string 0 \<longleftrightarrow> i = 0" "to_string i = to_string 1 \<longleftrightarrow> i = 1" for i
    using to_string_inject by blast+
  ultimately show ?thesis
    by (auto simp: keys_on_disk_def two_keys_def lookup_def less_Suc_eq simp del: to_string.simps)
qed

theorem decrypt_first_slot_only_witness:
  "fst (decryptKeyPair picky_sodium [1] two_keys) = Inr None \<and>
   (\<exists>dk. decrypt_with_password picky_sodium second_key_pair [1] = Inr dk)"
proof
  have none: "decrypt_with_password picky_sodium sample_key_pair [1] = Inl (RuntimeError ''Decryption failure'')"
    by (simp add: decrypt_with_password_def encryption_key_for_def encryption_key_def decrypt_with_key_def
        picky_sodium_def plain_sodium_def sample_key_pair_def)
  have "undisturbed two_keys" "rs_repository (rs two_keys) = []"
    by (simp_all add: two_keys_def sample_state_def sample_repository_def)
  then show "fst (decryptKeyPair picky_sodium [1] two_keys) = Inr None"
    using decrypt_first_slot_only [of two_keys sample_key_pair "[second_key_pair]" picky_sodium "[1]"]
      two_keys_on_disk none by simp
  show "\<exists>dk. decrypt_with_password picky_sodium second_key_pair [1] = Inr dk"
    by (simp add: decrypt_with_password_def encryption_key_for_def encryption_key_def decrypt_with_key_def
        picky_sodium_def plain_sodium_def second_key_pair_def)
qed

text \<open>
  C10. Restoring without failures is a replay: the driver gets the Fenwick path of the node from
  the root down, every node but the root as a difference to its parent, each with what its
  payload decrypts to under the key of the first slot (with the raw payload if that slot does not
  open), and whatever the driver or the decryption throws ends the restore there. A payload that
  fails to decrypt has reached the driver before its failure is reported. The repository stays as
  it is.
\<close>

theorem restore_replays:
  assumes "undisturbed s"
    and "encryption params \<Longrightarrow> rp_password rp = Some pw \<and> keys_on_disk s (rs_repository (rs s)) ks"
    and "dk = (if encryption params then first_slot na pw ks else None)"
    and "\<forall>n \<in> set (node_path_inc_root (rp_node rp)).
      available drv s n (ident n) \<and> delivers na dk s n (stream n)"
  shows "let m = replay drv (rp_skip_existing rp) ident stream (rev (node_path_inc_root (rp_node rp))) (backend s)
    in sorted (rev (node_path_inc_root (rp_node rp))) \<and>
       (\<exists>s'. restore na drv params rp s = (fst m, s') \<and> backend s' = snd m \<and> rs s' = rs s \<and> fs s' = fs s)"
proof -
  let ?ns = "rev (node_path_inc_root (rp_node rp))"
  have order: "sort (remdups (node_path_inc_root (rp_node rp))) = ?ns"
    by (rule sort_decreasing [OF path_decreasing])
  have sorted: "sorted ?ns" unfolding order [symmetric] by simp
  have "does (restore na drv params rp) (replay drv (rp_skip_existing rp) ident stream ?ns) s"
    unfolding restore_def replay_def
    using assms path_parent [of _ "rp_node rp"]
    by (intro restore_with_does does_pure) (auto simp: nodes_to_restore_def order steady_def)
  then show ?thesis using sorted by (auto simp: does_def steady_def Let_def)
qed

definition stored_system :: "snapshots system" where
  "stored_system = sample_system\<lparr>fs :=
     ([snapshotsDirName, ''0'', payloadFileName], File [7, 8]) # fs interrupted_state\<rparr>"

theorem restore_replays_witness:
  "\<exists>s'. restore plain_sodium plain_driver plain_params
      \<lparr> rp_password = None, rp_node = Node 0, rp_skip_existing = True \<rparr> stored_system = (Inr (), s') \<and>
    backend s' = [Node 0 \<mapsto> sample_encoded 0]"
proof -
  let ?rp = "\<lparr> rp_password = None, rp_node = Node 0, rp_skip_existing = True \<rparr>"
  let ?m = "replay plain_driver True (\<lambda>n. sample_encoded 0) (\<lambda>n. ([7, 8], Inr ())) [Node 0]"
  have path: "node_path_inc_root (Node 0) = [Node 0]"
    by (simp add: node_path_inc_root_def fenwick_path_inc_root_def fenwick_path_exc_root.simps)
  have snap: "has_snapshot stored_system (Node 0) (sample_encoded 0)"
  proof -
    have "encoded_ok (sample_encoded 0)" by (simp add: encoded_ok_def vector_ok_def max_size_def sample_encoded_def)
    moreover have "look stored_system (id_path (rs stored_system) (Node 0)) =
        Some (File (encoded_serialise (sample_encoded 0) @ []))"
      by (simp add: stored_system_def interrupted_state_def sample_system_def sample_repository_def
          pathForNode_def to_string_0 lookup_def file_names)
    ultimately show ?thesis unfolding has_snapshot_def by (auto simp: sample_encoded_def)
  qed
  have blob: "look stored_system (pathForNode (rs stored_system) (Node 0) @ [payloadFileName]) = Some (File [7, 8])"
    by (simp add: stored_system_def sample_system_def sample_repository_def pathForNode_def to_string_0 lookup_def)
  have "undisturbed stored_system" by (simp add: stored_system_def sample_system_def)
  moreover have "available plain_driver stored_system (Node 0) (sample_encoded 0)"
    using snap by (auto simp: available_def plain_driver_def)
  moreover have "delivers plain_sodium None stored_system (Node 0) ([7, 8], Inr ())"
    using blob by (simp add: delivers_def)
  ultimately have r: "let m = ?m (backend stored_system) in sorted [Node 0] \<and>
      (\<exists>s'. restore plain_sodium plain_driver plain_params ?rp stored_system = (fst m, s') \<and> backend s' = snd m \<and>
        rs s' = rs stored_system \<and> fs s' = fs stored_system)"
    using restore_replays [of stored_system plain_params ?rp "[]" "[]" None plain_sodium plain_driver
        "\<lambda>n. sample_encoded 0" "\<lambda>n. ([7, 8], Inr ())"]
    by (simp add: path plain_params_def)
  have "?m (backend stored_system) = (Inr (), [Node 0 \<mapsto> sample_encoded 0])"
    by (simp add: replay_def stored_system_def sample_system_def plain_driver_def bindS_def thenS_def initial_value_def
        aborted_def sample_encoded_def)
  then show ?thesis using r by (simp only: Let_def fst_conv snd_conv) blast
qed

end
