(* ===== verification/ExportImport.thy ===== *)
theory ExportImport
  imports Restore
begin

text \<open>
  Copying a repository: \<open>export_repository\<close> restores every snapshot into the dataset and runs the import
  command for each, which is \<open>snapshot_import\<close> on another repository over the same dataset. The copy
  ends up at the alive set of the original.
\<close>

section \<open>The nodes that are exported\<close>

text \<open>A repository whose next node is \<open>k\<close> and that holds every alive node with its payload.\<close>

definition complete :: "'z repo_state_scheme \<Rightarrow> (node \<Rightarrow> encoded) \<Rightarrow> (node \<Rightarrow> bytes) \<Rightarrow> u64 \<Rightarrow> bool" where
  "complete s E C k \<longleftrightarrow> undisturbed s \<and> mark s = Node k \<and> absent s (Node k) \<and>
     (\<forall>n \<in> alive_before k. stored s n (E n) (C n) \<and> encoded_ok (E n) \<and> encoded_node (E n) = n)"

lemma next_calm:
  assumes "undisturbed s" and "mark s = Node k" and "absent s (Node k)"
  shows "\<exists>s'. getNextSnapshotNode s = (Inr (Node k), s') \<and> steady s s' \<and> backend s' = backend s"
  using assms next_snapshot_ends [of s] absent_id [of s "Node k"] by (simp add: steady_def)

lemma nodeExists_stored:
  assumes "undisturbed s" and "stored s n e c"
  shows "\<exists>s'. nodeExists n s = (Inr True, s') \<and> steady s s' \<and> backend s' = backend s"
  using assms by (simp add: nodeExists_def calm stored_def steady_def)

lemma steady_stored: "steady s s' \<Longrightarrow> stored s' n e c = stored s n e c"
  by (simp add: steady_def stored_def)

definition collect :: "node list \<Rightarrow> node \<Rightarrow> ('z repo_state_scheme, node list) prog" where
  "collect out node = bindS (nodeExists node) (\<lambda>present. retS (if present then out @ [node] else out))"

lemma foldS_existing:
  assumes "undisturbed s" and "\<forall>n \<in> set ns. \<exists>e c. stored s n e c"
  shows "\<exists>s'. foldS collect acc ns s = (Inr (acc @ ns), s') \<and> steady s s' \<and> backend s' = backend s"
  using assms
proof (induction ns arbitrary: acc s)
  case Nil
  then show ?case by (simp add: steady_def)
next
  case (Cons n ns)
  then obtain e c where "stored s n e c" by auto
  from nodeExists_stored [OF Cons.prems(1) this] obtain s1 where
    s1: "nodeExists n s = (Inr True, s1)" "steady s s1" "backend s1 = backend s" by blast
  have "undisturbed s1" "\<forall>m \<in> set ns. \<exists>e c. stored s1 m e c"
    using Cons.prems(2) steady_stored [OF s1(2)] s1(2) by (simp_all add: steady_def)
  from Cons.IH [OF this, of "acc @ [n]"] obtain s2 where
    "foldS collect (acc @ [n]) ns s1 = (Inr ((acc @ [n]) @ ns), s2)" "steady s1 s2" "backend s2 = backend s1" by blast
  moreover have "collect acc n s = (Inr (acc @ [n]), s1)" using s1(1) by (simp add: collect_def)
  ultimately show ?case using s1(2,3) steady_trans [OF s1(2)]
    by (intro exI [of _ s2]) simp
qed

lemma in_alive_before:
  assumes "k \<noteq> 0" and "unat k \<le> 2 ^ 63"
  shows "n \<in> alive_before k \<longleftrightarrow> unat (node_value n) \<in> alive_set (unat (k - 1))"
proof -
  have u: "unat (k - 1) < 2 ^ 63" using assms pred_unat by (simp add: unat_gt_0 Suc_le_eq)
  show ?thesis using assms(1) by (cases n) (simp add: alive_before_def set_node_traces in_alive_after [OF u] image_iff)
qed

lemma alive_trace:
  assumes "k \<noteq> 0" and "unat k \<le> 2 ^ 63"
  shows "snd (node_alive_after (Node (k - 1))) = Done" and "distinct (fst (node_alive_after (Node (k - 1))))"
    and "n \<in> alive_before k \<Longrightarrow> n \<le> Node (k - 1)"
proof -
  have u: "unat (k - 1) < 2 ^ 63" using assms pred_unat by (simp add: unat_gt_0 Suc_le_eq)
  obtain xs where xs: "alive_after (k - 1) = (xs, Done)" "map unat xs = alive_list (unat (k - 1))"
    using alive_after_list [OF u] by blast
  then show "snd (node_alive_after (Node (k - 1))) = Done" by (simp add: node_alive_after_def)
  have "distinct (map unat xs)"
    unfolding xs(2) using alive_list_sorted by (metis distinct_rev sorted_wrt_rev strict_sorted_iff)
  then show "distinct (fst (node_alive_after (Node (k - 1))))"
    using xs(1) by (simp add: node_alive_after_def distinct_map)
  show "n \<le> Node (k - 1)" if "n \<in> alive_before k"
    using that in_alive_before [OF assms] by (cases n) (simp add: alive_set_def word_le_nat_alt)
qed

lemma getNodes_calm:
  assumes "complete s E C k" and "k \<noteq> 0" and "unat k < 2 ^ 63"
  shows "\<exists>s'. getNodesIncludingUntrusted (Node 0) s = (Inr (sorted_list_of_set (alive_before k)), s') \<and>
    steady s s' \<and> backend s' = backend s"
proof -
  let ?t = "node_alive_after (Node (k - 1))"
  have s: "undisturbed s" "mark s = Node k" "absent s (Node k)" "\<forall>n \<in> set (fst ?t). \<exists>e c. stored s n e c"
    using assms(1,2) by (auto simp: complete_def alive_before_def)
  obtain s1 where s1: "foldS collect [] (fst ?t) s = (Inr (fst ?t), s1)" "steady s s1" "backend s1 = backend s"
    using foldS_existing [OF s(1,4), of "[]"] by auto
  have "undisturbed s1" "mark s1 = Node k" "absent s1 (Node k)"
    using s1(2) s by (simp_all add: steady_def absent_def)
  then obtain s2 where s2: "getNextSnapshotNode s1 = (Inr (Node k), s2)" "steady s1 s2" "backend s2 = backend s1"
    using next_calm by blast
  have order: "sort (fst ?t) = sorted_list_of_set (alive_before k)"
    using alive_trace(2) [of k] assms(2,3) by (simp add: alive_before_def sorted_list_of_set_sort_remdups distinct_remdups_id)
  have "snd ?t = Done" using alive_trace(1) [of k] assms(2,3) by simp
  then have alive: "fold_trace collect [] ?t s = (Inr (fst ?t), s1)" by (simp add: fold_trace_def s1(1))
  have range: "node_range (Node k) (Node k) = Inr []" by (subst node_range.simps) simp
  have "Node k \<noteq> initial_value" using assms(2) by (simp add: initial_value_def)
  then have "getNodesIncludingUntrusted (Node 0) s =
      bindS (fold_trace collect [] ?t) (\<lambda>out. bindS getNextSnapshotNode (\<lambda>next.
        bindS (liftR (node_range (Node k) (if Node 0 = Node 0 then next else min (Node 0) next))) (\<lambda>untrusted.
          retS (sort (out @ untrusted))))) s"
    by (simp only: getNodesIncludingUntrusted_def s(2) Let_def collect_def [abs_def] node.sel if_False)
  also have "\<dots> = bindS (liftR (node_range (Node k) (Node k))) (\<lambda>untrusted. retS (sort (fst ?t @ untrusted))) s2"
    by (simp only: bindS_Inr [where m = "fold_trace collect [] ?t" and s = s, OF alive] bindS_Inr [where m = getNextSnapshotNode and s = s1, OF s2(1)] refl if_True)
  also have "\<dots> = (Inr (sorted_list_of_set (alive_before k)), s2)"
    by (simp add: range order)
  finally have "getNodesIncludingUntrusted (Node 0) s = (Inr (sorted_list_of_set (alive_before k)), s2)" .
  then show ?thesis using steady_trans [OF s1(2) s2(2)] s1(3) s2(3) by simp
qed

lemma all_self_contained:
  assumes "k \<noteq> 0" and "unat k < 2 ^ 63"
  shows "self_contained (Node (k - 1)) [] (sorted_list_of_set (alive_before k)) = sorted_list_of_set (alive_before k)"
proof -
  have fin: "finite (alive_before k)" by (simp add: alive_before_def)
  have k: "unat k \<le> 2 ^ 63" using assms(2) by simp
  have "reachable_from_root (alive_before k) n" if "n \<in> alive_before k" for n
  proof -
    have "unat (node_value n) \<in> alive_set (unat (k - 1))" using that in_alive_before [OF assms(1) k] by simp
    then have "set (npath (unat (node_value n))) \<subseteq> alive_set (unat (k - 1))" by (rule npath_alive)
    then have "unat j \<in> alive_set (unat (k - 1))" if "j \<in> set (fenwick_path_inc_root (node_value n))" for j
      using that zero_alive by (auto simp: in_path_inc_root)
    then show ?thesis using in_alive_before [OF assms(1) k] by (auto simp: reachable_from_root_def set_node_traces)
  qed
  moreover have "n \<le> Node (k - 1)" if "n \<in> alive_before k" for n
    using alive_trace(3) [OF assms(1) _ that] assms(2) by simp
  ultimately show ?thesis
    using self_contained_filter [of "[]" "sorted_list_of_set (alive_before k)" "alive_before k" "Node (k - 1)"] fin
    by (simp add: filter_id_conv)
qed

section \<open>Importing one snapshot\<close>

lemma nodeExists_absent:
  assumes "undisturbed s" and "absent s n"
  shows "\<exists>s'. nodeExists n s = (Inr False, s') \<and> steady s s' \<and> backend s' = backend s"
  using assms by (simp add: nodeExists_def calm absent_def steady_def)

lemma import_parent:
  assumes "undisturbed s" and "stocked s H N" and "serves drv U good" and "good H (backend s)"
    and "n \<noteq> initial_value \<Longrightarrow> node_parent n \<in> N"
  shows "\<exists>s' parent. (case node_maybe_parent n of None \<Rightarrow> retS None
        | Some p \<Rightarrow> bindS (nodeToSnapshotId drv p) (\<lambda>i. retS (Some i))) s = (Inr parent, s') \<and>
    steady s s' \<and> backend s' = backend s \<and>
    (n \<noteq> initial_value \<longrightarrow> (\<exists>p. parent = Some p \<and> known drv H p \<and> drv_getNode drv p < n))"
proof (cases "node_maybe_parent n")
  case None
  then have "n = initial_value"
    by (auto simp: node_maybe_parent_def isRoot_def initial_value_def node.expand split: if_splits)
  then show ?thesis using None assms(1) by (simp add: steady_def)
next
  case (Some p)
  then have p: "n \<noteq> initial_value" "p = node_parent n" "p < n"
    using node_maybe_parent_less [OF Some] by (auto simp: node_maybe_parent_def isRoot_def initial_value_def split: if_splits)
  then obtain e where e: "H p = Some e" "has_snapshot s p e" using assms(2,5) by (auto simp: stocked_def)
  then obtain i where i: "drv_snapshotId drv e = Inr i" "known drv H i" "drv_getNode drv i = p"
    using serves_known [OF assms(3,4)] by blast
  then have "available drv s p i" using e(2) by (auto simp: available_def)
  from nodeToSnapshotId_calm [OF assms(1) this] obtain s' where
    "nodeToSnapshotId drv p s = (Inr i, s')" "steady s s'" "backend s' = backend s" by blast
  then show ?thesis using Some i(2,3) p(3) by simp
qed

lemma import_calm:
  assumes "sound t" and "stocked t H N" and "serves drv U good" and "good H (backend t)" and "H (Node k) = Some e"
    and "unat k < 2 ^ 63" and "Node k \<notin> N" and "Node k \<noteq> initial_value \<Longrightarrow> node_parent (Node k) \<in> N"
    and "can_store na params t ks"
  shows "\<exists>t' bytes c. snapshot_import na drv params False (encoded_serialise e) t = (Inr (), t') \<and> sound t' \<and>
    mark t' = Node (k + 1) \<and> rs_repository (rs t') = rs_repository (rs t) \<and> good H (backend t') \<and>
    stocked t' H (insert (Node k) N) \<and> can_store na params t' ks \<and> stored t' (Node k) e c \<and>
    payload_of na params ks bytes c \<and>
    (\<forall>m q. m \<noteq> Node k \<longrightarrow> look t' (pathForNode (rs t) m @ q) = look t (pathForNode (rs t) m @ q))"
proof -
  have u: "undisturbed t" using assms(1) by (simp add: sound_def)
  have e: "encoded_node e = Node k" "encoded_ok e" using servesD(2) [OF assms(3,4,5)] by simp_all
  have read: "encoded_deserialise (encoded_serialise e) = Inr e" using encoded_roundtrip [OF e(2), of "[]"] by simp
  obtain i where i: "drv_snapshotId drv e = Inr i" "known drv H i" "drv_getNode drv i = Node k"
    using serves_known [OF assms(3,4,5)] by blast
  then have enc: "drv_encoded drv i = e" using assms(5) by (simp add: known_def)
  have ab: "absent t (Node k)" using assms(2,7) by (simp add: stocked_def)
  obtain t1 where t1: "nodeExists (Node k) t = (Inr False, t1)" "steady t t1" "backend t1 = backend t"
    using nodeExists_absent [OF u ab] by blast
  have st1: "undisturbed t1" "stocked t1 H N" "good H (backend t1)"
    using t1(2,3) assms(2,4) steady_stocked [OF t1(2)] by (auto simp: steady_def)
  obtain t2 parent where t2: "(case node_maybe_parent (Node k) of None \<Rightarrow> retS None
        | Some p \<Rightarrow> bindS (nodeToSnapshotId drv p) (\<lambda>i. retS (Some i))) t1 = (Inr parent, t2)"
    "steady t1 t2" "backend t2 = backend t1"
    "Node k \<noteq> initial_value \<Longrightarrow> \<exists>p. parent = Some p \<and> known drv H p \<and> drv_getNode drv p < Node k"
    using import_parent [OF st1(1,2) assms(3) st1(3), of "Node k"] assms(8) by blast
  have st: "steady t t2" using steady_trans [OF t1(2) t2(2)] .
  have t2s: "sound t2" "absent t2 (Node k)" "good H (backend t2)" "can_store na params t2 ks" "stocked t2 H N"
    using steady_sound [OF st assms(1)] ab st t2(3) st1(3) steady_store [OF st, of na params ks] assms(9)
      steady_stocked [OF st] assms(2) by (simp_all add: absent_def steady_def)
  obtain t3 bytes c where t3: "store_snapshot na drv params i parent t2 = (Inr (), t3)" "sound t3" "mark t3 = Node (k + 1)"
    "rs_repository (rs t3) = rs_repository (rs t2)" "good H (backend t3)" "stored t3 (Node k) e c"
    "payload_of na params ks bytes c" "\<And>q. \<not> storing (rs t2) (Node k) q \<Longrightarrow> look t3 q = look t2 q"
    using store_snapshot_calm [OF t2s(1) assms(6) t2s(2) assms(3) t2s(3) i(2,3) t2(4) t2s(4)] enc by blast
  have stock: "stocked t3 H (insert (Node k) N)"
    by (rule stocked_after_store [OF t2s(5) t3(6) assms(5) e(2,1) t3(4,8)])
  have rs: "rs t2 = rs t" "fs t2 = fs t" using st by (simp_all add: steady_def)
  have "can_store na params t3 ks"
    using t2s(4) t3(4,8) storing_elsewhere(3) by (simp add: can_store_def keys_on_disk_def)
  moreover have "look t3 (pathForNode (rs t) m @ q) = look t (pathForNode (rs t) m @ q)" if "m \<noteq> Node k" for m q
    using t3(8) storing_elsewhere(4) [OF that, of "rs t2" q] rs by simp
  moreover have "snapshot_import na drv params False (encoded_serialise e) t = (Inr (), t3)"
    using read t1(1) i(1) t2(1) t3(1) e(1) by (simp add: snapshot_import_def bindS_def)
  ultimately show ?thesis using t3 stock rs by (intro exI conjI) auto
qed

section \<open>Importing all\<close>

text \<open>
  The exporting process sees the importing one, with its repository, and the dataset both work on as
  one state; its driver only touches the dataset.
\<close>

definition on_dataset :: "('b, 'i) driver \<Rightarrow> ('b system, 'i) driver" where
  "on_dataset d = \<lparr>
     drv_snapshot = (\<lambda>n u. liftB (drv_snapshot d n u)),
     drv_verify = (\<lambda>i. liftB (drv_verify d i)),
     drv_exists = (\<lambda>i. liftB (drv_exists d i)),
     drv_remove_snapshot = (\<lambda>i. liftB (drv_remove_snapshot d i)),
     drv_initial = (\<lambda>i t. case drv_initial d i (backend t) of (bs, r, b) \<Rightarrow> (bs, r, t\<lparr>backend := b\<rparr>)),
     drv_diff = (\<lambda>p i t. case drv_diff d p i (backend t) of (bs, r, b) \<Rightarrow> (bs, r, t\<lparr>backend := b\<rparr>)),
     drv_restoreInitial = (\<lambda>i input. liftB (drv_restoreInitial d i input)),
     drv_restoreDiff = (\<lambda>p i input. liftB (drv_restoreDiff d p i input)),
     drv_snapshotId = drv_snapshotId d,
     drv_encoded = drv_encoded d,
     drv_getNode = drv_getNode d,
     drv_pretty = drv_pretty d \<rparr>"

lemma on_dataset_simps [simp]:
  "drv_exists (on_dataset d) i = liftB (drv_exists d i)"
  "drv_restoreInitial (on_dataset d) i input = liftB (drv_restoreInitial d i input)"
  "drv_restoreDiff (on_dataset d) p i input = liftB (drv_restoreDiff d p i input)"
  "drv_snapshotId (on_dataset d) = drv_snapshotId d" "drv_encoded (on_dataset d) = drv_encoded d"
  by (simp_all add: on_dataset_def)

text \<open>What restoring needs of the dataset: the streams \<open>input\<close> make the snapshots of the nodes \<open>A\<close>, parents first.\<close>

definition receives ::
  "('b, 'i) driver \<Rightarrow> (node \<Rightarrow> 'i) \<Rightarrow> (node \<Rightarrow> bytes) \<Rightarrow> node set \<Rightarrow> (snapshots \<Rightarrow> 'b \<Rightarrow> bool) \<Rightarrow> bool" where
  "receives d ident input A good \<longleftrightarrow> (\<forall>H b. \<forall>n \<in> A. good H b \<longrightarrow>
     (\<exists>present b'. drv_exists d (ident n) b = (Inr present, b') \<and> good H b') \<and>
     (n = initial_value \<longrightarrow> (\<exists>b'. drv_restoreInitial d (ident n) (input n) b = (Inr (), b') \<and>
       good (H(n \<mapsto> drv_encoded d (ident n))) b')) \<and>
     (n \<noteq> initial_value \<and> H (node_parent n) = Some (drv_encoded d (ident (node_parent n))) \<longrightarrow>
       (\<exists>b'. drv_restoreDiff d (ident (node_parent n)) (ident n) (input n) b = (Inr (), b') \<and>
         good (H(n \<mapsto> drv_encoded d (ident n))) b')))"

lemma receivesD:
  assumes "receives d ident input A good" and "n \<in> A" and "good H b"
  shows "\<exists>present b'. drv_exists d (ident n) b = (Inr present, b') \<and> good H b'"
    and "n \<noteq> initial_value \<Longrightarrow> H (node_parent n) = Some (drv_encoded d (ident (node_parent n))) \<Longrightarrow>
      \<exists>b'. drv_restoreDiff d (ident (node_parent n)) (ident n) (input n) b = (Inr (), b') \<and>
        good (H(n \<mapsto> drv_encoded d (ident n))) b'"
    and "n = initial_value \<Longrightarrow> \<exists>b'. drv_restoreInitial d (ident n) (input n) b = (Inr (), b') \<and>
        good (H(n \<mapsto> drv_encoded d (ident n))) b'"
proof -
  note body = assms(1) [unfolded receives_def, THEN spec, THEN spec, THEN bspec, OF assms(2), THEN mp, OF assms(3)]
  show "\<exists>present b'. drv_exists d (ident n) b = (Inr present, b') \<and> good H b'" by (rule body [THEN conjunct1])
  show "n \<noteq> initial_value \<Longrightarrow> H (node_parent n) = Some (drv_encoded d (ident (node_parent n))) \<Longrightarrow>
      \<exists>b'. drv_restoreDiff d (ident (node_parent n)) (ident n) (input n) b = (Inr (), b') \<and>
        good (H(n \<mapsto> drv_encoded d (ident n))) b'"
    by (rule body [THEN conjunct2, THEN conjunct2, THEN mp]) simp
  show "n = initial_value \<Longrightarrow> \<exists>b'. drv_restoreInitial d (ident n) (input n) b = (Inr (), b') \<and>
        good (H(n \<mapsto> drv_encoded d (ident n))) b'"
    by (rule body [THEN conjunct2, THEN conjunct1, THEN mp])
qed

fun parents_first :: "node set \<Rightarrow> node list \<Rightarrow> bool" where
  "parents_first N [] = True"
| "parents_first N (n # ns) =
     (n \<notin> N \<and> (n = initial_value \<or> node_parent n \<in> N) \<and> parents_first (insert n N) ns)"

lemma restore_one:
  assumes "receives d ident input A good" and "n \<in> A" and "good H (backend t)"
    and "n = initial_value \<or> H (node_parent n) = Some (drv_encoded d (ident (node_parent n)))"
  shows "\<exists>b present b1. drv_exists (on_dataset d) (ident n) t = (Inr present, t\<lparr>backend := b1\<rparr>) \<and>
    (if n = initial_value then drv_restoreInitial (on_dataset d) (ident n) (input n)
     else drv_restoreDiff (on_dataset d) (ident (node_parent n)) (ident n) (input n)) (t\<lparr>backend := b1\<rparr>) =
       (Inr (), t\<lparr>backend := b\<rparr>) \<and> good (H(n \<mapsto> drv_encoded d (ident n))) b"
proof -
  obtain present b1 where b1: "drv_exists d (ident n) (backend t) = (Inr present, b1)" "good H b1"
    using receivesD(1) [OF assms(1-3)] by blast
  have ex: "drv_exists (on_dataset d) (ident n) t = (Inr present, t\<lparr>backend := b1\<rparr>)"
    using b1(1) by (simp add: liftB_def)
  show ?thesis
  proof (cases "n = initial_value")
    case True
    obtain b where b: "drv_restoreInitial d (ident n) (input n) b1 = (Inr (), b)"
      "good (H(n \<mapsto> drv_encoded d (ident n))) b"
      using receivesD(3) [OF assms(1,2) b1(2) True] by blast
    show ?thesis using True b by (intro exI [of _ b] exI [of _ present] exI [of _ b1] conjI ex) (simp_all add: liftB_def)
  next
    case False
    then have parent: "H (node_parent n) = Some (drv_encoded d (ident (node_parent n)))" using assms(4) by simp
    obtain b where b: "drv_restoreDiff d (ident (node_parent n)) (ident n) (input n) b1 = (Inr (), b)"
      "good (H(n \<mapsto> drv_encoded d (ident n))) b"
      using receivesD(2) [OF assms(1,2) b1(2) False parent] by blast
    show ?thesis using False b by (intro exI [of _ b] exI [of _ present] exI [of _ b1] conjI ex) (simp_all add: liftB_def)
  qed
qed

text \<open>The repository \<open>t\<close> holds the snapshots of the nodes \<open>N\<close>, under their identifiers, with payloads that open.\<close>

definition copied :: "'st sodium \<Rightarrow> repository_params \<Rightarrow> key_pair list \<Rightarrow> ('b, 'i) driver \<Rightarrow> (node \<Rightarrow> 'i) \<Rightarrow>
    (snapshots \<Rightarrow> 'b \<Rightarrow> bool) \<Rightarrow> 'b system \<Rightarrow> snapshots \<Rightarrow> node set \<Rightarrow> bool" where
  "copied na params ks d ident good t H N \<longleftrightarrow> sound t \<and> stocked t H N \<and> good H (backend t) \<and> can_store na params t ks \<and>
     (\<forall>n \<in> N. H n = Some (drv_encoded d (ident n)) \<and>
       (\<exists>bytes c. stored t n (drv_encoded d (ident n)) c \<and> payload_of na params ks bytes c))"

lemma backend_only:
  "sound (t\<lparr>backend := b\<rparr>) = sound t" "has_snapshot (t\<lparr>backend := b\<rparr>) n e = has_snapshot t n e"
  "absent (t\<lparr>backend := b\<rparr>) n = absent t n" "stored (t\<lparr>backend := b\<rparr>) n e c = stored t n e c"
  "can_store na params (t\<lparr>backend := b\<rparr>) ks = can_store na params t ks"
  by (simp_all add: sound_def temporary_clean_def has_snapshot_def absent_def stored_def can_store_def keys_on_disk_def)

lemma stocked_new:
  "stocked t H N \<Longrightarrow> n \<notin> N \<Longrightarrow> stocked (t\<lparr>backend := b\<rparr>) (H(n \<mapsto> e)) N"
  by (auto simp: stocked_def backend_only)

lemma stored_elsewhere:
  assumes "rs_repository (rs t') = rs_repository (rs t)" and "\<And>q. look t' (pathForNode (rs t) m @ q) = look t (pathForNode (rs t) m @ q)"
  shows "stored t' m e c = stored t m e c"
  using assms(1) assms(2) [of "[]"] assms(2) [of "[_]"] by (simp add: stored_def pathForNode_def)

text \<open>One node: the driver receives its stream, then the import takes it into the repository.\<close>

lemma copy_one:
  assumes "serves d U good" and "receives d ident input A good" and "n \<in> A" and "unat (node_value n) < 2 ^ 63"
    and "copied na params ks d ident good t H N" and "n \<notin> N" and "n = initial_value \<or> node_parent n \<in> N"
  shows "\<exists>t1 t2 t' present. drv_exists (on_dataset d) (ident n) t = (Inr present, t1) \<and>
    (if n = initial_value then drv_restoreInitial (on_dataset d) (ident n) (input n)
     else drv_restoreDiff (on_dataset d) (ident (node_parent n)) (ident n) (input n)) t1 = (Inr (), t2) \<and>
    snapshot_import na d params False (encoded_serialise (drv_encoded d (ident n))) t2 = (Inr (), t') \<and>
    copied na params ks d ident good t' (H(n \<mapsto> drv_encoded d (ident n))) (insert n N) \<and>
    mark t' = Node (node_value n + 1) \<and> rs_repository (rs t') = rs_repository (rs t)"
proof -
  let ?e = "drv_encoded d (ident n)"
  have t: "sound t" "stocked t H N" "good H (backend t)" "can_store na params t ks"
    and N: "\<And>m. m \<in> N \<Longrightarrow> H m = Some (drv_encoded d (ident m)) \<and>
      (\<exists>bytes c. stored t m (drv_encoded d (ident m)) c \<and> payload_of na params ks bytes c)"
    using assms(5) by (simp_all add: copied_def)
  obtain b present b1 where b: "drv_exists (on_dataset d) (ident n) t = (Inr present, t\<lparr>backend := b1\<rparr>)"
    "(if n = initial_value then drv_restoreInitial (on_dataset d) (ident n) (input n)
     else drv_restoreDiff (on_dataset d) (ident (node_parent n)) (ident n) (input n)) (t\<lparr>backend := b1\<rparr>) =
       (Inr (), t\<lparr>backend := b\<rparr>)" "good (H(n \<mapsto> ?e)) b"
    using restore_one [OF assms(2,3) t(3)] assms(7) N by blast
  have n: "Node (node_value n) = n" by simp
  have "\<exists>t' bytes c. snapshot_import na d params False (encoded_serialise ?e) (t\<lparr>backend := b\<rparr>) = (Inr (), t') \<and> sound t' \<and>
    mark t' = Node (node_value n + 1) \<and> rs_repository (rs t') = rs_repository (rs (t\<lparr>backend := b\<rparr>)) \<and>
    good (H(n \<mapsto> ?e)) (backend t') \<and> stocked t' (H(n \<mapsto> ?e)) (insert (Node (node_value n)) N) \<and>
    can_store na params t' ks \<and> stored t' (Node (node_value n)) ?e c \<and> payload_of na params ks bytes c \<and>
    (\<forall>m q. m \<noteq> Node (node_value n) \<longrightarrow> look t' (pathForNode (rs (t\<lparr>backend := b\<rparr>)) m @ q) =
      look (t\<lparr>backend := b\<rparr>) (pathForNode (rs (t\<lparr>backend := b\<rparr>)) m @ q))"
    using t b(3) assms(1,4,6,7) stocked_new [OF t(2) assms(6)]
    by (intro import_calm [where U = U and good = good]) (auto simp: backend_only)
  then obtain t' bytes c where t': "snapshot_import na d params False (encoded_serialise ?e) (t\<lparr>backend := b\<rparr>) = (Inr (), t')"
    "sound t'" "mark t' = Node (node_value n + 1)" "rs_repository (rs t') = rs_repository (rs t)"
    "good (H(n \<mapsto> ?e)) (backend t')" "stocked t' (H(n \<mapsto> ?e)) (insert n N)" "can_store na params t' ks"
    "stored t' n ?e c" "payload_of na params ks bytes c"
    and frame: "\<And>m q. m \<noteq> n \<Longrightarrow> look t' (pathForNode (rs t) m @ q) = look t (pathForNode (rs t) m @ q)"
    unfolding n by auto
  have "stored t' m f g = stored t m f g" if "m \<noteq> n" for m f g
    using frame [OF that] t'(4) by (rule stored_elsewhere [rotated])
  then have "copied na params ks d ident good t' (H(n \<mapsto> ?e)) (insert n N)"
    using t' N by (auto simp: copied_def)
  then show ?thesis using b t' by blast
qed

definition importing ::
  "('b, 'i) driver \<Rightarrow> (bytes \<Rightarrow> ('b system, unit) prog) \<Rightarrow> 'i \<Rightarrow> ('b system, unit) prog" where
  "importing d imp i = catchS (imp (encoded_serialise (drv_encoded d i)))
     (\<lambda>e. case e of CommandFailed n what \<Rightarrow> throwS (RuntimeError (''Snapshot command failed: '' @ what)) | _ \<Rightarrow> throwS e)"

lemma importing_ok: "imp (encoded_serialise (drv_encoded d i)) t = (Inr (), t') \<Longrightarrow> importing d imp i t = (Inr (), t')"
  by (simp add: importing_def catchS_def)

lemma replay_step:
  assumes "drv_exists drv (ident n) s = (Inr present, s1)"
    and "(if n = initial_value then drv_restoreInitial drv (ident n) (fst (stream n))
      else drv_restoreDiff drv (ident (node_parent n)) (ident n) (fst (stream n))) s1 = (Inr (), s2)"
    and "snd (stream n) = Inr ()" and "upon (ident n) s2 = (Inr (), s3)"
  shows "replay_each drv False ident stream upon (n # ns) s = replay_each drv False ident stream upon ns s3"
  using assms by (cases "n = initial_value") (simp_all add: bindS_def thenS_def aborted_def)

lemma replay_imports:
  assumes "serves d U good" and "receives d ident input A good"
  shows "copied na params ks d ident good t H N \<Longrightarrow> parents_first N ns \<Longrightarrow> set ns \<subseteq> A \<Longrightarrow>
    \<forall>n \<in> A. unat (node_value n) < 2 ^ 63 \<Longrightarrow>
    \<exists>t' H'. replay_each (on_dataset d) False ident (\<lambda>n. (input n, Inr ()))
        (importing d (snapshot_import na d params False)) ns t = (Inr (), t') \<and>
      copied na params ks d ident good t' H' (N \<union> set ns) \<and>
      mark t' = (if ns = [] then mark t else Node (node_value (last ns) + 1)) \<and>
      rs_repository (rs t') = rs_repository (rs t)"
proof (induction ns arbitrary: t H N)
  case Nil
  then show ?case by auto
next
  case (Cons n ns)
  have n: "n \<in> A" "unat (node_value n) < 2 ^ 63" "n \<notin> N" "n = initial_value \<or> node_parent n \<in> N"
    "parents_first (insert n N) ns" "set ns \<subseteq> A"
    using Cons.prems by auto
  obtain t1 t2 t3 present where one: "drv_exists (on_dataset d) (ident n) t = (Inr present, t1)"
    "(if n = initial_value then drv_restoreInitial (on_dataset d) (ident n) (input n)
     else drv_restoreDiff (on_dataset d) (ident (node_parent n)) (ident n) (input n)) t1 = (Inr (), t2)"
    "snapshot_import na d params False (encoded_serialise (drv_encoded d (ident n))) t2 = (Inr (), t3)"
    and t3: "copied na params ks d ident good t3 (H(n \<mapsto> drv_encoded d (ident n))) (insert n N)"
    "mark t3 = Node (node_value n + 1)" "rs_repository (rs t3) = rs_repository (rs t)"
    using copy_one [OF assms n(1,2) Cons.prems(1) n(3,4)] by blast
  obtain t' H' where t': "replay_each (on_dataset d) False ident (\<lambda>n. (input n, Inr ()))
      (importing d (snapshot_import na d params False)) ns t3 = (Inr (), t')"
    "copied na params ks d ident good t' H' (insert n N \<union> set ns)"
    "mark t' = (if ns = [] then mark t3 else Node (node_value (last ns) + 1))"
    "rs_repository (rs t') = rs_repository (rs t3)"
    using Cons.IH [OF t3(1) n(5,6) Cons.prems(4)] by blast
  have imp: "importing d (snapshot_import na d params False) (ident n) t2 = (Inr (), t3)"
    by (rule importing_ok) (rule one(3))
  let ?run = "replay_each (on_dataset d) False ident (\<lambda>n. (input n, Inr ())) (importing d (snapshot_import na d params False))"
  have "?run (n # ns) t = ?run ns t3"
    by (rule replay_step [where ident = ident and n = n, OF one(1)])
      (use one(2) imp in \<open>simp_all only: fst_conv snd_conv\<close>)
  then have "?run (n # ns) t = (Inr (), t')" using t'(1) by (simp only:)
  then show ?case using t' t3 by (intro exI [of _ t'] exI [of _ H']) auto
qed

section \<open>Exporting all\<close>

lemma parents_first_sorted:
  assumes "sorted ns" and "distinct ns" and "N \<inter> set ns = {}"
    and "\<forall>n \<in> set ns. n = initial_value \<or> node_parent n \<in> N \<union> set ns"
  shows "parents_first N ns"
  using assms
proof (induction ns arbitrary: N)
  case (Cons n ns)
  have "node_parent n \<notin> set (n # ns)" if "n \<noteq> initial_value"
    using parent_less [OF that] Cons.prems(1) by auto
  then have "n = initial_value \<or> node_parent n \<in> N" using Cons.prems(4) by auto
  moreover have "parents_first (insert n N) ns" using Cons.prems by (intro Cons.IH) auto
  ultimately show ?case using Cons.prems(3) by simp
qed simp

lemma parent_before:
  assumes "k \<noteq> 0" and "unat k \<le> 2 ^ 63" and "n \<in> alive_before k"
  shows "node_parent n \<in> alive_before k"
  using assms parent_alive by (cases n) (simp add: in_alive_before node_parent_def unat_fenwick_parent)

lemma exported_order:
  assumes "k \<noteq> 0" and "unat k \<le> 2 ^ 63"
  shows "parents_first {} (sorted_list_of_set (alive_before k))" and "set (sorted_list_of_set (alive_before k)) = alive_before k"
    and "sorted_list_of_set (alive_before k) \<noteq> []" and "last (sorted_list_of_set (alive_before k)) = Node (k - 1)"
    and "\<forall>n \<in> alive_before k. unat (node_value n) < 2 ^ 63"
proof -
  let ?ns = "sorted_list_of_set (alive_before k)"
  have fin: "finite (alive_before k)" by (simp add: alive_before_def)
  then show set: "set ?ns = alive_before k" by simp
  show "parents_first {} ?ns"
    using fin parent_before [OF assms] by (intro parents_first_sorted) auto
  have top: "Node (k - 1) \<in> alive_before k" using in_alive_before [OF assms] self_alive by simp
  then show ne: "?ns \<noteq> []" using fin by auto
  have le: "n \<le> Node (k - 1)" if "n \<in> alive_before k" for n using alive_trace(3) [OF assms that] .
  have "last ?ns \<in> alive_before k" using ne set last_in_set by blast
  moreover have "x \<le> last ?ns" if "x \<in> set ?ns" for x
    using that sorted_sorted_list_of_set [of "alive_before k"] by (cases ?ns rule: rev_cases) (auto simp: sorted_append simp del: sorted_sorted_list_of_set)
  ultimately show "last ?ns = Node (k - 1)" using top le set by (metis order_antisym)
  have "unat (k - 1) < 2 ^ 63" using assms pred_unat by (simp add: unat_gt_0 Suc_le_eq)
  then show "\<forall>n \<in> alive_before k. unat (node_value n) < 2 ^ 63"
    using le by (fastforce simp: word_le_nat_alt less_eq_node_def)
qed

lemma does_throw: "undisturbed s \<Longrightarrow> does (throwS e) (throwS e) s"
  by (simp add: does_def throwS_def steady_def)

lemma does_catch:
  assumes "does p m s" and "\<And>e s'. steady s s' \<Longrightarrow> does (h e) (g e) s'"
  shows "does (catchS p h) (catchS m g) s"
proof -
  obtain s' where s': "p s = (fst (m (backend s)), s')" "backend s' = snd (m (backend s))" "steady s s'"
    using assms(1) by (auto simp: does_def)
  obtain r b where m: "m (backend s) = (r, b)" by fastforce
  show ?thesis
  proof (cases r)
    case (Inl e)
    obtain t where "h e s' = (fst (g e b), t)" "backend t = snd (g e b)" "steady s' t"
      using assms(2) [OF s'(3), of e] s'(2) m by (auto simp: does_def)
    then show ?thesis using Inl s' m steady_trans [OF s'(3)] by (simp add: does_def catchS_def)
  next
    case (Inr x)
    then show ?thesis using s' m by (simp add: does_def catchS_def)
  qed
qed

lemma importing_does:
  assumes "undisturbed s"
  shows "does (catchS (liftB (imp (encoded_serialise (drv_encoded (on_dataset d) i))))
      (\<lambda>e. case e of CommandFailed n what \<Rightarrow> throwS (RuntimeError (''Snapshot command failed: '' @ what)) | _ \<Rightarrow> throwS e))
    (importing d imp i) s"
  unfolding importing_def on_dataset_simps
  by (intro does_catch does_lift assms) (auto simp: steady_def does_throw split: exn.split)

lemma export_runs:
  assumes "complete s E C k" and "k \<noteq> 0" and "unat k < 2 ^ 63"
    and "encryption params \<Longrightarrow> password = Some pw \<and> keys_on_disk s (rs_repository (rs s)) ks"
    and "dk = (if encryption params then first_slot na pw ks else None)"
    and "\<forall>n \<in> alive_before k. drv_snapshotId d (E n) = Inr (ident n) \<and>
      (case dk of None \<Rightarrow> input n = C n | Some x \<Rightarrow> decryptFromFd na x (C n) = (input n, Inr ()))"
    and "importCommand \<noteq> []"
    and "replay_each (on_dataset d) False ident (\<lambda>n. (input n, Inr ())) (importing d (run importCommand))
      (sorted_list_of_set (alive_before k)) (backend s) = (Inr (), t)"
  shows "\<exists>s'. export_repository na (on_dataset d) params password importCommand run s = (Inr SUCCESS, s') \<and>
    backend s' = t \<and> rs s' = rs s \<and> fs s' = fs s"
proof -
  let ?ns = "sorted_list_of_set (alive_before k)"
  let ?rp = "\<lparr> rp_password = password, rp_node = Node (k - 1), rp_skip_existing = False \<rparr>"
  let ?upon = "\<lambda>i. catchS (liftB (run importCommand (encoded_serialise (drv_encoded (on_dataset d) i))))
      (\<lambda>e. case e of CommandFailed n what \<Rightarrow> throwS (RuntimeError (''Snapshot command failed: '' @ what)) | _ \<Rightarrow> throwS e)"
  have k: "unat k \<le> 2 ^ 63" using assms(3) by simp
  have u: "undisturbed s" using assms(1) by (simp add: complete_def)
  obtain s1 where s1: "getNextSnapshotNode s = (Inr (Node k), s1)" "steady s s1" "backend s1 = backend s"
    using next_calm [OF u] assms(1) by (auto simp: complete_def)
  have st: "stored s1 n (E n) (C n)" "encoded_ok (E n)" "encoded_node (E n) = n" if "n \<in> alive_before k" for n
    using assms(1) that steady_stored [OF s1(2)] by (simp_all add: complete_def)
  have av: "available (on_dataset d) s1 n (ident n)" if "n \<in> alive_before k" for n
    using stored_has_snapshot [OF st [OF that]] assms(6) that by (auto simp: available_def)
  have del: "delivers na dk s1 n (input n, Inr ())" if "n \<in> alive_before k" for n
    using st(1) [OF that] assms(6) that by (auto simp: delivers_def stored_def split: option.splits)
  have u1: "undisturbed s1" using s1(2) by (simp add: steady_def)
  have keys: "encryption params \<Longrightarrow> password = Some pw \<and> keys_on_disk s1 (rs_repository (rs s1)) ks"
    using assms(4) s1(2) by (simp add: steady_def keys_on_disk_def)
  then have key: "encryption params \<Longrightarrow> rp_password ?rp = Some pw \<and> keys_on_disk s1 (rs_repository (rs s1)) ks"
    by simp
  have nodes: "\<exists>s3. nodes_to_restore True (rp_node ?rp) s2 = (Inr ?ns, s3) \<and> steady s2 s3 \<and> backend s3 = backend s2"
    if "steady s1 s2" for s2
  proof -
    have "complete s2 E C k"
      using assms(1) s1(2) that by (simp add: complete_def steady_def absent_def stored_def)
    then show ?thesis
      using getNodes_calm [OF _ assms(2,3)] all_self_contained [OF assms(2,3)] by (fastforce simp: nodes_to_restore_def)
  qed
  have nodes_ok: "\<forall>n \<in> set ?ns. available (on_dataset d) s1 n (ident n) \<and> delivers na dk s1 n (input n, Inr ()) \<and>
      (n \<noteq> initial_value \<longrightarrow> available (on_dataset d) s1 (node_parent n) (ident (node_parent n)))"
    using av del parent_before [OF assms(2) k] by (simp add: exported_order(2) [OF assms(2) k])
  have "does (restore_with na (on_dataset d) params ?rp True ?upon)
      (replay_each (on_dataset d) False ident (\<lambda>n. (input n, Inr ())) (importing d (run importCommand)) ?ns) s1"
    using restore_with_does [where rp = ?rp, OF u1 key assms(5) nodes nodes_ok importing_does [where imp = "run importCommand"]] by simp
  then obtain s2 where s2: "restore_with na (on_dataset d) params ?rp True ?upon s1 = (Inr (), s2)"
    "backend s2 = t" "steady s1 s2"
    using assms(8) s1(3) by (auto simp: does_def)
  have "export_repository na (on_dataset d) params password importCommand run s = (Inr SUCCESS, s2)"
    using s1(1) s2(1) assms(2,7) by (simp add: export_repository_def initial_value_def bindS_def thenS_def)
  then show ?thesis using s2 s1(2) by (simp add: steady_def)
qed

section \<open>Properties\<close>


text \<open>A repository with two snapshots, over a dataset and a fresh repository.\<close>

definition two_snapshots :: "snapshots system system" where
  "two_snapshots = \<lparr> fs =
       [([snapshotsDirName, to_string 0], Dir),
        ([snapshotsDirName, to_string 0, idFileName], File (encoded_serialise (sample_encoded 0))),
        ([snapshotsDirName, to_string 0, payloadFileName], File [7, 8]),
        ([snapshotsDirName, to_string 1], Dir),
        ([snapshotsDirName, to_string 1, idFileName], File (encoded_serialise (sample_encoded 1))),
        ([snapshotsDirName, to_string 1, payloadFileName], File [7, 8])],
     fate = (\<lambda>_. Works), calls = 0, entropy = (\<lambda>i. word_of_nat i),
     rs = sample_repository\<lparr>rs_breadcrumb := fresh_breadcrumb\<lparr>untrusted_begin := Node 2\<rparr>\<rparr>,
     backend = sample_system \<rparr>"

lemma alive_before_two: "n \<in> alive_before 2 \<Longrightarrow> n = Node 0 \<or> n = Node 1"
  using alive_trace(3) [of 2 n] by (cases n) (auto simp: word_le_nat_alt less_eq_node_def word_unat_eq_iff)

lemma two_snapshots_complete: "complete two_snapshots (\<lambda>n. sample_encoded (node_value n)) (\<lambda>n. [7, 8]) 2"
proof -
  have "encoded_ok (sample_encoded n)" "encoded_node (sample_encoded n) = Node n" for n
    by (simp_all add: encoded_ok_def vector_ok_def max_size_def sample_encoded_def)
  moreover have "to_string 1 \<noteq> to_string 0" "to_string 2 \<noteq> to_string 0" "to_string 2 \<noteq> to_string 1"
    using to_string_inject by simp_all
  ultimately show ?thesis
    unfolding complete_def using alive_before_two
    by (auto simp: two_snapshots_def sample_repository_def absent_def stored_def pathForNode_def lookup_def file_names
        simp del: to_string.simps dest!: alive_before_two)
qed


end
