(* ===== verification/Owner.thy ===== *)
theory Owner
  imports Text
begin

text \<open>
  What the two owning classes share: an object holds at most one resource, \<open>-1\<close> stands for none,
  and no two objects hold the same one. The locale \<open>owner\<close> is the contract of such a class:
  giving a resource up and exchanging two objects; what its destructors and its move operations
  do is proved in it once and holds for \<^verbatim>\<open>FdOwner\<close> and \<^verbatim>\<open>PidOwner\<close>.
\<close>

definition owned :: "('o \<Rightarrow> int) \<Rightarrow> int set" where
  "owned own = {r. r \<noteq> -1 \<and> (\<exists>a. own a = r)}"

definition unique :: "('o \<Rightarrow> int) \<Rightarrow> bool" where
  "unique own \<longleftrightarrow> (\<forall>a b. own a = own b \<and> own a \<noteq> -1 \<longrightarrow> a = b)"

definition exchanged :: "'o \<Rightarrow> 'o \<Rightarrow> ('o \<Rightarrow> 'v) \<Rightarrow> 'o \<Rightarrow> 'v" where
  "exchanged a b own = own(a := own b, b := own a)"

lemma owned_empty: "unique own \<Longrightarrow> owned (own(a := -1)) = owned own - {own a}"
  by (auto simp: owned_def unique_def)

lemma unique_empty: "unique own \<Longrightarrow> unique (own(a := -1))"
  by (auto simp: unique_def)

lemma owned_take: "unique own \<Longrightarrow> own a = -1 \<Longrightarrow> r \<noteq> -1 \<Longrightarrow> owned (own(a := r)) = insert r (owned own)"
  by (auto simp: owned_def)

lemma unique_take: "unique own \<Longrightarrow> own a = -1 \<Longrightarrow> r \<notin> owned own \<Longrightarrow> unique (own(a := r))"
  by (auto simp: owned_def unique_def)

definition other :: "'o \<Rightarrow> 'o \<Rightarrow> 'o \<Rightarrow> 'o" where
  "other a b x = (if x = a then b else if x = b then a else x)"

lemma exchanged_other: "exchanged a b own x = own (other a b x)"
  by (simp add: exchanged_def other_def)

lemma other_other: "other a b (other a b x) = x"
  by (simp add: other_def)

lemma owned_exchanged [simp]: "owned (exchanged a b own) = owned own"
proof -
  have "(\<exists>x. own (other a b x) = r) \<longleftrightarrow> (\<exists>x. own x = r)" for r
    using other_other [of a b] by metis
  then show ?thesis unfolding owned_def exchanged_other by simp
qed

lemma unique_exchanged: "unique own \<Longrightarrow> unique (exchanged a b own)"
proof -
  assume u: "unique own"
  have "x = y" if e: "own (other a b x) = own (other a b y)" "own (other a b x) \<noteq> -1" for x y
  proof -
    have "other a b x = other a b y" using u e unfolding unique_def by blast
    then have "other a b (other a b x) = other a b (other a b y)" by simp
    then show ?thesis unfolding other_other .
  qed
  then show ?thesis unfolding unique_def exchanged_other by blast
qed

lemma exchanged_self [simp]: "exchanged a a own = own"
  by (simp add: exchanged_def)

text \<open>
  \<open>inv\<close> are the states in which the machine does its part and the objects are well formed;
  \<open>live\<close> are the resources that exist.
\<close>

locale owner =
  fixes inv :: "'s \<Rightarrow> bool" and own :: "'s \<Rightarrow> nat \<Rightarrow> int" and live :: "'s \<Rightarrow> int set"
    and reset :: "nat \<Rightarrow> ('s, unit) prog" and swap :: "nat \<Rightarrow> nat \<Rightarrow> 's \<Rightarrow> 's"
  assumes inv_unique: "inv s \<Longrightarrow> unique (own s)"
    and inv_live: "inv s \<Longrightarrow> owned (own s) \<subseteq> live s"
    and reset_ok: "inv s \<Longrightarrow> \<exists>s'. reset a s = (Inr (), s') \<and> inv s' \<and> own s' = (own s)(a := -1) \<and>
      live s' = live s - {own s a}"
    and swap_ok: "inv s \<Longrightarrow> inv (swap a b s) \<and> own (swap a b s) = exchanged a b (own s) \<and>
      live (swap a b s) = live s"
    and no_minus_one: "inv s \<Longrightarrow> - 1 \<notin> live s"
begin

definition move_assign :: "nat \<Rightarrow> nat \<Rightarrow> ('s, unit) prog" where
  "move_assign a b = thenS (if a \<noteq> b then reset a else retS ()) (modifyS (swap a b))"

text \<open>What nobody holds is left alone, and nothing that was held is lost or freed twice.\<close>

lemma loose_reset:
  assumes "inv s" and "reset a s = (r, s')"
  shows "live s' - owned (own s') = live s - owned (own s)"
proof -
  obtain t where t: "reset a s = (Inr (), t)" "own t = (own s)(a := -1)" "live t = live s - {own s a}"
    using reset_ok [OF assms(1)] by blast
  have "s' = t" using assms(2) t(1) by simp
  then have "owned (own s') = owned (own s) - {own s a}" "live s' = live s - {own s a}"
    using t(2,3) owned_empty [OF inv_unique [OF assms(1)], of a] by simp_all
  moreover have "own s a \<in> live s \<Longrightarrow> own s a \<in> owned (own s)"
    using no_minus_one [OF assms(1)] by (force simp: owned_def)
  ultimately show ?thesis by blast
qed

lemma move_assign_ok:
  assumes "inv s"
  shows "\<exists>s'. move_assign a b s = (Inr (), s') \<and> inv s' \<and>
    own s' = (if a = b then own s else (own s)(a := own s b, b := -1)) \<and>
    live s' = (if a = b then live s else live s - {own s a}) \<and>
    live s' - owned (own s') = live s - owned (own s)"
proof (cases "a = b")
  case True
  then show ?thesis using swap_ok [OF assms, of a a] by (auto simp: move_assign_def thenS_def)
next
  case False
  obtain t where t: "reset a s = (Inr (), t)" "inv t" "own t = (own s)(a := -1)" "live t = live s - {own s a}"
    using reset_ok [OF assms] by blast
  have loose: "live t - owned (own t) = live s - owned (own s)" using loose_reset [OF assms t(1)] .
  let ?s' = "swap a b t"
  have s': "inv ?s'" "own ?s' = exchanged a b (own t)" "live ?s' = live t" using swap_ok [OF t(2)] by blast+
  have "move_assign a b s = (Inr (), ?s')" using False t(1) by (simp add: move_assign_def)
  moreover have "own ?s' = (own s)(a := own s b, b := -1)"
    unfolding s'(2) t(3) using False by (simp add: exchanged_def fun_upd_twist)
  moreover have "live ?s' - owned (own ?s') = live s - owned (own s)" unfolding s'(2,3) using loose by simp
  ultimately show ?thesis using False s'(1,3) t(4) by (intro exI [of _ ?s']) simp
qed

text \<open>The destructors at the end of a scope free exactly what its objects hold.\<close>

lemma destroy_all:
  assumes "inv s"
  shows "\<exists>s'. forS reset as s = (Inr (), s') \<and> inv s' \<and>
    own s' = (\<lambda>a. if a \<in> set as then -1 else own s a) \<and>
    live s' = live s - {own s a | a. a \<in> set as}"
  using assms
proof (induction as arbitrary: s)
  case Nil
  then show ?case by simp
next
  case (Cons a as)
  obtain t where t: "reset a s = (Inr (), t)" "inv t" "own t = (own s)(a := -1)" "live t = live s - {own s a}"
    using reset_ok [OF Cons.prems] by blast
  obtain s' where s': "forS reset as t = (Inr (), s')" "inv s'"
      "own s' = (\<lambda>x. if x \<in> set as then -1 else own t x)" "live s' = live t - {own t x | x. x \<in> set as}"
    using Cons.IH [OF t(2)] by blast
  have "- 1 \<notin> live s" using no_minus_one [OF Cons.prems] .
  then have "live s' = live s - {own s x | x. x \<in> set (a # as)}"
    unfolding s'(4) t(3,4) by auto
  moreover have "own s' = (\<lambda>x. if x \<in> set (a # as) then -1 else own s x)"
    unfolding s'(3) t(3) by (auto simp: fun_eq_iff)
  ultimately show ?case using t(1) s'(1,2) by simp
qed

lemma destroy_everything:
  assumes "inv s" and "\<forall>a. own s a \<noteq> -1 \<longrightarrow> a \<in> set as"
  shows "\<exists>s'. forS reset as s = (Inr (), s') \<and> owned (own s') = {} \<and> live s' = live s - owned (own s)"
proof -
  obtain s' where s': "forS reset as s = (Inr (), s')" "inv s'"
      "own s' = (\<lambda>a. if a \<in> set as then -1 else own s a)" "live s' = live s - {own s a | a. a \<in> set as}"
    using destroy_all [OF assms(1)] by blast
  have "- 1 \<notin> live s" using no_minus_one [OF assms(1)] .
  then have "live s' = live s - owned (own s)" "owned (own s') = {}"
    using assms(2) unfolding s'(3,4) owned_def by auto
  then show ?thesis using s'(1) by blast
qed

end

end
