(* ===== verification/FdOwner.thy ===== *)
theory FdOwner
  imports Owner
begin

text \<open>
  \<^verbatim>\<open>diffmonger/util/FdOwner.hpp\<close> and \<^verbatim>\<open>FdOwner.cpp\<close>: the objects that own a file descriptor, over
  the descriptor table of the process. Objects are named by numbers; \<open>fdo\<close> is the member \<open>fd\<close>
  of each, and an object that has not been constructed or has been destroyed holds \<open>-1\<close>.
\<close>

section \<open>The descriptor table\<close>

text \<open>
  The open descriptors with their close-on-exec flag. A call can fail with an error the
  function \<open>fd_fate\<close> gives for it; a failing \<^verbatim>\<open>close\<close> has released the descriptor all the same, as
  Linux does.
\<close>

record fd_world =
  fd_table :: "(int \<times> bool) list"
  fd_fate :: "nat \<Rightarrow> errno option"
  fd_calls :: nat
  fdo :: "nat \<Rightarrow> int"

definition open_fds :: "fd_world \<Rightarrow> int set" where
  "open_fds s = fst ` set (fd_table s)"

definition is_open :: "fd_world \<Rightarrow> int \<Rightarrow> bool" where
  "is_open s fd \<longleftrightarrow> list_ex (\<lambda>(n, _). n = fd) (fd_table s)"

definition without :: "int \<Rightarrow> (int \<times> bool) list \<Rightarrow> (int \<times> bool) list" where
  "without fd t = filter (\<lambda>(n, _). n \<noteq> fd) t"

definition lowest_free :: "(int \<times> bool) list \<Rightarrow> int" where
  "lowest_free t = hd (filter (\<lambda>n. \<not> list_ex (\<lambda>(m, _). m = n) t) (map int [0..<Suc (length t)]))"

definition called :: "fd_world \<Rightarrow> fd_world" where
  "called s = s\<lparr>fd_calls := Suc (fd_calls s)\<rparr>"

text \<open>A call returns an error number or its value.\<close>

type_synonym 'a syscall = "fd_world \<Rightarrow> (errno + 'a) \<times> fd_world"

definition sys_close :: "int \<Rightarrow> unit syscall" where
  "sys_close fd s =
     (if \<not> is_open s fd then (Inl EBADF, called s)
      else (case fd_fate s (fd_calls s) of Some e \<Rightarrow> Inl e | None \<Rightarrow> Inr (),
            (called s)\<lparr>fd_table := without fd (fd_table s)\<rparr>))"

definition sys_new :: "bool \<Rightarrow> int syscall" where
  "sys_new cloexec s =
     (case fd_fate s (fd_calls s) of
        Some e \<Rightarrow> (Inl e, called s)
      | None \<Rightarrow> (let fd = lowest_free (fd_table s) in
          (Inr fd, (called s)\<lparr>fd_table := (fd, cloexec) # fd_table s\<rparr>)))"

definition sys_dup :: "int \<Rightarrow> bool \<Rightarrow> int syscall" where
  "sys_dup fd cloexec s = (if \<not> is_open s fd then (Inl EBADF, called s) else sys_new cloexec s)"

definition sys_dup2 :: "int \<Rightarrow> int \<Rightarrow> unit syscall" where
  "sys_dup2 fd target s =
     (if \<not> is_open s fd \<or> target < 0 then (Inl EBADF, called s)
      else case fd_fate s (fd_calls s) of
        Some e \<Rightarrow> (Inl e, called s)
      | None \<Rightarrow> (Inr (), if fd = target then called s
          else (called s)\<lparr>fd_table := (target, False) # without target (fd_table s)\<rparr>))"

definition sys_getfd :: "int \<Rightarrow> bool syscall" where
  "sys_getfd fd s =
     (case map_of (fd_table s) fd of None \<Rightarrow> (Inl EBADF, called s) | Some flag \<Rightarrow> (Inr flag, called s))"

definition sys_pipe2 :: "bool \<Rightarrow> (int \<times> int) syscall" where
  "sys_pipe2 cloexec s =
     (case fd_fate s (fd_calls s) of
        Some e \<Rightarrow> (Inl e, called s)
      | None \<Rightarrow>
          (let r = lowest_free (fd_table s); w = lowest_free ((r, cloexec) # fd_table s) in
           (Inr (r, w), (called s)\<lparr>fd_table := (w, cloexec) # (r, cloexec) # fd_table s\<rparr>)))"

definition or_throw :: "'a syscall \<Rightarrow> string \<Rightarrow> (fd_world, 'a) prog" where
  "or_throw m what s = (case m s of (Inl e, s') \<Rightarrow> (Inl (SystemError e what), s') | (Inr x, s') \<Rightarrow> (Inr x, s'))"

section \<open>FdOwner\<close>

definition empty_fd :: int where "empty_fd = -1"

definition set_fd :: "nat \<Rightarrow> int \<Rightarrow> fd_world \<Rightarrow> fd_world" where
  "set_fd a fd s = s\<lparr>fdo := (fdo s)(a := fd)\<rparr>"

definition fd_default :: "nat \<Rightarrow> (fd_world, unit) prog" where
  "fd_default a = modifyS (set_fd a empty_fd)"

text \<open>The constructor from a descriptor.\<close>

definition FdOwner :: "nat \<Rightarrow> int \<Rightarrow> (fd_world, unit) prog" where
  "FdOwner a fd =
     (if fd \<ge> 0 then modifyS (set_fd a fd) else throwS (InvalidArgument ''Invalid file descriptor''))"

definition from_syscall :: "nat \<Rightarrow> int syscall \<Rightarrow> string \<Rightarrow> (fd_world, unit) prog" where
  "from_syscall a m what = bindS (or_throw m what) (FdOwner a)"

definition isEmpty :: "nat \<Rightarrow> fd_world \<Rightarrow> bool" where
  "isEmpty a s \<longleftrightarrow> fdo s a = empty_fd"

definition on_empty :: "string \<Rightarrow> exn" where
  "on_empty m = LogicError (''FdOwner::'' @ m @ ''(): called on empty FdOwner'')"

definition ensureNotEmpty :: "nat \<Rightarrow> string \<Rightarrow> (fd_world, unit) prog" where
  "ensureNotEmpty a m s =
     (if isEmpty a s then (Inl (on_empty m), s)
      else (Inr (), s))"

definition fd_get :: "nat \<Rightarrow> (fd_world, int) prog" where
  "fd_get a = thenS (ensureNotEmpty a ''get'') (getS (\<lambda>s. fdo s a))"

definition fd_dup_of :: "nat \<Rightarrow> int \<Rightarrow> (fd_world, unit) prog" where
  "fd_dup_of a fd = from_syscall a (sys_dup fd False) (''dup() failed for given fd ('' @ int_to_string fd @ '')'')"

definition fd_dup :: "nat \<Rightarrow> nat \<Rightarrow> (fd_world, unit) prog" where
  "fd_dup a b = thenS (ensureNotEmpty b ''dup'') (\<lambda>s. fd_dup_of a (fdo s b) s)"

definition fd_dup_close_on_exec :: "nat \<Rightarrow> nat \<Rightarrow> (fd_world, unit) prog" where
  "fd_dup_close_on_exec a b =
     thenS (ensureNotEmpty b ''dup_close_on_exec'')
       (\<lambda>s. from_syscall a (sys_dup (fdo s b) True)
          ''FdOwner::dup_close_on_exec: fcntl(fd, F_DUPFD_CLOEXEC, 0) failed'' s)"

definition fd_is_close_on_exec :: "nat \<Rightarrow> (fd_world, bool) prog" where
  "fd_is_close_on_exec a s = or_throw (sys_getfd (fdo s a)) ''fcntl'' s"

definition fd_move :: "nat \<Rightarrow> nat \<Rightarrow> (fd_world, unit) prog" where
  "fd_move a b = modifyS (\<lambda>s. set_fd b empty_fd (set_fd a (fdo s b) s))"

definition fd_swap :: "nat \<Rightarrow> nat \<Rightarrow> fd_world \<Rightarrow> fd_world" where
  "fd_swap a b s = s\<lparr>fdo := exchanged a b (fdo s)\<rparr>"

definition fd_reset :: "nat \<Rightarrow> (fd_world, unit) prog" where
  "fd_reset a s =
     (if isEmpty a s then (Inr (), s)
      else case sys_close (fdo s a) s of
        (Inr _, s') \<Rightarrow> (Inr (), set_fd a empty_fd s')
      | (Inl e, s') \<Rightarrow>
          if e = EINTR then (Inr (), set_fd a empty_fd s')
          else if e = EBADF
          then (Inl (LogicError (''FdOwner::reset(): fd ('' @ int_to_string (fdo s a) @ '') is invalid'')), s')
          else (Inr (), s'))"

text \<open>An exception out of a function that is \<^verbatim>\<open>noexcept\<close>, as a destructor, ends the program.\<close>

definition noexcept :: "(fd_world, unit) prog \<Rightarrow> (fd_world, unit) prog" where
  "noexcept m = catchS m (\<lambda>_. throwS (AssertionFailed ''std::terminate''))"

definition fd_assign :: "nat \<Rightarrow> nat \<Rightarrow> (fd_world, unit) prog" where
  "fd_assign a b = noexcept (thenS (if a \<noteq> b then fd_reset a else retS ()) (modifyS (fd_swap a b)))"

definition fd_destroy :: "nat \<Rightarrow> (fd_world, unit) prog" where
  "fd_destroy a = noexcept (fd_reset a)"

definition fd_release :: "nat \<Rightarrow> (fd_world, int) prog" where
  "fd_release a = thenS (ensureNotEmpty a ''release'')
     (bindS (getS (\<lambda>s. fdo s a)) (\<lambda>fd. thenS (modifyS (set_fd a empty_fd)) (retS fd)))"

definition fd_mov2 :: "nat \<Rightarrow> int \<Rightarrow> (fd_world, unit) prog" where
  "fd_mov2 a target =
     thenS (ensureNotEmpty a ''mov2'')
       (thenS (\<lambda>s. if fdo s a = target then thenS (fd_release a) (retS ()) s else retS () s)
          (thenS (\<lambda>s. or_throw (sys_dup2 (fdo s a) target) ''FdOwner::mov2: dup2 failed'' s)
             (fd_reset a)))"

text \<open>The temporary that \<open>mov2_or_close\<close> makes is the object \<open>t\<close>; the full expression destroys it.\<close>

definition fd_mov2_or_close :: "nat \<Rightarrow> nat \<Rightarrow> int \<Rightarrow> (fd_world, unit) prog" where
  "fd_mov2_or_close t a target s =
     (if isEmpty a s
      then thenS (FdOwner t target)
             (thenS (catchS (fd_reset t) (\<lambda>e. thenS (fd_destroy t) (throwS e))) (fd_destroy t)) s
      else fd_mov2 a target s)"

definition pipe_create :: "nat \<Rightarrow> nat \<Rightarrow> bool \<Rightarrow> (fd_world, unit) prog" where
  "pipe_create read_end write_end cloexec =
     bindS (or_throw (sys_pipe2 cloexec) ''pipe() failed'') (\<lambda>(r, w).
       thenS (FdOwner read_end r) (FdOwner write_end w))"

section \<open>The table\<close>

lemma is_open_iff: "is_open s fd \<longleftrightarrow> fd \<in> open_fds s"
  by (force simp: is_open_def open_fds_def list_ex_iff)

lemma open_without [simp]: "fst ` set (without fd t) = fst ` set t - {fd}"
  by (auto simp: without_def)

lemma called_simps [simp]:
  "fd_table (called s) = fd_table s" "fdo (called s) = fdo s" "fd_fate (called s) = fd_fate s"
  "open_fds (called s) = open_fds s"
  by (simp_all add: called_def open_fds_def)

lemma set_fd_simps [simp]:
  "fd_table (set_fd a fd s) = fd_table s" "fdo (set_fd a fd s) = (fdo s)(a := fd)"
  "fd_fate (set_fd a fd s) = fd_fate s" "open_fds (set_fd a fd s) = open_fds s"
  by (simp_all add: set_fd_def open_fds_def)

lemma lowest_free: "lowest_free t \<notin> fst ` set t" "0 \<le> lowest_free t"
proof -
  let ?free = "filter (\<lambda>n. \<not> list_ex (\<lambda>(m, _). m = n) t) (map int [0..<Suc (length t)])"
  have "card (fst ` set t) \<le> length t" using card_image_le [of "set t" fst] card_length [of t] by simp
  moreover have "card (set (map int [0..<Suc (length t)])) = Suc (length t)"
    by (simp only: set_map set_upt) (simp add: card_image)
  ultimately have "\<not> set (map int [0..<Suc (length t)]) \<subseteq> fst ` set t"
    using card_mono [of "fst ` set t" "set (map int [0..<Suc (length t)])"] by auto
  then have "?free \<noteq> []" by (force simp: filter_empty_conv list_ex_iff simp del: upt_Suc)
  then have "lowest_free t \<in> set ?free" unfolding lowest_free_def by (rule hd_in_set)
  then show "lowest_free t \<notin> fst ` set t" "0 \<le> lowest_free t" by (auto simp: list_ex_iff simp del: upt_Suc)
qed

section \<open>Descriptors have one owner\<close>

definition fd_inv :: "fd_world \<Rightarrow> bool" where
  "fd_inv s \<longleftrightarrow> unique (fdo s) \<and> owned (fdo s) \<subseteq> open_fds s \<and> (\<forall>fd \<in> open_fds s. 0 \<le> fd) \<and>
     (\<forall>n. fd_fate s n = None \<or> fd_fate s n = Some EINTR)"

lemma fd_held: "fdo s a \<noteq> -1 \<Longrightarrow> fdo s a \<in> owned (fdo s)"
  by (auto simp: owned_def)

lemma fd_reset_outcome:
  assumes "fd_inv s"
  shows "\<exists>s'. fd_reset a s = (Inr (), s') \<and> fd_inv s' \<and> fdo s' = (fdo s)(a := -1) \<and>
    open_fds s' = open_fds s - {fdo s a}"
proof (cases "fdo s a = -1")
  case True
  moreover have "- 1 \<notin> open_fds s" using assms by (force simp: fd_inv_def)
  ultimately show ?thesis using assms by (simp add: fd_reset_def isEmpty_def empty_fd_def fun_upd_idem)
next
  case False
  let ?t = "set_fd a empty_fd ((called s)\<lparr>fd_table := without (fdo s a) (fd_table s)\<rparr>)"
  have "is_open s (fdo s a)" using assms fd_held [OF False] by (auto simp: is_open_iff fd_inv_def)
  moreover have "fd_fate s (fd_calls s) = None \<or> fd_fate s (fd_calls s) = Some EINTR" using assms by (simp add: fd_inv_def)
  ultimately have "fd_reset a s = (Inr (), ?t)"
    using False by (auto simp: fd_reset_def isEmpty_def empty_fd_def sys_close_def)
  moreover have opens: "open_fds ?t = open_fds s - {fdo s a}" by (simp add: open_fds_def)
  moreover have "fdo ?t = (fdo s)(a := -1)" by (simp add: empty_fd_def)
  moreover from this have "fd_inv ?t"
    using assms opens owned_empty [of "fdo s" a] unique_empty [of "fdo s" a] by (auto simp: fd_inv_def)
  ultimately show ?thesis by blast
qed

interpretation fds: owner fd_inv fdo open_fds fd_reset fd_swap
proof unfold_locales
  fix s a b
  assume s: "fd_inv s"
  show "unique (fdo s)" "owned (fdo s) \<subseteq> open_fds s" "- 1 \<notin> open_fds s" using s by (force simp: fd_inv_def)+
  show "\<exists>s'. fd_reset a s = (Inr (), s') \<and> fd_inv s' \<and> fdo s' = (fdo s)(a := -1) \<and>
      open_fds s' = open_fds s - {fdo s a}"
    by (rule fd_reset_outcome [OF s])
  show "fd_inv (fd_swap a b s) \<and> fdo (fd_swap a b s) = exchanged a b (fdo s) \<and> open_fds (fd_swap a b s) = open_fds s"
    using s unique_exchanged [of "fdo s" a b] by (simp add: fd_inv_def fd_swap_def open_fds_def)
qed

lemma noexcept_Inr [simp]: "m s = (Inr (), s') \<Longrightarrow> noexcept m s = (Inr (), s')"
  by (simp add: noexcept_def)

lemma fd_assign_outcome:
  "fd_inv s \<Longrightarrow> \<exists>s'. fd_assign a b s = (Inr (), s') \<and> fd_inv s' \<and>
    open_fds s' - owned (fdo s') = open_fds s - owned (fdo s)"
  using fds.move_assign_ok [of s a b] unfolding fds.move_assign_def fd_assign_def by (metis noexcept_Inr)

lemma fd_destroy_outcome:
  "fd_inv s \<Longrightarrow> \<exists>s'. fd_destroy a s = (Inr (), s') \<and> fd_reset a s = (Inr (), s')"
  using fd_reset_outcome [of s a] by (auto simp: fd_destroy_def)

lemma fd_destroy_all: "fd_inv s \<Longrightarrow> forS fd_destroy as s = forS fd_reset as s"
proof (induction as arbitrary: s)
  case (Cons a as)
  obtain s' where "fd_destroy a s = (Inr (), s')" "fd_reset a s = (Inr (), s')" "fd_inv s'"
    using fd_destroy_outcome [OF Cons.prems, of a] fd_reset_outcome [OF Cons.prems, of a] by auto
  then show ?case using Cons.IH [of s'] by simp
qed simp

section \<open>Runs of a program\<close>

text \<open>What a program does with owners, and what it must see to before each operation.\<close>

datatype fd_op =
    Open nat bool
  | Dup nat nat
  | DupCloexec nat nat
  | Move nat nat
  | Assign nat nat
  | Swap nat nat
  | Reset nat
  | Release nat
  | Mov2 nat int
  | Destroy nat
  | Pipe nat nat bool

fun fd_do :: "fd_op \<Rightarrow> (fd_world, unit) prog" where
  "fd_do (Open a cloexec) = from_syscall a (sys_new cloexec) ''open''"
| "fd_do (Dup a b) = fd_dup a b"
| "fd_do (DupCloexec a b) = fd_dup_close_on_exec a b"
| "fd_do (Move a b) = fd_move a b"
| "fd_do (Assign a b) = fd_assign a b"
| "fd_do (Swap a b) = modifyS (fd_swap a b)"
| "fd_do (Reset a) = fd_reset a"
| "fd_do (Release a) = thenS (fd_release a) (retS ())"
| "fd_do (Mov2 a target) = fd_mov2 a target"
| "fd_do (Destroy a) = fd_destroy a"
| "fd_do (Pipe r w cloexec) = pipe_create r w cloexec"

fun allowed :: "fd_op \<Rightarrow> fd_world \<Rightarrow> bool" where
  "allowed (Open a _) s = isEmpty a s"
| "allowed (Dup a _) s = isEmpty a s"
| "allowed (DupCloexec a _) s = isEmpty a s"
| "allowed (Move a b) s = (isEmpty a s \<and> a \<noteq> b)"
| "allowed (Mov2 a target) s = (target \<notin> owned (fdo s) - {fdo s a})"
| "allowed (Pipe r w _) s = (isEmpty r s \<and> isEmpty w s \<and> r \<noteq> w)"
| "allowed _ s = True"

text \<open>The descriptors an operation hands to whoever holds the raw number.\<close>

fun handed :: "fd_op \<Rightarrow> fd_world \<Rightarrow> int set" where
  "handed (Release a) s = {fdo s a}"
| "handed (Mov2 a target) s = {target}"
| "handed _ s = {}"

definition loose :: "fd_world \<Rightarrow> int set" where
  "loose s = open_fds s - owned (fdo s)"

text \<open>An operation only ever throws for a failing call or an empty object.\<close>

definition tolerable :: "unit result \<Rightarrow> bool" where
  "tolerable r \<longleftrightarrow> (\<forall>e. r = Inl e \<longrightarrow> (\<exists>err what. e = SystemError err what) \<or>
     (\<exists>m. e = on_empty m))"

definition fd_fine :: "fd_op \<Rightarrow> fd_world \<Rightarrow> unit result \<Rightarrow> fd_world \<Rightarrow> bool" where
  "fd_fine op s r s' \<longleftrightarrow> fd_inv s' \<and> tolerable r \<and> loose s \<subseteq> loose s' \<and> loose s' \<subseteq> loose s \<union> handed op s"

lemma tolerable_simps [simp]:
  "tolerable (Inr ())" "tolerable (Inl (SystemError err what))"
  "tolerable (Inl (on_empty m))"
  by (auto simp: tolerable_def)

lemma inv_called: "fd_inv s \<Longrightarrow> fd_inv (called s)"
  by (simp add: fd_inv_def)

lemma taking:
  assumes "fd_inv s" and "fdo s a = -1" and "fd \<notin> open_fds s" and "0 \<le> fd"
    and "open_fds t = insert fd (open_fds s)" and "fdo t = (fdo s)(a := fd)" and "fd_fate t = fd_fate s"
  shows "fd_inv t" "loose t = loose s"
proof -
  have o: "owned (fdo t) = insert fd (owned (fdo s))" "fd \<notin> owned (fdo s)" "unique (fdo s)"
    using owned_take [of "fdo s" a fd] assms by (auto simp: fd_inv_def)
  show "fd_inv t" using unique_take [of "fdo s" a fd] o assms by (auto simp: fd_inv_def)
  show "loose t = loose s" using o assms(3,5) by (auto simp: loose_def)
qed

lemma sys_new_taken:
  assumes "fd_inv s" and "isEmpty a s" and "from_syscall a (sys_new cloexec) what s = (r, s')"
  shows "fd_inv s' \<and> tolerable r \<and> loose s' = loose s"
proof (cases "fd_fate s (fd_calls s)")
  case None
  let ?fd = "lowest_free (fd_table s)"
  let ?t = "set_fd a ?fd ((called s)\<lparr>fd_table := (?fd, cloexec) # fd_table s\<rparr>)"
  have "r = Inr ()" "s' = ?t"
    using assms(3) None lowest_free(2) [of "fd_table s"]
    by (auto simp: from_syscall_def or_throw_def sys_new_def bindS_def FdOwner_def Let_def)
  moreover have "fd_inv ?t" "loose ?t = loose s"
    using taking [of s a ?fd ?t] assms(1,2) lowest_free [of "fd_table s"]
    by (simp_all add: isEmpty_def empty_fd_def open_fds_def)
  ultimately show ?thesis by simp
next
  case (Some e)
  then have "r = Inl (SystemError e what)" "s' = called s"
    using assms(3) by (auto simp: from_syscall_def or_throw_def sys_new_def bindS_def)
  then show ?thesis using inv_called [OF assms(1)] by (simp add: loose_def)
qed

lemma sys_dup_taken:
  assumes "fd_inv s" and "isEmpty a s" and "from_syscall a (sys_dup fd cloexec) what s = (r, s')"
  shows "fd_inv s' \<and> tolerable r \<and> loose s' = loose s"
proof (cases "is_open s fd")
  case True
  then have "from_syscall a (sys_dup fd cloexec) what s = from_syscall a (sys_new cloexec) what s"
    by (simp add: from_syscall_def or_throw_def sys_dup_def bindS_def)
  then show ?thesis using sys_new_taken [OF assms(1,2), of cloexec what r s'] assms(3) by simp
next
  case False
  then have "r = Inl (SystemError EBADF what)" "s' = called s"
    using assms(3) by (auto simp: from_syscall_def or_throw_def sys_dup_def bindS_def)
  then show ?thesis using inv_called [OF assms(1)] by (simp add: loose_def)
qed

lemma fd_fine_quiet: "fd_inv s' \<Longrightarrow> tolerable r \<Longrightarrow> loose s' = loose s \<Longrightarrow> fd_fine op s r s'"
  by (auto simp: fd_fine_def)

lemma reset_fine: "fd_inv s \<Longrightarrow> fd_reset a s = (r, s') \<Longrightarrow> fd_inv s' \<and> r = Inr () \<and> loose s' = loose s"
  using fd_reset_outcome [of s a] fds.loose_reset [of s a r s'] by (auto simp: loose_def)

lemma given_up:
  assumes "fd_inv s" and "fdo s a \<noteq> -1"
  shows "fd_inv (set_fd a (-1) s)" "loose (set_fd a (-1) s) = insert (fdo s a) (loose s)"
proof -
  have "fdo s a \<in> open_fds s" using assms fd_held [of s a] by (auto simp: fd_inv_def)
  then show "fd_inv (set_fd a (-1) s)" "loose (set_fd a (-1) s) = insert (fdo s a) (loose s)"
    using assms owned_empty [of "fdo s" a] unique_empty [of "fdo s" a] by (auto simp: fd_inv_def loose_def)
qed

lemma release_fine:
  assumes "fd_inv s" and "fd_release a s = (r, s')"
  shows "if fdo s a = -1 then s' = s \<and> r = Inl (on_empty ''release'')
    else s' = set_fd a (-1) s \<and> r = Inr (fdo s a)"
  using assms by (auto simp: fd_release_def ensureNotEmpty_def isEmpty_def empty_fd_def thenS_def bindS_def)

lemma dup2_outcome:
  assumes "fd_inv s" and "fdo s a \<noteq> -1" and "fdo s a \<noteq> target" and "target \<notin> owned (fdo s)"
    and "sys_dup2 (fdo s a) target s = (r, s')"
  shows "fd_inv s' \<and> fdo s' = fdo s \<and> (case r of Inl e \<Rightarrow> loose s' = loose s | Inr _ \<Rightarrow> loose s' = insert target (loose s))"
proof -
  have op: "is_open s (fdo s a)" using assms(1) fd_held [OF assms(2)] by (auto simp: is_open_iff fd_inv_def)
  have quiet: "fd_inv (called s)" "loose (called s) = loose s" using inv_called [OF assms(1)] by (simp_all add: loose_def)
  show ?thesis
  proof (cases "target < 0 \<or> fd_fate s (fd_calls s) \<noteq> None")
    case True
    then show ?thesis using assms(5) op quiet by (auto simp: sys_dup2_def split: if_splits option.splits)
  next
    case False
    let ?t = "(called s)\<lparr>fd_table := (target, False) # without target (fd_table s)\<rparr>"
    have "r = Inr ()" "s' = ?t" using assms(3,5) op False by (auto simp: sys_dup2_def)
    moreover have opens: "open_fds ?t = insert target (open_fds s)" by (auto simp: open_fds_def)
    moreover have "fdo ?t = fdo s" by simp
    moreover have "fd_inv ?t"
      using assms(1) opens False by (auto simp: fd_inv_def)
    moreover have "loose ?t = insert target (loose s)" using opens assms(4) by (auto simp: loose_def)
    ultimately show ?thesis by simp
  qed
qed

lemma mov2_fine:
  assumes "fd_inv s" and "target \<notin> owned (fdo s) - {fdo s a}" and "fd_mov2 a target s = (r, s')"
  shows "fd_fine (Mov2 a target) s r s'"
proof -
  consider "fdo s a = -1" | "fdo s a \<noteq> -1" "fdo s a = target" | "fdo s a \<noteq> -1" "fdo s a \<noteq> target" by blast
  then show ?thesis
  proof cases
    case 1
    then have "r = Inl (on_empty ''mov2'')" "s' = s"
      using assms(3) by (auto simp: fd_mov2_def ensureNotEmpty_def isEmpty_def empty_fd_def thenS_def bindS_def)
    then show ?thesis using assms(1) by (simp only: fd_fine_quiet tolerable_simps)
  next
    case 2
    let ?t = "set_fd a (-1) s"
    note t = given_up [OF assms(1) 2(1)]
    have "\<not> is_open ?t (-1)" using t(1) by (force simp: is_open_iff fd_inv_def)
    then have "r = Inl (SystemError EBADF ''FdOwner::mov2: dup2 failed'')" "s' = called ?t"
      using assms(3) 2 by (auto simp: fd_mov2_def ensureNotEmpty_def isEmpty_def empty_fd_def fd_release_def
          or_throw_def sys_dup2_def thenS_def bindS_def)
    then show ?thesis using t 2(2) inv_called [OF t(1)] by (auto simp: fd_fine_def loose_def)
  next
    case 3
    obtain d t where d: "sys_dup2 (fdo s a) target s = (d, t)" by fastforce
    have free: "target \<notin> owned (fdo s)" using assms(2) 3 by auto
    note out = dup2_outcome [OF assms(1) 3 free d]
    show ?thesis
    proof (cases d)
      case (Inl e)
      then have "r = Inl (SystemError e ''FdOwner::mov2: dup2 failed'')" "s' = t"
        using assms(3) 3 d by (auto simp: fd_mov2_def ensureNotEmpty_def isEmpty_def empty_fd_def
            or_throw_def thenS_def bindS_def)
      then show ?thesis using out Inl by (simp add: fd_fine_quiet)
    next
      case (Inr u)
      then have "fd_reset a t = (r, s')"
        using assms(3) 3 d by (auto simp: fd_mov2_def ensureNotEmpty_def isEmpty_def empty_fd_def
            or_throw_def thenS_def bindS_def)
      then show ?thesis using reset_fine [of t a r s'] out Inr by (auto simp: fd_fine_def)
    qed
  qed
qed

lemma pipe_fine:
  assumes "fd_inv s" and "isEmpty x s" and "isEmpty w s" and "x \<noteq> w" and "pipe_create x w cloexec s = (r, s')"
  shows "fd_inv s' \<and> tolerable r \<and> loose s' = loose s"
proof (cases "fd_fate s (fd_calls s)")
  case None
  let ?a = "lowest_free (fd_table s)"
  let ?t1 = "set_fd x ?a ((called s)\<lparr>fd_table := (?a, cloexec) # fd_table s\<rparr>)"
  let ?b = "lowest_free (fd_table ?t1)"
  let ?t2 = "set_fd w ?b (?t1\<lparr>fd_table := (?b, cloexec) # fd_table ?t1\<rparr>)"
  have t1: "fd_inv ?t1" "loose ?t1 = loose s"
    using taking [of s x ?a ?t1] assms(1,2) lowest_free [of "fd_table s"]
    by (simp_all add: isEmpty_def empty_fd_def open_fds_def)
  have "fdo ?t1 w = -1" using assms(3,4) by (simp add: isEmpty_def empty_fd_def)
  then have t2: "fd_inv ?t2" "loose ?t2 = loose ?t1"
    using taking [OF t1(1), of w ?b ?t2] lowest_free [of "fd_table ?t1"] by (simp_all add: open_fds_def)
  have "r = Inr ()" "s' = ?t2"
    using assms(5) None lowest_free(2)
    by (auto simp: pipe_create_def or_throw_def sys_pipe2_def bindS_def thenS_def FdOwner_def Let_def set_fd_def called_def)
  then show ?thesis using t1 t2 by simp
next
  case (Some e)
  then have "r = Inl (SystemError e ''pipe() failed'')" "s' = called s"
    using assms(5) by (auto simp: pipe_create_def or_throw_def sys_pipe2_def bindS_def)
  then show ?thesis using inv_called [OF assms(1)] by (simp add: loose_def)
qed

lemma move_fine:
  assumes "fd_inv s" and "isEmpty a s" and "a \<noteq> b"
  shows "fd_inv (set_fd b empty_fd (set_fd a (fdo s b) s)) \<and>
    loose (set_fd b empty_fd (set_fd a (fdo s b) s)) = loose s"
proof -
  have "set_fd b empty_fd (set_fd a (fdo s b) s) = fd_swap a b s"
    using assms(2,3) by (simp add: set_fd_def fd_swap_def exchanged_def isEmpty_def)
  then show ?thesis using fds.swap_ok [OF assms(1), of a b] by (simp add: loose_def)
qed

lemma empty_fine:
  "fd_inv s \<Longrightarrow> isEmpty b s \<Longrightarrow> thenS (ensureNotEmpty b m) n s = (r, s') \<Longrightarrow> fd_inv s' \<and> tolerable r \<and> loose s' = loose s"
  by (auto simp: thenS_def bindS_def ensureNotEmpty_def)

lemma full_runs: "\<not> isEmpty b s \<Longrightarrow> thenS (ensureNotEmpty b m) n s = n s"
  by (simp add: thenS_def bindS_def ensureNotEmpty_def)

lemma fd_do_fine:
  assumes "fd_inv s" and "allowed op s" and "fd_do op s = (r, s')"
  shows "fd_fine op s r s'"
proof (cases op)
  case (Open a cloexec)
  then show ?thesis using sys_new_taken [OF assms(1)] assms by (intro fd_fine_quiet) auto
next
  case (Dup a b)
  have "fd_inv s' \<and> tolerable r \<and> loose s' = loose s"
  proof (cases "isEmpty b s")
    case True
    then show ?thesis using empty_fine [OF assms(1) True] assms(3) Dup by (auto simp: fd_dup_def fd_dup_of_def)
  next
    case False
    then obtain what where "from_syscall a (sys_dup (fdo s b) False) what s = (r, s')"
      using assms(3) Dup by (auto simp: fd_dup_def fd_dup_of_def full_runs [OF False])
    then show ?thesis using sys_dup_taken [OF assms(1)] assms(2) Dup by simp
  qed
  then show ?thesis by (simp add: fd_fine_quiet)
next
  case (DupCloexec a b)
  have "fd_inv s' \<and> tolerable r \<and> loose s' = loose s"
  proof (cases "isEmpty b s")
    case True
    then show ?thesis using empty_fine [OF assms(1) True] assms(3) DupCloexec by (auto simp: fd_dup_close_on_exec_def)
  next
    case False
    then obtain what where "from_syscall a (sys_dup (fdo s b) True) what s = (r, s')"
      using assms(3) DupCloexec by (auto simp: fd_dup_close_on_exec_def full_runs [OF False])
    then show ?thesis using sys_dup_taken [OF assms(1)] assms(2) DupCloexec by simp
  qed
  then show ?thesis by (simp add: fd_fine_quiet)
next
  case (Move a b)
  then show ?thesis using move_fine [OF assms(1), of a b] assms(2,3) by (auto simp: fd_move_def intro!: fd_fine_quiet)
next
  case (Assign a b)
  then show ?thesis using fd_assign_outcome [OF assms(1), of a b] assms(3) by (auto simp: loose_def intro!: fd_fine_quiet)
next
  case (Swap a b)
  then show ?thesis using fds.swap_ok [OF assms(1), of a b] assms(3) by (auto simp: loose_def intro!: fd_fine_quiet)
next
  case (Reset a)
  then show ?thesis using reset_fine [OF assms(1), of a] assms(3) by (auto intro!: fd_fine_quiet)
next
  case (Release a)
  obtain d t where d: "fd_release a s = (d, t)" by fastforce
  show ?thesis
  proof (cases "fdo s a = -1")
    case True
    then have "r = Inl (on_empty ''release'')" "s' = s"
      using release_fine [OF assms(1) d] assms(3) Release d by auto
    then show ?thesis using assms(1) by (simp only: fd_fine_quiet tolerable_simps)
  next
    case False
    then have "r = Inr ()" "s' = set_fd a (-1) s"
      using release_fine [OF assms(1) d] assms(3) Release d by auto
    then show ?thesis using given_up [OF assms(1) False] Release by (auto simp: fd_fine_def)
  qed
next
  case (Mov2 a target)
  then show ?thesis using mov2_fine [OF assms(1)] assms(2,3) by simp
next
  case (Destroy a)
  then show ?thesis
    using fd_destroy_outcome [OF assms(1), of a] reset_fine [OF assms(1), of a] assms(3)
    by (auto intro!: fd_fine_quiet)
next
  case (Pipe x w cloexec)
  then show ?thesis using pipe_fine [OF assms(1), of x w] assms(2,3) by (intro fd_fine_quiet) auto
qed

inductive fd_reaches :: "fd_world \<Rightarrow> fd_world \<Rightarrow> int set \<Rightarrow> bool" for s0 where
  fd_start: "fd_reaches s0 s0 {}"
| fd_step: "fd_reaches s0 s given \<Longrightarrow> allowed op s \<Longrightarrow> fd_do op s = (r, s') \<Longrightarrow>
    fd_reaches s0 s' (given \<union> handed op s)"

section \<open>Properties\<close>


definition sample_fds :: fd_world where
  "sample_fds = \<lparr> fd_table = [(0, False), (1, False), (2, False)], fd_fate = (\<lambda>_. None), fd_calls = 0, fdo = (\<lambda>_. -1) \<rparr>"

lemma sample_fds_inv: "fd_inv sample_fds"
  by (auto simp: fd_inv_def sample_fds_def unique_def owned_def open_fds_def)


text \<open>
  Moving a descriptor onto itself fails: \<open>mov2\<close> gives the descriptor up before it calls
  \<^verbatim>\<open>dup2\<close> with \<open>-1\<close>, so it throws and the open descriptor belongs to nobody.
\<close>

theorem mov2_onto_itself:
  assumes "fd_inv s" and "\<not> isEmpty a s"
  shows "fd_mov2 a (fdo s a) s =
    (Inl (SystemError EBADF ''FdOwner::mov2: dup2 failed''), called (set_fd a (-1) s)) \<and>
    fdo s a \<in> open_fds (called (set_fd a (-1) s))"
proof -
  have held: "fdo s a \<noteq> -1" using assms(2) by (simp add: isEmpty_def empty_fd_def)
  note t = given_up [OF assms(1) held]
  have "\<not> is_open (set_fd a (-1) s) (-1)" using t(1) by (force simp: is_open_iff fd_inv_def)
  then show ?thesis
    using held assms(1) fd_held [OF held] by (auto simp: fd_mov2_def ensureNotEmpty_def isEmpty_def empty_fd_def
        fd_release_def or_throw_def sys_dup2_def thenS_def bindS_def fd_inv_def)
qed

theorem mov2_onto_itself_witness:
  "fst (fd_mov2 0 0 (sample_fds\<lparr>fdo := (\<lambda>_. -1)(0 := 0)\<rparr>)) =
    Inl (SystemError EBADF ''FdOwner::mov2: dup2 failed'')"
proof -
  let ?s = "sample_fds\<lparr>fdo := (\<lambda>_. -1)(0 := 0)\<rparr>"
  have "fd_inv ?s" "\<not> isEmpty 0 ?s"
    by (auto simp: fd_inv_def sample_fds_def unique_def owned_def open_fds_def isEmpty_def empty_fd_def)
  from mov2_onto_itself [OF this] show ?thesis by simp
qed

end
