(* ===== verification/Process.thy ===== *)
theory Process
  imports Text Serialisation
begin

text \<open>
  \<^verbatim>\<open>src/sysutil.hpp\<close>, \<^verbatim>\<open>sysutil.cpp\<close> and the end of a child in
  \<^verbatim>\<open>diffmonger/util/PidOwner.hpp\<close>: running another program and waiting for it. What the program
  does is the parameter \<open>exec\<close>: from its path, its arguments and what it can read from its
  standard input it makes what it writes to its standard output, its wait status and the next
  state \<open>'b\<close> of everything outside; or a call fails before it runs.
\<close>

section \<open>Wait statuses\<close>

text \<open>The macros of \<^verbatim>\<open>sys/wait.h\<close> on the 32-bit status.\<close>

type_synonym wstatus = u32

definition WTERMSIG :: "wstatus \<Rightarrow> nat" where
  "WTERMSIG w = unat (w AND 0x7f)"

definition WIFEXITED :: "wstatus \<Rightarrow> bool" where
  "WIFEXITED w \<longleftrightarrow> WTERMSIG w = 0"

definition WEXITSTATUS :: "wstatus \<Rightarrow> nat" where
  "WEXITSTATUS w = unat (drop_bit 8 (w AND 0xff00))"

definition WIFSIGNALED :: "wstatus \<Rightarrow> bool" where
  "WIFSIGNALED w \<longleftrightarrow> 0 < sint (signed_drop_bit 1 (ucast ((w AND 0x7f) + 1) :: u8))"

definition sigabbrev_np :: "nat \<Rightarrow> string option" where
  "sigabbrev_np n =
     (let names = [''HUP'', ''INT'', ''QUIT'', ''ILL'', ''TRAP'', ''ABRT'', ''BUS'', ''FPE'', ''KILL'', ''USR1'',
        ''SEGV'', ''USR2'', ''PIPE'', ''ALRM'', ''TERM'', ''STKFLT'', ''CHLD'', ''CONT'', ''STOP'', ''TSTP'',
        ''TTIN'', ''TTOU'', ''URG'', ''XCPU'', ''XFSZ'', ''VTALRM'', ''PROF'', ''WINCH'', ''POLL'', ''PWR'', ''SYS'']
      in if 1 \<le> n \<and> n \<le> length names then Some (names ! (n - 1)) else None)"

definition command_failed :: "wstatus \<Rightarrow> string \<Rightarrow> string \<Rightarrow> exn" where
  "command_failed wstatus name what = CommandFailed (sint wstatus) (name @ '': '' @ what)"

definition wait_or_throw :: "string \<Rightarrow> wstatus \<Rightarrow> unit result" where
  "wait_or_throw name wstatus =
     (if \<not> WIFEXITED wstatus \<or> WEXITSTATUS wstatus \<noteq> 0 then
        Inl (command_failed wstatus name
          (if WIFSIGNALED wstatus
           then ''command failed due to signal: '' @
             (case sigabbrev_np (WTERMSIG wstatus) of Some desc \<Rightarrow> ''SIG'' @ desc | None \<Rightarrow> ''unknown signal'')
           else ''command failed with exit code: '' @ to_string (WEXITSTATUS wstatus)))
      else Inr ())"

section \<open>Running a program\<close>

datatype spawned =
    PipeFailed errno
  | ForkFailed errno
  | ExecFailed errno
  | Ran bytes wstatus

type_synonym 'b exec = "string \<Rightarrow> string list \<Rightarrow> bytes option \<Rightarrow> 'b \<Rightarrow> spawned \<times> 'b"

record child =
  child_name :: string
  child_output :: bytes
  child_status :: wstatus

fun intersperse_loop :: "string \<Rightarrow> string list \<Rightarrow> string \<Rightarrow> string" where
  "intersperse_loop out [] separator = out"
| "intersperse_loop out (arg # argv) separator = intersperse_loop (out @ separator @ arg) argv separator"

definition concat_interspersed :: "string list \<Rightarrow> string \<Rightarrow> string result" where
  "concat_interspersed argv separator =
     (case argv of
        [] \<Rightarrow> Inl (InvalidArgument ''args_to_string: argv empty'')
      | arg # argv' \<Rightarrow> Inr (intersperse_loop arg argv' separator))"

definition systemvp3 :: "'b exec \<Rightarrow> string \<Rightarrow> string list \<Rightarrow> bytes option \<Rightarrow> ('b, child) prog" where
  "systemvp3 exec path argv stdin =
     bindS (liftR (concat_interspersed argv '' '')) (\<lambda>name b.
       case exec path argv stdin b of (spawned, b') \<Rightarrow>
         (case spawned of
            PipeFailed err \<Rightarrow> Inl (SystemError err ''pipe() failed'')
          | ForkFailed err \<Rightarrow> Inl (SystemError err ''fork failed'')
          | ExecFailed err \<Rightarrow> Inl (SystemError err (''Failed to run '' @ path))
          | Ran output status \<Rightarrow>
              Inr \<lparr> child_name = name, child_output = output, child_status = status \<rparr>, b'))"

definition systemvp_str :: "'b exec \<Rightarrow> string \<Rightarrow> string list \<Rightarrow> ('b, string) prog" where
  "systemvp_str exec path argv =
     bindS (systemvp3 exec path argv None) (\<lambda>c.
       thenS (liftR (wait_or_throw (child_name c) (child_status c)))
         (retS (string_of_bytes (child_output c))))"

text \<open>With what the program wrote to the descriptor it was given, however it ended.\<close>

definition systemvp_throw_on_failure3 ::
  "'b exec \<Rightarrow> string \<Rightarrow> string list \<Rightarrow> bytes option \<Rightarrow> 'b \<Rightarrow> bytes \<times> unit result \<times> 'b" where
  "systemvp_throw_on_failure3 exec path argv stdin b =
     (case systemvp3 exec path argv stdin b of
        (Inl e, b') \<Rightarrow> ([], Inl e, b')
      | (Inr c, b') \<Rightarrow> (child_output c, wait_or_throw (child_name c) (child_status c), b'))"

definition systemvp_throw_on_failure ::
  "'b exec \<Rightarrow> string \<Rightarrow> string list \<Rightarrow> 'b \<Rightarrow> bytes \<times> unit result \<times> 'b" where
  "systemvp_throw_on_failure exec path argv = systemvp_throw_on_failure3 exec path argv None"

text \<open>The descriptor of the terminal: nobody reads what is written.\<close>

definition to_terminal :: "('b \<Rightarrow> bytes \<times> unit result \<times> 'b) \<Rightarrow> ('b, unit) prog" where
  "to_terminal w b = (case w b of (_, r, b') \<Rightarrow> (r, b'))"

definition strchomp :: "string \<Rightarrow> string" where
  "strchomp out = (if out \<noteq> [] \<and> last out = CHR ''\<newline>'' then butlast out else out)"

definition systemvp_strchomp :: "'b exec \<Rightarrow> string \<Rightarrow> string list \<Rightarrow> ('b, string) prog" where
  "systemvp_strchomp exec path argv =
     bindS (systemvp_str exec path argv) (\<lambda>out. retS (strchomp out))"

section \<open>Facts\<close>

definition exited :: "nat \<Rightarrow> wstatus" where
  "exited code = word_of_nat (code * 256)"

definition killed :: "nat \<Rightarrow> wstatus" where
  "killed signal = word_of_nat signal"

lemma wait_or_throw_Inr: "wait_or_throw name w = Inr () \<longleftrightarrow> WIFEXITED w \<and> WEXITSTATUS w = 0"
  by (simp add: wait_or_throw_def)

lemma exited_0 [simp]: "wait_or_throw name 0 = Inr ()"
  by (simp add: wait_or_throw_Inr WIFEXITED_def WTERMSIG_def WEXITSTATUS_def)

lemma wait_or_throw_Inl: "wait_or_throw name w = Inl e \<Longrightarrow> \<exists>what. e = command_failed w name what"
  by (auto simp: wait_or_throw_def split: if_splits)

lemma intersperse_loop_append: "intersperse_loop out argv sep = out @ concat (map (\<lambda>a. sep @ a) argv)"
  by (induction argv arbitrary: out) simp_all

lemma concat_interspersed_Cons [simp]:
  "concat_interspersed (arg # argv) sep = Inr (arg @ concat (map (\<lambda>a. sep @ a) argv))"
  by (simp add: concat_interspersed_def intersperse_loop_append)

end
