(* ===== verification/PidOwner.thy ===== *)
theory PidOwner
  imports Owner Process
begin

text \<open>
  \<^verbatim>\<open>diffmonger/util/PidOwner.hpp\<close>: the objects that own a child process, over the children of the
  process. Objects are named by numbers; one that has not been constructed or has been destroyed
  is as an empty one. The \<open>signal\<close> of an empty object, which the code leaves uninitialised and
  never reads, is \<open>0\<close>.
\<close>

section \<open>The children\<close>

text \<open>
  The children nobody has waited for, with the status each ends with; \<open>interrupts\<close> is the number
  of signals that interrupt the coming calls of \<^verbatim>\<open>waitpid\<close>; \<open>on_signal\<close> is what a signal does to
  the status of a child.
\<close>

record pid_owner =
  po_pid :: int
  po_name :: string
  po_signal :: int

record pid_world =
  children :: "(int \<times> wstatus) list"
  interrupts :: nat
  kill_fate :: "int \<Rightarrow> int \<Rightarrow> errno option"
  on_signal :: "int \<Rightarrow> wstatus \<Rightarrow> wstatus"
  fork_fate :: "nat \<Rightarrow> errno option"
  forks :: nat
  pdo :: "nat \<Rightarrow> pid_owner"

definition pids :: "pid_world \<Rightarrow> int set" where
  "pids s = fst ` set (children s)"

definition new_pid :: "pid_world \<Rightarrow> int" where
  "new_pid s = 1 + foldr max (map fst (children s)) 0"

definition sys_waitpid :: "int \<Rightarrow> pid_world \<Rightarrow> (errno + wstatus) \<times> pid_world" where
  "sys_waitpid pid s =
     (if 0 < interrupts s then (Inl EINTR, s\<lparr>interrupts := interrupts s - 1\<rparr>)
      else case map_of (children s) pid of
        None \<Rightarrow> (Inl ECHILD, s)
      | Some status \<Rightarrow> (Inr status, s\<lparr>children := filter (\<lambda>(p, _). p \<noteq> pid) (children s)\<rparr>))"

definition sys_kill :: "int \<Rightarrow> int \<Rightarrow> pid_world \<Rightarrow> (errno + unit) \<times> pid_world" where
  "sys_kill pid signal s =
     (case kill_fate s pid signal of
        Some e \<Rightarrow> (Inl e, s)
      | None \<Rightarrow> (Inr (), s\<lparr>children :=
          map (\<lambda>(p, status). (p, if p = pid then on_signal s signal status else status)) (children s)\<rparr>))"

definition strerror :: "errno \<Rightarrow> string" where
  "strerror e = (if e = ECHILD then ''No child processes'' else ''Invalid argument'')"

section \<open>PidOwner\<close>

definition empty_pid :: int where "empty_pid = -1"

definition no_process :: pid_owner where
  "no_process = \<lparr> po_pid = empty_pid, po_name = [], po_signal = 0 \<rparr>"

definition set_owner :: "nat \<Rightarrow> pid_owner \<Rightarrow> pid_world \<Rightarrow> pid_world" where
  "set_owner a p s = s\<lparr>pdo := (pdo s)(a := p)\<rparr>"

definition PidOwner :: "nat \<Rightarrow> int \<Rightarrow> string \<Rightarrow> int \<Rightarrow> (pid_world, unit) prog" where
  "PidOwner a pid name signal =
     (if pid \<le> 0 then throwS (InvalidArgument (''invalid pid for '' @ name))
      else modifyS (set_owner a \<lparr> po_pid = pid, po_name = name, po_signal = signal \<rparr>))"

text \<open>\<open>fork\<close> and \<open>runInChild\<close> in the parent; \<open>status\<close> is how the child ends.\<close>

definition pid_fork :: "nat \<Rightarrow> string \<Rightarrow> wstatus \<Rightarrow> (pid_world, unit) prog" where
  "pid_fork a name status s =
     (case fork_fate s (forks s) of
        Some e \<Rightarrow> (Inl (SystemError e ''fork failed''), s\<lparr>forks := Suc (forks s)\<rparr>)
      | None \<Rightarrow> (let pid = new_pid s in
          PidOwner a pid name 0 (s\<lparr>forks := Suc (forks s), children := (pid, status) # children s\<rparr>)))"

text \<open>The child of \<open>runInChild\<close> exits with \<open>0\<close> or aborts.\<close>

definition status_of_child :: "'a result \<Rightarrow> wstatus" where
  "status_of_child r = (case r of Inr _ \<Rightarrow> 0 | Inl _ \<Rightarrow> killed 6)"

definition run_in_child :: "nat \<Rightarrow> 'a result \<Rightarrow> string \<Rightarrow> (pid_world, unit) prog" where
  "run_in_child a r name = pid_fork a name (status_of_child r)"

definition pid_isEmpty :: "nat \<Rightarrow> pid_world \<Rightarrow> bool" where
  "pid_isEmpty a s \<longleftrightarrow> po_pid (pdo s a) = empty_pid"

definition on_empty_pid :: "string \<Rightarrow> exn" where
  "on_empty_pid m = LogicError (''PidOwner::'' @ m @ ''(): called on empty PidOwner'')"

definition pid_ensureNotEmpty :: "nat \<Rightarrow> string \<Rightarrow> (pid_world, unit) prog" where
  "pid_ensureNotEmpty a m s = (if pid_isEmpty a s then (Inl (on_empty_pid m), s) else (Inr (), s))"

definition pid_getPid :: "nat \<Rightarrow> (pid_world, int) prog" where
  "pid_getPid a = thenS (pid_ensureNotEmpty a ''getPid'') (getS (\<lambda>s. po_pid (pdo s a)))"

definition pid_getName :: "nat \<Rightarrow> string \<Rightarrow> (pid_world, string) prog" where
  "pid_getName a default_name = thenS (pid_ensureNotEmpty a ''getName'')
     (getS (\<lambda>s. if po_name (pdo s a) = [] then default_name else po_name (pdo s a)))"

definition pid_swap :: "nat \<Rightarrow> nat \<Rightarrow> pid_world \<Rightarrow> pid_world" where
  "pid_swap a b s = (if a = b then s else s\<lparr>pdo := exchanged a b (pdo s)\<rparr>)"

definition pid_move :: "nat \<Rightarrow> nat \<Rightarrow> (pid_world, unit) prog" where
  "pid_move a b = modifyS (\<lambda>s. pid_swap a b (set_owner a no_process s))"

text \<open>The loop of \<open>wait\<close>, which calls \<^verbatim>\<open>waitpid\<close> until no signal interrupts it.\<close>

function wait_loop :: "int \<Rightarrow> pid_world \<Rightarrow> (errno + wstatus) \<times> pid_world" where
  "wait_loop pid s =
     (case sys_waitpid pid s of
        (Inl e, s') \<Rightarrow> if e = EINTR then wait_loop pid s' else (Inl e, s')
      | (Inr status, s') \<Rightarrow> (Inr status, s'))"
  by pat_completeness auto
termination
  by (relation "measure (\<lambda>(_, s). interrupts s)") (auto simp: sys_waitpid_def split: if_splits option.splits)
declare wait_loop.simps [simp del]

definition pid_wait :: "nat \<Rightarrow> (pid_world, wstatus) prog" where
  "pid_wait a = thenS (pid_ensureNotEmpty a ''wait'')
     (\<lambda>s. case wait_loop (po_pid (pdo s a)) s of
        (Inl e, s') \<Rightarrow> (Inl (LogicError (''Invalid waitpid() for '' @ po_name (pdo s a) @ '': '' @ strerror e)), s')
      | (Inr status, s') \<Rightarrow> (Inr status, set_owner a ((pdo s a)\<lparr>po_pid := empty_pid\<rparr>) s'))"

definition pid_wait_or_throw :: "nat \<Rightarrow> (pid_world, unit) prog" where
  "pid_wait_or_throw a = bindS (pid_wait a) (\<lambda>status s. (wait_or_throw (po_name (pdo s a)) status, s))"

definition pid_kill :: "nat \<Rightarrow> int \<Rightarrow> (pid_world, unit) prog" where
  "pid_kill a signal = thenS (pid_ensureNotEmpty a ''kill'')
     (\<lambda>s. if signal = 0 then (Inr (), s)
          else case sys_kill (po_pid (pdo s a)) signal s of
            (Inr _, s') \<Rightarrow> (Inr (), s')
          | (Inl e, s') \<Rightarrow>
              (Inl (if e = EINVAL
                    then InvalidArgument (''PidOwner::kill(): invalid signal: '' @ int_to_string signal)
                    else SystemError e (''kill('' @ int_to_string (po_pid (pdo s a)) @ '', '' @
                      int_to_string signal @ '')'')), s'))"

definition pid_reset_with :: "nat \<Rightarrow> int \<Rightarrow> (pid_world, unit) prog" where
  "pid_reset_with a signal s =
     (if pid_isEmpty a s then (Inr (), s)
      else thenS (pid_kill a signal) (thenS (pid_wait a) (retS ())) s)"

definition pid_reset :: "nat \<Rightarrow> (pid_world, unit) prog" where
  "pid_reset a s = pid_reset_with a (po_signal (pdo s a)) s"

definition pid_noexcept :: "(pid_world, unit) prog \<Rightarrow> (pid_world, unit) prog" where
  "pid_noexcept m = catchS m (\<lambda>_. throwS (AssertionFailed ''std::terminate''))"

definition pid_assign :: "nat \<Rightarrow> nat \<Rightarrow> (pid_world, unit) prog" where
  "pid_assign a b = pid_noexcept (thenS (if a \<noteq> b then pid_reset a else retS ()) (modifyS (pid_swap a b)))"

definition pid_destroy :: "nat \<Rightarrow> (pid_world, unit) prog" where
  "pid_destroy a = pid_noexcept (pid_reset a)"

definition pid_release :: "nat \<Rightarrow> (pid_world, int) prog" where
  "pid_release a = thenS (pid_ensureNotEmpty a ''release'')
     (bindS (getS (\<lambda>s. po_pid (pdo s a))) (\<lambda>pid.
        thenS (modifyS (\<lambda>s. set_owner a ((pdo s a)\<lparr>po_pid := empty_pid\<rparr>) s)) (retS pid)))"

section \<open>Waiting\<close>

lemma set_owner_simps [simp]:
  "children (set_owner a p s) = children s" "pids (set_owner a p s) = pids s"
  "kill_fate (set_owner a p s) = kill_fate s" "pdo (set_owner a p s) = (pdo s)(a := p)"
  by (simp_all add: set_owner_def pids_def)

lemma wait_loop_child:
  assumes "pid \<in> pids s"
  shows "\<exists>status. wait_loop pid s =
    (Inr status, s\<lparr>interrupts := 0, children := filter (\<lambda>(p, _). p \<noteq> pid) (children s)\<rparr>)"
  using assms
proof (induction "interrupts s" arbitrary: s)
  case 0
  then obtain status where "map_of (children s) pid = Some status"
    by (metis map_of_eq_None_iff not_None_eq pids_def)
  then show ?case
    using 0(1) by (subst wait_loop.simps) (auto simp: sys_waitpid_def intro!: exI [of _ status])
next
  case (Suc n)
  let ?s = "s\<lparr>interrupts := n\<rparr>"
  have "wait_loop pid s = wait_loop pid ?s"
    using Suc(2) by (subst wait_loop.simps) (simp add: sys_waitpid_def flip: Suc(2))
  moreover have "pid \<in> pids ?s" using Suc(3) by (simp add: pids_def)
  ultimately show ?case using Suc(1) [of ?s] by simp
qed

lemma new_pid: "0 < new_pid s" "new_pid s \<notin> pids s"
proof -
  have "p \<le> foldr max ps 0" if "p \<in> set ps" for p :: int and ps
    using that by (induction ps) auto
  then have "p \<le> foldr max (map fst (children s)) 0" if "p \<in> pids s" for p
    using that by (simp add: pids_def)
  then show "new_pid s \<notin> pids s" by (force simp: new_pid_def)
  have "(0 :: int) \<le> foldr max ps 0" for ps
    by (induction ps) auto
  then show "0 < new_pid s" by (simp add: new_pid_def add_pos_nonneg)
qed

section \<open>Children have one owner\<close>

definition pid_own :: "pid_world \<Rightarrow> nat \<Rightarrow> int" where
  "pid_own s a = po_pid (pdo s a)"

definition pid_inv :: "pid_world \<Rightarrow> bool" where
  "pid_inv s \<longleftrightarrow> unique (pid_own s) \<and> owned (pid_own s) \<subseteq> pids s \<and> (\<forall>p \<in> pids s. 0 < p) \<and>
     (\<forall>p signal. kill_fate s p signal = None)"

lemma pid_held: "\<not> pid_isEmpty a s \<Longrightarrow> pid_own s a \<in> owned (pid_own s)"
  by (auto simp: owned_def pid_isEmpty_def pid_own_def empty_pid_def)

lemma pid_own_set [simp]: "pid_own (set_owner a p s) = (pid_own s)(a := po_pid p)"
  by (auto simp: pid_own_def)

lemma kill_outcome:
  assumes "pid_inv s" and "\<not> pid_isEmpty a s"
  shows "\<exists>s'. pid_kill a signal s = (Inr (), s') \<and> pid_inv s' \<and> pdo s' = pdo s \<and> pids s' = pids s"
proof -
  let ?c = "map (\<lambda>(p, status). (p, if p = po_pid (pdo s a) then on_signal s signal status else status)) (children s)"
  have "fst ` set ?c = pids s" by (force simp: pids_def)
  then have "pids (s\<lparr>children := ?c\<rparr>) = pids s" by (simp add: pids_def)
  moreover have "pid_own (s\<lparr>children := ?c\<rparr>) = pid_own s" by (simp add: pid_own_def fun_eq_iff)
  ultimately have "pid_inv (s\<lparr>children := ?c\<rparr>)" "pids (s\<lparr>children := ?c\<rparr>) = pids s"
    using assms(1) by (simp_all add: pid_inv_def)
  moreover have "kill_fate s (po_pid (pdo s a)) signal = None" using assms(1) by (simp add: pid_inv_def)
  ultimately show ?thesis
    using assms by (cases "signal = 0")
      (auto simp: pid_kill_def pid_ensureNotEmpty_def sys_kill_def thenS_def bindS_def)
qed

lemma wait_outcome:
  assumes "pid_inv s" and "\<not> pid_isEmpty a s"
  shows "\<exists>status s'. pid_wait a s = (Inr status, s') \<and> pid_inv s' \<and> pid_own s' = (pid_own s)(a := -1) \<and>
    pids s' = pids s - {pid_own s a} \<and> po_name (pdo s' a) = po_name (pdo s a)"
proof -
  have "pid_own s a \<in> pids s" using pid_held [OF assms(2)] assms(1) by (auto simp: pid_inv_def)
  then obtain status where w: "wait_loop (po_pid (pdo s a)) s = (Inr status,
      s\<lparr>interrupts := 0, children := filter (\<lambda>(p, _). p \<noteq> po_pid (pdo s a)) (children s)\<rparr>)"
    using wait_loop_child by (auto simp: pid_own_def)
  let ?s = "s\<lparr>interrupts := 0, children := filter (\<lambda>(p, _). p \<noteq> po_pid (pdo s a)) (children s)\<rparr>"
  let ?t = "set_owner a ((pdo s a)\<lparr>po_pid := empty_pid\<rparr>) ?s"
  have "pid_wait a s = (Inr status, ?t)"
    using assms(2) w by (simp add: pid_wait_def pid_ensureNotEmpty_def thenS_def bindS_def)
  moreover have pids: "pids ?t = pids s - {pid_own s a}" by (auto simp: pids_def pid_own_def)
  moreover have own: "pid_own ?t = (pid_own s)(a := -1)" by (auto simp: pid_own_def empty_pid_def)
  moreover have "pid_inv ?t"
    using assms(1) pids own owned_empty [of "pid_own s" a] unique_empty [of "pid_own s" a]
    by (auto simp: pid_inv_def set_owner_def)
  moreover have "po_name (pdo ?t a) = po_name (pdo s a)" by simp
  ultimately show ?thesis by blast
qed

lemma pid_reset_with_outcome:
  assumes "pid_inv s"
  shows "\<exists>s'. pid_reset_with a signal s = (Inr (), s') \<and> pid_inv s' \<and> pid_own s' = (pid_own s)(a := -1) \<and>
    pids s' = pids s - {pid_own s a}"
proof (cases "pid_isEmpty a s")
  case True
  then have "pid_own s a = -1" by (simp add: pid_isEmpty_def pid_own_def empty_pid_def)
  moreover have "- 1 \<notin> pids s" using assms by (force simp: pid_inv_def)
  ultimately show ?thesis using True assms by (simp add: pid_reset_with_def fun_upd_idem)
next
  case False
  obtain t where t: "pid_kill a signal s = (Inr (), t)" "pid_inv t" "pdo t = pdo s" "pids t = pids s"
    using kill_outcome [OF assms False] by blast
  have ne: "\<not> pid_isEmpty a t" using False t(3) by (simp add: pid_isEmpty_def)
  obtain status s' where "pid_wait a t = (Inr status, s')" "pid_inv s'" "pid_own s' = (pid_own t)(a := -1)"
      "pids s' = pids t - {pid_own t a}"
    using wait_outcome [OF t(2) ne] by blast
  moreover have "pid_own t = pid_own s" using t(3) by (simp add: pid_own_def fun_eq_iff)
  ultimately show ?thesis using False t(1,4) by (simp add: pid_reset_with_def)
qed

interpretation procs: owner pid_inv pid_own pids pid_reset pid_swap
proof unfold_locales
  fix s a b
  assume s: "pid_inv s"
  show "unique (pid_own s)" "owned (pid_own s) \<subseteq> pids s" "- 1 \<notin> pids s" using s by (force simp: pid_inv_def)+
  show "\<exists>s'. pid_reset a s = (Inr (), s') \<and> pid_inv s' \<and> pid_own s' = (pid_own s)(a := -1) \<and>
      pids s' = pids s - {pid_own s a}"
    unfolding pid_reset_def by (rule pid_reset_with_outcome [OF s])
  have "pid_own (pid_swap a b s) = exchanged a b (pid_own s)"
    by (auto simp: pid_swap_def pid_own_def exchanged_def fun_eq_iff)
  then show "pid_inv (pid_swap a b s) \<and> pid_own (pid_swap a b s) = exchanged a b (pid_own s) \<and>
      pids (pid_swap a b s) = pids s"
    using s unique_exchanged [of "pid_own s" a b] by (simp add: pid_inv_def pid_swap_def pids_def)
qed

lemma pid_noexcept_Inr [simp]: "m s = (Inr (), s') \<Longrightarrow> pid_noexcept m s = (Inr (), s')"
  by (simp add: pid_noexcept_def)

lemma pid_assign_outcome:
  "pid_inv s \<Longrightarrow> \<exists>s'. pid_assign a b s = (Inr (), s') \<and> pid_inv s' \<and>
    pids s' - owned (pid_own s') = pids s - owned (pid_own s)"
  using procs.move_assign_ok [of s a b] unfolding procs.move_assign_def pid_assign_def by (metis pid_noexcept_Inr)

lemma pid_destroy_outcome:
  "pid_inv s \<Longrightarrow> \<exists>s'. pid_destroy a s = (Inr (), s') \<and> pid_reset a s = (Inr (), s')"
  using procs.reset_ok [of s a] by (auto simp: pid_destroy_def)

lemma pid_destroy_all: "pid_inv s \<Longrightarrow> forS pid_destroy as s = forS pid_reset as s"
proof (induction as arbitrary: s)
  case (Cons a as)
  obtain s' where "pid_destroy a s = (Inr (), s')" "pid_reset a s = (Inr (), s')" "pid_inv s'"
    using pid_destroy_outcome [OF Cons.prems, of a] procs.reset_ok [OF Cons.prems, of a] by auto
  then show ?case using Cons.IH [of s'] by simp
qed simp

section \<open>Runs of a program\<close>

datatype pid_op =
    Fork nat string wstatus
  | PMove nat nat
  | PAssign nat nat
  | PSwap nat nat
  | Kill nat int
  | Wait nat
  | WaitOrThrow nat
  | PReset nat int
  | PRelease nat
  | PDestroy nat

fun pid_do :: "pid_op \<Rightarrow> (pid_world, unit) prog" where
  "pid_do (Fork a name status) = pid_fork a name status"
| "pid_do (PMove a b) = pid_move a b"
| "pid_do (PAssign a b) = pid_assign a b"
| "pid_do (PSwap a b) = modifyS (pid_swap a b)"
| "pid_do (Kill a signal) = pid_kill a signal"
| "pid_do (Wait a) = thenS (pid_wait a) (retS ())"
| "pid_do (WaitOrThrow a) = pid_wait_or_throw a"
| "pid_do (PReset a signal) = pid_reset_with a signal"
| "pid_do (PRelease a) = thenS (pid_release a) (retS ())"
| "pid_do (PDestroy a) = pid_destroy a"

fun pid_allowed :: "pid_op \<Rightarrow> pid_world \<Rightarrow> bool" where
  "pid_allowed (Fork a _ _) s = pid_isEmpty a s"
| "pid_allowed (PMove a b) s = (pid_isEmpty a s \<and> a \<noteq> b)"
| "pid_allowed _ s = True"

fun pid_handed :: "pid_op \<Rightarrow> pid_world \<Rightarrow> int set" where
  "pid_handed (PRelease a) s = {pid_own s a}"
| "pid_handed _ s = {}"

definition orphans :: "pid_world \<Rightarrow> int set" where
  "orphans s = pids s - owned (pid_own s)"

definition pid_fine :: "pid_op \<Rightarrow> pid_world \<Rightarrow> pid_world \<Rightarrow> bool" where
  "pid_fine op s s' \<longleftrightarrow> pid_inv s' \<and> orphans s \<subseteq> orphans s' \<and> orphans s' \<subseteq> orphans s \<union> pid_handed op s"

lemma pid_fine_same: "pid_inv s' \<Longrightarrow> orphans s' = orphans s \<Longrightarrow> pid_fine op s s'"
  by (auto simp: pid_fine_def)

lemma fork_fine:
  assumes "pid_inv s" and "pid_isEmpty a s" and "pid_fork a name status s = (r, s')"
  shows "pid_inv s' \<and> orphans s' = orphans s"
proof (cases "fork_fate s (forks s)")
  case None
  let ?s = "s\<lparr>forks := Suc (forks s), children := (new_pid s, status) # children s\<rparr>"
  let ?t = "set_owner a \<lparr> po_pid = new_pid s, po_name = name, po_signal = 0 \<rparr> ?s"
  have t: "s' = ?t" using assms(3) None new_pid(1) [of s] by (auto simp: pid_fork_def PidOwner_def Let_def)
  have own: "pid_own ?t = (pid_own s)(a := new_pid s)" by (auto simp: pid_own_def)
  have pids: "pids ?t = insert (new_pid s) (pids s)" by (simp add: pids_def)
  have e: "pid_own s a = -1" using assms(2) by (simp add: pid_isEmpty_def pid_own_def empty_pid_def)
  have u: "unique (pid_own s)" "owned (pid_own s) \<subseteq> pids s" using assms(1) by (simp_all add: pid_inv_def)
  then have "owned (pid_own ?t) = insert (new_pid s) (owned (pid_own s))" "unique (pid_own ?t)"
    using owned_take [OF u(1) e, of "new_pid s"] unique_take [OF u(1) e, of "new_pid s"] new_pid [of s]
    unfolding own by auto
  then show ?thesis
    using t assms(1) new_pid [of s] u pids by (auto simp: pid_inv_def orphans_def set_owner_def)
next
  case (Some e)
  then have "s' = s\<lparr>forks := Suc (forks s)\<rparr>" using assms(3) by (auto simp: pid_fork_def)
  moreover have "pid_own (s\<lparr>forks := Suc (forks s)\<rparr>) = pid_own s" "pids (s\<lparr>forks := Suc (forks s)\<rparr>) = pids s"
    by (simp_all add: pid_own_def pids_def fun_eq_iff)
  ultimately show ?thesis using assms(1) by (simp add: pid_inv_def orphans_def)
qed

lemma pid_given_up:
  assumes "pid_inv s" and "\<not> pid_isEmpty a s" and "po_pid p = -1"
  shows "pid_inv (set_owner a p s)" "orphans (set_owner a p s) = insert (pid_own s a) (orphans s)"
proof -
  have "pid_own s a \<in> pids s" using assms pid_held [of a s] by (auto simp: pid_inv_def)
  moreover have "kill_fate (set_owner a p s) = kill_fate s" by simp
  ultimately show "pid_inv (set_owner a p s)" "orphans (set_owner a p s) = insert (pid_own s a) (orphans s)"
    using assms owned_empty [of "pid_own s" a] unique_empty [of "pid_own s" a] by (auto simp: pid_inv_def orphans_def)
qed

lemma gone_fine:
  assumes "pid_inv s" and "pid_inv s'" and "pid_own s' = (pid_own s)(a := -1)" and "pids s' = pids s - {pid_own s a}"
  shows "orphans s' = orphans s"
proof -
  have "owned (pid_own s') = owned (pid_own s) - {pid_own s a}"
    using assms(1,3) owned_empty [of "pid_own s" a] by (simp add: pid_inv_def)
  moreover have "pid_own s a \<in> owned (pid_own s) \<or> pid_own s a \<notin> pids s"
    using procs.no_minus_one [OF assms(1)] by (auto simp: owned_def)
  ultimately show ?thesis unfolding orphans_def assms(4) by blast
qed

lemma empty_throws:
  "pid_isEmpty a s \<Longrightarrow> thenS (pid_ensureNotEmpty a m) n s = (Inl (on_empty_pid m), s)"
  by (simp add: pid_ensureNotEmpty_def)

lemma pid_do_fine:
  assumes "pid_inv s" and "pid_allowed op s" and "pid_do op s = (r, s')"
  shows "pid_fine op s s'"
proof (cases op)
  case (Fork a name status)
  then show ?thesis using fork_fine [OF assms(1), of a name status r s'] assms by (simp add: pid_fine_same)
next
  case (PMove a b)
  then have e: "pid_own s a = -1" "a \<noteq> b" using assms(2) by (simp_all add: pid_isEmpty_def pid_own_def empty_pid_def)
  let ?s = "set_owner a no_process s"
  have "pid_own ?s = pid_own s" using e by (simp add: no_process_def empty_pid_def fun_upd_idem)
  then have "pid_inv ?s" "orphans ?s = orphans s" using assms(1) by (simp_all add: pid_inv_def orphans_def)
  then show ?thesis
    using procs.swap_ok [of ?s a b] assms(3) PMove by (auto simp: pid_move_def orphans_def intro!: pid_fine_same)
next
  case (PAssign a b)
  then show ?thesis using pid_assign_outcome [OF assms(1), of a b] assms(3) by (auto simp: orphans_def intro!: pid_fine_same)
next
  case (PSwap a b)
  then show ?thesis using procs.swap_ok [OF assms(1), of a b] assms(3) by (auto simp: orphans_def intro!: pid_fine_same)
next
  case (Kill a signal)
  show ?thesis
  proof (cases "pid_isEmpty a s")
    case True
    then show ?thesis using assms(1,3) Kill by (auto simp: pid_kill_def empty_throws intro!: pid_fine_same)
  next
    case False
    obtain t where t: "pid_kill a signal s = (Inr (), t)" "pid_inv t" "pdo t = pdo s" "pids t = pids s"
      using kill_outcome [OF assms(1) False] by blast
    then have "pid_own t = pid_own s" by (simp add: pid_own_def fun_eq_iff)
    then show ?thesis using t assms(3) Kill by (auto simp: orphans_def intro!: pid_fine_same)
  qed
next
  case (Wait a)
  show ?thesis
  proof (cases "pid_isEmpty a s")
    case True
    then have "pid_wait a s = (Inl (on_empty_pid ''wait''), s)" by (simp add: pid_wait_def empty_throws)
    then show ?thesis using assms(1,3) Wait by (auto intro!: pid_fine_same)
  next
    case False
    obtain status t where t: "pid_wait a s = (Inr status, t)" "pid_inv t" "pid_own t = (pid_own s)(a := -1)"
        "pids t = pids s - {pid_own s a}"
      using wait_outcome [OF assms(1) False] by blast
    then show ?thesis using gone_fine [OF assms(1) t(2-4)] assms(3) Wait by (auto intro!: pid_fine_same)
  qed
next
  case (WaitOrThrow a)
  show ?thesis
  proof (cases "pid_isEmpty a s")
    case True
    then have "pid_wait a s = (Inl (on_empty_pid ''wait''), s)" by (simp add: pid_wait_def empty_throws)
    then show ?thesis using assms(1,3) WaitOrThrow by (auto simp: pid_wait_or_throw_def intro!: pid_fine_same)
  next
    case False
    obtain status t where t: "pid_wait a s = (Inr status, t)" "pid_inv t" "pid_own t = (pid_own s)(a := -1)"
        "pids t = pids s - {pid_own s a}"
      using wait_outcome [OF assms(1) False] by blast
    then show ?thesis
      using gone_fine [OF assms(1) t(2-4)] assms(3) WaitOrThrow by (auto simp: pid_wait_or_throw_def intro!: pid_fine_same)
  qed
next
  case (PReset a signal)
  obtain t where t: "pid_reset_with a signal s = (Inr (), t)" "pid_inv t" "pid_own t = (pid_own s)(a := -1)"
      "pids t = pids s - {pid_own s a}"
    using pid_reset_with_outcome [OF assms(1)] by blast
  then show ?thesis using gone_fine [OF assms(1) t(2-4)] assms(3) PReset by (auto intro!: pid_fine_same)
next
  case (PRelease a)
  show ?thesis
  proof (cases "pid_isEmpty a s")
    case True
    then have "pid_release a s = (Inl (on_empty_pid ''release''), s)" by (simp add: pid_release_def empty_throws)
    then show ?thesis using assms(1,3) PRelease by (auto intro!: pid_fine_same)
  next
    case False
    then have "s' = set_owner a ((pdo s a)\<lparr>po_pid := empty_pid\<rparr>) s"
      using assms(3) PRelease by (auto simp: pid_release_def pid_ensureNotEmpty_def thenS_def bindS_def)
    moreover have "po_pid ((pdo s a)\<lparr>po_pid := empty_pid\<rparr>) = -1" by (simp add: empty_pid_def)
    note up = pid_given_up [OF assms(1) False this]
    ultimately show ?thesis unfolding pid_fine_def PRelease by (simp add: up) blast
  qed
next
  case (PDestroy a)
  obtain t where t: "pid_destroy a s = (Inr (), t)" "pid_reset a s = (Inr (), t)"
    using pid_destroy_outcome [OF assms(1)] by blast
  have "pid_inv t" using procs.reset_ok [OF assms(1), of a] t(2) by auto
  moreover have "orphans t = orphans s" unfolding orphans_def by (rule procs.loose_reset [OF assms(1) t(2)])
  moreover have "s' = t" using assms(3) PDestroy t(1) by simp
  ultimately show ?thesis by (simp only: pid_fine_same)
qed

inductive pid_reaches :: "pid_world \<Rightarrow> pid_world \<Rightarrow> int set \<Rightarrow> bool" for s0 where
  pid_start: "pid_reaches s0 s0 {}"
| pid_step: "pid_reaches s0 s given \<Longrightarrow> pid_allowed op s \<Longrightarrow> pid_do op s = (r, s') \<Longrightarrow>
    pid_reaches s0 s' (given \<union> pid_handed op s)"

section \<open>Properties\<close>


definition sample_pids :: pid_world where
  "sample_pids = \<lparr> children = [], interrupts = 3, kill_fate = (\<lambda>_ _. None), on_signal = (\<lambda>_ status. status),
     fork_fate = (\<lambda>_. None), forks = 0, pdo = (\<lambda>_. no_process) \<rparr>"

lemma sample_pids_inv: "pid_inv sample_pids"
  by (auto simp: pid_inv_def sample_pids_def unique_def owned_def pids_def pid_own_def no_process_def empty_pid_def)


end
