(* ===== verification/Simulation.thy ===== *)
theory Simulation
  imports Node
begin

text \<open>
  \<^verbatim>\<open>simulation/disk-usage-analysis.cpp\<close>: the cost of storage and of writing when every difference
  costs as much as its length. The quotient of two integers as a \<^verbatim>\<open>double\<close> is the parameter
  \<open>ratio\<close>, over any linear order.
\<close>

section \<open>The program\<close>

record ('d, 'n) max_at =
  max_value :: 'd
  max_where :: 'n

definition update_max :: "'d :: linorder \<Rightarrow> 'n \<Rightarrow> ('d, 'n) max_at \<Rightarrow> ('d, 'n) max_at" where
  "update_max v a m = (if v > max_value m then \<lparr>max_value = v, max_where = a\<rparr> else m)"

record 'd sim =
  sim_node :: node
  disk_write_cost :: u64
  max_disk_usage :: "('d, node) max_at"
  max_disk_writes :: "('d, node) max_at"

definition sim_start :: "'d \<Rightarrow> 'd sim" where
  "sim_start zero = \<lparr>sim_node = Node 0, disk_write_cost = 0,
     max_disk_usage = \<lparr>max_value = zero, max_where = Node 0\<rparr>,
     max_disk_writes = \<lparr>max_value = zero, max_where = Node 0\<rparr>\<rparr>"

definition span_cost :: "node \<Rightarrow> u64" where
  "span_cost n = node_value n - node_value (node_parent n)"

definition usage_of :: "node list \<Rightarrow> u64" where
  "usage_of alive = foldl (\<lambda>c a. c + span_cost a) 0 alive"

definition sim_step :: "(u64 \<Rightarrow> u64 \<Rightarrow> 'd :: linorder) \<Rightarrow> 'd sim \<Rightarrow> 'd sim result" where
  "sim_step ratio s =
     (case node_alive_after (sim_node s) of
        (_, Threw e) \<Rightarrow> Inl e
      | (_, Diverged) \<Rightarrow> Inl Diverges
      | (alive, Done) \<Rightarrow>
          bindR (next_node (sim_node s)) (\<lambda>node.
            let diff = span_cost node;
                usage = usage_of alive + diff;
                writes = disk_write_cost s + diff
            in Inr \<lparr>sim_node = node, disk_write_cost = writes,
                 max_disk_usage = update_max (ratio (usage + 1) (node_value node + 1)) node (max_disk_usage s),
                 max_disk_writes = update_max (ratio (writes + 1) (node_value node + 1)) node (max_disk_writes s)\<rparr>))"

text \<open>The loop of \<open>run\<close>, which counts to \<open>n\<close>.\<close>

fun sim_loop :: "(u64 \<Rightarrow> u64 \<Rightarrow> 'd :: linorder) \<Rightarrow> nat \<Rightarrow> 'd sim \<Rightarrow> 'd sim result" where
  "sim_loop ratio 0 s = Inr s"
| "sim_loop ratio (Suc n) s = bindR (sim_step ratio s) (sim_loop ratio n)"

definition sim_run :: "(u64 \<Rightarrow> u64 \<Rightarrow> 'd :: linorder) \<Rightarrow> 'd \<Rightarrow> u64 \<Rightarrow> 'd sim result" where
  "sim_run ratio zero n = sim_loop ratio (unat n) (sim_start zero)"

section \<open>Sums of least significant bits\<close>

definition writes_up_to :: "nat \<Rightarrow> nat" where
  "writes_up_to n = (\<Sum>i = 1..n. lsb i)"

definition usage_at :: "nat \<Rightarrow> nat" where
  "usage_at n = (\<Sum>k \<in> alive_set (n - 1). lsb k) + lsb n"

lemma writes_up_to_Suc: "writes_up_to (Suc n) = writes_up_to n + lsb (Suc n)"
  by (simp add: writes_up_to_def)

lemma writes_up_to_double: "writes_up_to (2 * n) = n + 2 * writes_up_to n"
proof (induction n)
  case 0
  then show ?case by (simp add: writes_up_to_def)
next
  case (Suc n)
  have "lsb (Suc (Suc (2 * n))) = 2 * lsb (Suc n)" using lsb_double [of "Suc n"] by simp
  moreover have "lsb (Suc (2 * n)) = 1" by (rule lsb_odd) simp
  ultimately show ?case using Suc by (simp add: writes_up_to_Suc)
qed

lemma writes_up_to_pow: "2 * writes_up_to (2 ^ k) = (k + 2) * 2 ^ k"
proof (induction k)
  case 0
  then show ?case using lsb_odd [of 1] by (simp add: writes_up_to_def)
next
  case (Suc k)
  then show ?case using writes_up_to_double [of "2 ^ k"] by (simp add: algebra_simps)
qed

text \<open>At most two nodes of each length are alive.\<close>

lemma alive_lengths:
  "card {k \<in> alive_set n. lsb k = 2 ^ j} \<le> 2"
proof -
  define D where "D = n div 2 ^ Suc j"
  have "{k \<in> alive_set n. lsb k = 2 ^ j} \<subseteq> (\<lambda>q. 2 ^ j * (2 * q + 1)) ` {D - 1, D}"
  proof
    fix k assume "k \<in> {k \<in> alive_set n. lsb k = 2 ^ j}"
    then have k: "k \<in> alive_set n" "lsb k = 2 ^ j" by simp_all
    then have "0 < k" by (cases k) simp_all
    from lsb_decomp [OF this] obtain i q where "k = 2 ^ i * (2 * q + 1)" "lsb k = 2 ^ i" by blast
    then have q: "k = 2 ^ j * (2 * q + 1)" using k(2) by simp
    have kn: "k \<le> n" "n < k + 3 * 2 ^ j" using k \<open>0 < k\<close> by (auto simp: alive_set_def demise_def)
    have eq: "2 ^ Suc j * (q + 2) = k + 3 * 2 ^ j" "2 ^ Suc j * q + 2 ^ j = k"
      unfolding q by (simp_all add: algebra_simps)
    have "n < 2 ^ Suc j * (q + 2)" unfolding eq(1) by (rule kn(2))
    moreover have "2 ^ Suc j * q \<le> n" using kn(1) eq(2) le_add1 le_trans by metis
    ultimately have "2 ^ Suc j * q \<le> n" "n < 2 ^ Suc j * (q + 2)" by blast+
    then have "q \<le> D" "D < q + 2"
      using less_eq_div_iff_mult_less_eq [of "2 ^ Suc j" q n] div_less_iff_less_mult [of "2 ^ Suc j" n "q + 2"]
      unfolding D_def by (simp_all add: mult.commute)
    then have "q = D - 1 \<or> q = D" by linarith
    then show "k \<in> (\<lambda>q. 2 ^ j * (2 * q + 1)) ` {D - 1, D}" using q by auto
  qed
  then have "card {k \<in> alive_set n. lsb k = 2 ^ j} \<le> card ((\<lambda>q. 2 ^ j * (2 * q + 1)) ` {D - 1, D})"
    by (intro card_mono) simp_all
  also have "\<dots> \<le> card {D - 1, D}" by (rule card_image_le) simp
  also have "\<dots> \<le> 2" by (simp add: card_insert_if)
  finally show ?thesis .
qed

lemma usage_bound: "(\<Sum>k \<in> alive_set n. lsb k) \<le> 4 * n"
proof (cases "n = 0")
  case True
  then show ?thesis by (simp add: alive_set_def)
next
  case False
  then obtain d where d: "2 ^ d \<le> n" "n < 2 * 2 ^ d" using ex_pow_between by blast
  have "alive_set n - {0} \<subseteq> (\<Union>j \<in> {..d}. {k \<in> alive_set n. lsb k = 2 ^ j})"
  proof
    fix k assume k: "k \<in> alive_set n - {0}"
    then obtain j where j: "lsb k = 2 ^ j" using lsb_is_pow by blast
    have "2 ^ j \<le> k" using j lsb_le [of k] by simp
    then have "2 ^ j < (2 :: nat) ^ Suc d" using k d by (auto simp: alive_set_def)
    then have "j < Suc d" by (rule power_less_imp_less_exp [rotated]) simp
    then have "j \<le> d" by simp
    then show "k \<in> (\<Union>j \<in> {..d}. {k \<in> alive_set n. lsb k = 2 ^ j})" using j k by blast
  qed
  then have "(\<Sum>k \<in> alive_set n - {0}. lsb k) \<le> (\<Sum>k \<in> (\<Union>j \<in> {..d}. {k \<in> alive_set n. lsb k = 2 ^ j}). lsb k)"
    by (intro sum_mono2) auto
  also have "\<dots> = (\<Sum>j \<le> d. \<Sum>k \<in> {k \<in> alive_set n. lsb k = 2 ^ j}. lsb k)"
    by (intro sum.UNION_disjoint) auto
  also have "\<dots> = (\<Sum>j \<le> d. card {k \<in> alive_set n. lsb k = 2 ^ j} * 2 ^ j)" by (intro sum.cong) simp_all
  also have "\<dots> \<le> (\<Sum>j \<le> d. 2 * 2 ^ j)" using alive_lengths by (intro sum_mono mult_right_mono) simp_all
  also have "\<dots> = 2 * (2 ^ Suc d - 1)" by (induction d) simp_all
  also have "\<dots> \<le> 4 * n" using d by simp
  finally show ?thesis using zero_alive [of n] by (simp add: sum.remove)
qed

section \<open>What the simulation computes\<close>

lemma span_cost: "span_cost n = of_nat (lsb (unat (node_value n)))"
proof -
  have "unat (span_cost n) = unat (node_value n) - unat (fenwick_parent (node_value n))"
    unfolding span_cost_def node_parent_def node.sel
    by (rule unat_sub) (simp add: word_le_nat_alt unat_fenwick_parent)
  also have "\<dots> = lsb (unat (node_value n))" using lsb_le by (simp add: unat_fenwick_parent)
  finally have "unat (span_cost n) = lsb (unat (node_value n))" .
  moreover have "lsb (unat (node_value n)) < 2 ^ 64" using lsb_le [of "unat (node_value n)"] unsigned_less [of "node_value n"]
    by (rule le_less_trans [OF _ order_less_le_trans]) simp
  ultimately show ?thesis by (simp add: word_unat_eq_iff unat_of_nat)
qed

lemma usage_of: "usage_of xs = of_nat (\<Sum>x \<leftarrow> xs. lsb (unat (node_value x)))"
proof -
  have "foldl (\<lambda>c a. c + span_cost a) c xs = c + of_nat (\<Sum>x \<leftarrow> xs. lsb (unat (node_value x)))" for c
    by (induction xs arbitrary: c) (simp_all add: span_cost algebra_simps)
  then show ?thesis by (simp add: usage_of_def)
qed

lemma usage_of_alive:
  assumes "unat v < 2 ^ 63"
  shows "node_alive_after (Node v) = (map Node (fst (alive_after v)), Done)"
    and "usage_of (map Node (fst (alive_after v))) = of_nat (\<Sum>k \<in> alive_set (unat v). lsb k)"
proof -
  show "node_alive_after (Node v) = (map Node (fst (alive_after v)), Done)"
    using alive_after_outcome [of v] assms by (cases "alive_after v") (simp add: node_alive_after_def map_trace_def)
  have "sorted_wrt (>) (fst (alive_after v))" by (rule alive_after_sorted [OF assms])
  then have "distinct (fst (alive_after v))" by (induction "fst (alive_after v)") (auto simp: sorted_wrt_iff_nth_less distinct_conv_nth neq_iff)
  then have "(\<Sum>x \<leftarrow> fst (alive_after v). lsb (unat x)) = (\<Sum>k \<in> unat ` set (fst (alive_after v)). lsb k)"
    by (subst sum.reindex) (simp_all add: sum_list_distinct_conv_sum_set inj_on_def word_unat_eq_iff o_def)
  then show "usage_of (map Node (fst (alive_after v))) = of_nat (\<Sum>k \<in> alive_set (unat v). lsb k)"
    using alive_after_set [OF assms] by (simp add: usage_of o_def)
qed

definition usage_ratio :: "(u64 \<Rightarrow> u64 \<Rightarrow> 'd) \<Rightarrow> nat \<Rightarrow> 'd" where
  "usage_ratio ratio m = ratio (of_nat (usage_at m + 1)) (of_nat (m + 1))"

definition writes_ratio :: "(u64 \<Rightarrow> u64 \<Rightarrow> 'd) \<Rightarrow> nat \<Rightarrow> 'd" where
  "writes_ratio ratio m = ratio (of_nat (writes_up_to m + 1)) (of_nat (m + 1))"

text \<open>\<open>highest z f n m\<close>: \<open>m\<close> is the maximum of \<open>z\<close> and of \<open>f\<close> at the nodes up to \<open>n\<close>, at the first node that reaches it.\<close>

definition highest :: "'d :: linorder \<Rightarrow> (nat \<Rightarrow> 'd) \<Rightarrow> nat \<Rightarrow> ('d, node) max_at \<Rightarrow> bool" where
  "highest z f n m \<longleftrightarrow> max_value m = Max (insert z (f ` {1..n})) \<and>
    (max_value m \<noteq> z \<longrightarrow> (\<exists>i \<in> {1..n}. max_where m = Node (of_nat i) \<and> f i = max_value m \<and> (\<forall>j \<in> {1..<i}. f j < f i)))"

lemma highest_0: "highest z f 0 \<lparr>max_value = z, max_where = a\<rparr>"
  by (simp add: highest_def)

lemma highest_Suc:
  assumes "highest z f n m"
  shows "highest z f (Suc n) (update_max (f (Suc n)) (Node (of_nat (Suc n))) m)"
proof -
  have set: "insert z (f ` {1..Suc n}) = insert (f (Suc n)) (insert z (f ` {1..n}))"
    by (auto simp: atLeastAtMostSuc_conv)
  have max: "Max (insert z (f ` {1..Suc n})) = max (f (Suc n)) (max_value m)"
    using assms unfolding set by (subst Max_insert) (simp_all add: highest_def)
  have "max_value m = Max (insert z (f ` {1..n}))" using assms by (simp add: highest_def)
  then have below: "f j \<le> max_value m" if "j \<in> {1..n}" for j
    using that by (simp only:) (rule Max_ge; simp)
  show ?thesis
  proof (cases "f (Suc n) > max_value m")
    case True
    then have "\<forall>j \<in> {1..<Suc n}. f j < f (Suc n)" using below by (meson atLeastAtMost_iff atLeastLessThan_iff le_less_trans less_Suc_eq_le)
    then show ?thesis using True max unfolding highest_def update_max_def by (auto simp: max_def intro!: bexI [of _ "Suc n"])
  next
    case False
    then have "update_max (f (Suc n)) (Node (of_nat (Suc n))) m = m" "max (f (Suc n)) (max_value m) = max_value m"
      by (simp_all add: update_max_def max_def not_less)
    then show ?thesis using max assms unfolding highest_def by (metis atLeastAtMost_iff le_Suc_eq)
  qed
qed

definition sim_at :: "(u64 \<Rightarrow> u64 \<Rightarrow> 'd :: linorder) \<Rightarrow> 'd \<Rightarrow> nat \<Rightarrow> 'd sim \<Rightarrow> bool" where
  "sim_at ratio z n s \<longleftrightarrow> sim_node s = Node (of_nat n) \<and> disk_write_cost s = of_nat (writes_up_to n) \<and>
    highest z (usage_ratio ratio) n (max_disk_usage s) \<and> highest z (writes_ratio ratio) n (max_disk_writes s)"

lemma sim_step_at:
  assumes "sim_at ratio z n s" and "n < 2 ^ 63"
  shows "\<exists>s'. sim_step ratio s = Inr s' \<and> sim_at ratio z (Suc n) s'"
proof -
  have n: "unat (of_nat n :: u64) = n" using assms(2) by (simp add: unat_of_nat)
  have n1: "unat (of_nat (Suc n) :: u64) = Suc n" using assms(2) unfolding unat_of_nat by simp
  have "unat (of_nat n :: u64) \<noteq> unat (- 1 :: u64)" using n assms(2) by (simp add: unat_max)
  then have "of_nat n \<noteq> (- 1 :: u64)" by metis
  then have next1: "next_node (sim_node s) = Inr (Node (of_nat (Suc n)))"
    using assms(1) by (simp add: next_node_def sim_at_def add.commute)
  have alive: "node_alive_after (sim_node s) = (map Node (fst (alive_after (of_nat n))), Done)"
    "usage_of (map Node (fst (alive_after (of_nat n)))) = of_nat (\<Sum>k \<in> alive_set n. lsb k)"
    using usage_of_alive [of "of_nat n"] assms n by (simp_all add: sim_at_def)
  have span: "span_cost (Node (of_nat (Suc n))) = of_nat (lsb (Suc n))"
    using n1 by (simp only: span_cost node.sel)
  define s' where "s' = \<lparr>sim_node = Node (of_nat (Suc n)), disk_write_cost = of_nat (writes_up_to (Suc n)),
     max_disk_usage = update_max (usage_ratio ratio (Suc n)) (Node (of_nat (Suc n))) (max_disk_usage s),
     max_disk_writes = update_max (writes_ratio ratio (Suc n)) (Node (of_nat (Suc n))) (max_disk_writes s)\<rparr>"
  have w: "disk_write_cost s + of_nat (lsb (Suc n)) = of_nat (writes_up_to (Suc n))"
    using assms(1) by (simp add: sim_at_def writes_up_to_Suc)
  have u: "(of_nat (\<Sum>k \<in> alive_set n. lsb k) + of_nat (lsb (Suc n)) :: u64) = of_nat (usage_at (Suc n))"
    by (simp add: usage_at_def)
  have "sim_step ratio s = Inr s'"
    unfolding sim_step_def alive(1) next1 s'_def usage_ratio_def writes_ratio_def of_nat_add [of "usage_at (Suc n)"]
      of_nat_add [of "writes_up_to (Suc n)"] of_nat_add [of "Suc n" 1]
    by (simp only: prod.case outcome.case bindR_simps Let_def alive(2) span w u node.sel of_nat_1)
  moreover have "sim_at ratio z (Suc n) s'"
    using assms(1) highest_Suc [of z "usage_ratio ratio" n] highest_Suc [of z "writes_ratio ratio" n]
    unfolding sim_at_def s'_def by simp
  ultimately show ?thesis by blast
qed

lemma sim_loop_at:
  "sim_at ratio z m s \<Longrightarrow> m + n \<le> 2 ^ 63 \<Longrightarrow> \<exists>s'. sim_loop ratio n s = Inr s' \<and> sim_at ratio z (m + n) s'"
proof (induction n arbitrary: m s)
  case (Suc n)
  then obtain t where t: "sim_step ratio s = Inr t" "sim_at ratio z (Suc m) t" using sim_step_at [of ratio z m s] by auto
  then show ?case using Suc.IH [of "Suc m" t] Suc.prems by simp
qed simp

lemma sim_start_at: "sim_at ratio z 0 (sim_start z)"
  by (simp add: sim_at_def sim_start_def writes_up_to_def highest_0)

text \<open>
  C39. For every count that \<^verbatim>\<open>atoi\<close> can give as a nonnegative number the simulation ends. It has
  written the sum of the least significant bits of the nodes: \<open>(k + 2) 2 ^ k / 2\<close> for \<open>2 ^ k\<close>
  nodes. The usage it records at a node is that of the nodes alive before it and its own, at
  most five times the node's number, and the maxima it prints are those over all nodes up to
  \<open>n\<close>, each with the first node that reaches it.
\<close>
theorem simulation_costs:
  assumes "unat n < 2 ^ 31"
  shows "\<exists>s. sim_run ratio z n = Inr s \<and> sim_node s = Node n \<and>
    unat (disk_write_cost s) = (\<Sum>i = 1..unat n. lsb i) \<and>
    (\<forall>k. unat n = 2 ^ k \<longrightarrow> 2 * unat (disk_write_cost s) = (k + 2) * 2 ^ k) \<and>
    (\<forall>m. usage_at m \<le> 5 * m) \<and>
    highest z (usage_ratio ratio) (unat n) (max_disk_usage s) \<and>
    highest z (writes_ratio ratio) (unat n) (max_disk_writes s)"
proof -
  have "unat n \<le> 2 ^ 63" using assms by simp
  then obtain s where s: "sim_run ratio z n = Inr s" "sim_at ratio z (unat n) s"
    using sim_loop_at [OF sim_start_at, of "unat n" ratio z] by (auto simp: sim_run_def)
  have "writes_up_to (unat n) \<le> (\<Sum>i = 1..unat n. unat n)"
    unfolding writes_up_to_def using lsb_le by (intro sum_mono) (meson atLeastAtMost_iff le_trans)
  also have "\<dots> \<le> 2 ^ 31 * 2 ^ 31" using assms unfolding sum_constant card_atLeastAtMost
    by (intro mult_mono) simp_all
  finally have "writes_up_to (unat n) < 2 ^ 64" by simp
  then have w: "unat (disk_write_cost s) = writes_up_to (unat n)"
    using s(2) by (simp add: sim_at_def unat_of_nat)
  have "usage_at m \<le> 5 * m" for m
    using usage_bound [of "m - 1"] lsb_le [of m] by (simp add: usage_at_def)
  then show ?thesis
    using s w writes_up_to_pow unfolding writes_up_to_def [symmetric] by (auto simp: sim_at_def)
qed

lemma simulation_costs_witness:
  "\<exists>s. sim_run (\<lambda>a b. unat a div unat b) 0 4 = Inr s \<and> unat (disk_write_cost s) = 8"
proof -
  have "unat (4 :: u64) < 2 ^ 31" by simp
  from simulation_costs [OF this, of "\<lambda>a b. unat a div unat b" 0] obtain s where
    "sim_run (\<lambda>a b. unat a div unat b) 0 4 = Inr s"
    "\<forall>k. unat (4 :: u64) = 2 ^ k \<longrightarrow> 2 * unat (disk_write_cost s) = (k + 2) * 2 ^ k" by blast
  then show ?thesis by (intro exI [of _ s]) (auto dest: spec [of _ 2])
qed

end
