(* ===== verification/Regex.thy ===== *)
theory Regex
  imports Prelude
begin

text \<open>
  The part of \<^verbatim>\<open>std::regex\<close> (ECMAScript syntax) the program uses: bracket expressions, groups,
  \<open>+\<close>, \<open>*\<close> and bounded repetition, matched against a whole string as \<^verbatim>\<open>std::regex_match\<close> does.
  The matcher takes derivatives; \<open>regex_match_iff\<close> says that it decides the language.
\<close>

section \<open>Patterns\<close>

text \<open>A bracket expression is the list of its ranges; a single character is a range of one.\<close>

datatype regex =
    Never
  | Empty
  | Bracket "(char \<times> char) list"
  | Either regex regex
  | Seq regex regex
  | Star regex

definition Plus :: "regex \<Rightarrow> regex" where
  "Plus r = Seq r (Star r)"

fun at_most :: "nat \<Rightarrow> regex \<Rightarrow> regex" where
  "at_most 0 r = Empty"
| "at_most (Suc n) r = Either Empty (Seq r (at_most n r))"

definition in_bracket :: "(char \<times> char) list \<Rightarrow> char \<Rightarrow> bool" where
  "in_bracket ranges c =
     list_ex (\<lambda>(a, b). (of_char a :: nat) \<le> of_char c \<and> (of_char c :: nat) \<le> of_char b) ranges"

section \<open>The matcher\<close>

fun nullable :: "regex \<Rightarrow> bool" where
  "nullable Never = False"
| "nullable Empty = True"
| "nullable (Bracket _) = False"
| "nullable (Either r t) = (nullable r \<or> nullable t)"
| "nullable (Seq r t) = (nullable r \<and> nullable t)"
| "nullable (Star _) = True"

fun after :: "regex \<Rightarrow> char \<Rightarrow> regex" where
  "after Never c = Never"
| "after Empty c = Never"
| "after (Bracket ranges) c = (if in_bracket ranges c then Empty else Never)"
| "after (Either r t) c = Either (after r c) (after t c)"
| "after (Seq r t) c =
     (if nullable r then Either (Seq (after r c) t) (after t c) else Seq (after r c) t)"
| "after (Star r) c = Seq (after r c) (Star r)"

definition regex_match :: "regex \<Rightarrow> string \<Rightarrow> bool" where
  "regex_match r str = nullable (foldl after r str)"

section \<open>The language\<close>

inductive in_star :: "(string \<Rightarrow> bool) \<Rightarrow> string \<Rightarrow> bool" for L where
  star_end: "in_star L []"
| star_more: "L u \<Longrightarrow> in_star L v \<Longrightarrow> in_star L (u @ v)"

fun lang :: "regex \<Rightarrow> string \<Rightarrow> bool" where
  "lang Never w = False"
| "lang Empty w = (w = [])"
| "lang (Bracket ranges) w = (\<exists>c. w = [c] \<and> in_bracket ranges c)"
| "lang (Either r t) w = (lang r w \<or> lang t w)"
| "lang (Seq r t) w = (\<exists>u v. w = u @ v \<and> lang r u \<and> lang t v)"
| "lang (Star r) w = in_star (lang r) w"

lemma nullable_iff: "nullable r \<longleftrightarrow> lang r []"
  by (induction r) (auto intro: star_end)

lemma in_star_Cons:
  "in_star L (c # w) \<longleftrightarrow> (\<exists>u v. w = u @ v \<and> L (c # u) \<and> in_star L v)"
proof
  have "\<exists>u v. w = u @ v \<and> L (c # u) \<and> in_star L v" if "in_star L x" "x = c # w" for x
    using that
  proof (induction rule: in_star.induct)
    case (star_more u v)
    then show ?case by (cases u) auto
  qed simp
  then show "in_star L (c # w) \<Longrightarrow> \<exists>u v. w = u @ v \<and> L (c # u) \<and> in_star L v" by blast
  show "\<exists>u v. w = u @ v \<and> L (c # u) \<and> in_star L v \<Longrightarrow> in_star L (c # w)"
    using star_more [of L] by (metis append_Cons)
qed

lemma after_iff: "lang (after r c) w \<longleftrightarrow> lang r (c # w)"
proof (induction r arbitrary: w)
  case (Seq r t)
  have "lang (Seq r t) (c # w) \<longleftrightarrow>
      (nullable r \<and> lang t (c # w)) \<or> (\<exists>u v. w = u @ v \<and> lang r (c # u) \<and> lang t v)"
    by (simp add: nullable_iff Cons_eq_append_conv) (metis append_Nil)
  then show ?case using Seq by auto
qed (auto simp: in_star_Cons)

lemma regex_match_iff: "regex_match r w \<longleftrightarrow> lang r w"
  unfolding regex_match_def by (induction w arbitrary: r) (simp_all add: nullable_iff after_iff)

section \<open>Words over a bracket expression\<close>

lemma star_bracket: "in_star (lang (Bracket b)) w \<longleftrightarrow> list_all (in_bracket b) w"
  by (induction w) (auto simp: in_star_Cons intro: star_end)

lemma bracket_Seq: "lang (Seq (Bracket b) t) w \<longleftrightarrow> (\<exists>c v. w = c # v \<and> in_bracket b c \<and> lang t v)"
proof
  show "lang (Seq (Bracket b) t) w \<Longrightarrow> \<exists>c v. w = c # v \<and> in_bracket b c \<and> lang t v" by auto
  assume "\<exists>c v. w = c # v \<and> in_bracket b c \<and> lang t v"
  then obtain c v where "w = [c] @ v" "lang (Bracket b) [c]" "lang t v" by auto
  then show "lang (Seq (Bracket b) t) w" unfolding lang.simps(5) by blast
qed

lemma plus_bracket: "lang (Plus (Bracket b)) w \<longleftrightarrow> w \<noteq> [] \<and> list_all (in_bracket b) w"
  unfolding Plus_def bracket_Seq by (cases w) (auto simp del: lang.simps(3) simp: star_bracket)

lemma at_most_bracket: "lang (at_most n (Bracket b)) w \<longleftrightarrow> length w \<le> n \<and> list_all (in_bracket b) w"
proof (induction n arbitrary: w)
  case (Suc n)
  have "lang (at_most (Suc n) (Bracket b)) w \<longleftrightarrow> w = [] \<or> lang (Seq (Bracket b) (at_most n (Bracket b))) w"
    by simp
  then show ?case unfolding bracket_Seq Suc by (cases w) auto
qed auto

section \<open>The characters of a match\<close>

fun may :: "regex \<Rightarrow> char \<Rightarrow> bool" where
  "may Never c = False"
| "may Empty c = False"
| "may (Bracket ranges) c = in_bracket ranges c"
| "may (Either r t) c = (may r c \<or> may t c)"
| "may (Seq r t) c = (may r c \<or> may t c)"
| "may (Star r) c = may r c"

lemma in_star_chars: "in_star L w \<Longrightarrow> c \<in> set w \<Longrightarrow> (\<And>u. L u \<Longrightarrow> c \<in> set u \<Longrightarrow> P) \<Longrightarrow> P"
  by (induction rule: in_star.induct) auto

lemma lang_chars: "lang r w \<Longrightarrow> c \<in> set w \<Longrightarrow> may r c"
proof (induction r arbitrary: w)
  case (Star r)
  then show ?case by (auto elim: in_star_chars)
next
  case (Seq r t)
  from Seq.prems obtain u v where "w = u @ v" "lang r u" "lang t v" by auto
  then show ?case using Seq.IH [of u] Seq.IH [of v] Seq.prems(2) by auto
qed auto

lemma may_at_most: "may (at_most n r) c \<Longrightarrow> may r c"
  by (induction n) auto

lemmas regex_chars = lang_chars [OF iffD1 [OF regex_match_iff]]

end
