(* ===== verification/Zfs.thy ===== *)
theory Zfs
  imports Process Regex
begin

text \<open>
  \<^verbatim>\<open>src/zfs.hpp\<close> and \<^verbatim>\<open>zfs.cpp\<close>: names of datasets and snapshots, guids, and the calls of the
  \<^verbatim>\<open>zfs\<close> program with what is read out of its output. A class whose constructor checks its
  argument is a datatype with a function of the class's name that makes its values or throws.
\<close>

section \<open>Names\<close>

datatype dataset_name = Dataset (dataset_str: string)
datatype snapshot_name = Snapshot (snapshot_str: string)

definition letters :: "(char \<times> char) list" where
  "letters = [(CHR ''a'', CHR ''z''), (CHR ''A'', CHR ''Z'')]"

definition dataset_class :: "(char \<times> char) list" where
  "dataset_class = letters @
     [(CHR ''0'', CHR ''9''), (CHR ''_'', CHR ''_''), (CHR ''-'', CHR ''-''), (CHR ''.'', CHR ''.'')]"

definition dataset_regex :: regex where
  "dataset_regex = Seq (Plus (Bracket dataset_class))
     (Star (Seq (Bracket [(CHR ''/'', CHR ''/'')]) (Plus (Bracket dataset_class))))"

definition snapshot_regex :: regex where
  "snapshot_regex = Seq (Bracket letters)
     (at_most 254 (Bracket (dataset_class @ [(CHR '':'', CHR '':'')])))"

definition DatasetName :: "string \<Rightarrow> dataset_name result" where
  "DatasetName str =
     (if \<not> regex_match dataset_regex str then Inl (InvalidArgument (''Invalid dataset name: '' @ str))
      else Inr (Dataset str))"

text \<open>\<open>DatasetName::operator/\<close>.\<close>

definition dataset_child :: "dataset_name \<Rightarrow> string \<Rightarrow> dataset_name result" where
  "dataset_child d suffix = DatasetName (dataset_str d @ ''/'' @ suffix)"

definition SnapshotName :: "string \<Rightarrow> snapshot_name result" where
  "SnapshotName str =
     (if \<not> regex_match snapshot_regex str then Inl (InvalidArgument (''Invalid snapshot name: '' @ str))
      else Inr (Snapshot str))"

section \<open>Guids\<close>

datatype snapshot_guid = Guid (guid_value: u64)

definition guid_str :: "snapshot_guid \<Rightarrow> string" where
  "guid_str g = to_string (unat (guid_value g))"

definition verify_guid :: "string \<Rightarrow> bool" where
  "verify_guid guid \<longleftrightarrow> guid \<noteq> [] \<and> list_all is_digit guid"

definition SnapshotGuid :: "string \<Rightarrow> snapshot_guid result" where
  "SnapshotGuid guid =
     (if \<not> list_all is_digit guid then Inl (InvalidArgument (''Invalid guid: '' @ guid))
      else bindR (stoull guid) (\<lambda>out.
        if out = 0 then Inl (InvalidArgument ''Invalid null guid'')
        else if to_string (unat out) \<noteq> guid then Inl (AssertionFailed ''std::to_string(this->guid) == guid'')
        else Inr (Guid out)))"

section \<open>Snapshots of a dataset\<close>

record dataset_snapshot_name =
  dsn_dataset :: dataset_name
  dsn_snapshot :: snapshot_name

record snapshot_name_guid =
  sng_name :: snapshot_name
  sng_guid :: snapshot_guid

definition dsn_str :: "dataset_name \<Rightarrow> snapshot_name \<Rightarrow> string" where
  "dsn_str d s = dataset_str d @ ''@'' @ snapshot_str s"

definition fromString :: "string \<Rightarrow> dataset_snapshot_name result" where
  "fromString str =
     (case dropWhile (\<lambda>c. c \<noteq> CHR ''@'') str of
        [] \<Rightarrow> Inl (InvalidArgument (''Invalid DatesetSnapshotName: '' @ str))
      | at # rest \<Rightarrow>
          bindR (DatasetName (takeWhile (\<lambda>c. c \<noteq> CHR ''@'') str)) (\<lambda>d.
          bindR (SnapshotName rest) (\<lambda>s.
            Inr \<lparr> dsn_dataset = d, dsn_snapshot = s \<rparr>)))"

section \<open>Calling zfs\<close>

record command =
  cmd :: string
  args :: "string list"

definition Command :: "string \<Rightarrow> string list \<Rightarrow> command result" where
  "Command c as =
     (if as = [] then Inl (InvalidArgument ''Command: invalid arguments (empty)'')
      else Inr \<lparr> cmd = c, args = as \<rparr>)"

definition command_of_name :: "string \<Rightarrow> command result" where
  "command_of_name c = Command c [c]"

definition command_of_args :: "string list \<Rightarrow> command result" where
  "command_of_args as =
     (case as of [] \<Rightarrow> Inl (InvalidArgument ''Command: invalid arguments (empty)'') | c # _ \<Rightarrow> Command c as)"

definition extend_args :: "command \<Rightarrow> string list \<Rightarrow> command" where
  "extend_args c xs = c\<lparr>args := args c @ xs\<rparr>"

definition zfs_snapshot :: "'b exec \<Rightarrow> command \<Rightarrow> dataset_name \<Rightarrow> snapshot_name \<Rightarrow> ('b, unit) prog" where
  "zfs_snapshot exec zfs d s =
     (let c = extend_args zfs [''snapshot'', dsn_str d s] in
      to_terminal (systemvp_throw_on_failure exec (cmd c) (args c)))"

definition zfs_get_guid :: "'b exec \<Rightarrow> command \<Rightarrow> dataset_name \<Rightarrow> snapshot_name \<Rightarrow> ('b, snapshot_guid) prog" where
  "zfs_get_guid exec zfs d s =
     (let c = extend_args zfs [''get'', ''-H'', ''-o'', ''value'', ''guid'', dsn_str d s] in
      bindS (systemvp_strchomp exec (cmd c) (args c)) (\<lambda>guid.
        if \<not> verify_guid guid
        then throwS (RuntimeError (''zfs reported an invalid guid! ('' @ guid @ '')''))
        else liftR (SnapshotGuid guid)))"

definition zfs_send :: "'b exec \<Rightarrow> command \<Rightarrow> dataset_name \<Rightarrow> snapshot_name \<Rightarrow> 'b \<Rightarrow> bytes \<times> unit result \<times> 'b" where
  "zfs_send exec zfs d s =
     (let c = extend_args zfs [''send'', dsn_str d s] in systemvp_throw_on_failure exec (cmd c) (args c))"

definition zfs_diffsend ::
  "'b exec \<Rightarrow> command \<Rightarrow> dataset_name \<Rightarrow> snapshot_name \<Rightarrow> snapshot_name \<Rightarrow> 'b \<Rightarrow> bytes \<times> unit result \<times> 'b" where
  "zfs_diffsend exec zfs d basename curname =
     (let c = extend_args zfs [''send'', ''-i'', ''@'' @ snapshot_str basename, dsn_str d curname] in
      systemvp_throw_on_failure exec (cmd c) (args c))"

definition zfs_receive ::
  "'b exec \<Rightarrow> command \<Rightarrow> dataset_name \<Rightarrow> snapshot_name \<Rightarrow> bytes \<Rightarrow> string list \<Rightarrow> ('b, unit) prog" where
  "zfs_receive exec zfs d s input extra =
     (let c = extend_args (extend_args (extend_args zfs [''receive'']) extra) [dsn_str d s] in
      to_terminal (systemvp_throw_on_failure3 exec (cmd c) (args c) (Some input)))"

definition zfs_remove_snapshot :: "'b exec \<Rightarrow> command \<Rightarrow> dataset_name \<Rightarrow> snapshot_name \<Rightarrow> ('b, unit) prog" where
  "zfs_remove_snapshot exec zfs d s =
     (let c = extend_args zfs [''destroy'', dsn_str d s] in
      to_terminal (systemvp_throw_on_failure exec (cmd c) (args c)))"

definition zfs_destroy_dataset :: "'b exec \<Rightarrow> command \<Rightarrow> dataset_name \<Rightarrow> ('b, unit) prog" where
  "zfs_destroy_dataset exec zfs d =
     (let c = extend_args zfs [''destroy'', dataset_str d] in
      to_terminal (systemvp_throw_on_failure exec (cmd c) (args c)))"

definition zfs_rollback :: "'b exec \<Rightarrow> command \<Rightarrow> dataset_snapshot_name \<Rightarrow> ('b, unit) prog" where
  "zfs_rollback exec zfs dsn =
     (let c = extend_args zfs [''rollback'', ''-r'', dsn_str (dsn_dataset dsn) (dsn_snapshot dsn)] in
      to_terminal (systemvp_throw_on_failure exec (cmd c) (args c)))"

definition zfs_version_info :: "'b exec \<Rightarrow> command \<Rightarrow> ('b, string) prog" where
  "zfs_version_info exec zfs =
     (let c = extend_args zfs [''--version''] in systemvp_str exec (cmd c) (args c))"

section \<open>Listing snapshots\<close>

abbreviation newline :: char where "newline \<equiv> CHR ''\<newline>''"
abbreviation tab :: char where "tab \<equiv> CHR 0x09"

function snapshot_lines ::
  "dataset_name \<Rightarrow> string \<Rightarrow> snapshot_name_guid list \<Rightarrow> snapshot_name_guid list result" where
  "snapshot_lines d str out =
     (if str = [] then Inr out
      else
        let line = takeWhile (\<lambda>c. c \<noteq> newline) str; rest = dropWhile (\<lambda>c. c \<noteq> newline) str in
        if rest = [] then Inl (RuntimeError ''zfs list: output malformed; no trailing newline'')
        else if line = [] then Inl (RuntimeError ''zfs list: output malformed; empty snapshot name'')
        else
          let name = takeWhile (\<lambda>c. c \<noteq> tab) line; guid = dropWhile (\<lambda>c. c \<noteq> tab) line in
          if guid = [] then Inl (RuntimeError (''zfs list: output malformed; no guid given: '' @ line))
          else
            bindR (fromString name) (\<lambda>dsn.
            bindR (SnapshotGuid (tl guid)) (\<lambda>g.
              if dsn_dataset dsn \<noteq> d
              then Inl (RuntimeError (''zfs list: zfs produced invalid output: '' @ line))
              else snapshot_lines d (tl rest) (out @ [\<lparr> sng_name = dsn_snapshot dsn, sng_guid = g \<rparr>]))))"
  by pat_completeness auto
termination
proof (relation "measure (\<lambda>(_, str, _). length str)", goal_cases)
  case (2 d str out line rest name guid dsn g)
  then have "length (tl rest) < length rest" "length rest \<le> length str"
    by (simp_all add: length_dropWhile_le)
  then show ?case by simp
qed simp
declare snapshot_lines.simps [simp del]

definition zfs_get_snapshots :: "'b exec \<Rightarrow> command \<Rightarrow> dataset_name \<Rightarrow> ('b, snapshot_name_guid list) prog" where
  "zfs_get_snapshots exec zfs d =
     (let c = extend_args zfs [''list'', ''-t'', ''snapshot'', ''-o'', ''name,guid'', ''-H'', dataset_str d] in
      bindS (systemvp_str exec (cmd c) (args c)) (\<lambda>str. liftR (snapshot_lines d str [])))"

section \<open>Facts\<close>

text \<open>What the constructors accept: the values of the classes.\<close>

definition dataset_ok :: "dataset_name \<Rightarrow> bool" where
  "dataset_ok d \<longleftrightarrow> regex_match dataset_regex (dataset_str d)"

definition snapshot_ok :: "snapshot_name \<Rightarrow> bool" where
  "snapshot_ok s \<longleftrightarrow> regex_match snapshot_regex (snapshot_str s)"

definition guid_ok :: "snapshot_guid \<Rightarrow> bool" where
  "guid_ok g \<longleftrightarrow> guid_value g \<noteq> 0"

lemma DatasetName_Inr: "DatasetName str = Inr d \<longleftrightarrow> dataset_ok d \<and> str = dataset_str d"
  by (cases d) (auto simp: DatasetName_def dataset_ok_def)

lemma SnapshotName_Inr: "SnapshotName str = Inr s \<longleftrightarrow> snapshot_ok s \<and> str = snapshot_str s"
  by (cases s) (auto simp: SnapshotName_def snapshot_ok_def)

lemma SnapshotGuid_Inr: "SnapshotGuid str = Inr g \<longleftrightarrow> guid_ok g \<and> str = guid_str g"
proof
  show "SnapshotGuid str = Inr g \<Longrightarrow> guid_ok g \<and> str = guid_str g"
    by (auto simp: SnapshotGuid_def bindR_eq_Inr guid_ok_def guid_str_def split: if_splits)
  assume "guid_ok g \<and> str = guid_str g"
  then show "SnapshotGuid str = Inr g"
    using stoull_to_string [of "unat (guid_value g)"] to_string_digits
    by (cases g) (simp add: SnapshotGuid_def guid_ok_def guid_str_def)
qed

lemma verify_guid_str: "verify_guid (guid_str g)"
  by (simp add: verify_guid_def guid_str_def to_string_digits)

lemma guid_str_inject [simp]: "guid_str g = guid_str h \<longleftrightarrow> g = h"
  by (cases g; cases h) (auto simp: guid_str_def word_unat_eq_iff)

text \<open>The separators of the output of \<^verbatim>\<open>zfs list\<close> do not occur in names and guids.\<close>

lemmas class_simps = letters_def dataset_class_def in_bracket_def Plus_def

lemma separators:
  "\<not> may dataset_regex (CHR ''@'')" "\<not> may dataset_regex newline" "\<not> may dataset_regex tab"
  "\<not> may (Bracket letters) newline" "\<not> may (Bracket (dataset_class @ [(CHR '':'', CHR '':'')])) newline"
  "\<not> may (Bracket letters) tab" "\<not> may (Bracket (dataset_class @ [(CHR '':'', CHR '':'')])) tab"
  by (simp_all add: dataset_regex_def class_simps)

lemma dataset_chars:
  assumes "dataset_ok d"
  shows "CHR ''@'' \<notin> set (dataset_str d)" "newline \<notin> set (dataset_str d)" "tab \<notin> set (dataset_str d)"
  using regex_chars [OF assms [unfolded dataset_ok_def]] separators(1-3) by blast+

lemma snapshot_may: "snapshot_ok s \<Longrightarrow> c \<in> set (snapshot_str s) \<Longrightarrow>
    may (Bracket letters) c \<or> may (Bracket (dataset_class @ [(CHR '':'', CHR '':'')])) c"
  using regex_chars [of snapshot_regex "snapshot_str s" c] may_at_most [of 254 _ c]
  unfolding snapshot_ok_def snapshot_regex_def may.simps(5) by blast

lemma snapshot_chars:
  assumes "snapshot_ok s"
  shows "newline \<notin> set (snapshot_str s)" "tab \<notin> set (snapshot_str s)"
  using snapshot_may [OF assms] separators(4-7) by blast+

lemma guid_chars: "newline \<notin> set (guid_str g)" "tab \<notin> set (guid_str g)"
proof -
  have "is_digit c" if "c \<in> set (guid_str g)" for c
    using verify_guid_str [of g] that by (auto simp: verify_guid_def list_all_iff)
  then show "newline \<notin> set (guid_str g)" "tab \<notin> set (guid_str g)" by (force simp: is_digit_def)+
qed

lemma split_at:
  assumes "x \<notin> set u"
  shows "takeWhile (\<lambda>c. c \<noteq> x) (u @ x # v) = u" "dropWhile (\<lambda>c. c \<noteq> x) (u @ x # v) = x # v"
  using assms by (induction u) auto

lemma dropWhile_split: "dropWhile (\<lambda>c. c \<noteq> x) w = y # v \<Longrightarrow> y = x \<and> w = takeWhile (\<lambda>c. c \<noteq> x) w @ x # v"
  by (induction w) (auto split: if_splits)

lemma fromString_Inr:
  "fromString str = Inr dsn \<longleftrightarrow>
    dataset_ok (dsn_dataset dsn) \<and> snapshot_ok (dsn_snapshot dsn) \<and>
    str = dsn_str (dsn_dataset dsn) (dsn_snapshot dsn)"
proof
  assume "fromString str = Inr dsn"
  then show "dataset_ok (dsn_dataset dsn) \<and> snapshot_ok (dsn_snapshot dsn) \<and>
      str = dsn_str (dsn_dataset dsn) (dsn_snapshot dsn)"
    by (auto simp: fromString_def dsn_str_def bindR_eq_Inr DatasetName_Inr SnapshotName_Inr
        dest: dropWhile_split split: list.splits)
next
  assume "dataset_ok (dsn_dataset dsn) \<and> snapshot_ok (dsn_snapshot dsn) \<and>
      str = dsn_str (dsn_dataset dsn) (dsn_snapshot dsn)"
  then have "DatasetName (dataset_str (dsn_dataset dsn)) = Inr (dsn_dataset dsn)"
      "SnapshotName (snapshot_str (dsn_snapshot dsn)) = Inr (dsn_snapshot dsn)"
      "str = dataset_str (dsn_dataset dsn) @ CHR ''@'' # snapshot_str (dsn_snapshot dsn)"
      "CHR ''@'' \<notin> set (dataset_str (dsn_dataset dsn))"
    by (simp_all add: DatasetName_Inr SnapshotName_Inr dsn_str_def dataset_chars)
  then show "fromString str = Inr dsn"
    by (simp add: fromString_def split_at)
qed

text \<open>What \<^verbatim>\<open>zfs list -H -o name,guid\<close> prints for snapshots of a dataset.\<close>

definition snapshot_line :: "dataset_name \<Rightarrow> snapshot_name_guid \<Rightarrow> string" where
  "snapshot_line d s = dsn_str d (sng_name s) @ tab # guid_str (sng_guid s) @ [newline]"

definition listing :: "dataset_name \<Rightarrow> snapshot_name_guid list \<Rightarrow> string" where
  "listing d ss = concat (map (snapshot_line d) ss)"

definition sng_ok :: "snapshot_name_guid \<Rightarrow> bool" where
  "sng_ok s \<longleftrightarrow> snapshot_ok (sng_name s) \<and> guid_ok (sng_guid s)"

lemma listing_Cons: "listing d (s # ss) = dsn_str d (sng_name s) @ tab # guid_str (sng_guid s) @ newline # listing d ss"
  by (simp add: listing_def snapshot_line_def)

lemma snapshot_lines_listing:
  "dataset_ok d \<Longrightarrow> list_all sng_ok ss \<Longrightarrow> snapshot_lines d (listing d ss) out = Inr (out @ ss)"
proof (induction ss arbitrary: out)
  case Nil
  then show ?case by (simp add: listing_def snapshot_lines.simps)
next
  case (Cons s ss)
  let ?name = "dsn_str d (sng_name s)" and ?guid = "guid_str (sng_guid s)"
  have ok: "snapshot_ok (sng_name s)" "guid_ok (sng_guid s)" using Cons.prems by (simp_all add: sng_ok_def)
  have tabs: "tab \<notin> set ?name" "newline \<notin> set (?name @ tab # ?guid)"
    using dataset_chars [OF Cons.prems(1)] snapshot_chars [OF ok(1)] guid_chars [of "sng_guid s"]
    by (auto simp: dsn_str_def)
  have line: "takeWhile (\<lambda>c. c \<noteq> newline) (listing d (s # ss)) = ?name @ tab # ?guid"
      "dropWhile (\<lambda>c. c \<noteq> newline) (listing d (s # ss)) = newline # listing d ss"
    using split_at [OF tabs(2), of "listing d ss"] by (simp_all add: listing_Cons)
  moreover have "fromString ?name = Inr \<lparr> dsn_dataset = d, dsn_snapshot = sng_name s \<rparr>"
    using ok(1) Cons.prems(1) by (simp add: fromString_Inr)
  moreover have "SnapshotGuid ?guid = Inr (sng_guid s)" using ok(2) by (simp add: SnapshotGuid_Inr)
  moreover have "listing d (s # ss) \<noteq> []" by (simp add: listing_Cons)
  ultimately show ?case
    using Cons by (subst snapshot_lines.simps) (simp add: split_at [OF tabs(1)])
qed

lemma snapshot_lines_Inr:
  "snapshot_lines d str out = Inr r \<Longrightarrow>
    \<exists>ss. r = out @ ss \<and> str = listing d ss \<and> list_all sng_ok ss"
proof (induction d str out rule: snapshot_lines.induct)
  case (1 d str out)
  show ?case
  proof (cases "str = []")
    case True
    then show ?thesis using 1(2) by (auto simp: snapshot_lines.simps listing_def)
  next
    case False
    let ?line = "takeWhile (\<lambda>c. c \<noteq> newline) str" and ?rest = "dropWhile (\<lambda>c. c \<noteq> newline) str"
    let ?name = "takeWhile (\<lambda>c. c \<noteq> tab) ?line" and ?guid = "dropWhile (\<lambda>c. c \<noteq> tab) ?line"
    obtain dsn g where dsn: "?rest \<noteq> []" "?line \<noteq> []" "?guid \<noteq> []" "fromString ?name = Inr dsn"
        "SnapshotGuid (tl ?guid) = Inr g" "dsn_dataset dsn = d"
        "snapshot_lines d (tl ?rest) (out @ [\<lparr> sng_name = dsn_snapshot dsn, sng_guid = g \<rparr>]) = Inr r"
      using 1(2) False
      by (subst (asm) snapshot_lines.simps) (auto simp: Let_def bindR_eq_Inr simp del: bindR_simps split: if_splits)
    let ?s = "\<lparr> sng_name = dsn_snapshot dsn, sng_guid = g \<rparr>"
    obtain ss where ss: "r = (out @ [?s]) @ ss" "tl ?rest = listing d ss" "list_all sng_ok ss"
      using 1(1) [OF False refl refl dsn(1,2) refl refl dsn(3) _ dsn(7)] dsn(6) by auto
    have "str = ?line @ newline # listing d ss" "?line = ?name @ tab # tl ?guid"
      using dropWhile_split [of newline str] dropWhile_split [of tab ?line] dsn(1,3) ss(2)
      by (metis list.exhaust_sel)+
    then have "str = listing d (?s # ss)" "sng_ok ?s"
      using dsn(4,5,6) by (auto simp: fromString_Inr SnapshotGuid_Inr listing_Cons sng_ok_def)
    then show ?thesis using ss by (intro exI [of _ "?s # ss"]) simp
  qed
qed

lemma star_words:
  "in_star (lang (Seq (Bracket b) t)) w \<longleftrightarrow>
    (\<exists>cs. w = concat (map fst cs) \<and> list_all (\<lambda>(u, v). lang t v \<and> (\<exists>c. u = c # v \<and> in_bracket b c)) cs)"
proof
  assume "in_star (lang (Seq (Bracket b) t)) w"
  then show "\<exists>cs. w = concat (map fst cs) \<and>
      list_all (\<lambda>(u, v). lang t v \<and> (\<exists>c. u = c # v \<and> in_bracket b c)) cs"
  proof (induction rule: in_star.induct)
    case star_end
    then show ?case by (intro exI [of _ "[]"]) simp
  next
    case (star_more u v)
    then obtain cs c x where "v = concat (map fst cs)"
        "list_all (\<lambda>(u, v). lang t v \<and> (\<exists>c. u = c # v \<and> in_bracket b c)) cs"
        "u = c # x" "in_bracket b c" "lang t x"
      using bracket_Seq by blast
    then show ?case by (intro exI [of _ "(u, x) # cs"]) simp
  qed
next
  have "list_all (\<lambda>(u, v). lang t v \<and> (\<exists>c. u = c # v \<and> in_bracket b c)) cs \<Longrightarrow>
      in_star (lang (Seq (Bracket b) t)) (concat (map fst cs))" for cs :: "(string \<times> string) list"
  proof (induction cs)
    case (Cons p cs)
    then obtain c v where "fst p = c # v" "in_bracket b c" "lang t v" by (cases p) auto
    then have "lang (Seq (Bracket b) t) (fst p)" unfolding bracket_Seq by blast
    then show ?case using Cons star_more by simp
  qed (simp add: star_end)
  then show "\<exists>cs. w = concat (map fst cs) \<and>
      list_all (\<lambda>(u, v). lang t v \<and> (\<exists>c. u = c # v \<and> in_bracket b c)) cs \<Longrightarrow>
    in_star (lang (Seq (Bracket b) t)) w" by blast
qed

definition component :: "string \<Rightarrow> bool" where
  "component w \<longleftrightarrow> w \<noteq> [] \<and> list_all (in_bracket dataset_class) w"

lemma in_bracket_one: "in_bracket [(x, x)] c \<longleftrightarrow> c = x"
proof -
  have "in_bracket [(x, x)] c \<longleftrightarrow> (of_char c :: nat) = of_char x" by (auto simp: in_bracket_def)
  then show ?thesis by simp
qed

lemma in_bracket_append: "in_bracket (b @ b') c \<longleftrightarrow> in_bracket b c \<or> in_bracket b' c"
  by (simp add: in_bracket_def)

lemma dataset_regex_iff:
  "regex_match dataset_regex w \<longleftrightarrow>
    (\<exists>c cs. w = c @ concat (map (\<lambda>x. CHR ''/'' # x) cs) \<and> component c \<and> list_all component cs)"
proof
  assume "regex_match dataset_regex w"
  then obtain c ps where "w = c @ concat (map fst ps)" "component c"
      "list_all (\<lambda>(u, v). component v \<and> (\<exists>c. u = c # v \<and> c = CHR ''/'')) ps"
    unfolding regex_match_iff dataset_regex_def lang.simps(5,6) star_words plus_bracket in_bracket_one component_def
    by blast
  moreover have "list_all (\<lambda>(u, v). component v \<and> (\<exists>c. u = c # v \<and> c = CHR ''/'')) ps \<Longrightarrow>
      concat (map fst ps) = concat (map (\<lambda>x. CHR ''/'' # x) (map snd ps)) \<and> list_all component (map snd ps)"
    by (induction ps) auto
  ultimately show "\<exists>c cs. w = c @ concat (map (\<lambda>x. CHR ''/'' # x) cs) \<and> component c \<and> list_all component cs"
    by blast
next
  assume "\<exists>c cs. w = c @ concat (map (\<lambda>x. CHR ''/'' # x) cs) \<and> component c \<and> list_all component cs"
  then obtain c cs where cs: "w = c @ concat (map (\<lambda>x. CHR ''/'' # x) cs)" "component c" "list_all component cs"
    by blast
  let ?ps = "map (\<lambda>x. (CHR ''/'' # x, x)) cs"
  have "concat (map (\<lambda>x. CHR ''/'' # x) cs) = concat (map fst ?ps)" by (simp add: comp_def)
  moreover have "list_all (\<lambda>(u, v). component v \<and> (\<exists>c. u = c # v \<and> c = CHR ''/'')) ?ps"
    using cs(3) by (auto simp: list_all_iff)
  ultimately show "regex_match dataset_regex w"
    unfolding regex_match_iff dataset_regex_def lang.simps(5,6) star_words plus_bracket in_bracket_one component_def
    using cs(1,2) unfolding component_def by blast
qed

lemma snapshot_regex_iff:
  "regex_match snapshot_regex w \<longleftrightarrow> w \<noteq> [] \<and> length w \<le> 255 \<and> in_bracket letters (hd w) \<and>
    list_all (\<lambda>c. in_bracket dataset_class c \<or> c = CHR '':'') (tl w)"
proof -
  have "in_bracket (dataset_class @ [(CHR '':'', CHR '':'')]) = (\<lambda>c. in_bracket dataset_class c \<or> c = CHR '':'')"
    by (simp add: fun_eq_iff in_bracket_append in_bracket_one)
  then show ?thesis
    unfolding regex_match_iff snapshot_regex_def bracket_Seq at_most_bracket by (cases w) auto
qed

text \<open>Every node of every repository has a valid name in the dataset.\<close>

lemma digit_class: "is_digit c \<Longrightarrow> in_bracket dataset_class c"
  by (simp add: is_digit_def class_simps)

lemma to_string_length: "0 < d \<Longrightarrow> n < 10 ^ d \<Longrightarrow> length (to_string n) \<le> d"
proof (induction n arbitrary: d rule: to_string.induct)
  case (1 n)
  show ?case
  proof (cases "n < 10")
    case True
    then show ?thesis using 1(2) by (subst to_string.simps) simp
  next
    case False
    then obtain e where e: "d = Suc e" "0 < e" using 1(2,3) by (cases d; cases "d - 1") auto
    then have "n div 10 < 10 ^ e" using 1(3) by (simp add: div_less_iff_less_mult)
    then show ?thesis using 1(1) [OF False, of e] e False by (subst to_string.simps) simp
  qed
qed

text \<open>
  C33. The regular expressions accept exactly: for a dataset one or more nonempty components
  joined by slashes, for a snapshot a letter followed by at most 254 characters of the class.
\<close>

theorem zfs_names:
  "(DatasetName str = Inr d \<longleftrightarrow> d = Dataset str \<and>
     (\<exists>c cs. str = c @ concat (map (\<lambda>x. CHR ''/'' # x) cs) \<and> component c \<and> list_all component cs)) \<and>
   (SnapshotName str = Inr s \<longleftrightarrow> s = Snapshot str \<and> str \<noteq> [] \<and> length str \<le> 255 \<and>
     in_bracket letters (hd str) \<and> list_all (\<lambda>c. in_bracket dataset_class c \<or> c = CHR '':'') (tl str))"
  by (auto simp: DatasetName_def SnapshotName_def dataset_regex_iff snapshot_regex_iff)

text \<open>
  C32. \<open>zfs_get_snapshots\<close> accepts exactly the output that lists snapshots of the dataset line by
  line, and returns them in its order; any other output is an error, among them a foreign
  dataset, a missing newline, an invalid name and a guid that is null or not canonical.
\<close>

theorem zfs_list_exact:
  assumes "dataset_ok d"
  shows "snapshot_lines d str [] = Inr ss \<longleftrightarrow> str = listing d ss \<and> list_all sng_ok ss"
  using snapshot_lines_listing [OF assms, of ss "[]"] snapshot_lines_Inr [of d str "[]" ss] by auto

theorem zfs_list_exact_witness:
  "snapshot_lines (Dataset ''tank'') (''tank@a'' @ tab # ''17'' @ [newline]) [] =
     Inr [\<lparr> sng_name = Snapshot ''a'', sng_guid = Guid 17 \<rparr>]"
proof -
  have "dataset_ok (Dataset ''tank'')"
    unfolding dataset_ok_def by code_simp
  moreover have "list_all sng_ok [\<lparr> sng_name = Snapshot ''a'', sng_guid = Guid 17 \<rparr>]"
    by (simp add: sng_ok_def snapshot_ok_def guid_ok_def snapshot_regex_iff class_simps)
  moreover have "to_string 17 = ''17''" by code_simp
  ultimately show ?thesis
    using zfs_list_exact [of "Dataset ''tank''" _ "[\<lparr> sng_name = Snapshot ''a'', sng_guid = Guid 17 \<rparr>]"]
    by (simp add: listing_def snapshot_line_def dsn_str_def guid_str_def)
qed

end
