(* ===== verification/ZfsDriver.thy ===== *)
theory ZfsDriver
  imports Zfs BackendDriver
begin

text \<open>
  \<^verbatim>\<open>src/ZfsDriver.hpp\<close> and \<^verbatim>\<open>ZfsDriver.cpp\<close>: the driver for a ZFS dataset as a value of the
  record \<open>driver\<close>, over the \<^verbatim>\<open>zfs\<close> program \<open>exec\<close> and the system clock \<open>clock\<close>, and the
  interpretation of the locale \<open>backend\<close> on it.
\<close>

section \<open>Identifiers\<close>

definition driverIdentityAndVersion :: uuid where
  "driverIdentityAndVersion = Uuid
     [0xe3, 0x7c, 0xfb, 0xbe, 0x35, 0x16, 0xaf, 0x29, 0xf4, 0x26, 0x7e, 0xc1, 0xdf, 0x50, 0xc1, 0x61]"

record snapshot_id =
  sid_node :: node
  sid_guid :: snapshot_guid
  sid_name :: snapshot_name
  sid_timestamp :: time_point

definition sid_pretty :: "snapshot_id \<Rightarrow> string" where
  "sid_pretty i = snapshot_str (sid_name i)"

definition sid_encoded :: "snapshot_id \<Rightarrow> encoded" where
  "sid_encoded i =
     \<lparr> encoded_bytes =
         serialise_array serialise_byte (uuid_bytes driverIdentityAndVersion) @
         serialise_string (guid_str (sid_guid i)) @
         serialise_string (snapshot_str (sid_name i)),
       encoded_node = sid_node i,
       encoded_timestamp = sid_timestamp i \<rparr>"

definition sid_fields :: "(bytes, bytes \<times> string \<times> string) prog" where
  "sid_fields =
     bindS (deserialise_array uuid_size deserialise_byte) (\<lambda>identity.
     bindS deserialise_string (\<lambda>guid.
     bindS deserialise_string (\<lambda>name. retS (identity, guid, name))))"

definition parseNoVerify :: "encoded \<Rightarrow> snapshot_id result" where
  "parseNoVerify e =
     bindR (fst (sid_fields (encoded_bytes e))) (\<lambda>(identity, guid, name).
       if Uuid identity \<noteq> driverIdentityAndVersion
       then Inl (RuntimeError ''Driver identity or version mismatch when decoding encoded snapshot'')
       else
         bindR (SnapshotGuid guid) (\<lambda>g.
         bindR (SnapshotName name) (\<lambda>s.
           Inr \<lparr> sid_node = encoded_node e, sid_guid = g, sid_name = s,
                 sid_timestamp = encoded_timestamp e \<rparr>)))"

section \<open>The driver\<close>

record driver_arguments =
  da_zfsCommand :: "string list"
  da_datasetName :: string
  da_receive0_args :: "string list option"
  da_receiven_args :: "string list option"

record zfs_backend =
  zfsCommand :: command
  zfsDataset :: dataset_name
  receive0_args :: "string list option"
  receiven_args :: "string list option"

definition ZfsBackendDriverImpl :: "driver_arguments \<Rightarrow> zfs_backend result" where
  "ZfsBackendDriverImpl da =
     bindR (command_of_args (da_zfsCommand da)) (\<lambda>c.
     bindR (DatasetName (da_datasetName da)) (\<lambda>d.
       Inr \<lparr> zfsCommand = c, zfsDataset = d,
             receive0_args = da_receive0_args da, receiven_args = da_receiven_args da \<rparr>))"

definition castAndVerify :: "'b exec \<Rightarrow> zfs_backend \<Rightarrow> snapshot_id \<Rightarrow> ('b, snapshot_id) prog" where
  "castAndVerify exec z i =
     bindS
       (catchS (zfs_get_guid exec (zfsCommand z) (zfsDataset z) (sid_name i))
          (\<lambda>err. case err of
             CommandFailed _ _ \<Rightarrow> throwS (SnapshotDoesNotExist (''Snapshot does not exist: '' @ sid_pretty i))
           | _ \<Rightarrow> throwS err))
       (\<lambda>guid.
          if guid \<noteq> sid_guid i
          then throwS (SnapshotInvalid (''Snapshot invalid ('' @ sid_pretty i @ ''): '' @
            ''Snapshot GUID mismatch; the snapshot has changed since being created (expected guid: '' @
            guid_str (sid_guid i) @ ''; actual guid: '' @ guid_str guid @ '').''))
          else retS i)"

definition zd_verify :: "'b exec \<Rightarrow> zfs_backend \<Rightarrow> snapshot_id \<Rightarrow> ('b, unit) prog" where
  "zd_verify exec z i = thenS (castAndVerify exec z i) (retS ())"

definition zd_exists :: "'b exec \<Rightarrow> zfs_backend \<Rightarrow> snapshot_id \<Rightarrow> ('b, bool) prog" where
  "zd_exists exec z i =
     catchS (thenS (castAndVerify exec z i) (retS True))
       (\<lambda>e. case e of SnapshotDoesNotExist _ \<Rightarrow> retS False | _ \<Rightarrow> throwS e)"

text \<open>\<open>maybe_exception\<close> is what \<^verbatim>\<open>zfs snapshot\<close> threw as a \<^verbatim>\<open>std::system_error\<close>.\<close>

definition snapshot_name_for :: "node \<Rightarrow> uuid \<Rightarrow> string" where
  "snapshot_name_for node uuid =
     ''diffmonger-'' @ to_string (unat (node_value node)) @ ''-'' @ ascii uuid"

definition zd_snapshot ::
  "'b exec \<Rightarrow> ('b \<Rightarrow> time_point) \<Rightarrow> zfs_backend \<Rightarrow> node \<Rightarrow> uuid \<Rightarrow> ('b, snapshot_id \<times> bool) prog" where
  "zd_snapshot exec clock z node uuid =
     bindS (liftR (SnapshotName (snapshot_name_for node uuid))) (\<lambda>name.
     bindS
       (catchS (thenS (zfs_snapshot exec (zfsCommand z) (zfsDataset z) name) (retS None))
          (\<lambda>e. case e of SystemError _ _ \<Rightarrow> retS (Some e) | _ \<Rightarrow> throwS e)) (\<lambda>maybe_exception.
     catchS
       (bindS (zfs_get_guid exec (zfsCommand z) (zfsDataset z) name) (\<lambda>guid.
        bindS (getS clock) (\<lambda>timestamp.
          retS (\<lparr> sid_node = node, sid_guid = guid, sid_name = name, sid_timestamp = timestamp \<rparr>,
                maybe_exception \<noteq> None))))
       (\<lambda>e. if is_runtime_error e
            then (case maybe_exception of Some e' \<Rightarrow> throwS e' | None \<Rightarrow> throwS e)
            else throwS e)))"

definition zd_remove_snapshot :: "'b exec \<Rightarrow> zfs_backend \<Rightarrow> snapshot_id \<Rightarrow> ('b, unit) prog" where
  "zd_remove_snapshot exec z i =
     bindS (castAndVerify exec z i) (\<lambda>v. zfs_remove_snapshot exec (zfsCommand z) (zfsDataset z) (sid_name v))"

definition writing :: "('b, 'a) prog \<Rightarrow> ('a \<Rightarrow> 'b stream_writer) \<Rightarrow> 'b stream_writer" where
  "writing m w b = (case m b of (Inl e, b') \<Rightarrow> ([], Inl e, b') | (Inr x, b') \<Rightarrow> w x b')"

definition zd_initial :: "'b exec \<Rightarrow> zfs_backend \<Rightarrow> snapshot_id \<Rightarrow> 'b stream_writer" where
  "zd_initial exec z i =
     writing (castAndVerify exec z i) (\<lambda>v. zfs_send exec (zfsCommand z) (zfsDataset z) (sid_name v))"

definition zd_diff :: "'b exec \<Rightarrow> zfs_backend \<Rightarrow> snapshot_id \<Rightarrow> snapshot_id \<Rightarrow> 'b stream_writer" where
  "zd_diff exec z from to =
     writing (castAndVerify exec z from) (\<lambda>f.
     writing (castAndVerify exec z to) (\<lambda>t.
       zfs_diffsend exec (zfsCommand z) (zfsDataset z) (sid_name f) (sid_name t)))"

definition zd_restoreInitial :: "'b exec \<Rightarrow> zfs_backend \<Rightarrow> snapshot_id \<Rightarrow> bytes \<Rightarrow> ('b, unit) prog" where
  "zd_restoreInitial exec z i input =
     zfs_receive exec (zfsCommand z) (zfsDataset z) (sid_name i) input
       (''-F'' # (case receive0_args z of None \<Rightarrow> [] | Some extra \<Rightarrow> extra))"

definition zd_restoreDiff ::
  "'b exec \<Rightarrow> zfs_backend \<Rightarrow> snapshot_id \<Rightarrow> snapshot_id \<Rightarrow> bytes \<Rightarrow> ('b, unit) prog" where
  "zd_restoreDiff exec z from to input =
     thenS (castAndVerify exec z from)
       (zfs_receive exec (zfsCommand z) (zfsDataset z) (sid_name to) input
         (''-F'' # (case receiven_args z of None \<Rightarrow> [] | Some extra \<Rightarrow> extra)))"

definition zd_version :: "'b exec \<Rightarrow> zfs_backend \<Rightarrow> ('b, string) prog" where
  "zd_version exec z = zfs_version_info exec (zfsCommand z)"

definition zfs_driver :: "'b exec \<Rightarrow> ('b \<Rightarrow> time_point) \<Rightarrow> zfs_backend \<Rightarrow> ('b, snapshot_id) driver" where
  "zfs_driver exec clock z =
     \<lparr> drv_snapshot = zd_snapshot exec clock z,
       drv_verify = zd_verify exec z,
       drv_exists = zd_exists exec z,
       drv_remove_snapshot = zd_remove_snapshot exec z,
       drv_initial = zd_initial exec z,
       drv_diff = zd_diff exec z,
       drv_restoreInitial = zd_restoreInitial exec z,
       drv_restoreDiff = zd_restoreDiff exec z,
       drv_snapshotId = parseNoVerify,
       drv_encoded = sid_encoded,
       drv_getNode = sid_node,
       drv_pretty = sid_pretty \<rparr>"

text \<open>\<open>createFactory\<close>: the driver is constructed when a command needs it.\<close>

definition createFactory ::
  "'b exec \<Rightarrow> ('b \<Rightarrow> time_point) \<Rightarrow> driver_arguments \<Rightarrow> unit \<Rightarrow> ('b, snapshot_id) driver result" where
  "createFactory exec clock da = (\<lambda>_. bindR (ZfsBackendDriverImpl da) (\<lambda>z. Inr (zfs_driver exec clock z)))"

lemma zfs_driver_simps [simp]:
  "drv_snapshot (zfs_driver exec clock z) = zd_snapshot exec clock z"
  "drv_verify (zfs_driver exec clock z) = zd_verify exec z"
  "drv_exists (zfs_driver exec clock z) = zd_exists exec z"
  "drv_remove_snapshot (zfs_driver exec clock z) = zd_remove_snapshot exec z"
  "drv_initial (zfs_driver exec clock z) = zd_initial exec z"
  "drv_diff (zfs_driver exec clock z) = zd_diff exec z"
  "drv_restoreInitial (zfs_driver exec clock z) = zd_restoreInitial exec z"
  "drv_restoreDiff (zfs_driver exec clock z) = zd_restoreDiff exec z"
  "drv_snapshotId (zfs_driver exec clock z) = parseNoVerify"
  "drv_encoded (zfs_driver exec clock z) = sid_encoded"
  "drv_getNode (zfs_driver exec clock z) = sid_node"
  "drv_pretty (zfs_driver exec clock z) = sid_pretty"
  by (simp_all add: zfs_driver_def)

section \<open>The driver keeps the contract of a backend\<close>

definition sid_ok :: "snapshot_id \<Rightarrow> bool" where
  "sid_ok i \<longleftrightarrow> guid_ok (sid_guid i) \<and> snapshot_ok (sid_name i)"

lemma identity_bytes: "length (uuid_bytes driverIdentityAndVersion) = uuid_size"
  by (simp add: driverIdentityAndVersion_def uuid_size_def)

lemma sid_fields_Inr:
  "sid_fields data = (Inr (identity, guid, name), rest) \<longleftrightarrow>
    length identity = uuid_size \<and> length guid < 2 ^ 64 \<and> length name < 2 ^ 64 \<and>
    data = serialise_array serialise_byte identity @ serialise_string guid @ serialise_string name @ rest"
  unfolding sid_fields_def bindS_eq_Inr codec.accepts_iff [OF byte_array_codec] string_codec.accepts_iff
  by auto

lemma guid_str_length: "length (guid_str g) \<le> 20"
  unfolding guid_str_def by (rule to_string_length, simp, rule less_trans [OF unat_64_lt], simp)

lemma snapshot_ok_length: "snapshot_ok s \<Longrightarrow> length (snapshot_str s) \<le> 255"
  by (simp add: snapshot_ok_def snapshot_regex_iff)

lemma fst_eq_Inr: "fst p = Inr x \<longleftrightarrow> (\<exists>r. p = (Inr x, r))"
  by (cases p) auto

lemma parseNoVerify_Inr:
  "parseNoVerify e = Inr i \<longleftrightarrow> sid_ok i \<and> encoded_node e = sid_node i \<and> encoded_timestamp e = sid_timestamp i \<and>
    (\<exists>rest. encoded_bytes e = encoded_bytes (sid_encoded i) @ rest)"
proof
  assume "parseNoVerify e = Inr i"
  then obtain identity guid name rest where f:
      "sid_fields (encoded_bytes e) = (Inr (identity, guid, name), rest)"
      "Uuid identity = driverIdentityAndVersion" "SnapshotGuid guid = Inr (sid_guid i)"
      "SnapshotName name = Inr (sid_name i)" "encoded_node e = sid_node i" "encoded_timestamp e = sid_timestamp i"
    by (fastforce simp: parseNoVerify_def bindR_eq_Inr fst_eq_Inr split: if_splits)
  moreover have "identity = uuid_bytes driverIdentityAndVersion" using f(2) by (metis uuid.sel)
  ultimately show "sid_ok i \<and> encoded_node e = sid_node i \<and> encoded_timestamp e = sid_timestamp i \<and>
      (\<exists>rest. encoded_bytes e = encoded_bytes (sid_encoded i) @ rest)"
    by (auto simp: sid_fields_Inr sid_ok_def SnapshotGuid_Inr SnapshotName_Inr sid_encoded_def)
next
  assume a: "sid_ok i \<and> encoded_node e = sid_node i \<and> encoded_timestamp e = sid_timestamp i \<and>
      (\<exists>rest. encoded_bytes e = encoded_bytes (sid_encoded i) @ rest)"
  then obtain rest where rest: "encoded_bytes e = encoded_bytes (sid_encoded i) @ rest" by blast
  have "length (guid_str (sid_guid i)) < 2 ^ 64" "length (snapshot_str (sid_name i)) < 2 ^ 64"
    using guid_str_length [of "sid_guid i"] snapshot_ok_length [of "sid_name i"] a
    by (auto simp: sid_ok_def intro: le_less_trans)
  then have "sid_fields (encoded_bytes e) =
      (Inr (uuid_bytes driverIdentityAndVersion, guid_str (sid_guid i), snapshot_str (sid_name i)), rest)"
    by (simp add: sid_fields_Inr identity_bytes rest sid_encoded_def)
  moreover have "SnapshotGuid (guid_str (sid_guid i)) = Inr (sid_guid i)"
      "SnapshotName (snapshot_str (sid_name i)) = Inr (sid_name i)"
    using a by (simp_all add: sid_ok_def SnapshotGuid_Inr SnapshotName_Inr)
  ultimately show "parseNoVerify e = Inr i" using a by (simp add: parseNoVerify_def)
qed

lemma zfs_get_guid_Inr: "zfs_get_guid exec c d s b = (Inr g, b') \<Longrightarrow> guid_ok g"
  by (auto simp: zfs_get_guid_def Let_def bindS_eq_Inr SnapshotGuid_Inr split: if_splits)

lemma zd_snapshot_Inr:
  assumes "zd_snapshot exec clock z node uuid b = (Inr (i, old), b')"
  shows "sid_ok i \<and> sid_node i = node \<and> snapshot_str (sid_name i) = snapshot_name_for node uuid"
proof -
  obtain name m b1 where n: "SnapshotName (snapshot_name_for node uuid) = Inr name"
    "catchS
       (bindS (zfs_get_guid exec (zfsCommand z) (zfsDataset z) name) (\<lambda>guid.
        bindS (getS clock) (\<lambda>timestamp.
          retS (\<lparr> sid_node = node, sid_guid = guid, sid_name = name, sid_timestamp = timestamp \<rparr>, m \<noteq> None))))
       (\<lambda>e. if is_runtime_error e
            then (case m of Some e' \<Rightarrow> throwS e' | None \<Rightarrow> throwS e)
            else throwS e) b1 = (Inr (i, old), b')"
    using assms by (auto simp: zd_snapshot_def bindS_eq_Inr)
  then obtain g b2 where "zfs_get_guid exec (zfsCommand z) (zfsDataset z) name b1 = (Inr g, b2)"
      "sid_guid i = g" "sid_name i = name" "sid_node i = node"
    by (auto simp: catchS_def bindS_def split: prod.splits sum.splits if_splits option.splits)
  then show ?thesis using n(1) zfs_get_guid_Inr by (auto simp: sid_ok_def SnapshotName_Inr)
qed

interpretation zfs: backend "zd_snapshot exec clock z" parseNoVerify sid_encoded sid_node sid_ok
  for exec clock z
proof unfold_locales
  fix i e
  show "sid_node i = encoded_node (sid_encoded i)" by (simp add: sid_encoded_def)
  show "sid_ok i \<Longrightarrow> parseNoVerify (sid_encoded i) = Inr i"
    by (auto simp: parseNoVerify_Inr) (simp_all add: sid_encoded_def)
  show "parseNoVerify e = Inr i \<Longrightarrow> encoded_node (sid_encoded i) = encoded_node e"
    by (simp add: parseNoVerify_Inr sid_encoded_def)
  show "parseNoVerify e = Inr i \<Longrightarrow> sid_ok i" by (simp add: parseNoVerify_Inr)
  show "encoded_ok (sid_encoded i)" if ok: "sid_ok i"
  proof -
    have "length (encoded_bytes (sid_encoded i)) \<le> 16 + (8 + 20) + (8 + 255)"
      using guid_str_length [of "sid_guid i"] snapshot_ok_length [of "sid_name i"] ok
      by (simp add: sid_encoded_def serialise_array_def serialise_bytes serialise_string_def
          serialise_int_def identity_bytes uuid_size_def sid_ok_def)
    then show ?thesis by (auto simp: encoded_ok_def vector_ok_def max_size_def intro: order_trans)
  qed
next
  fix uuid node b i old b'
  assume "zd_snapshot exec clock z node uuid b = (Inr (i, old), b')"
  from zd_snapshot_Inr [OF this] show "sid_node i = node \<and> sid_ok i" by simp
qed

section \<open>The names of the nodes\<close>

lemma hex_class: "list_all (in_bracket dataset_class) hex"
  by code_simp

lemma in_hex: "c \<in> set hex \<Longrightarrow> in_bracket dataset_class c"
  using hex_class by (simp add: list_all_iff)

lemma ascii_loop_class: "list_all (in_bracket dataset_class) (ascii_loop bs [])"
proof (induction bs)
  case (Cons b bs)
  have n: "unat b div 16 < 16" "unat b mod 16 < 16" using unat_8_lt [of b] by simp_all
  then have "hex ! (unat b div 16) \<in> set hex" "hex ! (unat b mod 16) \<in> set hex"
    by (metis length_hex nth_mem)+
  then show ?case using Cons by (simp add: ascii_loop_Cons in_hex del: ascii_loop.simps)
qed simp

lemma digits_class: "list_all (in_bracket dataset_class) (to_string n)"
  using to_string_digits [of n] digit_class by (auto simp: list_all_iff)

lemma prefix_class: "list_all (in_bracket dataset_class) ''diffmonger-''" "in_bracket letters (CHR ''d'')"
  by (simp_all add: class_simps)

lemma snapshot_name_for_ok:
  assumes "uuid_ok uuid"
  shows "regex_match snapshot_regex (snapshot_name_for node uuid)"
proof -
  let ?rest = "''iffmonger-'' @ to_string (unat (node_value node)) @ ''-'' @ ascii uuid"
  have "length (to_string (unat (node_value node))) \<le> 20"
    by (rule to_string_length, simp, rule less_trans [OF unat_64_lt], simp)
  then have "length ?rest \<le> 254" using length_ascii [OF assms] by simp
  moreover have "list_all (in_bracket dataset_class) ?rest"
    using prefix_class(1) digits_class ascii_loop_class by (simp add: ascii_def)
  moreover have "snapshot_name_for node uuid = CHR ''d'' # ?rest" by (simp add: snapshot_name_for_def)
  ultimately show ?thesis using prefix_class(2) by (auto simp: snapshot_regex_iff list_all_iff)
qed

lemma digits_split:
  "list_all is_digit u \<Longrightarrow> list_all is_digit v \<Longrightarrow> u @ CHR ''-'' # x = v @ CHR ''-'' # y \<Longrightarrow> u = v \<and> x = y"
proof (induction u arbitrary: v)
  case Nil
  then show ?case by (cases v) (auto simp: is_digit_def)
next
  case (Cons c u)
  then show ?case by (cases v) (auto simp: is_digit_def)
qed

lemma snapshot_name_for_inject:
  "snapshot_name_for n u = snapshot_name_for m v \<longleftrightarrow> n = m \<and> u = v"
proof
  assume "snapshot_name_for n u = snapshot_name_for m v"
  then have "to_string (unat (node_value n)) @ CHR ''-'' # ascii u = to_string (unat (node_value m)) @ CHR ''-'' # ascii v"
    by (simp add: snapshot_name_for_def)
  from digits_split [OF to_string_digits to_string_digits this]
  show "n = m \<and> u = v" by (simp add: ascii_inject word_unat_eq_iff node.expand)
qed simp

section \<open>Properties\<close>

text \<open>
  C31. For every node and every repository the name of the snapshot is one ZFS accepts, of at most
  64 characters, and no two nodes or repositories share a name.
\<close>

theorem zfs_node_names:
  assumes "uuid_ok u"
  shows "SnapshotName (snapshot_name_for n u) = Inr (Snapshot (snapshot_name_for n u)) \<and>
    length (snapshot_name_for n u) \<le> 64 \<and>
    (\<forall>m v. snapshot_name_for m v = snapshot_name_for n u \<longrightarrow> m = n \<and> v = u)"
proof -
  have "length (to_string (unat (node_value n))) \<le> 20"
    by (rule to_string_length, simp, rule less_trans [OF unat_64_lt], simp)
  then have "length (snapshot_name_for n u) \<le> 64"
    using length_ascii [OF assms] by (simp add: snapshot_name_for_def)
  then show ?thesis
    using snapshot_name_for_ok [OF assms] by (simp add: SnapshotName_def snapshot_name_for_inject)
qed

theorem zfs_node_names_witness:
  "uuid_ok (Uuid (replicate 16 5)) \<and>
   length (snapshot_name_for (Node 7) (Uuid (replicate 16 5))) \<le> 64"
  using zfs_node_names [of "Uuid (replicate 16 5)" "Node 7"] by (simp add: uuid_ok_def uuid_size_def)

text \<open>
  C30. What the repository stores of an identifier of the driver gives it back, and the driver
  decodes no other bytes to it but its encoding with something behind it.
\<close>

theorem zfs_identifier_roundtrip:
  assumes "sid_ok i"
  shows "bindR (encoded_deserialise (encoded_serialise (sid_encoded i))) parseNoVerify = Inr i \<and>
    (\<forall>e. parseNoVerify e = Inr i \<longleftrightarrow> encoded_node e = sid_node i \<and> encoded_timestamp e = sid_timestamp i \<and>
      (\<exists>rest. encoded_bytes e = encoded_bytes (sid_encoded i) @ rest))"
  using zfs.stored_identifier [OF assms] assms by (simp add: parseNoVerify_Inr)

definition sample_id :: snapshot_id where
  "sample_id = \<lparr> sid_node = Node 3, sid_guid = Guid 17, sid_name = Snapshot ''a'', sid_timestamp = TimePoint 1000 \<rparr>"

lemma sample_id_ok: "sid_ok sample_id"
  by (simp add: sid_ok_def sample_id_def guid_ok_def snapshot_ok_def snapshot_regex_iff class_simps)

theorem zfs_identifier_roundtrip_witness:
  "bindR (encoded_deserialise (encoded_serialise (sid_encoded sample_id))) parseNoVerify = Inr sample_id"
  using zfs_identifier_roundtrip [OF sample_id_ok] by simp

text \<open>
  C29. The driver acts on a snapshot only when \<^verbatim>\<open>zfs\<close> reports the guid it was created with:
  when it reports anything else, removing, sending, comparing and restoring on top of it all
  throw, no byte is written, and nothing is run after the query.
\<close>

theorem zfs_acts_on_verified:
  assumes "zfs_get_guid exec (zfsCommand z) (zfsDataset z) (sid_name i) b = (r, b')" and "r \<noteq> Inr (sid_guid i)"
  shows "\<exists>e. zd_verify exec z i b = (Inl e, b') \<and>
    zd_remove_snapshot exec z i b = (Inl e, b') \<and>
    zd_initial exec z i b = ([], Inl e, b') \<and>
    (\<forall>j. zd_diff exec z i j b = ([], Inl e, b')) \<and>
    (\<forall>j b0. castAndVerify exec z j b0 = (Inr j, b) \<longrightarrow> zd_diff exec z j i b0 = ([], Inl e, b')) \<and>
    (\<forall>j input. zd_restoreDiff exec z i j input b = (Inl e, b'))"
proof -
  have "\<exists>e. castAndVerify exec z i b = (Inl e, b')"
    using assms by (cases r) (auto simp: castAndVerify_def bindS_def catchS_def split: exn.split)
  then obtain e where "castAndVerify exec z i b = (Inl e, b')" by blast
  then show ?thesis
    by (intro exI [of _ e])
      (simp add: zd_verify_def zd_remove_snapshot_def zd_initial_def zd_diff_def writing_def zd_restoreDiff_def)
qed

text \<open>A \<^verbatim>\<open>zfs\<close> that refuses every call and counts them.\<close>

definition refusing :: "nat exec" where
  "refusing path argv stdin n = (Ran [] (exited 1), Suc n)"

definition sample_zfs :: zfs_backend where
  "sample_zfs = \<lparr> zfsCommand = \<lparr> cmd = ''zfs'', args = [''zfs''] \<rparr>, zfsDataset = Dataset ''tank'',
     receive0_args = None, receiven_args = None \<rparr>"

lemma exited_1: "wait_or_throw name (exited 1) \<noteq> Inr ()"
  by (simp add: wait_or_throw_Inr WIFEXITED_def WEXITSTATUS_def WTERMSIG_def exited_def)

lemma refusing_guid:
  "\<exists>e. zfs_get_guid refusing (zfsCommand sample_zfs) d s n = (Inl e, Suc n)"
proof -
  show ?thesis
    using exited_1
    by (auto simp: zfs_get_guid_def Let_def systemvp_strchomp_def systemvp_str_def systemvp3_def bindS_def
        thenS_def extend_args_def sample_zfs_def refusing_def split: sum.splits)
qed

theorem zfs_acts_on_verified_witness:
  "\<exists>e. zd_remove_snapshot refusing sample_zfs sample_id 0 = (Inl e, 1)"
proof -
  obtain e where "zfs_get_guid refusing (zfsCommand sample_zfs) (zfsDataset sample_zfs) (sid_name sample_id) 0 = (Inl e, Suc 0)"
    using refusing_guid by blast
  from zfs_acts_on_verified [OF this] show ?thesis by auto
qed

end
