(* ===== verification/Ioutil.thy ===== *)
theory Ioutil
  imports Prelude "HOL-Library.Sublist"
begin

text \<open>
  \<^verbatim>\<open>diffmonger/util/ioutil.hpp\<close> and \<^verbatim>\<open>ioutil.cpp\<close>: the loops around \<^verbatim>\<open>read\<close> and \<^verbatim>\<open>write\<close>, over a
  descriptor whose calls may be interrupted, fail, or move fewer bytes than asked for.
\<close>

section \<open>A descriptor\<close>

text \<open>
  \<open>unread\<close> is what can still be read up to the end of the file, \<open>output\<close> what has been written.
  \<open>script\<close> is what happens to the next calls; when it is used up, every call moves all it can.
\<close>

datatype io_event = Partial nat | Interrupted | Broken errno

record io_fd =
  unread :: bytes
  output_bytes :: bytes
  script :: "io_event list"

definition sys_read :: "nat \<Rightarrow> 'z io_fd_scheme \<Rightarrow> (errno + bytes) \<times> 'z io_fd_scheme" where
  "sys_read n s =
     (case script s of
        [] \<Rightarrow> (Inr (take n (unread s)), s\<lparr>unread := drop n (unread s)\<rparr>)
      | Partial k # rest \<Rightarrow>
          (let m = min n (max 1 k) in
           (Inr (take m (unread s)), s\<lparr>unread := drop m (unread s), script := rest\<rparr>))
      | Interrupted # rest \<Rightarrow> (Inl EINTR, s\<lparr>script := rest\<rparr>)
      | Broken e # rest \<Rightarrow> (Inl e, s\<lparr>script := rest\<rparr>))"

text \<open>\<^verbatim>\<open>write\<close> returns how many bytes it has written.\<close>

definition sys_write :: "bytes \<Rightarrow> 'z io_fd_scheme \<Rightarrow> (errno + nat) \<times> 'z io_fd_scheme" where
  "sys_write bytes s =
     (case script s of
        [] \<Rightarrow> (Inr (length bytes), s\<lparr>output_bytes := output_bytes s @ bytes\<rparr>)
      | Partial k # rest \<Rightarrow>
          (let m = min k (length bytes) in
           (Inr m, s\<lparr>output_bytes := output_bytes s @ take m bytes, script := rest\<rparr>))
      | Interrupted # rest \<Rightarrow> (Inl EINTR, s\<lparr>script := rest\<rparr>)
      | Broken e # rest \<Rightarrow> (Inl e, s\<lparr>script := rest\<rparr>))"

section \<open>Writing\<close>

function write_secure :: "bytes \<Rightarrow> ('z io_fd_scheme, unit) prog" where
  "write_secure bytes s =
     (if bytes = [] then (Inr (), s)
      else case sys_write bytes s of
        (Inl e, s') \<Rightarrow> if e = EINTR then write_secure bytes s' else (Inl (SystemError e ''write() failed''), s')
      | (Inr nwritten, s') \<Rightarrow> write_secure (drop nwritten bytes) s')"
  by pat_completeness auto
termination
  by (relation "measure (\<lambda>(bytes, s). length bytes + length (script s))")
    (auto simp: sys_write_def Let_def split: list.splits io_event.splits)
declare write_secure.simps [simp del]

definition write_fd :: "bytes \<Rightarrow> ('z io_fd_scheme, unit) prog" where
  "write_fd bytes = write_secure bytes"

section \<open>Reading\<close>

text \<open>\<open>readBytes\<close> into a buffer of \<open>n\<close> bytes: what it has put there.\<close>

function read_loop :: "nat \<Rightarrow> bytes \<Rightarrow> ('z io_fd_scheme, bytes) prog" where
  "read_loop n got s =
     (if n = 0 then (Inr got, s)
      else case sys_read n s of
        (Inl e, s') \<Rightarrow> if e = EINTR then read_loop n got s' else (Inl (SystemError e ''read() failed''), s')
      | (Inr bs, s') \<Rightarrow> if bs = [] then (Inr got, s') else read_loop (n - length bs) (got @ bs) s')"
  by pat_completeness auto
termination
  by (relation "measure (\<lambda>(n, _, s). n + length (script s))")
    (auto simp: sys_read_def Let_def split: list.splits io_event.splits)
declare read_loop.simps [simp del]

definition readBytes :: "nat \<Rightarrow> ('z io_fd_scheme, bytes) prog" where
  "readBytes n = read_loop n []"

definition readBytesExact :: "nat \<Rightarrow> string \<Rightarrow> ('z io_fd_scheme, bytes) prog" where
  "readBytesExact n what =
     bindS (readBytes n) (\<lambda>bs. if length bs \<noteq> n then throwS (RuntimeError what) else retS bs)"

text \<open>\<open>consume\<close> calls \<open>f\<close>, which has a state of its own, on each buffer; \<open>None\<close> is the loop that never ends.\<close>

partial_function (option) io_consume ::
  "nat \<Rightarrow> (bytes \<Rightarrow> ('c, unit) prog) \<Rightarrow> 'z io_fd_scheme \<Rightarrow> 'c \<Rightarrow> (unit result \<times> 'z io_fd_scheme \<times> 'c) option" where
  "io_consume n f s c =
     (case readBytes n s of
        (Inl e, s') \<Rightarrow> Some (Inl e, s', c)
      | (Inr bs, s') \<Rightarrow>
          (case (if bs = [] then (Inr (), c) else f bs c) of
             (Inl e, c') \<Rightarrow> Some (Inl e, s', c')
           | (Inr _, c') \<Rightarrow> if length bs \<noteq> n then Some (Inr (), s', c') else io_consume n f s' c'))"

definition read_fd :: "nat \<Rightarrow> 'z io_fd_scheme \<Rightarrow> (bytes result \<times> 'z io_fd_scheme) option" where
  "read_fd bufsize s =
     (case io_consume bufsize (\<lambda>bs out. (Inr (), out @ bs)) s [] of
        None \<Rightarrow> None
      | Some (Inl e, s', _) \<Rightarrow> Some (Inl e, s')
      | Some (Inr _, s', out) \<Rightarrow> Some (Inr out, s'))"

section \<open>What the loops hide\<close>

definition unbroken :: "'z io_fd_scheme \<Rightarrow> bool" where
  "unbroken s \<longleftrightarrow> list_all (\<lambda>ev. case ev of Broken e \<Rightarrow> e = EINTR | _ \<Rightarrow> True) (script s)"

lemma sys_write_cases:
  assumes "sys_write bytes s = (w, t)" and "bytes \<noteq> []"
  shows "unread t = unread s \<and> (unbroken s \<longrightarrow> unbroken t) \<and> (case w of
      Inl e \<Rightarrow> output_bytes t = output_bytes s \<and> length (script t) < length (script s) \<and> (unbroken s \<longrightarrow> e = EINTR)
    | Inr m \<Rightarrow> output_bytes t = output_bytes s @ take m bytes \<and> m \<le> length bytes \<and>
        length (drop m bytes) + length (script t) < length bytes + length (script s))"
proof (cases "script s")
  case Nil
  then show ?thesis using assms by (auto simp: sys_write_def unbroken_def)
next
  case (Cons ev rest)
  show ?thesis
  proof (cases ev)
    case (Partial k)
    then have "w = Inr (min k (length bytes))"
        "t = s\<lparr>output_bytes := output_bytes s @ take (min k (length bytes)) bytes, script := rest\<rparr>"
      using assms(1) Cons by (simp_all add: sys_write_def Let_def)
    then show ?thesis using Cons Partial by (auto simp: unbroken_def)
  qed (use assms Cons in \<open>auto simp: sys_write_def unbroken_def\<close>)
qed

lemma write_secure_prefix:
  "write_secure bytes s = (r, s') \<Longrightarrow> \<exists>n. output_bytes s' = output_bytes s @ take n bytes \<and>
    unread s' = unread s \<and> (r = Inr () \<longrightarrow> length bytes \<le> n) \<and> (unbroken s \<longrightarrow> r = Inr () \<and> unbroken s')"
proof (induction "length bytes + length (script s)" arbitrary: bytes s rule: less_induct)
  case less
  show ?case
  proof (cases "bytes = []")
    case True
    then show ?thesis using less.prems by (simp add: write_secure.simps)
  next
    case False
    obtain w t where w: "sys_write bytes s = (w, t)" by fastforce
    note t = sys_write_cases [OF w False]
    show ?thesis
    proof (cases w)
      case (Inl e)
      show ?thesis
      proof (cases "e = EINTR")
        case True
        then have "write_secure bytes t = (r, s')" using less.prems False w Inl by (simp add: write_secure.simps [of bytes s])
        moreover have "length bytes + length (script t) < length bytes + length (script s)" using t Inl by simp
        ultimately obtain n where "output_bytes s' = output_bytes t @ take n bytes" "unread s' = unread t"
            "r = Inr () \<longrightarrow> length bytes \<le> n" "unbroken t \<longrightarrow> r = Inr () \<and> unbroken s'"
          using less.hyps by blast
        then show ?thesis using t Inl by (intro exI [of _ n]) simp
      next
        case e: False
        then have "r = Inl (SystemError e ''write() failed'')" "s' = t"
          using less.prems False w Inl by (simp_all add: write_secure.simps [of bytes s])
        then show ?thesis using t e Inl by (intro exI [of _ 0]) auto
      qed
    next
      case (Inr m)
      have "write_secure (drop m bytes) t = (r, s')" using less.prems False w Inr by (simp add: write_secure.simps [of bytes s])
      moreover have "length (drop m bytes) + length (script t) < length bytes + length (script s)"
        using t unfolding Inr sum.case by blast
      ultimately obtain n where "output_bytes s' = output_bytes t @ take n (drop m bytes)" "unread s' = unread t"
          "r = Inr () \<longrightarrow> length (drop m bytes) \<le> n" "unbroken t \<longrightarrow> r = Inr () \<and> unbroken s'"
        using less.hyps by blast
      then show ?thesis using t Inr by (intro exI [of _ "m + n"]) (simp add: take_add, linarith)
    qed
  qed
qed

lemma sys_read_cases:
  assumes "sys_read n s = (w, t)" and "n \<noteq> 0"
  shows "output_bytes t = output_bytes s \<and> (unbroken s \<longrightarrow> unbroken t) \<and> (case w of
      Inl e \<Rightarrow> unread t = unread s \<and> length (script t) < length (script s) \<and> (unbroken s \<longrightarrow> e = EINTR)
    | Inr bs \<Rightarrow> length (script t) \<le> length (script s) \<and>
        (\<exists>m. 0 < m \<and> m \<le> n \<and> bs = take m (unread s) \<and> unread t = drop m (unread s)))"
proof (cases "script s")
  case Nil
  then show ?thesis using assms by (auto simp: sys_read_def unbroken_def intro: exI [of _ n])
next
  case (Cons ev rest)
  show ?thesis
  proof (cases ev)
    case (Partial k)
    then have "w = Inr (take (min n (max 1 k)) (unread s))" "t = s\<lparr>unread := drop (min n (max 1 k)) (unread s), script := rest\<rparr>"
      using assms(1) Cons by (simp_all add: sys_read_def Let_def)
    moreover have "0 < min n (max 1 k)" "min n (max 1 k) \<le> n" using assms(2) by simp_all
    ultimately show ?thesis using Cons Partial by (auto simp: unbroken_def intro!: exI [of _ "min n (max 1 k)"])
  qed (use assms Cons in \<open>auto simp: sys_read_def unbroken_def\<close>)
qed

lemma read_loop_take:
  "unbroken s \<Longrightarrow> \<exists>s'. read_loop n got s = (Inr (got @ take n (unread s)), s') \<and> unread s' = drop n (unread s) \<and>
    unbroken s' \<and> output_bytes s' = output_bytes s"
proof (induction "n + length (script s)" arbitrary: n got s rule: less_induct)
  case less
  show ?case
  proof (cases "n = 0")
    case True
    then show ?thesis using less.prems by (simp add: read_loop.simps)
  next
    case False
    obtain w t where w: "sys_read n s = (w, t)" by fastforce
    note t = sys_read_cases [OF w False]
    show ?thesis
    proof (cases w)
      case (Inl e)
      then have e: "e = EINTR" "unbroken t" "unread t = unread s" "output_bytes t = output_bytes s"
          "n + length (script t) < n + length (script s)"
        using t less.prems by simp_all
      then have "read_loop n got s = read_loop n got t" using False w Inl by (simp add: read_loop.simps [of n got s])
      then show ?thesis using less.hyps [OF e(5,2), of got] e by simp
    next
      case (Inr bs)
      then obtain m where m: "0 < m" "m \<le> n" "bs = take m (unread s)" "unread t = drop m (unread s)"
          "output_bytes t = output_bytes s" "unbroken t" "length (script t) \<le> length (script s)"
        using t less.prems by auto
      show ?thesis
      proof (cases "bs = []")
        case True
        then show ?thesis using False w Inr m by (simp add: read_loop.simps [of n got s])
      next
        case ne: False
        have "read_loop n got s = read_loop (n - length bs) (got @ bs) t"
          using False w Inr ne by (simp add: read_loop.simps [of n got s])
        moreover have "n - length bs + length (script t) < n + length (script s)"
          using m(7) ne False by (cases bs) auto
        then obtain s' where "read_loop (n - length bs) (got @ bs) t =
            (Inr ((got @ bs) @ take (n - length bs) (unread t)), s')"
            "unread s' = drop (n - length bs) (unread t)" "unbroken s'" "output_bytes s' = output_bytes t"
          using less.hyps m(6) by blast
        moreover have "bs @ take (n - length bs) (unread t) = take n (unread s)"
            "drop (n - length bs) (unread t) = drop n (unread s)"
          using m(2-4) by (cases "m \<le> length (unread s)"; simp flip: take_add)+
        ultimately show ?thesis using m(5) by simp
      qed
    qed
  qed
qed

text \<open>The chunks of a buffer's size that \<open>consume\<close> cuts its input into.\<close>

function chunks :: "nat \<Rightarrow> bytes \<Rightarrow> bytes list" where
  "chunks n bs = (if n = 0 \<or> bs = [] then [] else take n bs # chunks n (drop n bs))"
  by pat_completeness auto
termination
  by (relation "measure (\<lambda>(_, bs). length bs)") auto
declare chunks.simps [simp del]

lemma chunks_concat: "0 < n \<Longrightarrow> concat (chunks n bs) = bs"
  by (induction n bs rule: chunks.induct, subst chunks.simps) simp

lemma readBytes_take:
  "unbroken s \<Longrightarrow> \<exists>s'. readBytes n s = (Inr (take n (unread s)), s') \<and> unread s' = drop n (unread s) \<and> unbroken s'"
  using read_loop_take [of s n "[]"] by (auto simp: readBytes_def)

lemma consume_chunks:
  assumes "0 < n" and "unbroken s"
  shows "\<exists>s'. io_consume n f s c = Some (fst (forS f (chunks n (unread s)) c), s', snd (forS f (chunks n (unread s)) c)) \<and>
    (fst (forS f (chunks n (unread s)) c) = Inr () \<longrightarrow> unread s' = [])"
  using assms(2)
proof (induction "length (unread s)" arbitrary: s c rule: less_induct)
  case less
  obtain t where t: "readBytes n s = (Inr (take n (unread s)), t)" "unread t = drop n (unread s)" "unbroken t"
    using readBytes_take [OF less.prems] by blast
  show ?case
  proof (cases "unread s = []")
    case True
    then show ?thesis using t assms(1) by (subst io_consume.simps) (simp add: chunks.simps)
  next
    case False
    let ?bs = "take n (unread s)"
    have ne: "?bs \<noteq> []" using False assms(1) by simp
    have ch: "chunks n (unread s) = ?bs # chunks n (unread t)"
      using False assms(1) t(2) by (subst chunks.simps) simp
    obtain r c' where f: "f ?bs c = (r, c')" by fastforce
    show ?thesis
    proof (cases r)
      case (Inl e)
      then show ?thesis using t(1) ne f unfolding ch by (subst io_consume.simps) simp
    next
      case (Inr u)
      have fc: "forS f (chunks n (unread s)) c = forS f (chunks n (unread t)) c'"
        unfolding ch using f Inr by simp
      show ?thesis
      proof (cases "length ?bs = n")
        case True
        have "length (unread t) < length (unread s)" using False assms(1) t(2) by simp
        from less.hyps [OF this t(3)] show ?thesis
          unfolding fc using t(1) ne f Inr True by (subst io_consume.simps) simp
      next
        case short: False
        then have "unread t = []" using t(2) by (simp add: min_def split: if_splits)
        then have "forS f (chunks n (unread t)) c' = (Inr (), c')" by (simp add: chunks.simps)
        moreover have "io_consume n f s c = Some (Inr (), t, c')"
          using t(1) ne f Inr short by (subst io_consume.simps) (simp del: length_take)
        ultimately show ?thesis unfolding fc using \<open>unread t = []\<close> by simp
      qed
    qed
  qed
qed

lemma append_all: "forS (\<lambda>bs out. (Inr (), out @ bs)) xs out = (Inr (), out @ concat xs)"
  by (induction xs arbitrary: out) simp_all

lemma read_all:
  assumes "0 < n" and "unbroken s"
  shows "\<exists>s'. read_fd n s = Some (Inr (unread s), s')"
  using consume_chunks [OF assms, of "\<lambda>bs out. (Inr (), out @ bs)" "[]"]
  by (auto simp: read_fd_def append_all chunks_concat [OF assms(1)])

text \<open>With an empty buffer the loop of \<open>consume\<close> never ends.\<close>

lemma consume_empty_buffer: "io_consume 0 f s c = None"
proof -
  have "n \<noteq> 0" if "io_consume n f s c = Some r" for n r
  proof (rule io_consume.raw_induct [OF _ that, where P = "\<lambda>n f s c r. n \<noteq> 0"], rule notI, goal_cases)
    case (1 rec n f s c r)
    then have "rec n f s c = Some r" by (simp add: readBytes_def read_loop.simps [of 0])
    then show False using 1(1) \<open>n = 0\<close> by blast
  qed
  then show ?thesis by (metis not_Some_eq)
qed

text \<open>
  C36. However often the calls on a descriptor are interrupted or move less than asked for, as
  long as none fails otherwise: \<open>write\<close> writes exactly its bytes, \<open>readBytes\<close> returns the next
  \<open>n\<close> bytes or all there are, \<open>readBytesExact\<close> returns them or throws when there are fewer,
  \<open>consume\<close> hands the rest of the file on in chunks of the buffer's size with a shorter last one, and
  \<open>read\<close> returns the rest of the file. With an empty buffer \<open>read\<close> never returns. When a call does
  fail, \<open>write\<close> has written a prefix of its bytes.
\<close>
theorem io_loops:
  assumes "unbroken s" and "0 < k"
  shows "(\<exists>s'. write_fd bs s = (Inr (), s') \<and> output_bytes s' = output_bytes s @ bs) \<and>
    (\<exists>s'. readBytes n s = (Inr (take n (unread s)), s') \<and> unread s' = drop n (unread s)) \<and>
    fst (readBytesExact n what s) =
      (if n \<le> length (unread s) then Inr (take n (unread s)) else Inl (RuntimeError what)) \<and>
    (\<exists>s'. io_consume k f s c = Some (fst (forS f (chunks k (unread s)) c), s', snd (forS f (chunks k (unread s)) c))) \<and>
    concat (chunks k (unread s)) = unread s \<and>
    (\<exists>s'. read_fd k s = Some (Inr (unread s), s')) \<and> read_fd 0 s = None \<and>
    (\<forall>(t :: io_fd) r t'. write_fd bs t = (r, t') \<longrightarrow> prefix (output_bytes t') (output_bytes t @ bs))"
proof (intro conjI allI impI)
  show "\<exists>s'. write_fd bs s = (Inr (), s') \<and> output_bytes s' = output_bytes s @ bs"
    using write_secure_prefix [of bs s] assms(1) unfolding write_fd_def by (cases "write_secure bs s") auto
  show "\<exists>s'. readBytes n s = (Inr (take n (unread s)), s') \<and> unread s' = drop n (unread s)"
    using readBytes_take [OF assms(1)] by blast
  show "fst (readBytesExact n what s) =
      (if n \<le> length (unread s) then Inr (take n (unread s)) else Inl (RuntimeError what))"
    using readBytes_take [OF assms(1), of n] by (auto simp: readBytesExact_def)
  show "\<exists>s'. io_consume k f s c = Some (fst (forS f (chunks k (unread s)) c), s', snd (forS f (chunks k (unread s)) c))"
    using consume_chunks [OF assms(2,1), of f c] by blast
  show "concat (chunks k (unread s)) = unread s" by (rule chunks_concat [OF assms(2)])
  show "\<exists>s'. read_fd k s = Some (Inr (unread s), s')" by (rule read_all [OF assms(2,1)])
  show "read_fd 0 s = None" by (simp add: read_fd_def consume_empty_buffer)
next
  fix t :: io_fd and r t'
  assume "write_fd bs t = (r, t')"
  then obtain m where "output_bytes t' = output_bytes t @ take m bs"
    using write_secure_prefix unfolding write_fd_def by blast
  then show "prefix (output_bytes t') (output_bytes t @ bs)" by (simp add: take_is_prefix)
qed

lemma io_loops_witness:
  "fst (readBytes 3 \<lparr>unread = [1, 2, 3, 4], output_bytes = [], script = [Interrupted, Partial 1]\<rparr>) = Inr [1, 2, 3]"
  using io_loops [of "\<lparr>unread = [1, 2, 3, 4], output_bytes = [], script = [Interrupted, Partial 1]\<rparr>" 1 "[]" 3
      "[]" "\<lambda>_ u. (Inr (), u)" "()"]
  by (auto simp: unbroken_def)

end
