(* ===== verification/PasswordBuffer.thy ===== *)
theory PasswordBuffer
  imports Ioutil Text
begin

text \<open>
  \<^verbatim>\<open>diffmonger/util/PasswordBuffer.hpp\<close> and \<^verbatim>\<open>PasswordBuffer.cpp\<close>: memory for a password, page
  aligned, kept out of core dumps and swap, zeroed before it is released, and the routines that
  read a password into such memory from a descriptor or a terminal.
\<close>

section \<open>The process\<close>

text \<open>
  Memory calls as they succeed, the memory that has been released with what it held then, and
  what the machine answers: the page size, which allocations fit, how far an allocation is from
  a page border, what fresh memory holds, and whether \<^verbatim>\<open>madvise\<close> and \<^verbatim>\<open>mlock\<close> refuse a length. The
  calls on the terminal take their results from \<open>tty_script\<close>; when it is used up they succeed.
\<close>

datatype mem_call = DontDump nat | Lock nat | Unlock nat | DoDump nat

record pw_world = io_fd +
  page_size :: "errno + nat"
  can_alloc :: "nat \<Rightarrow> bool"
  misalignment :: nat
  fresh :: "nat \<Rightarrow> u8"
  madvise_refuses :: "nat \<Rightarrow> errno option"
  mlock_refuses :: "nat \<Rightarrow> errno option"
  mem_calls :: "mem_call list"
  freed :: "bytes list"
  console :: string
  echo_on :: bool
  canonical :: bool
  tty_script :: "errno option list"

record pw_options =
  tolerateSwapEnabled :: bool
  tolerateCoreDumps :: bool
  dodump_on_destruction :: bool
  unlock_on_destruction :: bool

definition default_options :: pw_options where
  "default_options = \<lparr>tolerateSwapEnabled = False, tolerateCoreDumps = False,
     dodump_on_destruction = False, unlock_on_destruction = False\<rparr>"

text \<open>\<open>storage\<close> is the memory from the page border on; the password is its first \<open>pw_length\<close> bytes.\<close>

record password_buffer =
  storage :: bytes
  pw_length :: nat
  pw_options :: pw_options
  unlock_required :: bool
  dodump_required :: bool

definition password :: "password_buffer \<Rightarrow> bytes" where
  "password b = take (pw_length b) (storage b)"

section \<open>Construction and destruction\<close>

definition getpagesize :: "(pw_world, nat) prog" where
  "getpagesize s = (case page_size s of
     Inl e \<Rightarrow> (Inl (SystemError e ''sysconf: _SC_PAGESIZE''), s) | Inr p \<Rightarrow> (Inr p, s))"

definition dump_warning :: string where
  "dump_warning = ''WARNING'' @ [CHR 0x0A] @
     ''Unable to madvise the password in memory with the madvise() system call.'' @ [CHR 0x0A] @
     ''This does not affect program correctness,'' @ [CHR 0x0A] @
     ''but it does mean that your password may be saved in a core dump file.'' @ [CHR 0x0A]"

definition swap_warning :: string where
  "swap_warning = ''WARNING'' @ [CHR 0x0A] @
     ''Unable to lock the password in memory with the mlock() system call.'' @ [CHR 0x0A] @
     ''This does not affect program correctness,'' @ [CHR 0x0A] @
     ''but it does mean that your password may be saved into swapspace.'' @ [CHR 0x0A] @
     ''If your swapspace is encrypted, then this should not be an issue,'' @ [CHR 0x0A] @
     ''but if your swapspace is /not/ encrypted, then you should'' @ [CHR 0x0A] @
     ''abort the program and fix the issue.'' @ [CHR 0x0A]"

definition new_storage :: "nat \<Rightarrow> (pw_world, bytes) prog" where
  "new_storage len =
     bindS getpagesize (\<lambda>pagesize.
       let nbytes = (len + 1 + pagesize - 1) mod 2 ^ 64 in
       bindS (getS (\<lambda>s. s)) (\<lambda>s.
         let padding = misalignment s mod pagesize in
         if \<not> can_alloc s nbytes then throwS BadAlloc
         else if nbytes < padding + (len + 1) mod 2 ^ 64
         then throwS (LogicError ''Could not align storage for password buffer'')
         else retS (map (fresh s) [0..<nbytes - padding])))"

text \<open>An exception in the constructor releases the memory, but does not run the destructor.\<close>

definition sys_mem :: "(pw_world \<Rightarrow> nat \<Rightarrow> errno option) \<Rightarrow> mem_call \<Rightarrow> nat \<Rightarrow> (pw_world, errno option) prog" where
  "sys_mem refuses c len s = (case refuses s len of
     Some e \<Rightarrow> (Inr (Some e), s) | None \<Rightarrow> (Inr None, s\<lparr>mem_calls := mem_calls s @ [c]\<rparr>))"

definition protect ::
  "(pw_world \<Rightarrow> nat \<Rightarrow> errno option) \<Rightarrow> mem_call \<Rightarrow> bool \<Rightarrow> string \<Rightarrow> string \<Rightarrow> bytes \<Rightarrow> nat \<Rightarrow> (pw_world, bool) prog" where
  "protect refuses c tolerated msg warning mem len =
     bindS (sys_mem refuses c len) (\<lambda>r. case r of
       None \<Rightarrow> retS True
     | Some e \<Rightarrow> if \<not> tolerated
         then thenS (modifyS (\<lambda>s. s\<lparr>freed := freed s @ [mem]\<rparr>)) (throwS (SystemError e msg))
         else thenS (modifyS (\<lambda>s. s\<lparr>console := console s @ warning\<rparr>)) (retS False))"

text \<open>The member \<open>options\<close> is not among the initializers: it keeps the default.\<close>

definition new_buffer :: "nat \<Rightarrow> pw_options \<Rightarrow> (pw_world, password_buffer) prog" where
  "new_buffer len options =
     bindS (new_storage len) (\<lambda>mem.
     bindS (protect madvise_refuses (DontDump len) (tolerateCoreDumps options)
              ''mdavise(,, MADV_DONTDUMP)'' dump_warning mem len) (\<lambda>undumped.
     bindS (protect mlock_refuses (Lock len) (tolerateSwapEnabled options)
              ''mlock'' swap_warning mem len) (\<lambda>locked.
     retS \<lparr>storage = mem, pw_length = len, pw_options = default_options,
       unlock_required = locked \<and> unlock_on_destruction options,
       dodump_required = undumped \<and> dodump_on_destruction options\<rparr>)))"

definition clear :: "password_buffer \<Rightarrow> password_buffer" where
  "clear b = b\<lparr>storage := replicate (pw_length b) 0 @ drop (pw_length b) (storage b)\<rparr>"

definition destroy :: "password_buffer \<Rightarrow> pw_world \<Rightarrow> pw_world" where
  "destroy b s =
     s\<lparr>mem_calls := mem_calls s @ (if unlock_required b then [Unlock (pw_length b)] else []) @
         (if dodump_required b then [DoDump (pw_length b)] else []),
       freed := freed s @ [storage (clear b)]\<rparr>"

section \<open>Operations\<close>

definition pw_write :: "password_buffer \<Rightarrow> (pw_world, unit) prog" where
  "pw_write b = write_secure (password b)"

definition poke :: "nat \<Rightarrow> bytes \<Rightarrow> password_buffer \<Rightarrow> password_buffer" where
  "poke i bs b = b\<lparr>storage := take i (storage b) @ bs @ drop (i + length bs) (storage b)\<rparr>"

definition resizedTo :: "nat \<Rightarrow> password_buffer \<Rightarrow> (pw_world, password_buffer) prog" where
  "resizedTo newlen b =
     bindS (new_buffer newlen (pw_options b)) (\<lambda>out.
       let n = min newlen (pw_length b) in
       retS (poke n [0] (poke 0 (take n (storage b)) out)))"

definition pw_clone :: "password_buffer \<Rightarrow> (pw_world, password_buffer) prog" where
  "pw_clone b = resizedTo (pw_length b) b"

text \<open>\<^verbatim>\<open>std::search\<close>: where the pattern first occurs, or the end.\<close>

fun search_pos :: "'a list \<Rightarrow> 'a list \<Rightarrow> nat" where
  "search_pos pat [] = 0"
| "search_pos pat (x # xs) = (if prefix pat (x # xs) then 0 else Suc (search_pos pat xs))"

definition size_minus :: "nat \<Rightarrow> nat \<Rightarrow> nat" where
  "size_minus a b = (a + 2 ^ 64 - b) mod 2 ^ 64"

text \<open>The new buffer replaces the old one, which is destroyed; when the new one cannot be made, unwinding destroys it.\<close>

definition grow :: "password_buffer \<Rightarrow> (pw_world, password_buffer) prog" where
  "grow b s = (case resizedTo (pw_length b * 2 mod 2 ^ 64) b s of
     (Inl e, s') \<Rightarrow> (Inl e, destroy b s') | (Inr b', s') \<Rightarrow> (Inr b', destroy b s'))"

section \<open>What the memory routines keep\<close>

text \<open>
  The machine does not change, and memory is released only \<open>clean\<close>: each of its bytes is zero or
  what was there when it was allocated.
\<close>

definition pw_machine where
  "pw_machine s = (page_size s, can_alloc s, misalignment s, fresh s, madvise_refuses s, mlock_refuses s,
     echo_on s, canonical s, tty_script s)"

definition clean :: "(nat \<Rightarrow> u8) \<Rightarrow> bytes \<Rightarrow> bool" where
  "clean fr m \<longleftrightarrow> (\<forall>i < length m. m ! i = 0 \<or> m ! i = fr i)"

definition released :: "pw_world \<Rightarrow> pw_world \<Rightarrow> bool" where
  "released s t \<longleftrightarrow> pw_machine t = pw_machine s \<and> (\<exists>ms. freed t = freed s @ ms \<and> (\<forall>m \<in> set ms. clean (fresh s) m))"

definition same_io :: "pw_world \<Rightarrow> pw_world \<Rightarrow> bool" where
  "same_io s t \<longleftrightarrow> unread t = unread s \<and> script t = script s \<and> output_bytes t = output_bytes s"

interpretation release: effect released
proof unfold_locales
  fix s t u
  assume "released s t" and "released t u"
  then obtain ms ns where "freed t = freed s @ ms" "\<forall>m \<in> set ms. clean (fresh s) m"
      "freed u = freed t @ ns" "\<forall>m \<in> set ns. clean (fresh t) m" and
      m: "pw_machine t = pw_machine s" "pw_machine u = pw_machine t"
    unfolding released_def by blast
  moreover have "fresh t = fresh s" using m(1) by (simp add: pw_machine_def)
  ultimately show "released s u" unfolding released_def by (intro conjI exI [of _ "ms @ ns"]) auto
qed (simp add: released_def)

interpretation untouched: effect same_io
  by unfold_locales (simp_all add: same_io_def)

text \<open>A machine on which no object is as large as half the address space.\<close>

definition sane :: "pw_world \<Rightarrow> bool" where
  "sane s \<longleftrightarrow> (\<forall>n. can_alloc s n \<longrightarrow> n < 2 ^ 63) \<and> (\<forall>p. page_size s = Inr p \<longrightarrow> p < 2 ^ 63)"

lemma sane_released: "released s t \<Longrightarrow> sane s \<Longrightarrow> sane t"
  by (simp add: released_def sane_def pw_machine_def)

lemma half_page:
  assumes "sane s" and "page_size s = Inr p"
  shows "p div 2 + 1 < 2 ^ 64"
proof -
  have "p < 2 ^ 63" using assms by (simp add: sane_def)
  then have "p + 1 < 2 ^ 64" by simp
  moreover have "p div 2 + 1 \<le> p + 1" by simp
  ultimately show ?thesis by (rule le_less_trans [rotated])
qed

lemma fresh_released: "released s t \<Longrightarrow> fresh t = fresh s"
  by (simp add: released_def pw_machine_def)

text \<open>A buffer whose password fits its storage, with nothing of interest behind the password.\<close>

definition tidy :: "(nat \<Rightarrow> u8) \<Rightarrow> password_buffer \<Rightarrow> bool" where
  "tidy fr b \<longleftrightarrow> pw_options b = default_options \<and> pw_length b < length (storage b) \<and> length (storage b) < 2 ^ 63 \<and>
    (\<forall>i. pw_length b \<le> i \<and> i < length (storage b) \<longrightarrow> storage b ! i = 0 \<or> storage b ! i = fr i)"

lemma clear_clean: "tidy fr b \<Longrightarrow> clean fr (storage (clear b))"
  by (auto simp: tidy_def clean_def clear_def nth_append)

lemma destroy_released: "tidy (fresh s) b \<Longrightarrow> released s (destroy b s) \<and> same_io s (destroy b s)"
  using clear_clean by (auto simp: released_def pw_machine_def destroy_def same_io_def)

lemma destroy_fresh [simp]: "fresh (destroy b s) = fresh s"
  by (simp add: destroy_def)

lemma new_storage_cases:
  assumes "new_storage len s = (r, s')"
  shows "s' = s \<and> (case r of Inl e \<Rightarrow> True
    | Inr m \<Rightarrow> clean (fresh s) m \<and> (\<forall>i < length m. m ! i = fresh s i) \<and>
        (sane s \<longrightarrow> len + 1 < 2 ^ 64 \<longrightarrow> len < length m \<and> length m < 2 ^ 63))"
proof (cases "page_size s")
  case (Inl e)
  then show ?thesis using assms by (auto simp: new_storage_def getpagesize_def)
next
  case (Inr p)
  define n where "n = (len + 1 + p - 1) mod 2 ^ 64"
  define k where "k = misalignment s mod p"
  have "new_storage len s = (if \<not> can_alloc s n then throwS BadAlloc
      else if n < k + (len + 1) mod 2 ^ 64 then throwS (LogicError ''Could not align storage for password buffer'')
      else retS (map (fresh s) [0..<n - k])) s"
    unfolding n_def k_def using Inr by (simp add: new_storage_def getpagesize_def Let_def)
  then show ?thesis using assms by (auto simp: clean_def sane_def split: if_splits)
qed

lemma protect_cases:
  assumes "protect refuses c tolerated msg warning mem len s = (r, s')" and "clean (fresh s) mem"
  shows "released s s' \<and> same_io s s'"
proof (cases "refuses s len")
  case None
  then have "s' = s\<lparr>mem_calls := mem_calls s @ [c]\<rparr>" using assms(1) by (simp add: protect_def bindS_def sys_mem_def)
  then show ?thesis by (simp add: released_def pw_machine_def same_io_def)
next
  case (Some e)
  then have "s' = (if tolerated then s\<lparr>console := console s @ warning\<rparr> else s\<lparr>freed := freed s @ [mem]\<rparr>)"
    using assms(1) by (cases tolerated) (simp_all add: protect_def bindS_def thenS_def sys_mem_def)
  then show ?thesis using assms(2) by (simp add: released_def pw_machine_def same_io_def)
qed

lemma new_buffer_cases:
  assumes "new_buffer len opts s = (r, s')"
  shows "released s s' \<and> same_io s s' \<and> (case r of Inl e \<Rightarrow> True
    | Inr b \<Rightarrow> pw_length b = len \<and> pw_options b = default_options \<and> (\<forall>i < length (storage b). storage b ! i = fresh s i) \<and>
        (sane s \<longrightarrow> len + 1 < 2 ^ 64 \<longrightarrow> tidy (fresh s) b))"
proof -
  obtain r0 s0 where n: "new_storage len s = (r0, s0)" by fastforce
  note N = new_storage_cases [OF n]
  show ?thesis
  proof (cases r0)
    case (Inl e)
    then show ?thesis using n N assms by (auto simp: new_buffer_def release.refl untouched.refl)
  next
    case (Inr mem)
    then have cl: "clean (fresh s) mem" and s0: "s0 = s" using N by simp_all
    obtain r1 s1 where p1: "protect madvise_refuses (DontDump len) (tolerateCoreDumps opts)
        ''mdavise(,, MADV_DONTDUMP)'' dump_warning mem len s = (r1, s1)" by fastforce
    note P1 = protect_cases [OF p1 cl]
    obtain r2 s2 where p2: "protect mlock_refuses (Lock len) (tolerateSwapEnabled opts)
        ''mlock'' swap_warning mem len s1 = (r2, s2)" by fastforce
    have P2: "released s1 s2 \<and> same_io s1 s2" using protect_cases [OF p2] cl P1 fresh_released by metis
    show ?thesis
    proof (cases r1)
      case (Inl e)
      then show ?thesis using n p1 s0 \<open>r0 = Inr mem\<close> P1 assms by (auto simp: new_buffer_def)
    next
      case r1: (Inr u)
      have "released s s2 \<and> same_io s s2" using P1 P2 release.trans untouched.trans by blast
      then show ?thesis using n p1 p2 s0 \<open>r0 = Inr mem\<close> r1 N assms
        by (cases r2) (auto simp: new_buffer_def tidy_def clean_def)
    qed
  qed
qed

lemma resizedTo_cases:
  assumes "resizedTo len b s = (r, s')" and "sane s" and "len + 1 < 2 ^ 64" and "tidy (fresh s) b"
  shows "released s s' \<and> same_io s s' \<and> (case r of Inl e \<Rightarrow> True
    | Inr b' \<Rightarrow> pw_length b' = len \<and> pw_options b' = default_options \<and> tidy (fresh s) b' \<and>
        take (min len (pw_length b)) (storage b') = take (min len (pw_length b)) (storage b) \<and>
        storage b' ! min len (pw_length b) = 0)"
proof -
  obtain r0 s0 where n: "new_buffer len (pw_options b) s = (r0, s0)" by fastforce
  note N = new_buffer_cases [OF n]
  show ?thesis
  proof (cases r0)
    case (Inl e)
    then show ?thesis using n N assms(1) by (auto simp: resizedTo_def)
  next
    case (Inr out)
    let ?n = "min len (pw_length b)"
    have t: "tidy (fresh s) out" "pw_length out = len" "pw_options out = default_options" using N Inr assms(2,3) by simp_all
    have le: "?n < length (storage b)" "?n < length (storage out)" using assms(4) t by (auto simp: tidy_def)
    define b' where "b' = poke ?n [0] (poke 0 (take ?n (storage b)) out)"
    have st: "storage b' = take ?n (storage b) @ 0 # drop (?n + 1) (storage out)"
      unfolding b'_def poke_def using le by (simp add: min_def)
    have "r = Inr b'" "s' = s0" using n Inr assms(1) unfolding b'_def by (simp_all add: resizedTo_def Let_def)
    moreover have "pw_length b' = len" "pw_options b' = default_options" using t by (simp_all add: b'_def poke_def)
    moreover have "tidy (fresh s) b'"
      unfolding tidy_def
    proof (intro conjI allI impI)
      have len: "length (storage b') = length (storage out)" unfolding st using le by simp
      then show "pw_length b' < length (storage b')" "length (storage b') < 2 ^ 63"
        using t \<open>pw_length b' = len\<close> by (simp_all add: tidy_def)
      show "pw_options b' = default_options" by fact
      fix i assume i: "pw_length b' \<le> i \<and> i < length (storage b')"
      then have "?n \<le> i" "len \<le> i" "i < length (storage out)"
        using \<open>pw_length b' = len\<close> len by (simp_all add: min_le_iff_disj)
      moreover have "length (take ?n (storage b)) = ?n" using le(1) by simp
      moreover have "storage out ! i = 0 \<or> storage out ! i = fresh s i" using t(1,2) calculation(2,3) by (simp add: tidy_def)
      ultimately show "storage b' ! i = 0 \<or> storage b' ! i = fresh s i"
        unfolding st by (cases "i = ?n") (auto simp: nth_append nth_Cons')
    qed
    moreover have "take ?n (storage b') = take ?n (storage b)" "storage b' ! ?n = 0"
      unfolding st using le(1) by (simp_all add: nth_append)
    ultimately show ?thesis using N by simp
  qed
qed

lemma grow_cases:
  assumes "grow b s = (r, s')" and "sane s" and "tidy (fresh s) b"
  shows "released s s' \<and> same_io s s' \<and> (case r of Inl e \<Rightarrow> True
    | Inr b' \<Rightarrow> pw_length b' = 2 * pw_length b \<and> tidy (fresh s) b' \<and>
        take (pw_length b) (storage b') = take (pw_length b) (storage b))"
proof -
  have len: "pw_length b * 2 mod 2 ^ 64 = 2 * pw_length b" "2 * pw_length b + 1 < 2 ^ 64"
    using assms(3) by (simp_all add: tidy_def)
  obtain r0 s0 where z: "resizedTo (2 * pw_length b) b s = (r0, s0)" by fastforce
  note R = resizedTo_cases [OF z assms(2) len(2) assms(3)]
  have s': "s' = destroy b s0" "r = r0" using assms(1) z unfolding grow_def len(1) by (auto split: sum.splits)
  have "released s0 s' \<and> same_io s0 s'" unfolding s' using R fresh_released destroy_released assms(3) by metis
  moreover have "min (2 * pw_length b) (pw_length b) = pw_length b" by simp
  ultimately show ?thesis using R s' release.trans untouched.trans by (cases r0) auto
qed

lemma sys_read_less:
  "sys_read n s = (Inr bs, s') \<Longrightarrow> bs \<noteq> [] \<Longrightarrow>
    length (unread s') + length (script s') < length (unread s) + length (script s)"
  "sys_read n s = (Inl e, s') \<Longrightarrow> length (unread s') + length (script s') < length (unread s) + length (script s)"
  by (auto simp: sys_read_def Let_def split: list.splits io_event.splits)

section \<open>Reading a password\<close>

text \<open>The loop of \<^verbatim>\<open>readuntil\<close>: the buffer and the length of the password in it. An exception destroys the buffer.\<close>

lemma grow_io: "unread (snd (grow b s)) = unread s" "script (snd (grow b s)) = script s"
proof -
  have "same_io s (snd (new_buffer n opts s))" for n opts
    using new_buffer_cases [of n opts s] by (cases "new_buffer n opts s") simp
  moreover have "snd (resizedTo n b s) = snd (new_buffer n (pw_options b) s)" for n
    by (simp add: resizedTo_def bindS_def Let_def split: prod.split sum.split)
  ultimately have "same_io s (snd (resizedTo n b s))" for n by simp
  then show "unread (snd (grow b s)) = unread s" "script (snd (grow b s)) = script s"
    by (simp_all add: grow_def same_io_def destroy_def split: prod.split sum.split) (metis snd_conv)+
qed

function readuntil_loop ::
  "bytes \<Rightarrow> password_buffer \<Rightarrow> nat \<Rightarrow> (pw_world, password_buffer \<times> nat) prog" where
  "readuntil_loop sentinel buffer plen s =
     (case (if plen = pw_length buffer then grow buffer s else (Inr buffer, s)) of
        (Inl e, s1) \<Rightarrow> (Inl e, s1)
      | (Inr buf, s1) \<Rightarrow>
          (case sys_read (size_minus (pw_length buf) plen) s1 of
             (Inl e, s2) \<Rightarrow>
               if e = EINTR then readuntil_loop sentinel buf plen s2
               else (Inl (SystemError e ''read() failed''), destroy buf s2)
           | (Inr bs, s2) \<Rightarrow>
               if bs = [] then (Inr (buf, plen), s2)
               else if sentinel = [] then readuntil_loop sentinel (poke plen bs buf) (plen + length bs) s2
               else if search_pos sentinel bs \<noteq> length bs
               then (Inr (poke plen bs buf, plen + search_pos sentinel bs), s2)
               else readuntil_loop sentinel (poke plen bs buf) (plen + search_pos sentinel bs) s2))"
  by pat_completeness auto
termination
proof (relation "measure (\<lambda>(_, _, _, s). length (unread s) + length (script s))")
  fix sentinel :: bytes and buffer buf :: password_buffer and plen and s s1 s2 :: pw_world and r0
    and r :: "errno + bytes" and e0 :: errno and bs :: bytes
  assume g: "(r0, s1) = (if plen = pw_length buffer then grow buffer s else (Inr buffer, s))"
  have "unread s1 = unread s" "script s1 = script s"
    using g grow_io [of buffer s] by (auto split: if_splits simp: prod_eq_iff)
  note 1 = this
  { fix e
    assume "(r, s2) = sys_read (size_minus (pw_length buf) plen) s1" and "r = Inl e"
    then have "length (unread s2) + length (script s2) < length (unread s1) + length (script s1)"
      using sys_read_less(2) by metis }
  note 2 = this
  { assume "(r, s2) = sys_read (size_minus (pw_length buf) plen) s1" and "r = Inr bs" and "bs \<noteq> []"
    then have "length (unread s2) + length (script s2) < length (unread s1) + length (script s1)"
      using sys_read_less(1) by metis }
  note 3 = this
  show "((sentinel, buf, plen, s2), (sentinel, buffer, plen, s)) \<in> measure (\<lambda>(_, _, _, s). length (unread s) + length (script s))"
    if "(r, s2) = sys_read (size_minus (pw_length buf) plen) s1" "r = Inl e0" using 1 2 [OF that] by simp
  show "((sentinel, poke plen bs buf, plen + length bs, s2), (sentinel, buffer, plen, s)) \<in>
      measure (\<lambda>(_, _, _, s). length (unread s) + length (script s))"
    if "(r, s2) = sys_read (size_minus (pw_length buf) plen) s1" "r = Inr bs" "bs \<noteq> []" using 1 3 [OF that] by simp
  show "((sentinel, poke plen bs buf, plen + search_pos sentinel bs, s2), (sentinel, buffer, plen, s)) \<in>
      measure (\<lambda>(_, _, _, s). length (unread s) + length (script s))"
    if "(r, s2) = sys_read (size_minus (pw_length buf) plen) s1" "r = Inr bs" "bs \<noteq> []" using 1 3 [OF that] by simp
qed simp_all
declare readuntil_loop.simps [simp del]

definition readuntil :: "bytes \<Rightarrow> pw_options \<Rightarrow> (pw_world, password_buffer) prog" where
  "readuntil sentinel options =
     bindS getpagesize (\<lambda>p.
     bindS (new_buffer (p div 2) options) (\<lambda>buffer.
     bindS (readuntil_loop sentinel buffer 0) (\<lambda>(buf, plen) s.
       let buf' = poke plen [0] buf in
       (case resizedTo plen buf' s of (r, s') \<Rightarrow> (r, destroy buf' s')))))"

definition pw_readline :: "pw_options \<Rightarrow> (pw_world, password_buffer) prog" where
  "pw_readline options = readuntil [10] options"

section \<open>Reading a password from a terminal\<close>

definition tty_call :: "(pw_world, errno option) prog" where
  "tty_call s = (case tty_script s of [] \<Rightarrow> (Inr None, s) | r # rs \<Rightarrow> (Inr r, s\<lparr>tty_script := rs\<rparr>))"

definition tty_or_throw :: "string \<Rightarrow> (pw_world, unit) prog" where
  "tty_or_throw what = bindS tty_call (\<lambda>r. case r of Some e \<Rightarrow> throwS (SystemError e what) | None \<Rightarrow> retS ())"

text \<open>The constructor of \<^verbatim>\<open>EchoDisabled\<close> and its destructor.\<close>

definition disable_echo :: "string \<Rightarrow> (pw_world, bool \<times> bool) prog" where
  "disable_echo path =
     thenS (tty_or_throw (''Failed to open given tty for reading password ('' @ path @ '')''))
     (thenS (tty_or_throw ''tcgetattr'')
     (bindS (getS (\<lambda>s. (echo_on s, canonical s))) (\<lambda>attr_orig.
     thenS (tty_or_throw ''tcsetattr'')
     (thenS (modifyS (\<lambda>s. s\<lparr>echo_on := False, canonical := True\<rparr>)) (retS attr_orig)))))"

definition restore_echo :: "bool \<times> bool \<Rightarrow> pw_world \<Rightarrow> pw_world" where
  "restore_echo attr_orig s =
     (let (r, s') = tty_call s in
      (if r = Inr None then s'\<lparr>echo_on := fst attr_orig, canonical := snd attr_orig\<rparr> else s')
        \<lparr>console := console s' @ [CHR 0x0A]\<rparr>)"

definition readPasswordFromTty :: "int \<Rightarrow> string \<Rightarrow> string \<Rightarrow> pw_options \<Rightarrow> (pw_world, password_buffer) prog" where
  "readPasswordFromTty fd prompt path options =
     bindS (disable_echo path) (\<lambda>attr_orig s.
       (case thenS (modifyS (\<lambda>s. s\<lparr>console := console s @ prompt\<rparr>))
              (thenS (tty_or_throw (''dup() failed for given fd ('' @ int_to_string fd @ '')''))
                 (pw_readline options)) s of
          (r, s') \<Rightarrow> (r, restore_echo attr_orig s')))"

section \<open>Nothing of the password stays in released memory\<close>

lemma poke_simps [simp]:
  "pw_length (poke i bs b) = pw_length b" "pw_options (poke i bs b) = pw_options b"
  by (simp_all add: poke_def)

lemma storage_poke:
  "i + length bs \<le> length (storage b) \<Longrightarrow> length (storage (poke i bs b)) = length (storage b)"
  "i + length bs \<le> length (storage b) \<Longrightarrow> take (i + k) (storage (poke i bs b)) = take i (storage b) @ take k (bs @ drop (i + length bs) (storage b))"
  by (simp_all add: poke_def)

lemma poke_behind:
  "i + length bs \<le> length (storage b) \<Longrightarrow> i + length bs \<le> j \<Longrightarrow> storage (poke i bs b) ! j = storage b ! j"
  by (auto simp: poke_def nth_append)

lemma tidy_poke:
  assumes "tidy fr b" and "i + length bs \<le> pw_length b"
  shows "tidy fr (poke i bs b)"
  using assms storage_poke(1) [of i bs b] poke_behind [of i bs b] by (auto simp: tidy_def)

lemma tidy_terminator:
  assumes "tidy fr b" and "i \<le> pw_length b"
  shows "tidy fr (poke i [0] b)"
proof -
  have "storage (poke i [0] b) ! j = (if j = i then 0 else storage b ! j)" if "pw_length b \<le> j" "j < length (storage b)" for j
  proof (cases "j = i")
    case True
    then show ?thesis using that by (simp add: poke_def nth_append)
  next
    case False
    then show ?thesis using that assms poke_behind [of i "[0]" b j] by (simp add: tidy_def)
  qed
  then show ?thesis using assms storage_poke(1) [of i "[0]" b] by (auto simp: tidy_def)
qed

lemma sys_read_frame: "released s (snd (sys_read n s))"
  by (auto simp: sys_read_def Let_def released_def pw_machine_def split: list.split io_event.split)

lemma sys_read_length: "sys_read n s = (Inr bs, s') \<Longrightarrow> length bs \<le> n"
  by (auto simp: sys_read_def Let_def split: list.splits io_event.splits)

lemma search_pos_le: "search_pos pat xs \<le> length xs"
  by (induction xs) auto

lemma size_minus: "b \<le> a \<Longrightarrow> a < 2 ^ 64 \<Longrightarrow> size_minus a b = a - b"
proof -
  assume "b \<le> a" and "a < 2 ^ 64"
  then have "a + 2 ^ 64 - b = (a - b) + 2 ^ 64" and "a - b < 2 ^ 64" by simp_all
  then show ?thesis by (simp add: size_minus_def del: Nat.add_diff_assoc2)
qed

definition buffer_result :: "pw_world \<Rightarrow> (password_buffer \<times> nat) result \<times> pw_world \<Rightarrow> bool" where
  "buffer_result s res \<longleftrightarrow> released s (snd res) \<and>
    (case fst res of Inl e \<Rightarrow> True | Inr (b, n) \<Rightarrow> tidy (fresh s) b \<and> n \<le> pw_length b)"

lemma buffer_result_before: "released s t \<Longrightarrow> buffer_result t res \<Longrightarrow> buffer_result s res"
  using release.trans fresh_released by (auto simp: buffer_result_def split: sum.splits)

lemma readuntil_loop_keeps:
  "sane s \<Longrightarrow> tidy (fresh s) b \<Longrightarrow> plen \<le> pw_length b \<Longrightarrow> buffer_result s (readuntil_loop sentinel b plen s)"
proof (induction "length (unread s) + length (script s)" arbitrary: b plen s rule: less_induct)
  case less
  obtain r1 s1 where g: "(if plen = pw_length b then grow b s else (Inr b, s)) = (r1, s1)" by fastforce
  have G: "released s s1 \<and> same_io s s1 \<and> (case r1 of Inl e \<Rightarrow> True
      | Inr b' \<Rightarrow> tidy (fresh s) b' \<and> plen \<le> pw_length b')"
  proof (cases "plen = pw_length b")
    case True
    then show ?thesis using g grow_cases [OF _ less.prems(1,2)] by (auto split: sum.splits)
  next
    case False
    then show ?thesis using g less.prems release.refl untouched.refl by auto
  qed
  show ?case
  proof (cases r1)
    case (Inl e)
    then show ?thesis using g G by (simp add: readuntil_loop.simps [of _ b] buffer_result_def)
  next
    case (Inr buf)
    have buf: "tidy (fresh s1) buf" "plen \<le> pw_length buf" using G Inr fresh_released by auto
    have sane: "sane s1" using G less.prems(1) sane_released by blast
    let ?n = "size_minus (pw_length buf) plen"
    have n: "?n = pw_length buf - plen" using buf by (simp add: tidy_def size_minus)
    obtain r2 s2 where rd: "sys_read ?n s1 = (r2, s2)" by fastforce
    have R: "released s1 s2" using sys_read_frame [of s1 ?n] rd by simp
    have s12: "released s s2" using G R release.trans by blast
    have fr: "fresh s2 = fresh s1" "sane s2" using R sane sane_released fresh_released by blast+
    note st = readuntil_loop.simps [of sentinel b plen s, unfolded g Inr prod.case sum.case rd]
    show ?thesis
    proof (cases r2)
      case (Inl e)
      show ?thesis
      proof (cases "e = EINTR")
        case True
        have "length (unread s2) + length (script s2) < length (unread s) + length (script s)"
          using sys_read_less(2) [of ?n s1 e s2] rd Inl G by (simp add: same_io_def)
        note less.hyps [OF this fr(2)]
        moreover have "tidy (fresh s2) buf" using buf fr by simp
        ultimately have "buffer_result s2 (readuntil_loop sentinel buf plen s2)" using buf(2) by blast
        from buffer_result_before [OF s12 this] show ?thesis unfolding st Inl True by simp
      next
        case False
        have "released s (destroy buf s2)" using s12 destroy_released [of s2 buf] buf fr release.trans by auto
        then show ?thesis unfolding st Inl using False by (simp add: buffer_result_def)
      qed
    next
      case bs: (Inr bs)
      show ?thesis
      proof (cases "bs = []")
        case True
        then show ?thesis unfolding st bs using s12 buf G Inr by (simp add: buffer_result_def)
      next
        case False
        have l: "plen + length bs \<le> pw_length buf" using sys_read_length rd bs n buf by fastforce
        have t: "tidy (fresh s2) (poke plen bs buf)" using tidy_poke buf l fr by simp
        have "length (unread s2) + length (script s2) < length (unread s) + length (script s)"
          using sys_read_less(1) [of ?n s1 bs s2] rd bs False G by (simp add: same_io_def)
        note ih = buffer_result_before [OF s12 less.hyps [OF this fr(2) t]]
        have p: "plen + search_pos sentinel bs \<le> pw_length buf" using l search_pos_le [of sentinel bs] by linarith
        have "buffer_result s (Inr (poke plen bs buf, plen + search_pos sentinel bs), s2)"
          using s12 t p G fresh_released by (simp add: buffer_result_def)
        moreover have "buffer_result s (readuntil_loop sentinel (poke plen bs buf) (plen + length bs) s2)"
          using ih l by simp
        moreover have "buffer_result s (readuntil_loop sentinel (poke plen bs buf) (plen + search_pos sentinel bs) s2)"
          using ih p by simp
        ultimately show ?thesis unfolding st bs using False by auto
      qed
    qed
  qed
qed

lemma readuntil_keeps:
  assumes "readuntil sentinel opts s = (r, s')" and "sane s"
  shows "released s s' \<and> (case r of Inl e \<Rightarrow> True | Inr b \<Rightarrow> tidy (fresh s) b \<and> pw_options b = default_options)"
proof (cases "page_size s")
  case (Inl e)
  then show ?thesis using assms by (auto simp: readuntil_def getpagesize_def release.refl)
next
  case (Inr p)
  obtain r1 s1 where n: "new_buffer (p div 2) opts s = (r1, s1)" by fastforce
  note p = half_page [OF assms(2) Inr]
  note N = new_buffer_cases [OF n]
  show ?thesis
  proof (cases r1)
    case (Inl e)
    then show ?thesis using assms n N Inr by (auto simp: readuntil_def getpagesize_def)
  next
    case b: (Inr b)
    have s1: "sane s1" "tidy (fresh s1) b" using N b p assms(2) sane_released fresh_released by auto
    obtain r2 s2 where l: "readuntil_loop sentinel b 0 s1 = (r2, s2)" by fastforce
    have L: "buffer_result s (r2, s2)"
      using readuntil_loop_keeps [OF s1, of 0 sentinel] l N buffer_result_before by fastforce
    show ?thesis
    proof (cases r2)
      case (Inl e)
      then show ?thesis using assms n b l L Inr by (auto simp: readuntil_def getpagesize_def buffer_result_def)
    next
      case r2: (Inr x)
      then obtain buf k where x: "x = (buf, k)" by fastforce
      let ?b = "poke k [0] buf"
      have k: "tidy (fresh s) buf" "k \<le> pw_length buf" "released s s2" using L r2 x by (simp_all add: buffer_result_def)
      have t: "tidy (fresh s2) ?b" "sane s2"
        using tidy_terminator k assms(2) fresh_released sane_released by metis+
      obtain r3 s3 where z: "resizedTo k ?b s2 = (r3, s3)" by fastforce
      have "k + 1 < 2 ^ 64" using k by (simp add: tidy_def)
      note Z = resizedTo_cases [OF z t(2) this t(1)]
      have "r = r3" "s' = destroy ?b s3"
        using assms n b l r2 x z Inr by (simp_all add: readuntil_def getpagesize_def Let_def)
      moreover have "released s s3" using Z k release.trans by blast
      moreover have "fresh s3 = fresh s2" using Z fresh_released by blast
      then have "released s3 (destroy ?b s3)" using destroy_released [of s3 ?b] t(1) by simp
      ultimately have "released s s'" using release.trans [of s s3] by simp
      moreover have "case r3 of Inl e \<Rightarrow> True | Inr b \<Rightarrow> tidy (fresh s) b \<and> pw_options b = default_options"
        using Z fresh_released [OF k(3)] by (cases r3) simp_all
      ultimately show ?thesis using \<open>r = r3\<close> by simp
    qed
  qed
qed

section \<open>What is read\<close>

text \<open>A machine that grants every request below half the address space.\<close>

definition grants :: "nat \<Rightarrow> pw_world \<Rightarrow> bool" where
  "grants p s \<longleftrightarrow> sane s \<and> page_size s = Inr p \<and> 2 \<le> p \<and> (\<forall>n < 2 ^ 63. can_alloc s n) \<and>
    (\<forall>n. madvise_refuses s n = None \<and> mlock_refuses s n = None)"

lemma grants_released: "released s t \<Longrightarrow> grants p s \<Longrightarrow> grants p t"
  using sane_released [of s t] unfolding grants_def released_def pw_machine_def by auto

lemma new_buffer_ok:
  assumes "grants p s" and "len + p < 2 ^ 63"
  shows "\<exists>b s'. new_buffer len opts s = (Inr b, s')"
proof -
  have "misalignment s mod p < p" using assms(1) by (intro mod_less_divisor) (simp add: grants_def)
  then have "\<not> len + p < misalignment s mod p + (len + 1)" by linarith
  moreover have "len + 1 + p - 1 = len + p" "(len + p) mod 2 ^ 64 = len + p" "(len + 1) mod 2 ^ 64 = len + 1"
    using assms by (simp_all add: grants_def)
  ultimately have "new_storage len s = (Inr (map (fresh s) [0..<len + p - misalignment s mod p]), s)"
    using assms by (simp add: new_storage_def getpagesize_def grants_def Let_def)
  then show ?thesis
    using assms(1) by (simp add: new_buffer_def protect_def sys_mem_def grants_def)
qed

lemma resizedTo_ok: "grants p s \<Longrightarrow> len + p < 2 ^ 63 \<Longrightarrow> \<exists>b' s'. resizedTo len b s = (Inr b', s')"
  using new_buffer_ok [of p s len "pw_options b"] by (auto simp: resizedTo_def Let_def)

lemma grow_ok:
  assumes "grants p s" and "2 * pw_length b + p < 2 ^ 63"
  shows "\<exists>b' s'. grow b s = (Inr b', s')"
proof -
  have len: "pw_length b * 2 mod 2 ^ 64 = 2 * pw_length b" using assms(2) by simp
  obtain b' s' where "resizedTo (2 * pw_length b) b s = (Inr b', s')" using resizedTo_ok [OF assms] by blast
  then show ?thesis unfolding grow_def len by simp
qed

lemma search_single: "search_pos [c] xs = length (takeWhile (\<lambda>x. x \<noteq> c) xs)"
  by (induction xs) auto

lemma take_poke:
  assumes "plen + length bs \<le> length (storage b)" and "k \<le> length bs"
  shows "take (plen + k) (storage (poke plen bs b)) = take plen (storage b) @ take k bs"
  using storage_poke(2) [OF assms(1), of k] assms(2) by simp

definition upto :: "bytes \<Rightarrow> bytes \<Rightarrow> bytes" where
  "upto sentinel bs = (case sentinel of [] \<Rightarrow> bs | c # _ \<Rightarrow> takeWhile (\<lambda>x. x \<noteq> c) bs)"

lemma upto_append:
  "upto (c # cs) (bs @ rest) =
    (if search_pos [c] bs = length bs then bs @ upto (c # cs) rest else take (search_pos [c] bs) bs)"
  by (induction bs) (simp_all add: upto_def)

lemma readuntil_loop_reads:
  "grants p s \<Longrightarrow> unbroken s \<Longrightarrow> tidy (fresh s) b \<Longrightarrow> plen \<le> pw_length b \<Longrightarrow> 0 < pw_length b \<Longrightarrow>
    length sentinel \<le> 1 \<Longrightarrow> 2 * (plen + length (unread s)) + p < 2 ^ 63 \<Longrightarrow>
    \<exists>b' n s'. readuntil_loop sentinel b plen s = (Inr (b', n), s') \<and>
      take n (storage b') = take plen (storage b) @ upto sentinel (unread s)"
proof (induction "length (unread s) + length (script s)" arbitrary: b plen s rule: less_induct)
  case less
  have sane: "sane s" using less.prems(1) by (simp add: grants_def)
  obtain buf s1 where g: "(if plen = pw_length b then grow b s else (Inr b, s)) = (Inr buf, s1)"
    using grow_ok [OF less.prems(1), of b] less.prems(7) by (cases "plen = pw_length b") auto
  have G: "released s s1 \<and> same_io s s1 \<and> tidy (fresh s) buf \<and> plen < pw_length buf \<and>
      take plen (storage buf) = take plen (storage b)"
  proof (cases "plen = pw_length b")
    case True
    then show ?thesis using g grow_cases [of b s "Inr buf" s1] sane less.prems(3,5) by auto
  next
    case False
    then show ?thesis using g less.prems release.refl untouched.refl by auto
  qed
  have io: "unread s1 = unread s" "script s1 = script s" "unbroken s1"
    using G less.prems(2) by (simp_all add: same_io_def unbroken_def)
  let ?n = "size_minus (pw_length buf) plen"
  have n: "?n = pw_length buf - plen" using G by (simp add: tidy_def size_minus)
  then have n0: "?n \<noteq> 0" using G by simp
  obtain r2 s2 where rd: "sys_read ?n s1 = (r2, s2)" by fastforce
  note R = sys_read_cases [OF rd n0]
  have s12: "released s s2" using G sys_read_frame [of s1 ?n] rd release.trans by fastforce
  have env: "grants p s2" "fresh s2 = fresh s" using s12 less.prems(1) grants_released fresh_released by auto
  have u2: "unbroken s2" using R io by blast
  note st = readuntil_loop.simps [of sentinel b plen s, unfolded g prod.case sum.case rd]
  show ?case
  proof (cases r2)
    case (Inl e)
    then have e: "e = EINTR" "unread s2 = unread s" using R io by simp_all
    have "length (unread s2) + length (script s2) < length (unread s) + length (script s)"
      using sys_read_less(2) [of ?n s1 e s2] rd Inl io by simp
    then have "\<exists>b' n s'. readuntil_loop sentinel buf plen s2 = (Inr (b', n), s') \<and>
        take n (storage b') = take plen (storage buf) @ upto sentinel (unread s2)"
      using less.hyps [of s2 buf plen] env u2 G less.prems(6,7) e(2) by simp
    then show ?thesis unfolding st Inl using e G by simp
  next
    case bs: (Inr bs)
    obtain m where m: "0 < m" "m \<le> ?n" "bs = take m (unread s)" "unread s2 = drop m (unread s)"
      using R io bs by auto
    have u: "unread s = bs @ unread s2" using m by simp
    show ?thesis
    proof (cases "bs = []")
      case True
      then have "unread s = []" using m by simp
      then have "upto sentinel (unread s) = []" by (simp add: upto_def split: list.split)
      then show ?thesis unfolding st bs using True G by simp
    next
      case False
      have l: "plen + length bs \<le> pw_length buf" using sys_read_length rd bs n G by fastforce
      then have ls: "plen + length bs \<le> length (storage buf)" using G by (simp add: tidy_def)
      have t: "tidy (fresh s2) (poke plen bs buf)" using tidy_poke G l env(2) by simp
      have "length (unread s2) + length (script s2) < length (unread s) + length (script s)"
        using sys_read_less(1) [of ?n s1 bs s2] rd bs False io by simp
      then have ih: "\<exists>b' n s'. readuntil_loop sentinel (poke plen bs buf) (plen + length bs) s2 = (Inr (b', n), s') \<and>
          take n (storage b') = (take plen (storage b) @ bs) @ upto sentinel (unread s2)"
        using less.hyps [of s2 "poke plen bs buf" "plen + length bs"] env u2 t l G less.prems(6,7) u
          take_poke [OF ls, of "length bs"] by simp
      show ?thesis
      proof (cases sentinel)
        case Nil
        then show ?thesis unfolding st bs using ih False u by (simp add: upto_def)
      next
        case (Cons c cs)
        then have c: "sentinel = [c]" using less.prems(6) by simp
        show ?thesis
        proof (cases "search_pos [c] bs = length bs")
          case True
          then show ?thesis unfolding st bs using ih False u c upto_append [of c "[]" bs] by simp
        next
          case found: False
          have "take (plen + search_pos [c] bs) (storage (poke plen bs buf)) = take plen (storage b) @ take (search_pos [c] bs) bs"
            using take_poke [OF ls search_pos_le] G by simp
          then show ?thesis unfolding st bs using found False u c upto_append [of c "[]" bs "unread s2"] by simp
        qed
      qed
    qed
  qed
qed

lemma readuntil_reads:
  assumes "grants p s" and "unbroken s" and "length sentinel \<le> 1" and "2 * length (unread s) + 2 * p < 2 ^ 63"
  shows "\<exists>b s'. readuntil sentinel opts s = (Inr b, s') \<and> password b = upto sentinel (unread s) \<and>
    pw_length b = length (upto sentinel (unread s)) \<and> storage b ! pw_length b = 0"
proof -
  have sane: "sane s" and ps: "page_size s = Inr p" "2 \<le> p" using assms(1) by (simp_all add: grants_def)
  have "p div 2 + p < 2 ^ 63" using assms(4) div_le_dividend [of p 2] by linarith
  then obtain b s1 where n: "new_buffer (p div 2) opts s = (Inr b, s1)" using new_buffer_ok [OF assms(1)] by blast
  have "p div 2 + 1 < 2 ^ 64" using \<open>p div 2 + p < 2 ^ 63\<close> ps(2) by simp
  then have N: "released s s1" "same_io s s1" "pw_length b = p div 2" "tidy (fresh s) b"
    using new_buffer_cases [OF n] sane by simp_all
  have env: "grants p s1" "fresh s1 = fresh s" "sane s1"
    using N(1) assms(1) sane grants_released fresh_released sane_released by blast+
  have "unbroken s1" "unread s1 = unread s" using N(2) assms(2) by (simp_all add: same_io_def unbroken_def)
  then obtain buf k s2 where l: "readuntil_loop sentinel b 0 s1 = (Inr (buf, k), s2)"
      "take k (storage buf) = upto sentinel (unread s)"
    using readuntil_loop_reads [OF env(1), of b 0 sentinel] env N assms(3,4) ps(2) by auto
  have "buffer_result s1 (Inr (buf, k), s2)"
    using readuntil_loop_keeps [OF env(3), of b 0 sentinel] l(1) N(4) env(2) by simp
  then have L: "released s1 s2" "tidy (fresh s1) buf" "k \<le> pw_length buf" by (simp_all add: buffer_result_def)
  have env2: "grants p s2" "fresh s2 = fresh s1" "sane s2"
    using L(1) env grants_released fresh_released sane_released by blast+
  let ?b = "poke k [0] buf"
  have t: "tidy (fresh s2) ?b" using tidy_terminator L env2 by simp
  have k: "k < length (storage buf)" "length (storage buf) < 2 ^ 63" using L by (simp_all add: tidy_def)
  have len: "length (upto sentinel (unread s)) = k" using l(2) k(1) by (metis length_take min.absorb4)
  have "length (upto sentinel (unread s)) \<le> length (unread s)"
    by (simp add: upto_def length_takeWhile_le split: list.split)
  then have "k + p < 2 ^ 63" using len assms(4) by linarith
  moreover have "k + 1 < 2 ^ 64" using k by simp
  ultimately have "k + p < 2 ^ 63" "k + 1 < 2 ^ 64" by blast+
  then obtain b' s3 where z: "resizedTo k ?b s2 = (Inr b', s3)" using resizedTo_ok [OF env2(1)] by blast
  have Z: "pw_length b' = k" "take k (storage b') = take k (storage ?b)" "storage b' ! k = 0"
    using resizedTo_cases [OF z env2(3) \<open>k + 1 < 2 ^ 64\<close> t] L(3) by (simp_all add: min_absorb1)
  have "take k (storage ?b) = take k (storage buf)" using take_poke [of k "[0]" buf 0] k by simp
  then have "password b' = upto sentinel (unread s)" using Z l(2) by (simp add: password_def)
  moreover have "readuntil sentinel opts s = (Inr b', destroy ?b s3)"
    using ps n l z by (simp add: readuntil_def getpagesize_def Let_def)
  ultimately show ?thesis using Z len by simp
qed

text \<open>
  C37. On a machine that grants the memory, \<open>readline\<close> returns the first line of what can be read,
  without its newline, or everything if there is none, and \<open>readuntil\<close> without a sentinel returns
  everything, however the reads are interrupted or cut: the buffer doubles as often as needed, and
  a zero byte stands behind the password.
\<close>
theorem password_read:
  assumes "grants p s" and "unbroken s" and "2 * length (unread s) + 2 * p < 2 ^ 63"
  shows "(\<exists>b s'. pw_readline opts s = (Inr b, s') \<and> password b = takeWhile (\<lambda>x. x \<noteq> 10) (unread s) \<and>
      storage b ! pw_length b = 0) \<and>
    (\<exists>b s'. readuntil [] opts s = (Inr b, s') \<and> password b = unread s \<and> storage b ! pw_length b = 0)"
  using readuntil_reads [OF assms(1,2) _ assms(3), of "[10]" opts] readuntil_reads [OF assms(1,2) _ assms(3), of "[]" opts]
  by (auto simp: pw_readline_def upto_def)

definition sample_world :: pw_world where
  "sample_world = \<lparr>unread = [104, 105, 10, 33], output_bytes = [], script = [Interrupted, Partial 1, Partial 1],
     page_size = Inr 2, can_alloc = (\<lambda>n. n < 2 ^ 63), misalignment = 1, fresh = (\<lambda>_. 7),
     madvise_refuses = (\<lambda>_. None), mlock_refuses = (\<lambda>_. None), mem_calls = [], freed = [],
     console = [], echo_on = True, canonical = False, tty_script = []\<rparr>"

lemma password_read_witness:
  "\<exists>b s'. pw_readline default_options sample_world = (Inr b, s') \<and> password b = [104, 105]"
proof -
  have "grants 2 sample_world" by (simp add: grants_def sane_def sample_world_def)
  moreover have "unbroken sample_world" by (simp add: unbroken_def sample_world_def)
  moreover have "2 * length (unread sample_world) + 2 * 2 < 2 ^ 63" by (simp add: sample_world_def)
  ultimately show ?thesis using password_read [of 2 sample_world default_options] by (auto simp: sample_world_def)
qed

section \<open>The terminal\<close>

definition tty_result :: "pw_world \<Rightarrow> nat \<Rightarrow> errno option" where
  "tty_result s i = (if i < length (tty_script s) then tty_script s ! i else None)"

lemma tty_call_eq: "tty_call s = (Inr (tty_result s 0), s\<lparr>tty_script := tl (tty_script s)\<rparr>)"
  by (cases "tty_script s") (simp_all add: tty_call_def tty_result_def)

lemma tty_result_tl: "tty_result (s\<lparr>tty_script := tl (tty_script s)\<rparr>) i = tty_result s (Suc i)"
  by (cases "tty_script s") (simp_all add: tty_result_def)

lemma tty_result_cong: "tty_script t = tl (tty_script s) \<Longrightarrow> tty_result t i = tty_result s (Suc i)"
  by (cases "tty_script s") (simp_all add: tty_result_def)

lemma tty_or_throw_eq: "tty_or_throw what s =
  ((case tty_result s 0 of Some e \<Rightarrow> Inl (SystemError e what) | None \<Rightarrow> Inr ()), s\<lparr>tty_script := tl (tty_script s)\<rparr>)"
  by (simp add: tty_or_throw_def bindS_def tty_call_eq split: option.split)

lemma tty_or_throw_then: "thenS (tty_or_throw what) m s =
  (case tty_result s 0 of Some e \<Rightarrow> (Inl (SystemError e what), s\<lparr>tty_script := tl (tty_script s)\<rparr>)
   | None \<Rightarrow> m (s\<lparr>tty_script := tl (tty_script s)\<rparr>))"
  by (simp add: thenS_def bindS_def tty_or_throw_eq split: option.split)

lemma tty_result_console [simp]: "tty_result (s\<lparr>console := c\<rparr>) i = tty_result s i"
  by (simp add: tty_result_def)

text \<open>What the terminal calls leave alone.\<close>

definition same_memory :: "pw_world \<Rightarrow> pw_world \<Rightarrow> bool" where
  "same_memory s t \<longleftrightarrow> freed t = freed s \<and> fresh t = fresh s \<and> (sane s \<longrightarrow> sane t) \<and> unread t = unread s"

lemma disable_echo_cases:
  assumes "disable_echo path s = (r, s1)"
  shows "same_memory s s1 \<and> (case r of Inl e \<Rightarrow> echo_on s1 = echo_on s \<and> canonical s1 = canonical s
    | Inr a \<Rightarrow> a = (echo_on s, canonical s) \<and> \<not> echo_on s1 \<and> canonical s1 \<and> (\<forall>i. tty_result s1 i = tty_result s (i + 3)))"
proof -
  let ?t = "\<lambda>s. s\<lparr>tty_script := tl (tty_script s)\<rparr>"
  have res: "tty_result (?t s) 0 = tty_result s 1" "tty_result (?t (?t s)) 0 = tty_result s 2"
    "tty_result (?t (?t (?t s))) i = tty_result s (i + 3)" for i
    by (simp_all only: tty_result_tl One_nat_def numeral_2_eq_2 numeral_3_eq_3 add_Suc_right add_0_right)
  have mem: "same_memory s (s\<lparr>tty_script := ts\<rparr>)" "same_memory s (s\<lparr>tty_script := ts, echo_on := e, canonical := c\<rparr>)" for ts e c
    by (simp_all add: same_memory_def sane_def)
  show ?thesis
  proof (cases "tty_result s 0 = None \<and> tty_result s 1 = None \<and> tty_result s 2 = None")
    case True
    then have "r = Inr (echo_on s, canonical s)" "s1 = (?t (?t (?t s)))\<lparr>echo_on := False, canonical := True\<rparr>"
      using assms res by (simp_all add: disable_echo_def thenS_def bindS_def tty_or_throw_eq)
    moreover have "tty_result ((?t (?t (?t s)))\<lparr>echo_on := False, canonical := True\<rparr>) i = tty_result (?t (?t (?t s))) i" for i
      by (simp add: tty_result_def)
    ultimately show ?thesis using mem(2) res(3) by simp
  next
    case False
    then have "\<exists>e ts. r = Inl e \<and> s1 = s\<lparr>tty_script := ts\<rparr>"
      using assms res by (auto simp: disable_echo_def thenS_def bindS_def tty_or_throw_eq split: option.splits)
    then show ?thesis using mem(1) by auto
  qed
qed



section \<open>The tolerance is forgotten\<close>

lemma resizedTo_refused:
  assumes "tidy fr b" and "\<forall>n. mlock_refuses s n \<noteq> None" and "resizedTo n b s = (r, s')"
  shows "\<exists>e. r = Inl e"
proof (rule ccontr)
  assume "\<not> ?thesis"
  then obtain out s1 where n: "new_buffer n (pw_options b) s = (Inr out, s1)"
    using assms(3) by (cases "new_buffer n (pw_options b) s"; cases "fst (new_buffer n (pw_options b) s)") (auto simp: resizedTo_def)
  then obtain mem u s2 where p: "protect madvise_refuses (DontDump n) (tolerateCoreDumps (pw_options b))
        ''mdavise(,, MADV_DONTDUMP)'' dump_warning mem n s = (Inr u, s2)"
      "\<exists>v. protect mlock_refuses (Lock n) (tolerateSwapEnabled (pw_options b)) ''mlock'' swap_warning mem n s2 = (Inr v, s1)"
    using new_storage_cases unfolding new_buffer_def bindS_eq_Inr by fastforce
  have "mlock_refuses s2 = mlock_refuses s"
    using p(1) by (auto simp: protect_def sys_mem_def bindS_def thenS_def split: option.splits if_splits)
  then have "mlock_refuses s2 n \<noteq> None" using assms(2) by simp
  then show False using p(2) assms(1) by (auto simp: protect_def sys_mem_def tidy_def default_options_def)
qed

text \<open>
  When the machine refuses to lock memory, \<open>readuntil\<close> throws even if its caller tolerates
  swapping: the constructor, which does tolerate it, keeps no record of it for the copy that
  \<open>readuntil\<close> returns.
\<close>
theorem tolerance_forgotten:
  assumes "sane s" and "\<forall>n. mlock_refuses s n \<noteq> None"
  shows "\<exists>e. fst (readuntil sentinel opts s) = Inl e"
proof (rule ccontr)
  assume "\<not> ?thesis"
  then obtain out s' where "readuntil sentinel opts s = (Inr out, s')" by (metis surj_pair fst_conv obj_sumE)
  then obtain p s0 b s1 buf k s2 where p: "page_size s = Inr p" and n: "new_buffer (p div 2) opts s = (Inr b, s1)"
      and l: "readuntil_loop sentinel b 0 s1 = (Inr (buf, k), s2)"
      and z: "fst (resizedTo k (poke k [0] buf) s2) = Inr out"
    by (auto simp: readuntil_def bindS_eq_Inr getpagesize_def Let_def split: sum.splits prod.splits)
      (metis fst_conv surj_pair)
  note half_page [OF assms(1) p]
  then have N: "released s s1" "tidy (fresh s1) b" using new_buffer_cases [OF n] assms(1) fresh_released by auto
  then have "sane s1" using assms(1) sane_released by blast
  then have "buffer_result s1 (Inr (buf, k), s2)" using readuntil_loop_keeps [of s1 b 0 sentinel] N l by simp
  then have "tidy (fresh s1) (poke k [0] buf)" "released s1 s2" using tidy_terminator by (simp_all add: buffer_result_def)
  moreover from this N have "mlock_refuses s2 = mlock_refuses s" by (simp add: released_def pw_machine_def)
  ultimately show False using resizedTo_refused [of _ "poke k [0] buf" s2 k] assms(2) z by (metis prod.collapse Inl_Inr_False)
qed

lemma tolerance_forgotten_witness:
  "\<exists>e. fst (readuntil [10] (default_options\<lparr>tolerateSwapEnabled := True\<rparr>)
     (sample_world\<lparr>mlock_refuses := \<lambda>_. Some EPERM\<rparr>)) = Inl e"
  by (rule tolerance_forgotten) (simp_all add: sane_def sample_world_def)

lemma tolerance_kept_by_constructor:
  assumes "grants p (s\<lparr>mlock_refuses := \<lambda>_. None\<rparr>)" and "len + p < 2 ^ 63" and "tolerateSwapEnabled opts"
  shows "\<exists>b s'. new_buffer len opts s = (Inr b, s')"
proof -
  have "misalignment s mod p < p" using assms(1) by (intro mod_less_divisor) (simp add: grants_def)
  then have "\<not> len + p < misalignment s mod p + (len + 1)" by linarith
  moreover have "len + 1 + p - 1 = len + p" "(len + p) mod 2 ^ 64 = len + p" "(len + 1) mod 2 ^ 64 = len + 1"
    using assms by (simp_all add: grants_def)
  ultimately have "new_storage len s = (Inr (map (fresh s) [0..<len + p - misalignment s mod p]), s)"
    using assms by (simp add: new_storage_def getpagesize_def grants_def Let_def)
  then show ?thesis
    using assms by (simp add: new_buffer_def protect_def sys_mem_def grants_def bindS_def thenS_def split: option.split)
qed

text \<open>A sentinel of more than one byte is overlooked when a read ends inside it.\<close>

lemma split_sentinel_overlooked:
  "map_sum id password (fst (readuntil [10, 33] default_options (sample_world\<lparr>page_size := Inr 16, script := [Partial 3]\<rparr>))) =
    Inr [104, 105, 10, 33]"
  by (simp add: readuntil_def readuntil_loop.simps getpagesize_def new_buffer_def new_storage_def protect_def
      sys_mem_def bindS_def sample_world_def default_options_def resizedTo_def poke_def password_def
      sys_read_def size_minus_def Let_def upt_rec)

end
