(* ===== verification/Parser.thy ===== *)
theory Parser
  imports Text "HOL-Library.List_Lexorder" "HOL-Library.Char_ord"
begin

text \<open>
  \<^verbatim>\<open>diffmonger/util/parser/Parser.hpp\<close>: the parser of command lines and the generated
  documentation. A command is a node of a tree; its virtual functions are the fields of a record
  of hooks, programs over the tree and a state of the client. Commands are named by their path
  from the root.
\<close>

section \<open>Ordered maps\<close>

text \<open>\<^verbatim>\<open>std::map\<close> with string keys: an association list in the order of the keys.\<close>

type_synonym 'a smap = "(string \<times> 'a) list"

fun try_emplace :: "string \<Rightarrow> 'a \<Rightarrow> 'a smap \<Rightarrow> 'a smap" where
  "try_emplace k v [] = [(k, v)]"
| "try_emplace k v ((k', v') # m) =
     (if k < k' then (k, v) # (k', v') # m else if k = k' then (k', v') # m else (k', v') # try_emplace k v m)"

definition smap_update :: "string \<Rightarrow> ('a \<Rightarrow> 'a) \<Rightarrow> 'a smap \<Rightarrow> 'a smap" where
  "smap_update k f m = map (\<lambda>(k', v). (k', if k' = k then f v else v)) m"

definition smap_erase :: "string \<Rightarrow> 'a smap \<Rightarrow> 'a smap" where
  "smap_erase k m = filter (\<lambda>(k', _). k' \<noteq> k) m"

section \<open>Parameters\<close>

datatype param_type = Required | Defaulted "string list" | Optional

text \<open>
  The members of \<^verbatim>\<open>ParameterHelper\<close>: \<open>process_chain\<close> is the chain of its filters with what each
  says of itself, \<open>held\<close> what its \<^verbatim>\<open>Storage\<close> holds.
\<close>

record 'v parameter =
  param_type :: param_type
  documentation :: string
  process_chain :: "string list \<Rightarrow> 'v result"
  constraints :: "string list"
  held :: "'v option"

definition ParameterHelper ::
  "param_type \<Rightarrow> string \<Rightarrow> (string list \<Rightarrow> 'v result) \<Rightarrow> string list \<Rightarrow> 'v parameter result" where
  "ParameterHelper type doc chain descr =
     bindR (case type of Defaulted d \<Rightarrow> bindR (chain d) (\<lambda>v. Inr (Some v)) | _ \<Rightarrow> Inr None) (\<lambda>v.
     Inr \<lparr>param_type = type, documentation = doc, process_chain = chain, constraints = descr, held = v\<rparr>)"

definition param_set :: "string list \<Rightarrow> 'v parameter \<Rightarrow> 'v parameter result" where
  "param_set values p = bindR (process_chain p values) (\<lambda>v. Inr (p\<lparr>held := Some v\<rparr>))"

definition storage_get :: "'v parameter \<Rightarrow> 'v option result" where
  "storage_get p =
     (case param_type p of
        Optional \<Rightarrow> Inr (held p)
      | Required \<Rightarrow> (case held p of Some v \<Rightarrow> Inr (Some v) | None \<Rightarrow> Inl (ArgumentError ''Required value not given''))
      | Defaulted _ \<Rightarrow> (case held p of Some v \<Rightarrow> Inr (Some v) | None \<Rightarrow> Inl (AssertionFailed ''value'')))"

text \<open>What happens to an \<open>argument_error\<close> on its way out.\<close>

fun in_context :: "string \<Rightarrow> exn \<Rightarrow> exn" where
  "in_context context (ArgumentError msg) = ArgumentError (context @ '': '' @ msg)"
| "in_context context e = e"

definition param_get :: "string \<Rightarrow> 'v parameter \<Rightarrow> 'v option result" where
  "param_get key p = (case storage_get p of
     Inl e \<Rightarrow> Inl (in_context (''Regarding parameter '' @ key) e) | Inr v \<Rightarrow> Inr v)"

definition param_check :: "string \<Rightarrow> 'v parameter \<Rightarrow> unit result" where
  "param_check key p = bindR (param_get key p) (\<lambda>_. Inr ())"

section \<open>Filters\<close>

definition scalar :: "'a list \<Rightarrow> 'a result" where
  "scalar args = (if length args \<noteq> 1 then Inl (ArgumentError ''Wrong number of args'') else Inr (hd args))"

definition vector :: "string list \<Rightarrow> string list result" where
  "vector args = Inr args"

text \<open>
  \<^verbatim>\<open>std::from_chars\<close> for a type with the values from \<open>lo\<close> to \<open>hi\<close>: an optional minus if there are
  negative values, the longest run of digits, and what follows. It fails without digits and out of range.
\<close>

definition from_chars :: "int \<Rightarrow> int \<Rightarrow> string \<Rightarrow> (int \<times> string) option" where
  "from_chars lo hi s =
     (let neg = lo < 0 \<and> s \<noteq> [] \<and> hd s = CHR ''-'';
          t = (if neg then tl s else s);
          ds = takeWhile is_digit t;
          v = (if neg then - int (digits_value ds) else int (digits_value ds))
      in if ds = [] \<or> v < lo \<or> hi < v then None else Some (v, drop (length ds) t))"

definition int64_range :: "int \<times> int" where "int64_range = (- (2 ^ 63), 2 ^ 63 - 1)"
definition uint64_range :: "int \<times> int" where "uint64_range = (0, 2 ^ 64 - 1)"
definition int_range :: "int \<times> int" where "int_range = (- (2 ^ 31), 2 ^ 31 - 1)"

definition integer :: "int \<times> int \<Rightarrow> string \<Rightarrow> int result" where
  "integer bounds arg = (case from_chars (fst bounds) (snd bounds) arg of
     None \<Rightarrow> Inl (ArgumentError (''invalid number: '' @ arg)) | Some (v, _) \<Rightarrow> Inr v)"

definition non_negative :: "int \<Rightarrow> int result" where
  "non_negative x =
     (if x < 0 then Inl (ArgumentError (''negative value: '' @ int_to_string x)) else Inr x)"

text \<open>\<^verbatim>\<open>std::quoted\<close> with the quote \<^verbatim>\<open>"\<close> and the escape \<^verbatim>\<open>\\<close>.\<close>

definition quoted :: "string \<Rightarrow> string" where
  "quoted s = [CHR 0x22] @ concat (map (\<lambda>c. if c = CHR 0x22 \<or> c = CHR 0x5C then [CHR 0x5C, c] else [c]) s) @ [CHR 0x22]"

fun intersperse_quoted :: "string \<Rightarrow> string list \<Rightarrow> string" where
  "intersperse_quoted sep [] = []"
| "intersperse_quoted sep [v] = quoted v"
| "intersperse_quoted sep (v # vs) = quoted v @ sep @ intersperse_quoted sep vs"

definition choice :: "'a smap \<Rightarrow> string \<Rightarrow> (string \<times> 'a) result" where
  "choice m arg = (case map_of m arg of
     None \<Rightarrow> Inl (ArgumentError (''invalid value for choice: '' @ quoted arg)) | Some v \<Rightarrow> Inr (arg, v))"

definition choice_describe :: "'a smap \<Rightarrow> string" where
  "choice_describe m = ''Choice of: '' @ intersperse_quoted '', '' (map fst m) @ ''.''"

definition boolean_map :: "bool smap" where
  "boolean_map = [(''false'', False), (''true'', True)]"

definition boolean :: "string \<Rightarrow> bool result" where
  "boolean arg = bindR (choice boolean_map arg) (\<lambda>(_, b). Inr b)"

text \<open>\<open>exists\<close> stands for \<^verbatim>\<open>std::filesystem::exists\<close>.\<close>

definition existing_file :: "(string \<Rightarrow> bool) \<Rightarrow> string \<Rightarrow> string result" where
  "existing_file exists x =
     (if exists x then Inl (RuntimeError (''File does not exist: '' @ x)) else Inr x)"

section \<open>Commands\<close>

datatype 'v cli_command = CliCommand
  (command_name: string) (self_documentation: string)
  (parameters: "'v parameter smap") (subcommands: "'v cli_command smap")

text \<open>
  The constructor checks the argument \<^verbatim>\<open>name\<close> after moving it into the member: it is empty then.
\<close>

definition make_command :: "string \<Rightarrow> string \<Rightarrow> 'v cli_command result" where
  "make_command nm doc =
     (let moved_from = [] :: string in
      if CHR ''='' \<in> set moved_from \<or> CHR '':'' \<in> set moved_from \<or> CHR ''+'' \<in> set moved_from
      then Inl (ArgumentError (''Invalid name: '' @ moved_from))
      else Inr (CliCommand nm doc [] []))"

definition emplaceSubCommand :: "'v cli_command \<Rightarrow> 'v cli_command \<Rightarrow> 'v cli_command result" where
  "emplaceSubCommand sub c =
     (if map_of (subcommands c) (command_name sub) \<noteq> None
      then Inl (RuntimeError (''Duplicate subcommand: '' @ quoted (command_name sub)))
      else Inr (CliCommand (command_name c) (self_documentation c) (parameters c)
        (try_emplace (command_name sub) sub (subcommands c))))"

definition addParameter :: "string \<Rightarrow> 'v parameter \<Rightarrow> 'v cli_command \<Rightarrow> 'v cli_command result" where
  "addParameter key p c =
     (if map_of (parameters c) key \<noteq> None
      then Inl (RuntimeError (''Duplicate parameter: '' @ quoted key))
      else Inr (CliCommand (command_name c) (self_documentation c) (try_emplace key p (parameters c)) (subcommands c)))"

definition set_parameters :: "('v parameter smap \<Rightarrow> 'v parameter smap) \<Rightarrow> 'v cli_command \<Rightarrow> 'v cli_command" where
  "set_parameters f c = CliCommand (command_name c) (self_documentation c) (f (parameters c)) (subcommands c)"

text \<open>The command at a path, and a change of it.\<close>

type_synonym cmd_path = "string list"

fun command_at :: "cmd_path \<Rightarrow> 'v cli_command \<Rightarrow> 'v cli_command option" where
  "command_at [] c = Some c"
| "command_at (k # ks) c = (case map_of (subcommands c) k of None \<Rightarrow> None | Some d \<Rightarrow> command_at ks d)"

fun change_at :: "cmd_path \<Rightarrow> ('v cli_command \<Rightarrow> 'v cli_command) \<Rightarrow> 'v cli_command \<Rightarrow> 'v cli_command" where
  "change_at [] f c = f c"
| "change_at (k # ks) f c = CliCommand (command_name c) (self_documentation c) (parameters c)
     (smap_update k (change_at ks f) (subcommands c))"

section \<open>The parser\<close>

text \<open>
  The tree of commands with the state of the client, and the virtual functions of the commands
  over both. A hook gets the path of the command it belongs to.
\<close>

record ('v, 'w) parsing =
  tree :: "'v cli_command"
  client :: 'w

type_synonym ('v, 'w) action = "(('v, 'w) parsing, unit) prog"

record ('v, 'w) hooks =
  on_enter :: "cmd_path \<Rightarrow> ('v, 'w) action"
  before_subcommand :: "cmd_path \<Rightarrow> string \<Rightarrow> ('v, 'w) action"
  execute :: "cmd_path \<Rightarrow> ('v, 'w) action"
  unrecognisedParameters :: "cmd_path \<Rightarrow> string list smap \<Rightarrow> ('v, 'w) action"

text \<open>The functions of the base class.\<close>

definition base_hooks :: "('v, 'w) hooks" where
  "base_hooks = \<lparr>on_enter = (\<lambda>_. retS ()), before_subcommand = (\<lambda>_ _. retS ()),
     execute = (\<lambda>_. throwS (ArgumentError ''Subcommand expected'')),
     unrecognisedParameters = (\<lambda>_ m. forS (\<lambda>(k, _). throwS (ArgumentError (''Unrecognised parameter: '' @ quoted k))) m)\<rparr>"

text \<open>The names from the root down, joined by \<^verbatim>\<open>>>\<close>; the parameter comes last.\<close>

fun joined :: "string list \<Rightarrow> string" where
  "joined [] = []"
| "joined [n] = n"
| "joined (n # ns) = n @ ''>>'' @ joined ns"

definition contextstr :: "'v cli_command \<Rightarrow> cmd_path \<Rightarrow> string option \<Rightarrow> string" where
  "contextstr root path param =
     joined (command_name root # path) @ (case param of None \<Rightarrow> [] | Some p \<Rightarrow> ''>>'' @ p)"

definition with_context :: "cmd_path \<Rightarrow> string option \<Rightarrow> (('v, 'w) parsing, 'a) prog \<Rightarrow> (('v, 'w) parsing, 'a) prog" where
  "with_context path param f =
     catchS f (\<lambda>e s. throwS (in_context (''Error while processing '' @ contextstr (tree s) path param) e) s)"

definition with_contextual_error :: "cmd_path \<Rightarrow> string option \<Rightarrow> string \<Rightarrow> (('v, 'w) parsing, 'a) prog" where
  "with_contextual_error path param msg s =
     throwS (ArgumentError (''Error while processing '' @ contextstr (tree s) path param @ '': '' @ msg)) s"

text \<open>One parameter of the command at \<open>path\<close>: the values given for it are taken out of the map.\<close>

definition param_at :: "cmd_path \<Rightarrow> string \<Rightarrow> ('v, 'w) parsing \<Rightarrow> 'v parameter option" where
  "param_at path key s = (case command_at path (tree s) of None \<Rightarrow> None | Some c \<Rightarrow> map_of (parameters c) key)"

definition put_param :: "cmd_path \<Rightarrow> string \<Rightarrow> 'v parameter \<Rightarrow> ('v, 'w) parsing \<Rightarrow> ('v, 'w) parsing" where
  "put_param path key p s = s\<lparr>tree := change_at path (set_parameters (smap_update key (\<lambda>_. p))) (tree s)\<rparr>"

definition finalise_param ::
  "cmd_path \<Rightarrow> string list smap \<Rightarrow> string \<Rightarrow> (('v, 'w) parsing, string list smap) prog" where
  "finalise_param path m key s =
     (case param_at path key s of
        None \<Rightarrow> (Inr m, s)
      | Some p \<Rightarrow> with_context path (Some key)
          (bindS (case map_of m key of
                    None \<Rightarrow> retS p
                  | Some values \<Rightarrow> bindS (liftR (param_set values p)) (\<lambda>p'. thenS (modifyS (put_param path key p')) (retS p')))
             (\<lambda>p'. bindS (liftR (param_check key p')) (\<lambda>_. retS (smap_erase key m)))) s)"

definition param_keys :: "cmd_path \<Rightarrow> ('v, 'w) parsing \<Rightarrow> string list" where
  "param_keys path s = (case command_at path (tree s) of None \<Rightarrow> [] | Some c \<Rightarrow> map fst (parameters c))"

definition finalise :: "('v, 'w) hooks \<Rightarrow> cmd_path \<Rightarrow> string list smap \<Rightarrow> ('v, 'w) action" where
  "finalise h path m =
     bindS (getS (param_keys path)) (\<lambda>keys.
     bindS (foldS (finalise_param path) m keys) (\<lambda>rest.
     with_context path None (unrecognisedParameters h path rest)))"

definition before_eq :: "string \<Rightarrow> string" where
  "before_eq cur = takeWhile (\<lambda>c. c \<noteq> CHR ''='') cur"

definition has_eq :: "string \<Rightarrow> bool" where
  "has_eq cur \<longleftrightarrow> CHR ''='' \<in> set cur"

definition after_eq :: "string \<Rightarrow> string" where
  "after_eq cur = drop (length (before_eq cur) + 1) cur"

definition ends_with :: "string \<Rightarrow> char \<Rightarrow> bool" where
  "ends_with s c \<longleftrightarrow> s \<noteq> [] \<and> last s = c"

definition starts_eq :: "string \<Rightarrow> bool" where
  "starts_eq s \<longleftrightarrow> s \<noteq> [] \<and> hd s = CHR ''=''"

definition is_subcommand_token :: "string \<Rightarrow> bool" where
  "is_subcommand_token cur \<longleftrightarrow> \<not> has_eq cur \<and> \<not> ends_with cur (CHR '':'')"

definition assign :: "string \<Rightarrow> string list \<Rightarrow> string list smap \<Rightarrow> string list smap" where
  "assign k vs m = smap_update k (\<lambda>_. vs) (try_emplace k [] m)"

definition append_value :: "string \<Rightarrow> string \<Rightarrow> string list smap \<Rightarrow> string list smap" where
  "append_value k v m = smap_update k (\<lambda>vs. vs @ [v]) (try_emplace k [] m)"

text \<open>The loop of \<open>parse\<close> and what follows it: the command that is acted on, the values gathered for it, and the arguments left.\<close>

function parse_loop :: "('v, 'w) hooks \<Rightarrow> cmd_path \<Rightarrow> string list smap \<Rightarrow> string list \<Rightarrow> ('v, 'w) action" where
  "parse_loop h path m [] = thenS (finalise h path m) (with_context path None (execute h path))"
| "parse_loop h path m (cur # rest) =
     (let key_and_token = before_eq cur; ends_assign = ends_with key_and_token (CHR '':'') in
      if is_subcommand_token cur
      then (\<lambda>s. if command_at (path @ [cur]) (tree s) = None
           then with_contextual_error path None (''Unrecognised command: '' @ quoted cur) s
           else thenS (finalise h path m)
             (thenS (with_context path None (before_subcommand h path cur))
             (thenS (with_context (path @ [cur]) None (on_enter h (path @ [cur])))
             (parse_loop h (path @ [cur]) [] rest))) s)
      else if ends_with key_and_token (CHR ''+'')
      then parse_loop h path (append_value (butlast key_and_token) (after_eq cur) m) rest
      else let key = (if ends_assign then butlast key_and_token else key_and_token) in
        if \<not> has_eq cur then parse_loop h path (assign key [] m) rest
        else parse_loop h path (assign key (after_eq cur # map tl (takeWhile starts_eq rest)) m) (dropWhile starts_eq rest))"
  by pat_completeness auto
termination
  by (relation "measure (\<lambda>(_, _, _, args). length args)")
    (auto simp: length_dropWhile_le less_Suc_eq_le)
declare parse_loop.simps [simp del]

definition parse :: "('v, 'w) hooks \<Rightarrow> cmd_path option \<Rightarrow> string list \<Rightarrow> ('v, 'w) action" where
  "parse h actionable args =
     (case actionable of
        None \<Rightarrow> throwS (LogicError ''parse() given nullptr'')
      | Some path \<Rightarrow> thenS (with_context path None (on_enter h path)) (parse_loop h path [] args))"

text \<open>\<^verbatim>\<open>parse\<close> of \<^verbatim>\<open>argc\<close> and \<^verbatim>\<open>argv\<close>: the name of the program is left out.\<close>

definition parse_argv :: "('v, 'w) hooks \<Rightarrow> string list \<Rightarrow> ('v, 'w) action" where
  "parse_argv h argv = parse h (Some []) (tl argv)"

section \<open>The grammar\<close>

text \<open>
  Command lines as the comment above the class describes them: the name of a command followed by
  parameters, which are assigned a list of values, in either notation, or appended one.
\<close>

datatype setting = Assign bool string "string list" | Append string string

fun render :: "setting \<Rightarrow> string list" where
  "render (Assign _ k []) = [k @ '':'']"
| "render (Assign colon k (v # vs)) = (k @ (if colon then '':='' else ''='') @ v) # map ((#) (CHR ''='')) vs"
| "render (Append k v) = [k @ ''+='' @ v]"

fun setting_key :: "setting \<Rightarrow> string" where
  "setting_key (Assign _ k _) = k"
| "setting_key (Append k _) = k"

text \<open>A name that none of the notations takes apart.\<close>

definition plain_name :: "string \<Rightarrow> bool" where
  "plain_name k \<longleftrightarrow> k \<noteq> [] \<and> CHR ''='' \<notin> set k \<and> last k \<noteq> CHR '':'' \<and> last k \<noteq> CHR ''+''"

fun apply_setting :: "setting \<Rightarrow> string list smap \<Rightarrow> string list smap" where
  "apply_setting (Assign _ k vs) m = assign k vs m"
| "apply_setting (Append k v) m = append_value k v m"

datatype segment = Segment (segment_command: string) (segment_settings: "setting list")

definition render_segment :: "segment \<Rightarrow> string list" where
  "render_segment g = segment_command g # concat (map render (segment_settings g))"

definition well_formed :: "setting list \<Rightarrow> bool" where
  "well_formed as \<longleftrightarrow> list_all (\<lambda>a. plain_name (setting_key a)) as"

text \<open>What the command line means: each command is finished with all that is set for it before the next is entered.\<close>

fun meaning :: "('v, 'w) hooks \<Rightarrow> cmd_path \<Rightarrow> setting list \<Rightarrow> segment list \<Rightarrow> ('v, 'w) action" where
  "meaning h path as [] =
     thenS (finalise h path (fold apply_setting as [])) (with_context path None (execute h path))"
| "meaning h path as (g # gs) = (\<lambda>s.
     let sub = segment_command g in
     if command_at (path @ [sub]) (tree s) = None
     then with_contextual_error path None (''Unrecognised command: '' @ quoted sub) s
     else thenS (finalise h path (fold apply_setting as []))
       (thenS (with_context path None (before_subcommand h path sub))
       (thenS (with_context (path @ [sub]) None (on_enter h (path @ [sub])))
       (meaning h (path @ [sub]) (segment_settings g) gs))) s)"

lemma before_eq_append: "CHR ''='' \<notin> set k \<Longrightarrow> before_eq (k @ CHR ''='' # v) = k"
  by (simp add: before_eq_def takeWhile_append)

lemma after_eq_append: "CHR ''='' \<notin> set k \<Longrightarrow> after_eq (k @ CHR ''='' # v) = v"
  by (simp add: after_eq_def before_eq_append)

lemma before_eq_plain: "CHR ''='' \<notin> set k \<Longrightarrow> before_eq k = k"
  by (auto simp: before_eq_def takeWhile_eq_all_conv)

text \<open>What follows a setting does not start with an equals sign.\<close>

definition detached :: "string list \<Rightarrow> bool" where
  "detached args \<longleftrightarrow> (case args of [] \<Rightarrow> True | a # _ \<Rightarrow> \<not> starts_eq a)"

lemma plain_not_eq: "plain_name k \<Longrightarrow> \<not> starts_eq (k @ x)"
  by (cases k) (auto simp: plain_name_def starts_eq_def)

lemma render_detached: "plain_name (setting_key a) \<Longrightarrow> detached (render a @ args)"
  using plain_not_eq by (cases a rule: render.cases) (simp_all add: detached_def)

lemma take_values:
  assumes "detached args"
  shows "takeWhile starts_eq (map ((#) (CHR ''='')) vs @ args) = map ((#) (CHR ''='')) vs"
    and "dropWhile starts_eq (map ((#) (CHR ''='')) vs @ args) = args"
proof -
  have "takeWhile starts_eq args = [] \<and> dropWhile starts_eq args = args"
    using assms by (cases args) (simp_all add: detached_def)
  then show "takeWhile starts_eq (map ((#) (CHR ''='')) vs @ args) = map ((#) (CHR ''='')) vs"
      "dropWhile starts_eq (map ((#) (CHR ''='')) vs @ args) = args"
    by (induction vs) (simp_all add: starts_eq_def)
qed

lemma parse_setting:
  assumes "plain_name (setting_key a)" and "detached args"
  shows "parse_loop h path m (render a @ args) = parse_loop h path (apply_setting a m) args"
proof (cases a rule: render.cases)
  case (1 colon k)
  then have k: "plain_name k" using assms(1) by simp
  then have "before_eq (k @ '':'') = k @ '':''" "\<not> has_eq (k @ '':'')"
    by (simp_all add: before_eq_plain has_eq_def plain_name_def)
  then show ?thesis using 1
    by (simp add: parse_loop.simps(2) Let_def is_subcommand_token_def ends_with_def butlast_append)
next
  case (2 colon k v vs)
  then have k: "plain_name k" using assms(1) by simp
  let ?cur = "k @ (if colon then '':='' else ''='') @ v"
  have eq: "CHR ''='' \<notin> set (if colon then k @ '':'' else k)" using k by (simp add: plain_name_def)
  have cur: "?cur = (if colon then k @ '':'' else k) @ CHR ''='' # v" by simp
  have "before_eq ?cur = (if colon then k @ '':'' else k)" "after_eq ?cur = v" "has_eq ?cur"
    unfolding cur using before_eq_append [OF eq] after_eq_append [OF eq] by (simp_all add: has_eq_def)
  then show ?thesis using 2 k take_values [OF assms(2), of vs]
    by (cases colon) (simp_all add: parse_loop.simps(2) Let_def is_subcommand_token_def ends_with_def
        butlast_append plain_name_def o_def)
next
  case (3 k v)
  then have k: "plain_name k" using assms(1) by simp
  have eq: "CHR ''='' \<notin> set (k @ ''+'')" using k by (simp add: plain_name_def)
  have cur: "k @ ''+='' @ v = (k @ ''+'') @ CHR ''='' # v" by simp
  have "before_eq (k @ ''+='' @ v) = k @ ''+''" "after_eq (k @ ''+='' @ v) = v" "has_eq (k @ ''+='' @ v)"
    unfolding cur using before_eq_append [OF eq] after_eq_append [OF eq] by (simp_all add: has_eq_def)
  then show ?thesis using 3
    by (simp add: parse_loop.simps(2) Let_def is_subcommand_token_def ends_with_def butlast_append)
qed

lemma settings_detached: "well_formed as \<Longrightarrow> detached args \<Longrightarrow> detached (concat (map render as) @ args)"
  using render_detached by (cases as) (simp_all add: well_formed_def)

lemma parse_settings:
  "well_formed as \<Longrightarrow> detached args \<Longrightarrow>
    parse_loop h path m (concat (map render as) @ args) = parse_loop h path (fold apply_setting as m) args"
proof (induction as arbitrary: m)
  case (Cons a as)
  then have "well_formed as" "plain_name (setting_key a)" by (simp_all add: well_formed_def)
  then show ?case using Cons parse_setting [of a "concat (map render as) @ args" h path m] settings_detached by simp
qed simp

lemma parse_meaning:
  assumes "well_formed as" and "list_all (\<lambda>g. is_subcommand_token (segment_command g) \<and> well_formed (segment_settings g)) gs"
  shows "parse_loop h path [] (concat (map render as) @ concat (map render_segment gs)) = meaning h path as gs"
  using assms
proof (induction gs arbitrary: path as)
  case Nil
  then show ?case using parse_settings [of as "[]" h path "[]"] by (simp add: detached_def parse_loop.simps(1))
next
  case (Cons g gs)
  let ?sub = "segment_command g"
  have sub: "is_subcommand_token ?sub" "well_formed (segment_settings g)" using Cons.prems by simp_all
  then have "\<not> starts_eq ?sub" by (cases ?sub) (auto simp: is_subcommand_token_def has_eq_def starts_eq_def)
  then have line: "parse_loop h path [] (concat (map render as) @ concat (map render_segment (g # gs))) =
      parse_loop h path (fold apply_setting as []) (?sub # concat (map render (segment_settings g)) @ concat (map render_segment gs))"
    using parse_settings [OF Cons.prems(1), of "?sub # concat (map render (segment_settings g)) @ concat (map render_segment gs)"
      h path "[]"] by (simp add: detached_def render_segment_def)
  have rest: "parse_loop h (path @ [?sub]) [] (concat (map render (segment_settings g)) @ concat (map render_segment gs)) =
      meaning h (path @ [?sub]) (segment_settings g) gs"
    using Cons.IH [of "segment_settings g"] Cons.prems sub by simp
  show ?case unfolding line parse_loop.simps(2) [of h path _ ?sub] Let_def rest meaning.simps(2) using sub(1) by simp
qed

text \<open>How settings of the same parameter combine.\<close>

definition ordered :: "'a smap \<Rightarrow> bool" where
  "ordered m \<longleftrightarrow> sorted_wrt (<) (map fst m)"

lemma map_of_smap_update: "map_of (smap_update k f m) j = (if j = k then map_option f (map_of m k) else map_of m j)"
  by (induction m) (auto simp: smap_update_def)

lemma ordered_not_before: "ordered ((k', v) # m) \<Longrightarrow> k < k' \<Longrightarrow> map_of m k = None"
  by (force simp: ordered_def map_of_eq_None_iff)

lemma map_of_try_emplace:
  "ordered m \<Longrightarrow> map_of (try_emplace k v m) j = (if j = k \<and> map_of m k = None then Some v else map_of m j)"
proof (induction k v m rule: try_emplace.induct)
  case (2 k v k' v' m)
  then show ?case using ordered_not_before [of k' v' m k] by (auto simp: ordered_def)
qed simp

lemma keys_try_emplace: "fst ` set (try_emplace k v m) \<subseteq> insert k (fst ` set m)"
  by (induction k v m rule: try_emplace.induct) auto

lemma ordered_try_emplace: "ordered m \<Longrightarrow> ordered (try_emplace k v m)"
proof (induction k v m rule: try_emplace.induct)
  case (2 k v k' v' m)
  show ?case using 2 keys_try_emplace [of k v m] unfolding ordered_def by (fastforce simp: not_less)
qed (simp add: ordered_def)

lemma ordered_smap_update [simp]: "ordered (smap_update k f m) = ordered m"
proof -
  have "map fst (smap_update k f m) = map fst m" by (induction m) (auto simp: smap_update_def)
  then show ?thesis by (simp add: ordered_def)
qed

lemma ordered_apply: "ordered m \<Longrightarrow> ordered (fold apply_setting as m)"
proof (induction as arbitrary: m)
  case (Cons a as)
  then show ?case by (cases a) (simp_all add: assign_def append_value_def ordered_try_emplace)
qed simp

lemma map_of_apply:
  assumes "ordered m"
  shows "map_of (apply_setting (Assign c k vs) m) j = (if j = k then Some vs else map_of m j)"
    and "map_of (apply_setting (Append k v) m) j =
      (if j = k then Some ((case map_of m k of None \<Rightarrow> [] | Some old \<Rightarrow> old) @ [v]) else map_of m j)"
  using assms by (auto simp: assign_def append_value_def map_of_smap_update map_of_try_emplace split: option.split)

text \<open>
  C40. The parser implements its grammar. A command line made of commands and of parameters with
  their values, in any of the notations, is taken apart into just these, whatever the values
  contain: every command is entered, finished with all that is set for it, and left for the next or
  executed, in this order. Of the settings of a parameter the last assignment and
  what is appended after it count; other parameters do not matter.
\<close>
theorem parser_grammar:
  assumes "well_formed as" and "list_all (\<lambda>g. is_subcommand_token (segment_command g) \<and> well_formed (segment_settings g)) gs"
  shows "parse h (Some path) (concat (map render as) @ concat (map render_segment gs)) =
      thenS (with_context path None (on_enter h path)) (meaning h path as gs) \<and>
    (\<forall>c k vs v j.
      map_of (fold apply_setting (as @ [Assign c k vs]) []) j =
        (if j = k then Some vs else map_of (fold apply_setting as []) j) \<and>
      map_of (fold apply_setting (as @ [Append k v]) []) j =
        (if j = k then Some ((case map_of (fold apply_setting as []) k of None \<Rightarrow> [] | Some old \<Rightarrow> old) @ [v])
         else map_of (fold apply_setting as []) j))"
proof (intro conjI allI)
  show "parse h (Some path) (concat (map render as) @ concat (map render_segment gs)) =
      thenS (with_context path None (on_enter h path)) (meaning h path as gs)"
    by (simp add: parse_def parse_meaning [OF assms])
next
  fix c k vs v j
  have "ordered (fold apply_setting as [])" by (rule ordered_apply) (simp add: ordered_def)
  note map_of_apply [OF this]
  then show "map_of (fold apply_setting (as @ [Assign c k vs]) []) j =
      (if j = k then Some vs else map_of (fold apply_setting as []) j)"
    "map_of (fold apply_setting (as @ [Append k v]) []) j =
      (if j = k then Some ((case map_of (fold apply_setting as []) k of None \<Rightarrow> [] | Some old \<Rightarrow> old) @ [v])
       else map_of (fold apply_setting as []) j)"
    by (simp_all del: apply_setting.simps)
qed

lemma parser_grammar_witness:
  "parse (base_hooks :: (bool, unit) hooks) (Some []) [''R=/r'', ''export'', ''cmd:=ssh'', ''=a=b'', ''cmd+=+c''] =
    thenS (with_context [] None (on_enter base_hooks []))
      (meaning base_hooks [] [Assign False ''R'' [''/r'']]
        [Segment ''export'' [Assign True ''cmd'' [''ssh'', ''a=b''], Append ''cmd'' ''+c'']])"
proof -
  have "well_formed [Assign False ''R'' [''/r'']]"
    "list_all (\<lambda>g. is_subcommand_token (segment_command g) \<and> well_formed (segment_settings g))
      [Segment ''export'' [Assign True ''cmd'' [''ssh'', ''a=b''], Append ''cmd'' ''+c'']]"
    by (simp_all add: well_formed_def plain_name_def is_subcommand_token_def has_eq_def ends_with_def)
  from conjunct1 [OF parser_grammar [OF this, of base_hooks "[]"]] show ?thesis by (simp add: render_segment_def del: meaning.simps)
qed

text \<open>
  Unlike the grammar says, no values can follow an argument that ends in a colon: they are taken
  for values of a parameter without a name.
\<close>

lemma values_after_colon:
  assumes "plain_name k" and "detached args"
  shows "parse_loop h path m ((k @ '':'') # (''='' @ v) # args) = parse_loop h path (assign [] [v] (assign k [] m)) args"
proof -
  have "before_eq (k @ '':'') = k @ '':''" "\<not> has_eq (k @ '':'')"
    using assms(1) by (simp_all add: before_eq_plain has_eq_def plain_name_def)
  then have "parse_loop h path m ((k @ '':'') # (''='' @ v) # args) = parse_loop h path (assign k [] m) ((''='' @ v) # args)"
    by (simp add: parse_loop.simps(2) [of h path m] Let_def is_subcommand_token_def ends_with_def butlast_append)
  also have "\<dots> = parse_loop h path (assign [] [v] (assign k [] m)) args"
    using take_values [OF assms(2), of "[]"] before_eq_append [of "[]" v] after_eq_append [of "[]" v]
    by (simp add: parse_loop.simps(2) [of h path _ "CHR ''='' # v"] Let_def is_subcommand_token_def ends_with_def has_eq_def)
  finally show ?thesis .
qed

section \<open>Documentation\<close>

text \<open>\<open>Indenter\<close>, with two spaces for each level.\<close>

definition indentation :: "nat \<Rightarrow> string" where
  "indentation level = replicate (level * 2) (CHR '' '')"

function appendAndIndentNewlines :: "nat \<Rightarrow> string \<Rightarrow> string" where
  "appendAndIndentNewlines level str =
     (if str = [] then []
      else let line = takeWhile (\<lambda>c. c \<noteq> CHR 0x0A) str in
        indentation level @ line @ [CHR 0x0A] @ appendAndIndentNewlines level (drop (length line + 1) str))"
  by pat_completeness auto
termination
  by (relation "measure (\<lambda>(_, str). length str)") auto
declare appendAndIndentNewlines.simps [simp del]

definition document_parameter :: "nat \<Rightarrow> string \<Rightarrow> 'v parameter \<Rightarrow> string" where
  "document_parameter level key p =
     indentation level @ key @ '':'' @ [CHR 0x0A] @
     indentation (level + 1) @
     (case param_type p of Required \<Rightarrow> ''Required'' | Optional \<Rightarrow> ''Optional''
      | Defaulted d \<Rightarrow> ''Defaulted with: '' @ intersperse_quoted '' '' d @ ''.'') @ [CHR 0x0A] @
     indentation (level + 1) @ ''Constraints:'' @ [CHR 0x0A] @
     concat (map (\<lambda>c. indentation (level + 2) @ ''- '' @ c @ [CHR 0x0A]) (constraints p)) @
     appendAndIndentNewlines (level + 1) (documentation p)"

fun document_command :: "nat \<Rightarrow> 'v cli_command \<Rightarrow> string" where
  "document_command level (CliCommand nm doc params subs) =
     indentation level @ nm @ '':'' @ [CHR 0x0A] @
     appendAndIndentNewlines (level + 1) doc @
     (if params = [] then []
      else indentation (level + 1) @ ''Parameters:'' @ [CHR 0x0A] @
        concat (map (\<lambda>(k, p). document_parameter (level + 2) k p) params)) @
     (if subs = [] then []
      else indentation (level + 1) @ ''Sub-Commands:'' @ [CHR 0x0A] @
        concat (map (\<lambda>(k, c). document_command (level + 2) c) subs))"

definition document :: "'v cli_command \<Rightarrow> string" where
  "document c = document_command 0 c"

end
