(* ===== verification/CommandLineInterface.thy ===== *)
theory CommandLineInterface
  imports Restore ZfsDriver PasswordBuffer Parser
begin

text \<open>
  \<^verbatim>\<open>src/CommandLineInterface.cpp\<close> and \<^verbatim>\<open>main.cpp\<close>: the commands as a tree with the hooks that run
  the functions of the controller, the parameters of a repository, which are read back by parsing
  the command line it was made with, and the exit status of the program.
\<close>

section \<open>Values of parameters\<close>

datatype node_ref = PlainNode u64 | RelativeNode int | LatestNode

datatype fd_source = RawFd int | FileFd string

datatype cli_value =
  VBool bool | VString string | VPath string | VSize u64 | VStrings "string list" | VNode node_ref | VFd fd_source

text \<open>\<open>DiffmongerNode\<close> and \<open>FdOrFile\<close>; \<open>opens\<close> says which error \<^verbatim>\<open>open\<close> gives for a path, if any.\<close>

definition process_node :: "string \<Rightarrow> node_ref result" where
  "process_node x =
     (if x = ''+max'' then Inr LatestNode
      else if x \<noteq> [] \<and> (hd x = CHR ''-'' \<or> hd x = CHR ''+'')
      then bindR (integer int64_range x) (\<lambda>i. Inr (RelativeNode i))
      else bindR (integer uint64_range x) (\<lambda>i. Inr (PlainNode (word_of_int i))))"

definition fd_prefix :: string where "fd_prefix = ''file://''"

definition process_fd :: "(string \<Rightarrow> errno option) \<Rightarrow> string \<Rightarrow> fd_source result" where
  "process_fd opens x =
     (case from_chars (fst int_range) (snd int_range) x of
        Some (fd, []) \<Rightarrow> if fd \<ge> 0 then Inr (RawFd fd) else Inl (InvalidArgument ''Invalid file descriptor'')
      | _ \<Rightarrow>
          if prefix fd_prefix x
          then (let p = drop (length fd_prefix) x in
            case opens p of Some e \<Rightarrow> Inl (SystemError e (''open ('' @ p @ '')'')) | None \<Rightarrow> Inr (FileFd p))
          else Inl (RuntimeError (''Unrecognised fd or path: '' @ x)))"

text \<open>The chains of filters of the parameters.\<close>

definition chain_boolean :: "string list \<Rightarrow> cli_value result" where
  "chain_boolean vs = bindR (scalar vs) (\<lambda>x. bindR (boolean x) (\<lambda>b. Inr (VBool b)))"

definition chain_string :: "string list \<Rightarrow> cli_value result" where
  "chain_string vs = bindR (scalar vs) (\<lambda>x. Inr (VString x))"

definition chain_path :: "string list \<Rightarrow> cli_value result" where
  "chain_path vs = bindR (scalar vs) (\<lambda>x. Inr (VPath x))"

definition chain_size :: "string list \<Rightarrow> cli_value result" where
  "chain_size vs = bindR (scalar vs) (\<lambda>x. bindR (integer uint64_range x) (\<lambda>i. Inr (VSize (word_of_int i))))"

definition chain_strings :: "string list \<Rightarrow> cli_value result" where
  "chain_strings vs = bindR (vector vs) (\<lambda>xs. Inr (VStrings xs))"

definition chain_node :: "string list \<Rightarrow> cli_value result" where
  "chain_node vs = bindR (scalar vs) (\<lambda>x. bindR (process_node x) (\<lambda>n. Inr (VNode n)))"

definition chain_fd :: "(string \<Rightarrow> errno option) \<Rightarrow> string list \<Rightarrow> cli_value result" where
  "chain_fd opens vs = bindR (scalar vs) (\<lambda>x. bindR (process_fd opens x) (\<lambda>f. Inr (VFd f)))"

section \<open>The documentation of the parameters\<close>

definition doc_no_passphrase :: string where
  "doc_no_passphrase =
     ''Disable requesting a keyboard-entry passphrase. Presumably the ''
     @ ''additional-passphrase-fd parameter will be used to enter the passphrase instead.''"

definition doc_additional_passphrase :: string where
  "doc_additional_passphrase =
     ''An fd or a path to read an additional passphrase from. The contents is trivially ''
     @ ''appended to the back of the  normal passphrase without a separator. The contents ''
     @ ''can be arbitrary binary data, include null bytes. This parameter exists to enable ''
     @ [CHR 0x22] @ ''what you have'' @ [CHR 0x22]
     @ '' security; the input may, for example, come from a smartcard reader, in which case, ''
     @ ''a wrapper script will likely be needed to interface with the reader and prepare an ''
     @ ''open fd to be inherited when exec*()ing diffmonger. Note that diffmonger creates a ''
     @ ''user-data/ directory that can be used to store a salt to process with the ''
     @ ''smartcard, if needed. Note that diffmonger only calls read() and close() on the ''
     @ ''given fd and does not call write() to clear the memory. If the fd was created by ''
     @ ''memfd_create() and it is sought to clear the memory after use, then it is the caller''
     @ [CHR 0x27] @ ''s responsibility to do this.''"

definition doc_import_command :: string where
  "doc_import_command =
     ''Command to run to import snapshots. This command must at some point (either ''
     @ ''directly or indirectly) call snapshot-import, which will communicate with the ''
     @ ''current command via stdout and stdin. The given command must thus not produce any ''
     @ ''output on stdout or read from stdin, and must appropriately allow snapshot-import ''
     @ ''to inherit both.''"

definition doc_initial_receive_args :: string where
  "doc_initial_receive_args =
     ''Like receive-args, but only applies to the first issued '' @ [CHR 0x27] @ ''zfs receive''
     @ [CHR 0x27] @ '' command. If not given, then its value is taken from receive-args''"

definition doc_receive_args :: string where
  "doc_receive_args =
     ''Additional arguments that are added to the '' @ [CHR 0x27] @ ''zfs receive'' @ [CHR 0x27]
     @ '' command''"

definition doc_min_duration :: string where
  "doc_min_duration =
     ''Minimum duration between successive snapshots.'' @ [CHR 0x0A]
     @ ''Any snapshots made in excess of this duration are quarantined for such'' @ [CHR 0x0A]
     @ ''time until they can be replayed without exceeding the limit.'' @ [CHR 0x0A]
     @ ''While quarantined, the snapshots exist and can be restored,'' @ [CHR 0x0A]
     @ ''but will never lead to the pruning of old snapshots.'' @ [CHR 0x0A]
     @ ''This prevents ransomware from flooding snapshots in order to trigger'' @ [CHR 0x0A]
     @ ''early pruning of legitimate snapshots.''"

definition describe_node :: string where
  "describe_node =
     ''Diffmonger node identifier matching the regular expression /[+-]('' @ [CHR 0x5C]
     @ ''d+|max)/; an unprefixed integer denotes the node, an integer prefixed with '' @ [CHR 0x22]
     @ ''+'' @ [CHR 0x22] @ '' or '' @ [CHR 0x22] @ ''-'' @ [CHR 0x22]
     @ '' denotes the node relative to the most recent trusted node, and +max denotes the ''
     @ ''most recent node, irrespective of whether trusted or not.''"

definition describe_fd_or_file :: string where
  "describe_fd_or_file =
     ''fd in form '' @ [CHR 0x22] @ ''INT'' @ [CHR 0x22] @ '' or path in form '' @ [CHR 0x22]
     @ ''file://PATH'' @ [CHR 0x22]"

section \<open>The tree of commands\<close>

type_synonym new_parameter = "string \<times> cli_value parameter result"

definition boolean_parameter :: "string \<Rightarrow> string \<Rightarrow> string \<Rightarrow> new_parameter" where
  "boolean_parameter key initial doc =
     (key, ParameterHelper (Defaulted [initial]) doc chain_boolean [''Scalar'', choice_describe boolean_map])"

definition password_parameters :: "(string \<Rightarrow> errno option) \<Rightarrow> new_parameter list" where
  "password_parameters opens =
     [boolean_parameter ''no-passphrase'' ''false'' doc_no_passphrase,
      (''additional-passphrase-fd'',
       ParameterHelper Optional doc_additional_passphrase (chain_fd opens) [''Scalar'', describe_fd_or_file])]"

fun add_all :: "new_parameter list \<Rightarrow> cli_value cli_command \<Rightarrow> cli_value cli_command result" where
  "add_all [] c = Inr c"
| "add_all ((key, p) # ps) c = bindR p (\<lambda>q. bindR (addParameter key q c) (add_all ps))"

definition command_with :: "string \<Rightarrow> string \<Rightarrow> new_parameter list \<Rightarrow> cli_value cli_command result" where
  "command_with nm doc ps = bindR (make_command nm doc) (add_all ps)"

definition zfs_subcommand :: "cli_value cli_command result" where
  "zfs_subcommand = command_with ''zfs'' ''Initiate the repository with a zfs backend.''
     [boolean_parameter ''raw'' ''false'' ''Make zfs sends raw?'']"

definition init_command :: "cli_value cli_command result" where
  "init_command =
     bindR (command_with ''init'' ''Creates a new repository at the path given in R.''
       [(''min-duration-between-snapshots'',
         ParameterHelper (Defaulted [''1m'']) doc_min_duration chain_string [''Scalar'']),
        boolean_parameter ''encryption'' ''true'' ''Set to false to disable encryption.'']) (\<lambda>c.
     bindR zfs_subcommand (\<lambda>z. emplaceSubCommand z c))"

definition show_init_command :: "cli_value cli_command result" where
  "show_init_command = command_with ''show-init'' ''Show the command used to init the repository.''
     [boolean_parameter ''nullsep'' ''false''
       (''If true, then outputs null separated values. Otherwise, outputs as space separated quoted values.'')]"

definition init_keypair_command :: "(string \<Rightarrow> errno option) \<Rightarrow> cli_value cli_command result" where
  "init_keypair_command opens = command_with ''init-keypair'' ''Create a keypair for the repository.''
     (password_parameters opens @
      [(''memlimit'', ParameterHelper (Defaulted [''1073741824'']) ''Memory limit for Argon2id''
          chain_size [''Scalar'', ''Integer''])])"

definition snapshot_command :: "cli_value cli_command result" where
  "snapshot_command = command_with ''snapshot'' ''Store a snapshot of the dataset.''
     [boolean_parameter ''from-export'' ''false'' ''Set to true if importing.'']"

definition snapshot_import_command :: "cli_value cli_command result" where
  "snapshot_import_command = command_with ''snapshot-import'' ''Store a snapshot of the dataset.''
     [boolean_parameter ''create-snapshot'' ''false'' ''Must snapshots be created instead of imported?'']"

definition restore_command :: "(string \<Rightarrow> errno option) \<Rightarrow> cli_value cli_command result" where
  "restore_command opens = command_with ''restore'' ''Destructively restore the dataset from a snapshot.''
     (password_parameters opens @
      [(''node'', ParameterHelper (Defaulted [''+max'']) ''Which node to restore'' chain_node [''Scalar'', describe_node])])"

definition export_command :: "(string \<Rightarrow> errno option) \<Rightarrow> cli_value cli_command result" where
  "export_command opens = command_with ''export-repository'' ''Copies the source repository to the target repository.''
     ((''cmd'', ParameterHelper Required doc_import_command chain_strings [''Vector'']) # password_parameters opens)"

definition prune_repository_command :: "cli_value cli_command result" where
  "prune_repository_command = command_with ''prune-repository''
     (''Remove old files from the repository, without touching the underlying dataset.'') []"

definition alive_after_command :: "cli_value cli_command result" where
  "alive_after_command = command_with ''alive-after''
     (''Returns the set of nodes (in order) that will be alive after the given '' @
      ''node is created. This command is useful for scripting.'')
     [(''node'', ParameterHelper Required ''Node.'' chain_size [''Scalar'', ''Integer''])]"

definition help_command :: "cli_value cli_command result" where
  "help_command = command_with ''help'' ''Help message.'' []"

fun emplace_all :: "cli_value cli_command result list \<Rightarrow> cli_value cli_command \<Rightarrow> cli_value cli_command result" where
  "emplace_all [] c = Inr c"
| "emplace_all (sub # subs) c = bindR sub (\<lambda>d. bindR (emplaceSubCommand d c) (emplace_all subs))"

definition main_command :: "(string \<Rightarrow> errno option) \<Rightarrow> string \<Rightarrow> cli_value cli_command result" where
  "main_command opens nm =
     bindR (command_with nm ''Diffmonger parent command. A subcommand is required.''
       [(''R'', ParameterHelper (Defaulted [''.'']) ''Path to diffmonger repository.'' chain_path [''Scalar''])])
       (emplace_all
         [init_command, alive_after_command, show_init_command, init_keypair_command opens, snapshot_command,
          snapshot_import_command, restore_command opens, prune_repository_command, export_command opens, help_command])"

text \<open>\<open>extendCommand\<close> of the driver for ZFS: the parameters a command gets that needs the driver.\<close>

definition driver_parameters :: "new_parameter list" where
  "driver_parameters =
     [(''dataset'', ParameterHelper Required ''Zfs dataset'' chain_string [''Scalar'']),
      (''receive-args'', ParameterHelper (Defaulted [''-u'']) doc_receive_args chain_strings [''Vector'']),
      (''initial-receive-args'', ParameterHelper Optional doc_initial_receive_args chain_strings [''Vector''])]"

section \<open>The minimum duration\<close>

definition duration_unit :: "char \<Rightarrow> u64 option" where
  "duration_unit c =
     (if c = CHR ''s'' then Some 1 else if c = CHR ''m'' then Some 60 else if c = CHR ''h'' then Some (60 * 60)
      else if c = CHR ''d'' then Some (60 * 60 * 24) else if c = CHR ''w'' then Some (60 * 60 * 24 * 7) else None)"

definition duration :: "string \<Rightarrow> u64 result" where
  "duration x =
     (if x = [] then Inl (RuntimeError ''Invalid value for min-duration-between-snapshots'')
      else (case from_chars (fst uint64_range) (snd uint64_range) x of
          Some (v, [c]) \<Rightarrow>
            (case duration_unit c of
               Some u \<Rightarrow> Inr (u * word_of_int v)
             | None \<Rightarrow> Inl (RuntimeError ''Invalid suffix for min-duration-between-snapshots''))
        | _ \<Rightarrow> Inl (RuntimeError (''Invalid value ('' @ x @ '') for min-duration-between-snapshots''))))"

section \<open>What the commands work on\<close>

text \<open>
  The surroundings of a run: libsodium, the \<^verbatim>\<open>zfs\<close> program, the clock, how paths are resolved,
  what opening a file for a passphrase gives and what it holds, the descriptor the terminal gets, the
  import command of an export, and the standard input.
\<close>

record ('st, 'b) cli_env =
  env_sodium :: "'st sodium"
  env_exec :: "'b exec"
  env_clock :: "'b \<Rightarrow> time_point"
  env_path :: "string \<Rightarrow> path"
  env_open :: "string \<Rightarrow> errno option"
  env_input :: "fd_source \<Rightarrow> bytes \<times> io_event list"
  env_tty_fd :: int
  env_import :: "string list \<Rightarrow> bytes \<Rightarrow> ('b, unit) prog"
  env_stdin :: bytes

text \<open>
  How a \<open>Main\<close> is used: to run a command, with the arguments of the program, or to read back
  how a repository was made.
\<close>

datatype mode = Retrospective | Execution "string list"

text \<open>
  \<open>init_params\<close> is \<open>InitBase::repositoryParams\<close>; \<open>command_params\<close> and \<open>extension\<close> are the parameters of
  the repository and the functor of the command that needs the driver, with the \<open>raw\<close> it has captured.
\<close>

record 'b client =
  sys :: "'b system"
  terminal :: pw_world
  printed :: string
  exit_call :: "int option"
  main_mode :: mode
  init_params :: "repository_params option"
  command_params :: "repository_params option"
  extension :: "bool option"

type_synonym 'b cli = "(cli_value, 'b client) parsing"

definition sysS :: "('b system, 'a) prog \<Rightarrow> ('b cli, 'a) prog" where
  "sysS m s = (case m (sys (client s)) of (r, t) \<Rightarrow> (r, s\<lparr>client := (client s)\<lparr>sys := t\<rparr>\<rparr>))"

definition ttyS :: "(pw_world, 'a) prog \<Rightarrow> ('b cli, 'a) prog" where
  "ttyS m s = (case m (terminal (client s)) of (r, t) \<Rightarrow> (r, s\<lparr>client := (client s)\<lparr>terminal := t\<rparr>\<rparr>))"

definition set_client :: "('b client \<Rightarrow> 'b client) \<Rightarrow> ('b cli, unit) prog" where
  "set_client f = modifyS (\<lambda>s. s\<lparr>client := f (client s)\<rparr>)"

definition printS :: "string \<Rightarrow> ('b cli, unit) prog" where
  "printS text = set_client (\<lambda>c. c\<lparr>printed := printed c @ text\<rparr>)"

text \<open>The value of a parameter of the command at \<open>path\<close>; that it has the type of its chain is an assertion here.\<close>

definition get_value :: "cmd_path \<Rightarrow> string \<Rightarrow> ('b cli, cli_value option) prog" where
  "get_value path key s =
     (case param_at path key s of None \<Rightarrow> (Inl (AssertionFailed key), s) | Some p \<Rightarrow> (param_get key p, s))"

definition get_as :: "(cli_value \<Rightarrow> 'a option) \<Rightarrow> cmd_path \<Rightarrow> string \<Rightarrow> ('b cli, 'a) prog" where
  "get_as f path key = bindS (get_value path key) (\<lambda>v.
     case v of None \<Rightarrow> throwS (AssertionFailed key)
     | Some x \<Rightarrow> (case f x of None \<Rightarrow> throwS (AssertionFailed key) | Some y \<Rightarrow> retS y))"

definition get_bool where "get_bool = get_as (\<lambda>v. case v of VBool b \<Rightarrow> Some b | _ \<Rightarrow> None)"
definition get_string where "get_string = get_as (\<lambda>v. case v of VString x \<Rightarrow> Some x | _ \<Rightarrow> None)"
definition get_path where "get_path = get_as (\<lambda>v. case v of VPath x \<Rightarrow> Some x | _ \<Rightarrow> None)"
definition get_size where "get_size = get_as (\<lambda>v. case v of VSize x \<Rightarrow> Some x | _ \<Rightarrow> None)"
definition get_strings where "get_strings = get_as (\<lambda>v. case v of VStrings x \<Rightarrow> Some x | _ \<Rightarrow> None)"
definition get_node where "get_node = get_as (\<lambda>v. case v of VNode x \<Rightarrow> Some x | _ \<Rightarrow> None)"

definition get_optional :: "(cli_value \<Rightarrow> 'a option) \<Rightarrow> cmd_path \<Rightarrow> string \<Rightarrow> ('b cli, 'a option) prog" where
  "get_optional f path key = bindS (get_value path key) (\<lambda>v. retS (case v of None \<Rightarrow> None | Some x \<Rightarrow> f x))"

section \<open>Passwords\<close>

text \<open>A buffer that goes out of scope at the end of \<open>m\<close>, or only when \<open>m\<close> throws.\<close>

definition with_buffer :: "password_buffer \<Rightarrow> (pw_world, 'a) prog \<Rightarrow> (pw_world, 'a) prog" where
  "with_buffer b m s = (case m s of (r, t) \<Rightarrow> (r, destroy b t))"

definition unless_thrown :: "password_buffer \<Rightarrow> (pw_world, 'a) prog \<Rightarrow> (pw_world, 'a) prog" where
  "unless_thrown b m s = (case m s of (Inl e, t) \<Rightarrow> (Inl e, destroy b t) | (Inr x, t) \<Rightarrow> (Inr x, t))"

definition tty_password :: "int \<Rightarrow> bool \<Rightarrow> bool \<Rightarrow> (pw_world, password_buffer) prog" where
  "tty_password fd disabled check =
     (if disabled then new_buffer 0 default_options
      else bindS (readPasswordFromTty fd ''Password: '' ''/dev/tty'' default_options) (\<lambda>p.
        if \<not> check then retS p
        else unless_thrown p
          (bindS (readPasswordFromTty fd ''Password (confirm): '' ''/dev/tty'' default_options) (\<lambda>q.
             with_buffer q (if password p \<noteq> password q then throwS (RuntimeError ''Passwords do not match'') else retS p)))))"

text \<open>Reading from another descriptor than the terminal: its input and how its calls go.\<close>

definition reading :: "bytes \<times> io_event list \<Rightarrow> (pw_world, 'a) prog \<Rightarrow> (pw_world, 'a) prog" where
  "reading input m s =
     (case m (s\<lparr>unread := fst input, script := snd input\<rparr>) of (r, t) \<Rightarrow> (r, t\<lparr>unread := unread s, script := script s\<rparr>))"

definition read_password ::
  "int \<Rightarrow> bool \<Rightarrow> bool \<Rightarrow> (bytes \<times> io_event list) option \<Rightarrow> (pw_world, password_buffer) prog" where
  "read_password fd disabled check additional =
     bindS (tty_password fd disabled check) (\<lambda>tty.
       case additional of
         None \<Rightarrow> retS tty
       | Some input \<Rightarrow> with_buffer tty
           (bindS (reading input (readuntil [] default_options)) (\<lambda>more. with_buffer more
             (if pw_length more = 0
              then throwS (RuntimeError (''Additional password was given but is empty; this isn'' @ [CHR 0x27] @ ''t supported''))
              else bindS (new_buffer (pw_length tty + pw_length more) default_options) (\<lambda>tmp.
                let full = poke (pw_length tty) (password more) (poke 0 (password tty) tmp) in
                unless_thrown full
                  (if pw_length full = 0
                   then throwS (RuntimeError ''Zero-length password is not supported; use unencrypted storage instead'')
                   else retS full))))))"

definition get_password :: "('st, 'b) cli_env \<Rightarrow> cmd_path \<Rightarrow> bool \<Rightarrow> ('b cli, password_buffer) prog" where
  "get_password env path check =
     bindS (get_bool path ''no-passphrase'') (\<lambda>disabled.
     bindS (get_optional (\<lambda>v. case v of VFd f \<Rightarrow> Some f | _ \<Rightarrow> None) path ''additional-passphrase-fd'') (\<lambda>f.
     ttyS (read_password (env_tty_fd env) disabled check (map_option (env_input env) f))))"

text \<open>The password is destroyed when the command is done with it, unless it has called \<^verbatim>\<open>exit\<close>.\<close>

definition using_password :: "password_buffer option \<Rightarrow> ('b cli, 'a) prog \<Rightarrow> ('b cli, 'a) prog" where
  "using_password b m s = (case m s of (r, t) \<Rightarrow>
     (r, case b of
        None \<Rightarrow> t
      | Some x \<Rightarrow>
          if exit_call (client t) \<noteq> None then t
          else t\<lparr>client := (client t)\<lparr>terminal := destroy x (terminal (client t))\<rparr>\<rparr>))"

definition maybe_password :: "('st, 'b) cli_env \<Rightarrow> cmd_path \<Rightarrow> repository_params \<Rightarrow> ('b cli, password_buffer option) prog" where
  "maybe_password env path params =
     (if encryption params then bindS (get_password env path False) (\<lambda>b. retS (Some b)) else retS None)"

section \<open>The commands\<close>

definition currentRepositoryStructureFormatUuid :: uuid where
  "currentRepositoryStructureFormatUuid =
     Uuid [0x8d, 0x76, 0xc7, 0x4f, 0x60, 0x6f, 0x7a, 0xdd, 0x0a, 0x29, 0xef, 0xd4, 0xc2, 0x86, 0x69, 0xc1]"

text \<open>\<open>InitV1::before_subcommand\<close>: the parameters of the repository.\<close>

definition set_init_params :: "('b cli, unit) prog" where
  "set_init_params =
     thenS (set_client (\<lambda>c. c\<lparr>init_params := Some \<lparr>encryption = False, min_seconds_between_snapshots = 0\<rparr>\<rparr>))
     (bindS (get_bool [''init''] ''encryption'') (\<lambda>e.
      thenS (set_client (\<lambda>c. c\<lparr>init_params := Some \<lparr>encryption = e, min_seconds_between_snapshots = 0\<rparr>\<rparr>))
      (bindS (get_string [''init''] ''min-duration-between-snapshots'') (\<lambda>x.
       bindS (liftR (duration x)) (\<lambda>d.
       set_client (\<lambda>c. c\<lparr>init_params := Some \<lparr>encryption = e, min_seconds_between_snapshots = d\<rparr>\<rparr>))))))"

text \<open>\<open>DriverSubCommandBase::execute\<close>, in both modes.\<close>

definition init_execute :: "('st, 'b) cli_env \<Rightarrow> ('b cli, unit) prog" where
  "init_execute env s =
     (case main_mode (client s) of
        Retrospective \<Rightarrow>
          bindS (get_bool [''init'', ''zfs''] ''raw'') (\<lambda>raw. set_client (\<lambda>c. c\<lparr>extension := Some raw\<rparr>)) s
      | Execution argv \<Rightarrow>
          bindS (get_path [] ''R'') (\<lambda>R.
            sysS (init_repository (env_path env R) currentRepositoryStructureFormatUuid argv)) s)"

definition extend_command :: "cmd_path \<Rightarrow> ('b cli, unit) prog" where
  "extend_command path s =
     (case command_at path (tree s) of
        None \<Rightarrow> (Inr (), s)
      | Some c \<Rightarrow> (case add_all driver_parameters c of
            Inl e \<Rightarrow> (Inl e, s)
          | Inr c' \<Rightarrow> (Inr (), s\<lparr>tree := change_at path (\<lambda>_. c') (tree s)\<rparr>)))"

definition driver_commands :: "cmd_path list" where
  "driver_commands = [[''snapshot''], [''snapshot-import''], [''restore''], [''export-repository'']]"

text \<open>
  \<open>DriverRequiringCommand::on_enter\<close>; \<open>create\<close> is \<open>createRepositoryParams\<close>, with whether the command has
  been given its functor.
\<close>

type_synonym 'b create = "repository_structure \<Rightarrow> ('b cli, repository_params option \<times> bool option) prog"

definition enter_driver_command :: "('st, 'b) cli_env \<Rightarrow> 'b create \<Rightarrow> cmd_path \<Rightarrow> ('b cli, unit) prog" where
  "enter_driver_command env create path =
     bindS (get_path [] ''R'') (\<lambda>R.
     bindS (sysS (open_repository (env_path env R))) (\<lambda>r.
     thenS (sysS (modifyS (\<lambda>t. t\<lparr>rs := r\<rparr>)))
     (bindS (create r) (\<lambda>(params, raw).
      thenS (if raw \<noteq> None then extend_command path else retS ())
      (thenS (set_client (\<lambda>c. c\<lparr>command_params := params, extension := raw\<rparr>))
       (if raw = None \<or> params = None then throwS (RuntimeError ''Could not process initargs'') else retS ()))))))"

text \<open>The driver of a command, from the functor and the parameters it has added.\<close>

definition command_driver :: "('st, 'b) cli_env \<Rightarrow> cmd_path \<Rightarrow> ('b cli, ('b, snapshot_id) driver) prog" where
  "command_driver env path =
     bindS (getS (\<lambda>s. extension (client s))) (\<lambda>f.
       if f = None then throwS (RuntimeError ''Could not create driver'')
       else
         bindS (get_string path ''dataset'') (\<lambda>dataset.
         bindS (get_optional (\<lambda>v. case v of VStrings x \<Rightarrow> Some x | _ \<Rightarrow> None) path ''initial-receive-args'') (\<lambda>first.
         bindS (get_strings path ''receive-args'') (\<lambda>others.
           liftR (createFactory (env_exec env) (env_clock env)
             \<lparr>da_zfsCommand = [''zfs''], da_datasetName = dataset,
              da_receive0_args = Some (case first of Some x \<Rightarrow> x | None \<Rightarrow> others), da_receiven_args = Some others\<rparr> ())))))"

definition params_of_command :: "('b cli, repository_params) prog" where
  "params_of_command s = (case command_params (client s) of
     None \<Rightarrow> (Inl (AssertionFailed ''repositoryParams''), s) | Some p \<Rightarrow> (Inr p, s))"

definition snapshot_execute :: "('st, 'b) cli_env \<Rightarrow> ('b cli, unit) prog" where
  "snapshot_execute env =
     bindS params_of_command (\<lambda>params.
     bindS (command_driver env [''snapshot'']) (\<lambda>drv.
     sysS (snapshot (env_sodium env) drv params)))"

definition snapshot_import_execute :: "('st, 'b) cli_env \<Rightarrow> ('b cli, unit) prog" where
  "snapshot_import_execute env =
     bindS (get_bool [''snapshot-import''] ''create-snapshot'') (\<lambda>create_snapshot.
     bindS params_of_command (\<lambda>params.
     bindS (command_driver env [''snapshot-import'']) (\<lambda>drv.
     sysS (snapshot_import (env_sodium env) drv params create_snapshot (env_stdin env)))))"

text \<open>\<open>DiffmongerNode::ValueT::toNode\<close>.\<close>

definition to_node :: "node_ref \<Rightarrow> ('b system, node) prog" where
  "to_node x = (case x of
       PlainNode n \<Rightarrow> retS (Node n)
     | RelativeNode i \<Rightarrow> bindS (getNodeRelativeToLastTrusted i) (\<lambda>e.
         case e of None \<Rightarrow> throwS (RuntimeError ''No such node'') | Some e \<Rightarrow> retS (encoded_node e))
     | LatestNode \<Rightarrow> bindS getNextSnapshotNode (\<lambda>next.
         if next = initial_value then throwS (RuntimeError ''No such node: repository empty'')
         else retS (Node (node_value next - 1))))"

definition restore_execute :: "('st, 'b) cli_env \<Rightarrow> ('b cli, unit) prog" where
  "restore_execute env =
     bindS params_of_command (\<lambda>params.
     bindS (maybe_password env [''restore''] params) (\<lambda>pw.
     using_password pw
       (bindS (get_node [''restore''] ''node'') (\<lambda>x.
        bindS (sysS (to_node x)) (\<lambda>n.
        bindS (command_driver env [''restore'']) (\<lambda>drv.
        sysS (restore (env_sodium env) drv params
          \<lparr>rp_password = map_option password pw, rp_node = n, rp_skip_existing = True\<rparr>)))))))"

definition export_execute :: "('st, 'b) cli_env \<Rightarrow> ('b cli, unit) prog" where
  "export_execute env =
     bindS params_of_command (\<lambda>params.
     bindS (maybe_password env [''export-repository''] params) (\<lambda>pw.
     using_password pw
       (bindS (get_strings [''export-repository''] ''cmd'') (\<lambda>cmd.
        bindS (command_driver env [''export-repository'']) (\<lambda>drv.
        bindS (sysS (export_repository (env_sodium env) drv params (map_option password pw) cmd (env_import env))) (\<lambda>status.
          if status \<noteq> SUCCESS then set_client (\<lambda>c. c\<lparr>exit_call := Some 2\<rparr>) else retS ()))))))"

text \<open>
  \<open>show_init\<close>: with null separators, or by a shell that quotes the arguments. The shell is a child that
  writes to the same output; when it cannot be run the child ends with a failure.
\<close>

definition quoting_script :: string where
  "quoting_script =
     ''printf '' @ [CHR 0x27] @ ''%q'' @ [CHR 0x27, CHR 0x20, CHR 0x22] @ ''$0'' @ [CHR 0x22] @ ''; '' @
     ''printf '' @ [CHR 0x27] @ '' %q'' @ [CHR 0x27, CHR 0x20, CHR 0x22] @ ''$@'' @ [CHR 0x22] @ ''; '' @
     ''printf '' @ [CHR 0x27, CHR 0x0A, CHR 0x27]"

definition show_init :: "'b exec \<Rightarrow> repository_structure \<Rightarrow> bool \<Rightarrow> ('b cli, unit) prog" where
  "show_init exec r nullsep =
     (if nullsep then printS (show_init_nullsep r)
      else
        bindS (sysS (\<lambda>t. case exec ''bash'' ([''bash'', ''-c'', quoting_script] @ rs_initargs r) None (backend t) of
            (spawned, b) \<Rightarrow> (Inr spawned, t\<lparr>backend := b\<rparr>)))
        (\<lambda>spawned. case spawned of
            PipeFailed e \<Rightarrow> throwS (SystemError e ''fork failed'')
          | ForkFailed e \<Rightarrow> throwS (SystemError e ''fork failed'')
          | ExecFailed _ \<Rightarrow> liftR (wait_or_throw [] (exited 1))
          | Ran text status \<Rightarrow> thenS (printS (string_of_bytes text)) (liftR (wait_or_throw [] status))))"

definition show_init_execute :: "('st, 'b) cli_env \<Rightarrow> ('b cli, unit) prog" where
  "show_init_execute env =
     bindS (get_bool [''show-init''] ''nullsep'') (\<lambda>nullsep.
     bindS (get_path [] ''R'') (\<lambda>R.
     bindS (sysS (open_repository (env_path env R))) (\<lambda>r.
       show_init (env_exec env) r nullsep)))"

definition init_keypair_execute :: "('st, 'b) cli_env \<Rightarrow> ('b cli, unit) prog" where
  "init_keypair_execute env =
     bindS (get_password env [''init-keypair''] True) (\<lambda>pw.
     using_password (Some pw)
       (bindS (get_size [''init-keypair''] ''memlimit'') (\<lambda>limit.
        bindS (get_path [] ''R'') (\<lambda>R.
        sysS (init_keypair (env_sodium env) (env_path env R) (password pw) limit)))))"

definition alive_after_execute :: "('b cli, unit) prog" where
  "alive_after_execute =
     bindS (get_size [''alive-after''] ''node'') (\<lambda>n.
       case node_alive_after (Node n) of (nodes, end) \<Rightarrow>
         thenS (forS (\<lambda>i. printS (to_string (unat (node_value i)) @ [CHR 0x0A])) nodes)
           (case end of Done \<Rightarrow> retS () | Threw e \<Rightarrow> throwS e | Diverged \<Rightarrow> throwS Diverges))"

definition help_execute :: "('b cli, unit) prog" where
  "help_execute s = printS (document (tree s) @ [CHR 0x0A]) s"

definition execute_command :: "('st, 'b) cli_env \<Rightarrow> cmd_path \<Rightarrow> ('b cli, unit) prog" where
  "execute_command env path =
     (if path = [''init'', ''zfs''] then init_execute env
      else if path = [''snapshot''] then snapshot_execute env
      else if path = [''snapshot-import''] then snapshot_import_execute env
      else if path = [''restore''] then restore_execute env
      else if path = [''export-repository''] then export_execute env
      else if path = [''show-init''] then show_init_execute env
      else if path = [''init-keypair''] then init_keypair_execute env
      else if path = [''alive-after''] then alive_after_execute
      else if path = [''prune-repository''] then retS ()
      else if path = [''help''] then help_execute
      else execute base_hooks path)"

definition cli_hooks :: "('st, 'b) cli_env \<Rightarrow> 'b create \<Rightarrow> (cli_value, 'b client) hooks" where
  "cli_hooks env create =
     \<lparr>on_enter = (\<lambda>path. if path \<in> set driver_commands then enter_driver_command env create path else retS ()),
      before_subcommand = (\<lambda>path sub. if path = [''init''] then set_init_params else retS ()),
      execute = execute_command env,
      unrecognisedParameters = unrecognisedParameters base_hooks\<rparr>"

section \<open>How a repository was made\<close>

definition span_exc_front :: "string list \<Rightarrow> string list result" where
  "span_exc_front xs =
     (if xs = [] then Inl (InvalidArgument ''span_exc_front: empty argument'') else Inr (tl xs))"

text \<open>
  \<open>createRepositoryParams\<close>: a second \<open>Main\<close> parses the arguments the repository was made with. The stored
  arguments could themselves name a command that opens a repository, so there is fuel; what
  \<open>init\<close> stores needs one level.
\<close>

fun create_params :: "('st, 'b) cli_env \<Rightarrow> nat \<Rightarrow> 'b create" where
  "create_params env 0 r s = (Inl Diverges, s)"
| "create_params env (Suc d) r s =
     (if rs_format r \<noteq> currentRepositoryStructureFormatUuid
      then (Inl (RuntimeError ''Unsupported repository parameters version''), s)
      else case main_command (env_open env) (hd (rs_initargs r)) of
        Inl e \<Rightarrow> (Inl e, s)
      | Inr t \<Rightarrow>
          (let c = client s;
               (res, s') = bindS (liftR (span_exc_front (rs_initargs r)))
                   (parse (cli_hooks env (create_params env d)) (Some []))
                 \<lparr>tree = t, client = c\<lparr>main_mode := Retrospective, init_params := None, command_params := None, extension := None\<rparr>\<rparr>;
               c' = client s';
               back = s\<lparr>client := c'\<lparr>main_mode := main_mode c, init_params := init_params c,
                 command_params := command_params c, extension := extension c\<rparr>\<rparr>
           in (case res of Inl e \<Rightarrow> (Inl e, back) | Inr _ \<Rightarrow> (Inr (init_params c', extension c'), back))))"

section \<open>The program\<close>

definition cli_start :: "string list \<Rightarrow> 'b client \<Rightarrow> 'b client" where
  "cli_start argv c = c\<lparr>main_mode := Execution argv, init_params := None, command_params := None, extension := None\<rparr>"

definition cli_run :: "('st, 'b) cli_env \<Rightarrow> nat \<Rightarrow> string list \<Rightarrow> ('b client, unit) prog" where
  "cli_run env d argv c =
     (case main_command (env_open env) (hd argv) of
        Inl e \<Rightarrow> (Inl e, c)
      | Inr t \<Rightarrow>
          (case parse_argv (cli_hooks env (create_params env d)) argv \<lparr>tree = t, client = cli_start argv c\<rparr> of
             (Inl (ArgumentError what), s') \<Rightarrow>
               (Inl (ArgumentError (''Argument error: '' @ what @ [CHR 0x0A, CHR 0x0A] @ document (tree s'))), client s')
           | (r, s') \<Rightarrow> (r, client s')))"

text \<open>\<open>main\<close>: how the process ends. An exception that is not a \<^verbatim>\<open>runtime_error\<close> terminates it.\<close>

datatype ending = Exited int | Terminated

definition cli_main :: "('st, 'b) cli_env \<Rightarrow> nat \<Rightarrow> string list \<Rightarrow> 'b client \<Rightarrow> ending \<times> 'b client" where
  "cli_main env d argv c =
     (case cli_run env d argv c of (r, c') \<Rightarrow>
        (case exit_call c' of
           Some n \<Rightarrow> Exited n
         | None \<Rightarrow> (case r of Inr _ \<Rightarrow> Exited 0 | Inl e \<Rightarrow> if is_runtime_error e then Exited 1 else Terminated), c'))"

end
