(* ===== verification/CommandLineFacts.thy ===== *)
theory CommandLineFacts
  imports CommandLineInterface
begin

text \<open>
  What the command line does: the parameters of a repository are those of the command line it was
  made with, and which numbers and passwords the commands accept.
\<close>

section \<open>Parameters of a tree\<close>

definition param_of :: "cmd_path \<Rightarrow> string \<Rightarrow> 'v cli_command \<Rightarrow> 'v parameter option" where
  "param_of path key t = (case command_at path t of None \<Rightarrow> None | Some c \<Rightarrow> map_of (parameters c) key)"

definition keys_of :: "cmd_path \<Rightarrow> 'v cli_command \<Rightarrow> string list" where
  "keys_of path t = (case command_at path t of None \<Rightarrow> [] | Some c \<Rightarrow> map fst (parameters c))"

definition put_of :: "cmd_path \<Rightarrow> string \<Rightarrow> 'v parameter \<Rightarrow> 'v cli_command \<Rightarrow> 'v cli_command" where
  "put_of path key p t = change_at path (set_parameters (smap_update key (\<lambda>_. p))) t"

lemma of_state:
  "param_at path key s = param_of path key (tree s)" "param_keys path s = keys_of path (tree s)"
  "put_param path key p s = s\<lparr>tree := put_of path key p (tree s)\<rparr>"
  by (simp_all add: param_at_def param_of_def param_keys_def keys_of_def put_param_def put_of_def)

lemma map_fst_smap_update [simp]: "map fst (smap_update k f m) = map fst m"
  by (induction m) (auto simp: smap_update_def)

lemma command_at_put:
  "(command_at path' (put_of path key p t) = None) = (command_at path' t = None) \<and>
   keys_of path' (put_of path key p t) = keys_of path' t \<and>
   param_of path' key' (put_of path key p t) =
     (if path' = path \<and> key' = key \<and> param_of path key t \<noteq> None then Some p else param_of path' key' t)"
proof (induction path' arbitrary: path t)
  case Nil
  then show ?case
    by (cases path) (auto simp: put_of_def keys_of_def param_of_def set_parameters_def map_of_smap_update)
next
  case (Cons k ks)
  show ?case
  proof (cases path)
    case Nil
    then show ?thesis by (simp add: put_of_def keys_of_def param_of_def set_parameters_def)
  next
    case path: (Cons j js)
    show ?thesis
    proof (cases "map_of (subcommands t) k")
      case None
      then show ?thesis using path
        by (auto simp: put_of_def keys_of_def param_of_def map_of_smap_update)
    next
      case (Some d)
      then show ?thesis using path Cons.IH [of js d]
        by (auto simp: put_of_def keys_of_def param_of_def map_of_smap_update)
    qed
  qed
qed

lemmas put_simps = command_at_put [THEN conjunct1] command_at_put [THEN conjunct2, THEN conjunct1]
  command_at_put [THEN conjunct2, THEN conjunct2]

section \<open>Finishing a command\<close>

text \<open>The value a parameter with a default ends up with.\<close>

definition takes :: "'v parameter \<Rightarrow> string list option \<Rightarrow> 'v \<Rightarrow> bool" where
  "takes p given x \<longleftrightarrow> (case given of None \<Rightarrow> held p = Some x | Some vs \<Rightarrow> process_chain p vs = Inr x)"

definition settle :: "cmd_path \<Rightarrow> string \<Rightarrow> 'v parameter \<Rightarrow> string list option \<Rightarrow> 'v \<Rightarrow> 'v cli_command \<Rightarrow> 'v cli_command" where
  "settle path key p given x t = (if given = None then t else put_of path key (p\<lparr>held := Some x\<rparr>) t)"

lemma with_context_Inr: "with_context path q m s = (Inr x, s') \<longleftrightarrow> m s = (Inr x, s')"
  by (cases "m s"; cases "fst (m s)") (auto simp: with_context_def catchS_def)

lemma finalise_param_Inr:
  assumes "param_at path key s = Some p" and "param_type p = Defaulted d" and "held p \<noteq> None"
  shows "finalise_param path m key s = (Inr m', s') \<longleftrightarrow>
    (\<exists>x. takes p (map_of m key) x \<and> m' = smap_erase key m \<and>
      s' = s\<lparr>tree := settle path key p (map_of m key) x (tree s)\<rparr>)"
proof (cases "map_of m key")
  case None
  then show ?thesis using assms
    by (auto simp: finalise_param_def with_context_Inr param_check_def param_get_def storage_get_def bindR_def bindS_def
        takes_def settle_def split: option.splits)
next
  case (Some vs)
  have check: "param_check key (p\<lparr>held := Some x\<rparr>) = Inr ()" for x
    using assms(2) by (simp add: param_check_def param_get_def storage_get_def)
  show ?thesis using Some assms check
    by (cases "process_chain p vs")
      (auto simp: finalise_param_def with_context_Inr param_set_def bindR_def bindS_def thenS_def
        takes_def settle_def of_state)
qed

lemma unrecognised_Inr:
  "unrecognisedParameters base_hooks path m s = (Inr (), s') \<longleftrightarrow> m = [] \<and> s' = s"
  by (cases m) (auto simp: base_hooks_def thenS_def bindS_def split: prod.splits)

lemma map_of_erase: "map_of (smap_erase k m) j = (if j = k then None else map_of m j)"
  by (induction m) (auto simp: smap_erase_def)

lemma finalise_one:
  assumes "unrecognisedParameters h = unrecognisedParameters base_hooks"
    and "param_keys path s = [k]" and "param_at path k s = Some p" "param_type p = Defaulted d" "held p \<noteq> None"
  shows "finalise h path m s = (Inr (), s') \<longleftrightarrow>
    (\<exists>x. takes p (map_of m k) x \<and> smap_erase k m = [] \<and> s' = s\<lparr>tree := settle path k p (map_of m k) x (tree s)\<rparr>)"
proof -
  have "finalise h path m s = (Inr (), s') \<longleftrightarrow>
      (\<exists>m' s1. finalise_param path m k s = (Inr m', s1) \<and> m' = [] \<and> s' = s1)"
    by (auto simp: finalise_def assms(1,2) bindS_eq_Inr with_context_Inr unrecognised_Inr)
  then show ?thesis using finalise_param_Inr [OF assms(3-5)] by auto
qed

lemma finalise_two:
  assumes "unrecognisedParameters h = unrecognisedParameters base_hooks"
    and "param_keys path s = [k, l]" and "k \<noteq> l"
    and "param_at path k s = Some p" "param_type p = Defaulted d" "held p \<noteq> None"
    and "param_at path l s = Some q" "param_type q = Defaulted e" "held q \<noteq> None"
  shows "finalise h path m s = (Inr (), s') \<longleftrightarrow>
    (\<exists>x y. takes p (map_of m k) x \<and> takes q (map_of m l) y \<and> smap_erase l (smap_erase k m) = [] \<and>
      s' = s\<lparr>tree := settle path l q (map_of m l) y (settle path k p (map_of m k) x (tree s))\<rparr>)"
proof -
  have "finalise h path m s = (Inr (), s') \<longleftrightarrow>
      (\<exists>m1 s1 m2 s2. finalise_param path m k s = (Inr m1, s1) \<and> finalise_param path m1 l s1 = (Inr m2, s2) \<and>
        m2 = [] \<and> s' = s2)"
    by (auto simp: finalise_def assms(1,2) bindS_eq_Inr with_context_Inr unrecognised_Inr)
  also have "\<dots> \<longleftrightarrow> (\<exists>x m2 s2. takes p (map_of m k) x \<and>
      finalise_param path (smap_erase k m) l (s\<lparr>tree := settle path k p (map_of m k) x (tree s)\<rparr>) = (Inr m2, s2) \<and>
      m2 = [] \<and> s' = s2)"
    unfolding finalise_param_Inr [OF assms(4-6)] by blast
  also have "\<dots> \<longleftrightarrow> (\<exists>x y. takes p (map_of m k) x \<and> takes q (map_of m l) y \<and> smap_erase l (smap_erase k m) = [] \<and>
      s' = s\<lparr>tree := settle path l q (map_of m l) y (settle path k p (map_of m k) x (tree s))\<rparr>)"
  proof -
    have "param_at path l (s\<lparr>tree := settle path k p g x (tree s)\<rparr>) = Some q" for g x
      using assms(3,7) by (simp add: of_state settle_def put_simps)
    note step = finalise_param_Inr [OF this assms(8,9)]
    show ?thesis unfolding step using assms(3) by (simp add: map_of_erase eq_commute [of "[]"])
  qed
  finally show ?thesis .
qed

section \<open>The tree of the program\<close>

definition parameter_with :: "string list \<Rightarrow> string \<Rightarrow> (string list \<Rightarrow> 'v result) \<Rightarrow> string list \<Rightarrow> 'v \<Rightarrow> 'v parameter" where
  "parameter_with d doc chain descr v =
     \<lparr>param_type = Defaulted d, documentation = doc, process_chain = chain, constraints = descr, held = Some v\<rparr>"

lemma parameter_with_simps [simp]:
  "param_type (parameter_with d doc chain descr v) = Defaulted d"
  "process_chain (parameter_with d doc chain descr v) = chain"
  "held (parameter_with d doc chain descr v) = Some v"
  by (simp_all add: parameter_with_def)

lemma ParameterHelper_default:
  "chain d = Inr v \<Longrightarrow> ParameterHelper (Defaulted d) doc chain descr = Inr (parameter_with d doc chain descr v)"
  by (simp add: ParameterHelper_def parameter_with_def)

lemma chains_of_defaults [simp]:
  "chain_boolean [''true''] = Inr (VBool True)" "chain_boolean [''false''] = Inr (VBool False)"
  "chain_string [x] = Inr (VString x)" "chain_path [x] = Inr (VPath x)" "chain_strings xs = Inr (VStrings xs)"
  "chain_node [''+max''] = Inr (VNode LatestNode)"
  by (simp_all add: chain_boolean_def scalar_def boolean_def choice_def boolean_map_def chain_string_def chain_path_def
      chain_strings_def vector_def chain_node_def process_node_def)

lemma chain_size_default: "chain_size [''1073741824''] = Inr (VSize 1073741824)"
  by (simp add: chain_size_def scalar_def integer_def from_chars_def uint64_range_def is_digit_def digits_value_def digit_value_def Let_def)

lemma boolean_parameter_eq:
  "boolean_parameter key ''true'' doc =
    (key, Inr (parameter_with [''true''] doc chain_boolean [''Scalar'', choice_describe boolean_map] (VBool True)))"
  "boolean_parameter key ''false'' doc =
    (key, Inr (parameter_with [''false''] doc chain_boolean [''Scalar'', choice_describe boolean_map] (VBool False)))"
  by (simp_all add: boolean_parameter_def ParameterHelper_default)

lemma ParameterHelper_plain:
  "ParameterHelper Required doc chain descr =
    Inr \<lparr>param_type = Required, documentation = doc, process_chain = chain, constraints = descr, held = None\<rparr>"
  "ParameterHelper Optional doc chain descr =
    Inr \<lparr>param_type = Optional, documentation = doc, process_chain = chain, constraints = descr, held = None\<rparr>"
  by (simp_all add: ParameterHelper_def)

lemmas tree_simps = command_with_def make_command_def addParameter_def emplaceSubCommand_def boolean_parameter_eq
  ParameterHelper_default ParameterHelper_plain less_char_def

definition zfs_tree :: "cli_value cli_command" where
  "zfs_tree = CliCommand ''zfs'' ''Initiate the repository with a zfs backend.''
     [(''raw'', parameter_with [''false''] ''Make zfs sends raw?'' chain_boolean
        [''Scalar'', choice_describe boolean_map] (VBool False))] []"

definition init_tree :: "cli_value cli_command" where
  "init_tree = CliCommand ''init'' ''Creates a new repository at the path given in R.''
     [(''encryption'', parameter_with [''true''] ''Set to false to disable encryption.'' chain_boolean
        [''Scalar'', choice_describe boolean_map] (VBool True)),
      (''min-duration-between-snapshots'', parameter_with [''1m''] doc_min_duration chain_string [''Scalar''] (VString ''1m''))]
     [(''zfs'', zfs_tree)]"

lemma zfs_subcommand_eq: "zfs_subcommand = Inr zfs_tree"
  by (simp add: zfs_subcommand_def zfs_tree_def tree_simps)

lemma init_command_eq: "init_command = Inr init_tree"
  by (simp add: init_command_def zfs_subcommand_eq init_tree_def tree_simps zfs_tree_def)

definition snapshot_tree :: "cli_value cli_command" where
  "snapshot_tree = CliCommand ''snapshot'' ''Store a snapshot of the dataset.''
     [(''from-export'', parameter_with [''false''] ''Set to true if importing.'' chain_boolean
        [''Scalar'', choice_describe boolean_map] (VBool False))] []"

lemma snapshot_command_eq: "snapshot_command = Inr snapshot_tree"
  by (simp add: snapshot_command_def snapshot_tree_def tree_simps)

lemma other_commands:
  "\<exists>c. alive_after_command = Inr c \<and> command_name c = ''alive-after''"
  "\<exists>c. show_init_command = Inr c \<and> command_name c = ''show-init''"
  "\<exists>c. init_keypair_command opens = Inr c \<and> command_name c = ''init-keypair''"
  "\<exists>c. snapshot_import_command = Inr c \<and> command_name c = ''snapshot-import''"
  "\<exists>c. restore_command opens = Inr c \<and> command_name c = ''restore''"
  "\<exists>c. prune_repository_command = Inr c \<and> command_name c = ''prune-repository''"
  "\<exists>c. export_command opens = Inr c \<and> command_name c = ''export-repository''"
  "\<exists>c. help_command = Inr c \<and> command_name c = ''help''"
  by (simp_all add: alive_after_command_def show_init_command_def init_keypair_command_def
      snapshot_import_command_def restore_command_def prune_repository_command_def export_command_def help_command_def
      password_parameters_def tree_simps chain_size_default)

definition path_parameter :: "cli_value parameter" where
  "path_parameter = parameter_with [''.''] ''Path to diffmonger repository.'' chain_path [''Scalar''] (VPath ''.'')"

lemma path_parameter_simps: "param_type path_parameter = Defaulted [''.'']" "held path_parameter = Some (VPath ''.'')"
  by (simp_all add: path_parameter_def)

lemma main_command_shape:
  "\<exists>t. main_command opens nm = Inr t \<and> command_name t = nm \<and> parameters t = [(''R'', path_parameter)] \<and>
    map_of (subcommands t) ''init'' = Some init_tree \<and> map_of (subcommands t) ''snapshot'' = Some snapshot_tree"
proof -
  obtain c1 where c1: "alive_after_command = Inr c1" "command_name c1 = ''alive-after''" using other_commands(1) by blast
  obtain c2 where c2: "show_init_command = Inr c2" "command_name c2 = ''show-init''" using other_commands(2) by blast
  obtain c3 where c3: "init_keypair_command opens = Inr c3" "command_name c3 = ''init-keypair''" using other_commands(3) by blast
  obtain c5 where c5: "snapshot_import_command = Inr c5" "command_name c5 = ''snapshot-import''" using other_commands(4) by blast
  obtain c6 where c6: "restore_command opens = Inr c6" "command_name c6 = ''restore''" using other_commands(5) by blast
  obtain c7 where c7: "prune_repository_command = Inr c7" "command_name c7 = ''prune-repository''" using other_commands(6) by blast
  obtain c8 where c8: "export_command opens = Inr c8" "command_name c8 = ''export-repository''" using other_commands(7) by blast
  obtain c9 where c9: "help_command = Inr c9" "command_name c9 = ''help''" using other_commands(8) by blast
  have "command_name init_tree = ''init''" "command_name snapshot_tree = ''snapshot''" by (simp_all add: init_tree_def snapshot_tree_def)
  then show ?thesis
    by (simp add: main_command_def init_command_eq tree_simps path_parameter_def snapshot_command_eq c1 c2 c3 c5 c6 c7 c8 c9)
qed

text \<open>The parts of the tree a command line with \<open>init\<close> goes through.\<close>

definition shaped ::
  "cli_value cli_command \<Rightarrow> cli_value parameter \<Rightarrow> cli_value parameter \<Rightarrow> cli_value parameter \<Rightarrow> cli_value parameter \<Rightarrow> bool" where
  "shaped t pR pe pm pr \<longleftrightarrow>
     keys_of [] t = [''R''] \<and> param_of [] ''R'' t = Some pR \<and>
     command_at [''init''] t \<noteq> None \<and> keys_of [''init''] t = [''encryption'', ''min-duration-between-snapshots''] \<and>
     param_of [''init''] ''encryption'' t = Some pe \<and> param_of [''init''] ''min-duration-between-snapshots'' t = Some pm \<and>
     command_at [''init'', ''zfs''] t \<noteq> None \<and> keys_of [''init'', ''zfs''] t = [''raw''] \<and>
     param_of [''init'', ''zfs''] ''raw'' t = Some pr"

definition after_setting :: "'v parameter \<Rightarrow> string list option \<Rightarrow> 'v \<Rightarrow> 'v parameter" where
  "after_setting p given x = (if given = None then p else p\<lparr>held := Some x\<rparr>)"

lemma after_setting_simps:
  "param_type (after_setting p given x) = param_type p"
  "takes p given x \<Longrightarrow> held (after_setting p given x) = Some x"
  "held p \<noteq> None \<Longrightarrow> held (after_setting p given x) \<noteq> None"
  by (auto simp: after_setting_def takes_def)

lemma shaped_settle:
  assumes "shaped t pR pe pm pr"
  shows "shaped (settle [] ''R'' pR g x t) (after_setting pR g x) pe pm pr"
    and "shaped (settle [''init''] ''encryption'' pe g x t) pR (after_setting pe g x) pm pr"
    and "shaped (settle [''init''] ''min-duration-between-snapshots'' pm g x t) pR pe (after_setting pm g x) pr"
    and "shaped (settle [''init'', ''zfs''] ''raw'' pr g x t) pR pe pm (after_setting pr g x)"
  using assms by (simp_all add: shaped_def settle_def after_setting_def put_simps del: command_at.simps not_None_eq)

lemma main_command_shaped:
  "\<exists>t d1 d2 d3. main_command opens nm = Inr t \<and> shaped t path_parameter
     (parameter_with [''true''] d1 chain_boolean d2 (VBool True))
     (parameter_with [''1m''] doc_min_duration chain_string [''Scalar''] (VString ''1m''))
     (parameter_with [''false''] d3 chain_boolean d2 (VBool False)) \<and> command_at [''snapshot''] t = Some snapshot_tree"
proof -
  obtain t where "main_command opens nm = Inr t" "parameters t = [(''R'', path_parameter)]"
    "map_of (subcommands t) ''init'' = Some init_tree" "map_of (subcommands t) ''snapshot'' = Some snapshot_tree" using main_command_shape by blast
  then show ?thesis
    by (intro exI [of _ t] exI [of _ "''Set to false to disable encryption.''"]
        exI [of _ "[''Scalar'', choice_describe boolean_map]"] exI [of _ "''Make zfs sends raw?''"])
      (simp add: shaped_def keys_of_def param_of_def init_tree_def zfs_tree_def)
qed

lemma get_as_held:
  assumes "param_of path key (tree s) = Some p" and "param_type p = Defaulted d" and "held p = Some v"
  shows "get_as f path key s = (case f v of None \<Rightarrow> (Inl (AssertionFailed key), s) | Some y \<Rightarrow> (Inr y, s))"
  using assms by (simp add: get_as_def get_value_def of_state param_get_def storage_get_def split: option.split)

section \<open>What is rejected, and what is not\<close>

lemma plus_number_rejected: "x \<noteq> ''max'' \<Longrightarrow> \<exists>what. process_node (CHR ''+'' # x) = Inl (ArgumentError what)"
  by (auto simp: process_node_def integer_def from_chars_def Let_def is_digit_def int64_range_def split: if_splits)

lemma negative_fd_rejected: "\<exists>what. process_fd opens ''-1'' = Inl (InvalidArgument what)"
  by (simp add: process_fd_def from_chars_def Let_def is_digit_def digits_value_def digit_value_def int_range_def)

lemma duration_wraps: "duration ''30500568904944w'' = Inr 579584"
  by (simp add: duration_def from_chars_def uint64_range_def is_digit_def digits_value_def digit_value_def duration_unit_def Let_def)

text \<open>The empty password, which the last check of \<open>readPassword\<close> should refuse.\<close>

lemma empty_password_accepted:
  "read_password fd True check None s = new_buffer 0 default_options s"
  by (simp add: read_password_def tty_password_def bindS_def split: prod.split sum.split)

section \<open>Running init\<close>

lemma set_init_params_Inr:
  assumes "shaped (tree s) pR pe pm pr" and "param_type pe = Defaulted de" "held pe = Some (VBool e)"
    and "param_type pm = Defaulted dm" "held pm = Some (VString x)"
  shows "set_init_params s = (Inr (), s') \<longleftrightarrow> (\<exists>d. duration x = Inr d \<and>
    s' = s\<lparr>client := (client s)\<lparr>init_params := Some \<lparr>encryption = e, min_seconds_between_snapshots = d\<rparr>\<rparr>\<rparr>)"
proof -
  have "get_bool [''init''] ''encryption'' (s\<lparr>client := c\<rparr>) = (Inr e, s\<lparr>client := c\<rparr>)" for c
    using assms(1-3) by (simp add: get_bool_def get_as_held [where p = pe] shaped_def del: command_at.simps not_None_eq)
  moreover have "get_string [''init''] ''min-duration-between-snapshots'' (s\<lparr>client := c\<rparr>) = (Inr x, s\<lparr>client := c\<rparr>)" for c
    using assms(1,4,5) by (simp add: get_string_def get_as_held [where p = pm] shaped_def del: command_at.simps not_None_eq)
  ultimately show ?thesis by (cases "duration x") (auto simp: set_init_params_def bindS_def thenS_def set_client_def)
qed

lemma chain_types:
  "chain_boolean vs = Inr v \<Longrightarrow> \<exists>b. v = VBool b"
  "chain_string vs = Inr v \<Longrightarrow> \<exists>x. v = VString x"
  "chain_path vs = Inr v \<Longrightarrow> \<exists>x. v = VPath x"
  by (auto simp: chain_boolean_def chain_string_def chain_path_def bindR_eq_Inr)

text \<open>The values given for a parameter, or its default.\<close>

definition chosen :: "setting list \<Rightarrow> string \<Rightarrow> string \<Rightarrow> string list" where
  "chosen settings key initial = (case map_of (fold apply_setting settings []) key of None \<Rightarrow> [initial] | Some vs \<Rightarrow> vs)"

lemma takes_chosen:
  assumes "chain [initial] = Inr v"
  shows "takes (parameter_with [initial] doc chain descr v) (map_of (fold apply_setting settings []) key) x \<longleftrightarrow>
    chain (chosen settings key initial) = Inr x"
  using assms by (auto simp: takes_def chosen_def split: option.split)

lemma keys_of_settings: "fst ` set (fold apply_setting as m) = setting_key ` set as \<union> fst ` set m"
proof (induction as arbitrary: m)
  case (Cons a as)
  have "fst ` set (try_emplace k v n) = insert k (fst ` set n)" for k and v :: "string list" and n
    by (induction k v n rule: try_emplace.induct) auto
  moreover have "fst ` set (smap_update k f n) = fst ` set n" for k n and f :: "string list \<Rightarrow> string list"
    by (simp only: set_map [symmetric] map_fst_smap_update)
  ultimately have "fst ` set (apply_setting a m) = insert (setting_key a) (fst ` set m)"
    by (cases a) (simp_all add: assign_def append_value_def)
  then show ?case using Cons.IH [of "apply_setting a m"] by auto
qed simp

lemma only_keys:
  "smap_erase k (fold apply_setting as []) = [] \<longleftrightarrow> list_all (\<lambda>a. setting_key a = k) as"
  "smap_erase l (smap_erase k (fold apply_setting as [])) = [] \<longleftrightarrow> list_all (\<lambda>a. setting_key a \<in> {k, l}) as"
proof -
  have erase: "smap_erase k m = [] \<longleftrightarrow> fst ` set m \<subseteq> {k}" "smap_erase l (smap_erase k m) = [] \<longleftrightarrow> fst ` set m \<subseteq> {k, l}"
    for k l and m :: "string list smap"
    by (auto simp: smap_erase_def filter_empty_conv)
  show "smap_erase k (fold apply_setting as []) = [] \<longleftrightarrow> list_all (\<lambda>a. setting_key a = k) as"
    unfolding erase(1) keys_of_settings by (auto simp: list_all_iff)
  show "smap_erase l (smap_erase k (fold apply_setting as [])) = [] \<longleftrightarrow> list_all (\<lambda>a. setting_key a \<in> {k, l}) as"
    unfolding erase(2) keys_of_settings by (auto simp: list_all_iff)
qed

text \<open>
  What a command line with \<open>init\<close> and \<open>zfs\<close> says, from the settings of the program, of \<open>init\<close> and of
  \<open>zfs\<close>: the directory, whether there is encryption, the minimum duration with what it is in seconds,
  and whether streams are raw.
\<close>

definition init_means ::
  "setting list \<Rightarrow> setting list \<Rightarrow> setting list \<Rightarrow> string \<Rightarrow> bool \<Rightarrow> string \<Rightarrow> u64 \<Rightarrow> bool \<Rightarrow> bool" where
  "init_means as bs cs dir e x m raw \<longleftrightarrow>
     list_all (\<lambda>a. setting_key a = ''R'') as \<and> chain_path (chosen as ''R'' ''.'') = Inr (VPath dir) \<and>
     list_all (\<lambda>a. setting_key a \<in> {''encryption'', ''min-duration-between-snapshots''}) bs \<and>
     chain_boolean (chosen bs ''encryption'' ''true'') = Inr (VBool e) \<and>
     chain_string (chosen bs ''min-duration-between-snapshots'' ''1m'') = Inr (VString x) \<and> duration x = Inr m \<and>
     list_all (\<lambda>a. setting_key a = ''raw'') cs \<and> chain_boolean (chosen cs ''raw'' ''false'') = Inr (VBool raw)"

text \<open>The tree after the parameters have been set.\<close>

definition holds_line :: "string \<Rightarrow> bool \<Rightarrow> string \<Rightarrow> bool \<Rightarrow> cli_value cli_command \<Rightarrow> bool" where
  "holds_line dir e x raw t \<longleftrightarrow> (\<exists>pR pe pm pr d1 d2 d3 d4. shaped t pR pe pm pr \<and>
     param_type pR = Defaulted d1 \<and> held pR = Some (VPath dir) \<and> param_type pe = Defaulted d2 \<and> held pe = Some (VBool e) \<and>
     param_type pm = Defaulted d3 \<and> held pm = Some (VString x) \<and> param_type pr = Defaulted d4 \<and> held pr = Some (VBool raw))"

lemma finalise_root:
  assumes "unrecognisedParameters h = unrecognisedParameters base_hooks" and "shaped (tree s) path_parameter pe pm pr"
  shows "finalise h [] (fold apply_setting as []) s = (Inr (), s') \<longleftrightarrow>
    list_all (\<lambda>a. setting_key a = ''R'') as \<and> (\<exists>dir. chain_path (chosen as ''R'' ''.'') = Inr (VPath dir) \<and>
      s' = s\<lparr>tree := settle [] ''R'' path_parameter (map_of (fold apply_setting as []) ''R'') (VPath dir) (tree s)\<rparr>)"
proof -
  have "finalise h [] (fold apply_setting as []) s = (Inr (), s') \<longleftrightarrow>
    (\<exists>x. takes path_parameter (map_of (fold apply_setting as []) ''R'') x \<and> smap_erase ''R'' (fold apply_setting as []) = [] \<and>
      s' = s\<lparr>tree := settle [] ''R'' path_parameter (map_of (fold apply_setting as []) ''R'') x (tree s)\<rparr>)"
    using assms by (intro finalise_one) (auto simp: shaped_def of_state path_parameter_def)
  moreover have "takes path_parameter (map_of (fold apply_setting as []) ''R'') x \<longleftrightarrow> chain_path (chosen as ''R'' ''.'') = Inr x" for x
    unfolding path_parameter_def by (rule takes_chosen) simp
  ultimately show ?thesis unfolding only_keys using chain_types(3) by blast
qed

lemma finalise_zfs:
  assumes "unrecognisedParameters h = unrecognisedParameters base_hooks"
    and "shaped (tree s) pR pe pm (parameter_with [''false''] d3 chain_boolean d2 (VBool False))" (is "shaped _ _ _ _ ?p")
  shows "finalise h [''init'', ''zfs''] (fold apply_setting as []) s = (Inr (), s') \<longleftrightarrow>
    list_all (\<lambda>a. setting_key a = ''raw'') as \<and> (\<exists>raw. chain_boolean (chosen as ''raw'' ''false'') = Inr (VBool raw) \<and>
      s' = s\<lparr>tree := settle [''init'', ''zfs''] ''raw'' ?p (map_of (fold apply_setting as []) ''raw'') (VBool raw) (tree s)\<rparr>)"
proof -
  have "finalise h [''init'', ''zfs''] (fold apply_setting as []) s = (Inr (), s') \<longleftrightarrow>
    (\<exists>x. takes ?p (map_of (fold apply_setting as []) ''raw'') x \<and> smap_erase ''raw'' (fold apply_setting as []) = [] \<and>
      s' = s\<lparr>tree := settle [''init'', ''zfs''] ''raw'' ?p (map_of (fold apply_setting as []) ''raw'') x (tree s)\<rparr>)"
    using assms by (intro finalise_one) (auto simp: shaped_def of_state)
  moreover have "takes ?p (map_of (fold apply_setting as []) ''raw'') x \<longleftrightarrow> chain_boolean (chosen as ''raw'' ''false'') = Inr x" for x
    by (rule takes_chosen) simp
  ultimately show ?thesis unfolding only_keys using chain_types(1) by blast
qed

lemma typed_values:
  assumes "\<And>x. P x \<Longrightarrow> \<exists>e. x = VBool e" and "\<And>y. Q y \<Longrightarrow> \<exists>z. y = VString z"
  shows "(\<exists>x y. P x \<and> Q y \<and> K \<and> R x y) \<longleftrightarrow> K \<and> (\<exists>e z. P (VBool e) \<and> Q (VString z) \<and> R (VBool e) (VString z))"
  using assms by blast

lemma step_with_values:
  assumes "\<And>e x s2. A e \<Longrightarrow> B x \<Longrightarrow> S (f e x) s2 \<longleftrightarrow> (\<exists>m. D x m \<and> s2 = g e x m)"
  shows "(\<exists>s1 s2. (K \<and> (\<exists>e x. A e \<and> B x \<and> s1 = f e x)) \<and> S s1 s2 \<and> M s2) \<longleftrightarrow>
    K \<and> (\<exists>e x m. A e \<and> B x \<and> D x m \<and> M (g e x m))"
  using assms by (metis (no_types, lifting))

lemma finalise_init:
  assumes "unrecognisedParameters h = unrecognisedParameters base_hooks"
    and "shaped (tree s) pR (parameter_with [''true''] d1 chain_boolean d2 (VBool True))
      (parameter_with [''1m''] doc_min_duration chain_string [''Scalar''] (VString ''1m'')) pr" (is "shaped _ _ ?e ?m _")
  shows "finalise h [''init''] (fold apply_setting as []) s = (Inr (), s') \<longleftrightarrow>
    list_all (\<lambda>a. setting_key a \<in> {''encryption'', ''min-duration-between-snapshots''}) as \<and>
    (\<exists>e x. chain_boolean (chosen as ''encryption'' ''true'') = Inr (VBool e) \<and>
      chain_string (chosen as ''min-duration-between-snapshots'' ''1m'') = Inr (VString x) \<and>
      s' = s\<lparr>tree :=
        settle [''init''] ''min-duration-between-snapshots'' ?m
          (map_of (fold apply_setting as []) ''min-duration-between-snapshots'') (VString x)
          (settle [''init''] ''encryption'' ?e (map_of (fold apply_setting as []) ''encryption'') (VBool e) (tree s))\<rparr>)"
proof -
  have f: "finalise h [''init''] (fold apply_setting as []) s = (Inr (), s') \<longleftrightarrow>
    (\<exists>x y. takes ?e (map_of (fold apply_setting as []) ''encryption'') x \<and>
      takes ?m (map_of (fold apply_setting as []) ''min-duration-between-snapshots'') y \<and>
      smap_erase ''min-duration-between-snapshots'' (smap_erase ''encryption'' (fold apply_setting as [])) = [] \<and>
      s' = s\<lparr>tree :=
        settle [''init''] ''min-duration-between-snapshots'' ?m
          (map_of (fold apply_setting as []) ''min-duration-between-snapshots'') y
          (settle [''init''] ''encryption'' ?e (map_of (fold apply_setting as []) ''encryption'') x (tree s))\<rparr>)"
    using assms by (intro finalise_two) (auto simp: shaped_def of_state)
  have e: "takes ?e (map_of (fold apply_setting as []) ''encryption'') x \<longleftrightarrow>
      chain_boolean (chosen as ''encryption'' ''true'') = Inr x" for x
    by (rule takes_chosen) simp
  have m: "takes ?m (map_of (fold apply_setting as []) ''min-duration-between-snapshots'') x \<longleftrightarrow>
      chain_string (chosen as ''min-duration-between-snapshots'' ''1m'') = Inr x" for x
    by (rule takes_chosen) simp
  show ?thesis unfolding f e m only_keys by (rule typed_values) (use chain_types in blast)+
qed

lemma line_held:
  assumes "shaped t path_parameter (parameter_with [''true''] d1 chain_boolean d2 (VBool True))
      (parameter_with [''1m''] doc_min_duration chain_string [''Scalar''] (VString ''1m''))
      (parameter_with [''false''] d3 chain_boolean d2 (VBool False))" (is "shaped _ ?R ?e ?m ?r")
    and "init_means as bs cs dir e x m raw"
  shows "holds_line dir e x raw
    (settle [''init'', ''zfs''] ''raw'' ?r (map_of (fold apply_setting cs []) ''raw'') (VBool raw)
      (settle [''init''] ''min-duration-between-snapshots'' ?m
        (map_of (fold apply_setting bs []) ''min-duration-between-snapshots'') (VString x)
        (settle [''init''] ''encryption'' ?e (map_of (fold apply_setting bs []) ''encryption'') (VBool e)
          (settle [] ''R'' ?R (map_of (fold apply_setting as []) ''R'') (VPath dir) t))))"
proof -
  let ?g = "map_of (fold apply_setting as []) ''R''" and ?h = "map_of (fold apply_setting bs []) ''encryption''"
  let ?i = "map_of (fold apply_setting bs []) ''min-duration-between-snapshots''" and ?j = "map_of (fold apply_setting cs []) ''raw''"
  have "takes ?R ?g (VPath dir)" "takes ?e ?h (VBool e)" "takes ?m ?i (VString x)" "takes ?r ?j (VBool raw)"
    using assms(2) by (simp_all add: init_means_def path_parameter_def takes_chosen)
  then show ?thesis unfolding holds_line_def
    by (intro exI [of _ "after_setting ?R ?g (VPath dir)"] exI [of _ "after_setting ?e ?h (VBool e)"]
        exI [of _ "after_setting ?m ?i (VString x)"] exI [of _ "after_setting ?r ?j (VBool raw)"])
      (simp add: shaped_settle assms(1) after_setting_simps path_parameter_simps)
qed

lemma meaning_init_steps:
  assumes "shaped (tree s) pR pe pm pr"
  shows "meaning (cli_hooks env create) [] as [Segment ''init'' bs, Segment ''zfs'' cs] s = (Inr (), s') \<longleftrightarrow>
      (\<exists>s1. finalise (cli_hooks env create) [] (fold apply_setting as []) s = (Inr (), s1) \<and>
        meaning (cli_hooks env create) [''init''] bs [Segment ''zfs'' cs] s1 = (Inr (), s'))"
    and "meaning (cli_hooks env create) [''init''] bs [Segment ''zfs'' cs] s = (Inr (), s') \<longleftrightarrow>
      (\<exists>s1 s2. finalise (cli_hooks env create) [''init''] (fold apply_setting bs []) s = (Inr (), s1) \<and>
        set_init_params s1 = (Inr (), s2) \<and>
        meaning (cli_hooks env create) [''init'', ''zfs''] cs [] s2 = (Inr (), s'))"
    and "meaning (cli_hooks env create) [''init'', ''zfs''] cs [] s = (Inr (), s') \<longleftrightarrow>
      (\<exists>s1. finalise (cli_hooks env create) [''init'', ''zfs''] (fold apply_setting cs []) s = (Inr (), s1) \<and>
        init_execute env s1 = (Inr (), s'))"
proof -
  have at: "command_at [''init''] (tree s) \<noteq> None" "command_at [''init'', ''zfs''] (tree s) \<noteq> None"
    using assms by (simp_all add: shaped_def del: command_at.simps)
  show "meaning (cli_hooks env create) [] as [Segment ''init'' bs, Segment ''zfs'' cs] s = (Inr (), s') \<longleftrightarrow>
      (\<exists>s1. finalise (cli_hooks env create) [] (fold apply_setting as []) s = (Inr (), s1) \<and>
        meaning (cli_hooks env create) [''init''] bs [Segment ''zfs'' cs] s1 = (Inr (), s'))"
    using at(1) unfolding meaning.simps(2) [of _ "[]"] Let_def
    by (simp add: thenS_eq_Inr with_context_Inr cli_hooks_def driver_commands_def del: command_at.simps meaning.simps not_None_eq)
  show "meaning (cli_hooks env create) [''init''] bs [Segment ''zfs'' cs] s = (Inr (), s') \<longleftrightarrow>
      (\<exists>s1 s2. finalise (cli_hooks env create) [''init''] (fold apply_setting bs []) s = (Inr (), s1) \<and>
        set_init_params s1 = (Inr (), s2) \<and>
        meaning (cli_hooks env create) [''init'', ''zfs''] cs [] s2 = (Inr (), s'))"
    using at(2) unfolding meaning.simps(2) [of _ "[''init'']"] Let_def
    by (simp add: thenS_eq_Inr with_context_Inr cli_hooks_def driver_commands_def del: command_at.simps meaning.simps not_None_eq)
  show "meaning (cli_hooks env create) [''init'', ''zfs''] cs [] s = (Inr (), s') \<longleftrightarrow>
      (\<exists>s1. finalise (cli_hooks env create) [''init'', ''zfs''] (fold apply_setting cs []) s = (Inr (), s1) \<and>
        init_execute env s1 = (Inr (), s'))"
    by (simp add: thenS_eq_Inr with_context_Inr cli_hooks_def execute_command_def)
qed

lemma cli_hooks_base: "unrecognisedParameters (cli_hooks env create) = unrecognisedParameters base_hooks"
  by (simp add: cli_hooks_def)

text \<open>Parsing such a command line: what it says is well formed, and then \<open>init\<close> runs on a tree that holds it.\<close>

lemma meaning_init:
  assumes shape: "shaped (tree s) path_parameter (parameter_with [''true''] d1 chain_boolean d2 (VBool True))
      (parameter_with [''1m''] doc_min_duration chain_string [''Scalar''] (VString ''1m''))
      (parameter_with [''false''] d3 chain_boolean d2 (VBool False))" (is "shaped _ ?R ?e ?m ?r")
  shows "\<exists>F. (\<forall>dir e x m raw. init_means as bs cs dir e x m raw \<longrightarrow> holds_line dir e x raw (F dir e x raw)) \<and>
    (\<forall>s'. meaning (cli_hooks env create) [] as [Segment ''init'' bs, Segment ''zfs'' cs] s = (Inr (), s') \<longleftrightarrow>
      (\<exists>dir e x m raw. init_means as bs cs dir e x m raw \<and> init_execute env
         (s\<lparr>tree := F dir e x raw,
            client := (client s)\<lparr>init_params := Some \<lparr>encryption = e, min_seconds_between_snapshots = m\<rparr>\<rparr>\<rparr>) = (Inr (), s')))"
proof -
  let ?g = "map_of (fold apply_setting as []) ''R''" and ?h = "map_of (fold apply_setting bs []) ''encryption''"
  let ?i = "map_of (fold apply_setting bs []) ''min-duration-between-snapshots''" and ?j = "map_of (fold apply_setting cs []) ''raw''"
  define T1 where "T1 dir = settle [] ''R'' ?R ?g (VPath dir) (tree s)" for dir
  define T2 where "T2 dir e x = settle [''init''] ''min-duration-between-snapshots'' ?m ?i (VString x)
    (settle [''init''] ''encryption'' ?e ?h (VBool e) (T1 dir))" for dir e x
  define F where "F dir e x raw = settle [''init'', ''zfs''] ''raw'' ?r ?j (VBool raw) (T2 dir e x)" for dir e x raw
  have shape1: "shaped (T1 dir) (after_setting ?R ?g (VPath dir)) ?e ?m ?r" for dir
    unfolding T1_def by (rule shaped_settle(1) [OF shape])
  have shape2: "shaped (T2 dir e x) (after_setting ?R ?g (VPath dir)) (after_setting ?e ?h (VBool e))
      (after_setting ?m ?i (VString x)) ?r" for dir e x
    unfolding T2_def by (rule shaped_settle(3) [OF shaped_settle(2) [OF shape1]])
  have holds_line: "holds_line dir e x raw (F dir e x raw)" if "init_means as bs cs dir e x m raw" for dir e x m raw
    using line_held [OF shape that] by (simp add: F_def T2_def T1_def)
  note base = cli_hooks_base [of env create]
  let ?P = "\<lambda>e m. Some \<lparr>encryption = e, min_seconds_between_snapshots = m\<rparr>"
  have zfs: "meaning (cli_hooks env create) [''init'', ''zfs''] cs [] (s\<lparr>tree := T2 dir e x, client := c\<rparr>) = (Inr (), s') \<longleftrightarrow>
      list_all (\<lambda>a. setting_key a = ''raw'') cs \<and> (\<exists>raw. chain_boolean (chosen cs ''raw'' ''false'') = Inr (VBool raw) \<and>
        init_execute env (s\<lparr>tree := F dir e x raw, client := c\<rparr>) = (Inr (), s'))" for dir e x c s'
  proof -
    have "shaped (tree (s\<lparr>tree := T2 dir e x, client := c\<rparr>)) (after_setting ?R ?g (VPath dir)) (after_setting ?e ?h (VBool e))
        (after_setting ?m ?i (VString x)) ?r" using shape2 by simp
    note steps = meaning_init_steps(3) [OF this] finalise_zfs [OF base this]
    have "(s\<lparr>tree := t, client := c\<rparr>)\<lparr>tree := u\<rparr> = s\<lparr>tree := u, client := c\<rparr>" "tree (s\<lparr>tree := t, client := c\<rparr>) = t" for t u
      by simp_all
    then show ?thesis unfolding steps F_def by (simp only:) blast
  qed
  have params: "set_init_params (s\<lparr>tree := T2 dir e x\<rparr>) = (Inr (), s2) \<longleftrightarrow> (\<exists>m. duration x = Inr m \<and>
      s2 = s\<lparr>tree := T2 dir e x, client := (client s)\<lparr>init_params := ?P e m\<rparr>\<rparr>)"
    if "chain_boolean (chosen bs ''encryption'' ''true'') = Inr (VBool e)"
      "chain_string (chosen bs ''min-duration-between-snapshots'' ''1m'') = Inr (VString x)" for dir e x s2
  proof -
    have "takes ?e ?h (VBool e)" "takes ?m ?i (VString x)" using that by (simp_all add: takes_chosen)
    moreover have "shaped (tree (s\<lparr>tree := T2 dir e x\<rparr>)) (after_setting ?R ?g (VPath dir)) (after_setting ?e ?h (VBool e))
        (after_setting ?m ?i (VString x)) ?r" using shape2 by simp
    ultimately show ?thesis by (simp add: set_init_params_Inr after_setting_simps)
  qed
  have init: "meaning (cli_hooks env create) [''init''] bs [Segment ''zfs'' cs] (s\<lparr>tree := T1 dir\<rparr>) = (Inr (), s') \<longleftrightarrow>
      list_all (\<lambda>a. setting_key a \<in> {''encryption'', ''min-duration-between-snapshots''}) bs \<and>
      (\<exists>e x m. chain_boolean (chosen bs ''encryption'' ''true'') = Inr (VBool e) \<and>
        chain_string (chosen bs ''min-duration-between-snapshots'' ''1m'') = Inr (VString x) \<and> duration x = Inr m \<and>
        meaning (cli_hooks env create) [''init'', ''zfs''] cs []
          (s\<lparr>tree := T2 dir e x, client := (client s)\<lparr>init_params := ?P e m\<rparr>\<rparr>) = (Inr (), s'))" for dir s'
  proof -
    have "shaped (tree (s\<lparr>tree := T1 dir\<rparr>)) (after_setting ?R ?g (VPath dir)) ?e ?m ?r" using shape1 by simp
    note steps = meaning_init_steps(2) [OF this] finalise_init [OF base this]
    have "(s\<lparr>tree := t\<rparr>)\<lparr>tree := u\<rparr> = s\<lparr>tree := u\<rparr>" "tree (s\<lparr>tree := t\<rparr>) = t" for t u by simp_all
    then show ?thesis unfolding steps by (simp only: T2_def [symmetric]) (rule step_with_values, rule params)
  qed
  have root: "meaning (cli_hooks env create) [] as [Segment ''init'' bs, Segment ''zfs'' cs] s = (Inr (), s') \<longleftrightarrow>
      list_all (\<lambda>a. setting_key a = ''R'') as \<and> (\<exists>dir. chain_path (chosen as ''R'' ''.'') = Inr (VPath dir) \<and>
      meaning (cli_hooks env create) [''init''] bs [Segment ''zfs'' cs] (s\<lparr>tree := T1 dir\<rparr>) = (Inr (), s'))" for s'
    unfolding meaning_init_steps(1) [OF shape] finalise_root [OF base shape] by (auto simp: T1_def)
  have "meaning (cli_hooks env create) [] as [Segment ''init'' bs, Segment ''zfs'' cs] s = (Inr (), s') \<longleftrightarrow>
      (\<exists>dir e x m raw. init_means as bs cs dir e x m raw \<and>
        init_execute env (s\<lparr>tree := F dir e x raw, client := (client s)\<lparr>init_params := ?P e m\<rparr>\<rparr>) = (Inr (), s'))" for s'
    unfolding root init zfs init_means_def by blast
  then show ?thesis using holds_line by blast
qed

lemma init_execute_modes:
  assumes "holds_line dir e x raw (tree s)"
  shows "main_mode (client s) = Retrospective \<Longrightarrow>
      init_execute env s = (Inr (), s\<lparr>client := (client s)\<lparr>extension := Some raw\<rparr>\<rparr>)"
    and "main_mode (client s) = Execution argv \<Longrightarrow> init_execute env s =
      sysS (init_repository (env_path env dir) currentRepositoryStructureFormatUuid argv) s"
proof -
  obtain pR pe pm pr d1 d4 where p: "shaped (tree s) pR pe pm pr" "param_type pR = Defaulted d1" "held pR = Some (VPath dir)"
    "param_type pr = Defaulted d4" "held pr = Some (VBool raw)" using assms by (auto simp: holds_line_def)
  have "get_bool [''init'', ''zfs''] ''raw'' s = (Inr raw, s)"
    using p by (simp add: get_bool_def get_as_held [where p = pr] shaped_def del: command_at.simps not_None_eq)
  then show "main_mode (client s) = Retrospective \<Longrightarrow>
      init_execute env s = (Inr (), s\<lparr>client := (client s)\<lparr>extension := Some raw\<rparr>\<rparr>)"
    by (simp add: init_execute_def bindS_def set_client_def)
  have "get_path [] ''R'' s = (Inr dir, s)"
    using p by (simp add: get_path_def get_as_held [where p = pR] shaped_def del: command_at.simps not_None_eq)
  then show "main_mode (client s) = Execution argv \<Longrightarrow> init_execute env s =
      sysS (init_repository (env_path env dir) currentRepositoryStructureFormatUuid argv) s"
    by (simp add: init_execute_def bindS_def)
qed

definition init_line :: "string \<Rightarrow> setting list \<Rightarrow> setting list \<Rightarrow> setting list \<Rightarrow> string list" where
  "init_line name as bs cs =
     name # concat (map render as) @ concat (map render_segment [Segment ''init'' bs, Segment ''zfs'' cs])"

lemma parse_init_line:
  assumes "well_formed as" "well_formed bs" "well_formed cs"
  shows "parse (cli_hooks env create) (Some []) (tl (init_line name as bs cs)) s =
    meaning (cli_hooks env create) [] as [Segment ''init'' bs, Segment ''zfs'' cs] s"
proof -
  have "list_all (\<lambda>g. is_subcommand_token (segment_command g) \<and> well_formed (segment_settings g))
      [Segment ''init'' bs, Segment ''zfs'' cs]"
    using assms by (simp add: is_subcommand_token_def has_eq_def ends_with_def)
  note line = parse_meaning [OF assms(1) this, of "cli_hooks env create" "[]"]
  have enter: "with_context [] None (on_enter (cli_hooks env create) []) s = (Inr (), s)"
    by (simp add: with_context_Inr cli_hooks_def driver_commands_def)
  show ?thesis unfolding parse_def init_line_def option.case list.sel line using enter
    by (simp add: thenS_def del: meaning.simps)
qed

lemma create_params_init:
  assumes "rs_format r = currentRepositoryStructureFormatUuid" and "rs_initargs r = init_line name as bs cs"
    and "well_formed as" "well_formed bs" "well_formed cs" and "init_means as bs cs dir e x m raw"
  shows "create_params env (Suc n) r s =
    (Inr (Some \<lparr>encryption = e, min_seconds_between_snapshots = m\<rparr>, Some raw), s)"
proof -
  obtain t d1 d2 d3 where t: "main_command (env_open env) name = Inr t" "shaped t path_parameter
     (parameter_with [''true''] d1 chain_boolean d2 (VBool True))
     (parameter_with [''1m''] doc_min_duration chain_string [''Scalar''] (VString ''1m''))
     (parameter_with [''false''] d3 chain_boolean d2 (VBool False))"
    using main_command_shaped by blast
  define s0 where "s0 = \<lparr>tree = t, client = (client s)\<lparr>main_mode := Retrospective, init_params := None,
    command_params := None, extension := None\<rparr>\<rparr>"
  let ?p = "Some \<lparr>encryption = e, min_seconds_between_snapshots = m\<rparr>"
  have shape: "shaped (tree s0) path_parameter
     (parameter_with [''true''] d1 chain_boolean d2 (VBool True))
     (parameter_with [''1m''] doc_min_duration chain_string [''Scalar''] (VString ''1m''))
     (parameter_with [''false''] d3 chain_boolean d2 (VBool False))" using t(2) by (simp add: s0_def)
  obtain F where F1: "\<forall>dir e x m raw. init_means as bs cs dir e x m raw \<longrightarrow> holds_line dir e x raw (F dir e x raw)"
    and F2: "\<forall>s'. meaning (cli_hooks env (create_params env n)) [] as [Segment ''init'' bs, Segment ''zfs'' cs] s0 = (Inr (), s') \<longleftrightarrow>
      (\<exists>dir e x m raw. init_means as bs cs dir e x m raw \<and> init_execute env (s0\<lparr>tree := F dir e x raw,
        client := (client s0)\<lparr>init_params := Some \<lparr>encryption = e, min_seconds_between_snapshots = m\<rparr>\<rparr>\<rparr>) = (Inr (), s'))"
    using meaning_init [OF shape, of as bs cs env "create_params env n"] by (elim exE conjE)
  have F: "holds_line dir e x raw (F dir e x raw)"
    "init_execute env (s0\<lparr>tree := F dir e x raw, client := (client s0)\<lparr>init_params := ?p\<rparr>\<rparr>) = (Inr (), s') \<Longrightarrow>
      meaning (cli_hooks env (create_params env n)) [] as [Segment ''init'' bs, Segment ''zfs'' cs] s0 = (Inr (), s')" for s'
    using F1 F2 assms(6) by blast+
  have "init_execute env (s0\<lparr>tree := F dir e x raw, client := (client s0)\<lparr>init_params := ?p\<rparr>\<rparr>) =
      (Inr (), s0\<lparr>tree := F dir e x raw, client := (client s0)\<lparr>init_params := ?p, extension := Some raw\<rparr>\<rparr>)"
    using init_execute_modes(1) [of dir e x raw "s0\<lparr>tree := F dir e x raw, client := (client s0)\<lparr>init_params := ?p\<rparr>\<rparr>"] F(1)
    by (simp add: s0_def)
  from F(2) [OF this] have "parse (cli_hooks env (create_params env n)) (Some []) (tl (init_line name as bs cs)) s0 =
      (Inr (), s0\<lparr>tree := F dir e x raw, client := (client s0)\<lparr>init_params := ?p, extension := Some raw\<rparr>\<rparr>)"
    using parse_init_line [OF assms(3-5), of env "create_params env n" name s0] by (simp only:)
  moreover have "hd (init_line name as bs cs) = name"
    "span_exc_front (init_line name as bs cs) = Inr (tl (init_line name as bs cs))"
    by (simp_all add: init_line_def span_exc_front_def)
  ultimately show ?thesis using assms(1,2) t(1)
    by (cases s) (simp add: s0_def)
qed

lemma cli_run_Inr:
  assumes "main_command (env_open env) (hd argv) = Inr t"
  shows "cli_run env d argv c = (Inr (), c') \<longleftrightarrow>
    (\<exists>s'. parse (cli_hooks env (create_params env d)) (Some []) (tl argv) \<lparr>tree = t, client = cli_start argv c\<rparr> = (Inr (), s') \<and>
      c' = client s')"
  using assms by (auto simp: cli_run_def parse_argv_def split: prod.splits sum.splits exn.splits)

lemma cli_run_init:
  assumes "well_formed as" "well_formed bs" "well_formed cs"
  shows "cli_run env d (init_line name as bs cs) c = (Inr (), c') \<longleftrightarrow>
    (\<exists>dir e x m raw w. init_means as bs cs dir e x m raw \<and>
      init_repository (env_path env dir) currentRepositoryStructureFormatUuid (init_line name as bs cs) (sys c) = (Inr (), w) \<and>
      c' = (cli_start (init_line name as bs cs) c)
        \<lparr>init_params := Some \<lparr>encryption = e, min_seconds_between_snapshots = m\<rparr>, sys := w\<rparr>)"
proof -
  let ?argv = "init_line name as bs cs" and ?h = "cli_hooks env (create_params env d)"
  let ?P = "\<lambda>e m. Some \<lparr>encryption = e, min_seconds_between_snapshots = m\<rparr>"
  let ?init = "\<lambda>dir. init_repository (env_path env dir) currentRepositoryStructureFormatUuid ?argv"
  have name: "hd ?argv = name" by (simp add: init_line_def)
  obtain t d1 d2 d3 where t: "main_command (env_open env) (hd ?argv) = Inr t" "shaped t path_parameter
     (parameter_with [''true''] d1 chain_boolean d2 (VBool True))
     (parameter_with [''1m''] doc_min_duration chain_string [''Scalar''] (VString ''1m''))
     (parameter_with [''false''] d3 chain_boolean d2 (VBool False))"
    unfolding name using main_command_shaped by blast
  define s0 where "s0 = \<lparr>tree = t, client = cli_start ?argv c\<rparr>"
  have shape: "shaped (tree s0) path_parameter
     (parameter_with [''true''] d1 chain_boolean d2 (VBool True))
     (parameter_with [''1m''] doc_min_duration chain_string [''Scalar''] (VString ''1m''))
     (parameter_with [''false''] d3 chain_boolean d2 (VBool False))" using t(2) by (simp add: s0_def)
  obtain F where F1: "\<forall>dir e x m raw. init_means as bs cs dir e x m raw \<longrightarrow> holds_line dir e x raw (F dir e x raw)"
    and F2: "\<forall>s'. meaning ?h [] as [Segment ''init'' bs, Segment ''zfs'' cs] s0 = (Inr (), s') \<longleftrightarrow>
      (\<exists>dir e x m raw. init_means as bs cs dir e x m raw \<and> init_execute env (s0\<lparr>tree := F dir e x raw,
        client := (client s0)\<lparr>init_params := ?P e m\<rparr>\<rparr>) = (Inr (), s'))"
    using meaning_init [OF shape, of as bs cs env "create_params env d"] by (elim exE conjE)
  have exec: "init_execute env (s0\<lparr>tree := F dir e x raw, client := (client s0)\<lparr>init_params := ?P e m\<rparr>\<rparr>) = (Inr (), s') \<longleftrightarrow>
      (\<exists>w. ?init dir (sys c) = (Inr (), w) \<and>
        s' = s0\<lparr>tree := F dir e x raw, client := (cli_start ?argv c)\<lparr>init_params := ?P e m, sys := w\<rparr>\<rparr>)"
    if "init_means as bs cs dir e x m raw" for dir e x m raw s'
  proof -
    have "init_execute env (s0\<lparr>tree := F dir e x raw, client := (client s0)\<lparr>init_params := ?P e m\<rparr>\<rparr>) =
        sysS (?init dir) (s0\<lparr>tree := F dir e x raw, client := (client s0)\<lparr>init_params := ?P e m\<rparr>\<rparr>)"
      using F1 that by (intro init_execute_modes(2) [of dir e x raw]) (auto simp: s0_def cli_start_def)
    then show ?thesis by (cases "?init dir (sys c)") (auto simp: sysS_def s0_def cli_start_def)
  qed
  have "cli_run env d ?argv c = (Inr (), c') \<longleftrightarrow> (\<exists>s'. meaning ?h [] as [Segment ''init'' bs, Segment ''zfs'' cs] s0 = (Inr (), s') \<and>
      c' = client s')"
    unfolding cli_run_Inr [OF t(1)] s0_def [symmetric] parse_init_line [OF assms] ..
  also have "\<dots> \<longleftrightarrow> (\<exists>dir e x m raw w. init_means as bs cs dir e x m raw \<and> ?init dir (sys c) = (Inr (), w) \<and>
      c' = (cli_start ?argv c)\<lparr>init_params := ?P e m, sys := w\<rparr>)"
    unfolding F2 [rule_format] using exec by fastforce
  finally show ?thesis .
qed

text \<open>Surroundings for examples: a program that is not there and an empty directory.\<close>

definition sample_env :: "(unit, snapshots) cli_env" where
  "sample_env = \<lparr>env_sodium = plain_sodium, env_exec = (\<lambda>_ _ _ b. (ExecFailed ENOENT, b)), env_clock = (\<lambda>_. timestamp_min), env_path = (\<lambda>p. [p]),
     env_open = (\<lambda>_. Some ENOENT), env_input = (\<lambda>_. ([], [])), env_tty_fd = 3, env_import = (\<lambda>_ _. retS ()),
     env_stdin = []\<rparr>"

definition sample_client :: "snapshots client" where
  "sample_client = \<lparr>sys = sample_system, terminal = sample_world, printed = [], exit_call = None, main_mode = Retrospective,
     init_params = None, command_params = None, extension = None\<rparr>"

text \<open>
  C14. A command line with \<open>init\<close> is understood the same when it is given and whenever it is read
  back. On a directory that does not exist and a machine without failures the program succeeds
  exactly when the command line means something; it has then made a repository that stores
  the command line, and from that repository every later command, in whatever
  state it runs, gets just the parameters that were meant, and nothing else changes.
\<close>
theorem init_replayed:
  assumes "well_formed as" "well_formed bs" "well_formed cs" and "undisturbed (sys c)"
    and "chain_path (chosen as ''R'' ''.'') = Inr (VPath dir)"
    and "\<forall>q. prefix q (env_path env dir) \<longrightarrow> look (sys c) q = None \<or> look (sys c) q = Some Dir"
    and "\<forall>q. prefix (env_path env dir) q \<longrightarrow> look (sys c) q = None"
    and "initargs_ok (currentRepositoryStructureFormatUuid, init_line name as bs cs)"
  shows "((\<exists>c'. cli_run env d (init_line name as bs cs) c = (Inr (), c')) \<longleftrightarrow> (\<exists>e x m raw. init_means as bs cs dir e x m raw)) \<and>
    (\<forall>e x m raw c'. init_means as bs cs dir e x m raw \<and> cli_run env d (init_line name as bs cs) c = (Inr (), c') \<longrightarrow>
      (\<exists>r w. open_repository (env_path env dir) (sys c') = (Inr r, w) \<and> rs_initargs r = init_line name as bs cs \<and>
        (\<forall>later n s. create_params later (Suc n) r s =
          (Inr (Some \<lparr>encryption = e, min_seconds_between_snapshots = m\<rparr>, Some raw), s))))"
proof -
  let ?argv = "init_line name as bs cs" and ?u = "currentRepositoryStructureFormatUuid" and ?r = "env_path env dir"
  have "?argv \<noteq> []" by (simp add: init_line_def)
  then obtain w where "createRepository ?r ?u ?argv (sys c) = (Inr \<lparr>rs_repository = ?r, rs_format = ?u, rs_initargs = ?argv,
      rs_breadcrumb = fresh_breadcrumb, rs_temporary = None, rs_checkouts = 0\<rparr>, w)"
    "undisturbed w" "openable w ?r ?u ?argv" "breadcrumb_on_disk w ?r fresh_breadcrumb"
    using createRepository_fresh [of "sys c" ?r ?argv ?u, OF assms(4) assms(6,7) [rule_format] _ assms(8)] by blast
  then have w: "init_repository ?r ?u ?argv (sys c) = (Inr (), w)"
    "undisturbed w" "openable w ?r ?u ?argv" "breadcrumb_on_disk w ?r fresh_breadcrumb"
    by (simp_all add: init_repository_def thenS_def bindS_def)
  have dir: "dir' = dir" if "init_means as bs cs dir' e x m raw" for dir' e x m raw
    using that assms(5) by (simp add: init_means_def)
  show ?thesis
  proof (intro conjI allI impI)
    show "(\<exists>c'. cli_run env d ?argv c = (Inr (), c')) \<longleftrightarrow> (\<exists>e x m raw. init_means as bs cs dir e x m raw)"
      unfolding cli_run_init [OF assms(1-3)] using w(1) dir by blast
  next
    fix e x m raw c'
    assume a: "init_means as bs cs dir e x m raw \<and> cli_run env d ?argv c = (Inr (), c')"
    then obtain dir' e' x' m' raw' where "init_means as bs cs dir' e' x' m' raw'"
      "init_repository (env_path env dir') ?u ?argv (sys c) = (Inr (), sys c')"
      using cli_run_init [OF assms(1-3), of env d name c c'] by auto
    then have sys: "sys c' = w" using dir w(1) by auto
    let ?x = "\<lparr>rs_repository = ?r, rs_format = ?u, rs_initargs = ?argv,
        rs_breadcrumb = fresh_breadcrumb, rs_temporary = None, rs_checkouts = 0\<rparr>"
    obtain w' where w': "open_repository ?r w = (Inr ?x, w')" using open_repository_calm [OF w(2-4)] by blast
    have later: "create_params later (Suc n) ?x s =
        (Inr (Some \<lparr>encryption = e, min_seconds_between_snapshots = m\<rparr>, Some raw), s)" for later n s
      using a by (intro create_params_init [where name = name, OF _ _ assms(1-3), of _ dir e x]) simp_all
    show "\<exists>r w. open_repository ?r (sys c') = (Inr r, w) \<and> rs_initargs r = ?argv \<and>
        (\<forall>later n s. create_params later (Suc n) r s =
          (Inr (Some \<lparr>encryption = e, min_seconds_between_snapshots = m\<rparr>, Some raw), s))"
      unfolding sys by (intro exI [of _ ?x] exI [of _ w']) (simp add: w' later del: create_params.simps)
  qed
qed

theorem init_replayed_witness:
  "\<exists>c' r w. cli_run sample_env 0
      [''diffmonger'', ''R=backup'', ''init'', ''min-duration-between-snapshots=2h'', ''zfs'', ''raw:=true''] sample_client = (Inr (), c') \<and>
    open_repository [''backup''] (sys c') = (Inr r, w) \<and>
    create_params sample_env (Suc 0) r \<lparr>tree = init_tree, client = c'\<rparr> =
      (Inr (Some \<lparr>encryption = True, min_seconds_between_snapshots = 7200\<rparr>, Some True), \<lparr>tree = init_tree, client = c'\<rparr>)"
proof -
  let ?as = "[Assign False ''R'' [''backup'']]" and ?bs = "[Assign False ''min-duration-between-snapshots'' [''2h'']]"
  let ?cs = "[Assign True ''raw'' [''true'']]"
  have line: "init_line ''diffmonger'' ?as ?bs ?cs =
      [''diffmonger'', ''R=backup'', ''init'', ''min-duration-between-snapshots=2h'', ''zfs'', ''raw:=true'']"
    by (simp add: init_line_def render_segment_def)
  have formed: "well_formed ?as" "well_formed ?bs" "well_formed ?cs" by (simp_all add: well_formed_def plain_name_def)
  have path: "env_path sample_env ''backup'' = [''backup'']" by (simp add: sample_env_def)
  have calm: "undisturbed (sys sample_client)" by (simp add: sample_client_def sample_system_def)
  have dir: "chain_path (chosen ?as ''R'' ''.'') = Inr (VPath ''backup'')"
    by (simp add: chosen_def assign_def smap_update_def)
  have root: "look (sys sample_client) [] = Some Dir"
    by (simp add: sample_client_def sample_system_def sample_files_def lookup_def file_names)
  have none: "look (sys sample_client) (''backup'' # q) = None" for q
    by (simp add: sample_client_def sample_system_def sample_files_def lookup_def file_names)
  have fresh: "\<forall>q. prefix q (env_path sample_env ''backup'') \<longrightarrow>
      look (sys sample_client) q = None \<or> look (sys sample_client) q = Some Dir"
    "\<forall>q. prefix (env_path sample_env ''backup'') q \<longrightarrow> look (sys sample_client) q = None"
    unfolding path using root none by (auto simp: prefix_Cons) (auto simp: prefix_def)
  have ok: "initargs_ok (currentRepositoryStructureFormatUuid, init_line ''diffmonger'' ?as ?bs ?cs)"
    unfolding line by (simp add: initargs_ok_def vector_ok_def max_size_def currentRepositoryStructureFormatUuid_def uuid_ok_def uuid_size_def)
  have means: "init_means ?as ?bs ?cs ''backup'' True ''2h'' 7200 True"
    by (simp add: init_means_def chosen_def assign_def smap_update_def duration_def from_chars_def uint64_range_def is_digit_def
        digits_value_def digit_value_def duration_unit_def Let_def)
  note replayed = init_replayed [where env = sample_env and d = 0, OF formed calm dir fresh ok]
  obtain c' where run: "cli_run sample_env 0 (init_line ''diffmonger'' ?as ?bs ?cs) sample_client = (Inr (), c')"
    using replayed [THEN conjunct1] means by blast
  from replayed [THEN conjunct2, rule_format, OF conjI [OF means run]] run
  show ?thesis unfolding path line [symmetric] by blast
qed

end
