(* ===== verification/ZfsFacts.thy ===== *)
theory ZfsFacts
  imports ZfsDriver Retention
begin

text \<open>
  The commands on a ZFS dataset, end to end: what the \<^verbatim>\<open>zfs\<close> manual says of the calls the
  driver makes is \<open>zfs_behaves\<close>; under it the driver meets the contract \<open>serves\<close> of the
  controller, but not \<open>adopts\<close>.
\<close>

section \<open>What zfs documents\<close>

text \<open>
  \<open>holds V b\<close>: in the state \<open>b\<close> the dataset has the snapshots \<open>V\<close>, oldest first. Creating a
  snapshot under a name that exists fails, as does asking for one that does not; an incremental
  stream starts at an older snapshot.
\<close>

type_synonym snapshot_list = "(snapshot_name \<times> snapshot_guid) list"

definition precedes :: "snapshot_list \<Rightarrow> snapshot_name \<Rightarrow> snapshot_name \<Rightarrow> bool" where
  "precedes V p s \<longleftrightarrow> (\<exists>V1 g V2. V = V1 @ (p, g) # V2 \<and> s \<in> fst ` set V2)"

definition zcall :: "'b exec \<Rightarrow> zfs_backend \<Rightarrow> string list \<Rightarrow> 'b \<Rightarrow> spawned \<times> 'b" where
  "zcall exec z xs b = exec (cmd (zfsCommand z)) (args (zfsCommand z) @ xs) None b"

definition failed :: "wstatus \<Rightarrow> bool" where
  "failed w \<longleftrightarrow> \<not> (WIFEXITED w \<and> WEXITSTATUS w = 0)"

definition zfs_behaves :: "'b exec \<Rightarrow> zfs_backend \<Rightarrow> (snapshot_list \<Rightarrow> 'b \<Rightarrow> bool) \<Rightarrow> bool" where
  "zfs_behaves exec z holds \<longleftrightarrow>
     (\<forall>V b s. holds V b \<longrightarrow> snapshot_ok s \<longrightarrow> map_of V s = None \<longrightarrow>
       (\<exists>g out b'. zcall exec z [''snapshot'', dsn_str (zfsDataset z) s] b = (Ran out 0, b') \<and>
         guid_ok g \<and> holds (V @ [(s, g)]) b')) \<and>
     (\<forall>V b s g. holds V b \<longrightarrow> map_of V s = Some g \<longrightarrow>
       (\<exists>out st b'. zcall exec z [''snapshot'', dsn_str (zfsDataset z) s] b = (Ran out st, b') \<and>
         failed st \<and> holds V b')) \<and>
     (\<forall>V b s g. holds V b \<longrightarrow> map_of V s = Some g \<longrightarrow>
       (\<exists>b'. zcall exec z [''get'', ''-H'', ''-o'', ''value'', ''guid'', dsn_str (zfsDataset z) s] b =
         (Ran (bytes_of_string (guid_str g @ [newline])) 0, b') \<and> guid_ok g \<and> holds V b')) \<and>
     (\<forall>V b s g. holds V b \<longrightarrow> map_of V s = Some g \<longrightarrow>
       (\<exists>out b'. zcall exec z [''send'', dsn_str (zfsDataset z) s] b = (Ran out 0, b') \<and> holds V b')) \<and>
     (\<forall>V b p s. holds V b \<longrightarrow> precedes V p s \<longrightarrow>
       (\<exists>out b'. zcall exec z [''send'', ''-i'', ''@'' @ snapshot_str p, dsn_str (zfsDataset z) s] b =
         (Ran out 0, b') \<and> holds V b'))"

lemma zfs_behavesD:
  assumes "zfs_behaves exec z holds" and "holds V b"
  shows "snapshot_ok s \<Longrightarrow> map_of V s = None \<Longrightarrow>
      \<exists>g out b'. zcall exec z [''snapshot'', dsn_str (zfsDataset z) s] b = (Ran out 0, b') \<and>
        guid_ok g \<and> holds (V @ [(s, g)]) b'"
    and "map_of V s = Some g \<Longrightarrow>
      \<exists>out st b'. zcall exec z [''snapshot'', dsn_str (zfsDataset z) s] b = (Ran out st, b') \<and>
        failed st \<and> holds V b'"
    and "map_of V s = Some g \<Longrightarrow>
      \<exists>b'. zcall exec z [''get'', ''-H'', ''-o'', ''value'', ''guid'', dsn_str (zfsDataset z) s] b =
        (Ran (bytes_of_string (guid_str g @ [newline])) 0, b') \<and> guid_ok g \<and> holds V b'"
    and "map_of V s = Some g \<Longrightarrow>
      \<exists>out b'. zcall exec z [''send'', dsn_str (zfsDataset z) s] b = (Ran out 0, b') \<and> holds V b'"
    and "precedes V p s \<Longrightarrow>
      \<exists>out b'. zcall exec z [''send'', ''-i'', ''@'' @ snapshot_str p, dsn_str (zfsDataset z) s] b =
        (Ran out 0, b') \<and> holds V b'"
proof -
  note body = assms(1) [unfolded zfs_behaves_def]
  note laws = body [THEN conjunct1] body [THEN conjunct2, THEN conjunct1]
    body [THEN conjunct2, THEN conjunct2, THEN conjunct1]
    body [THEN conjunct2, THEN conjunct2, THEN conjunct2, THEN conjunct1]
    body [THEN conjunct2, THEN conjunct2, THEN conjunct2, THEN conjunct2]
  show "snapshot_ok s \<Longrightarrow> map_of V s = None \<Longrightarrow>
      \<exists>g out b'. zcall exec z [''snapshot'', dsn_str (zfsDataset z) s] b = (Ran out 0, b') \<and>
        guid_ok g \<and> holds (V @ [(s, g)]) b'"
    by (rule laws(1) [rule_format, OF assms(2)])
  show "map_of V s = Some g \<Longrightarrow>
      \<exists>out st b'. zcall exec z [''snapshot'', dsn_str (zfsDataset z) s] b = (Ran out st, b') \<and>
        failed st \<and> holds V b'"
    by (rule laws(2) [rule_format, OF assms(2)])
  show "map_of V s = Some g \<Longrightarrow>
      \<exists>b'. zcall exec z [''get'', ''-H'', ''-o'', ''value'', ''guid'', dsn_str (zfsDataset z) s] b =
        (Ran (bytes_of_string (guid_str g @ [newline])) 0, b') \<and> guid_ok g \<and> holds V b'"
    by (rule laws(3) [rule_format, OF assms(2)])
  show "map_of V s = Some g \<Longrightarrow>
      \<exists>out b'. zcall exec z [''send'', dsn_str (zfsDataset z) s] b = (Ran out 0, b') \<and> holds V b'"
    by (rule laws(4) [rule_format, OF assms(2)])
  show "precedes V p s \<Longrightarrow>
      \<exists>out b'. zcall exec z [''send'', ''-i'', ''@'' @ snapshot_str p, dsn_str (zfsDataset z) s] b =
        (Ran out 0, b') \<and> holds V b'"
    by (rule laws(5) [rule_format, OF assms(2)])
qed

section \<open>The calls of the driver\<close>

text \<open>The command is never empty: its constructor throws for no arguments.\<close>

definition has_command :: "zfs_backend \<Rightarrow> bool" where
  "has_command z \<longleftrightarrow> args (zfsCommand z) \<noteq> []"

lemma systemvp3_call:
  assumes "has_command z"
  shows "\<exists>name. systemvp3 exec (cmd (extend_args (zfsCommand z) xs)) (args (extend_args (zfsCommand z) xs)) None b =
    (case zcall exec z xs b of (spawned, b') \<Rightarrow>
       (case spawned of
          PipeFailed err \<Rightarrow> Inl (SystemError err ''pipe() failed'')
        | ForkFailed err \<Rightarrow> Inl (SystemError err ''fork failed'')
        | ExecFailed err \<Rightarrow> Inl (SystemError err (''Failed to run '' @ cmd (zfsCommand z)))
        | Ran output status \<Rightarrow> Inr \<lparr> child_name = name, child_output = output, child_status = status \<rparr>, b'))"
  using assms by (cases "args (zfsCommand z)")
    (auto simp: systemvp3_def extend_args_def zcall_def bindS_def has_command_def)

lemma ran_throws:
  assumes "has_command z" and "zcall exec z xs b = (Ran out st, b')"
  shows "\<exists>name. systemvp_throw_on_failure exec (cmd (extend_args (zfsCommand z) xs))
    (args (extend_args (zfsCommand z) xs)) b = (out, wait_or_throw name st, b')"
  using systemvp3_call [OF assms(1), of exec xs b] assms(2)
  by (auto simp: systemvp_throw_on_failure_def systemvp_throw_on_failure3_def)

lemma get_guid_found:
  assumes "has_command z" and "guid_ok g"
    and "zcall exec z [''get'', ''-H'', ''-o'', ''value'', ''guid'', dsn_str (zfsDataset z) s] b =
      (Ran (bytes_of_string (guid_str g @ [newline])) 0, b')"
  shows "zfs_get_guid exec (zfsCommand z) (zfsDataset z) s b = (Inr g, b')"
proof -
  have "systemvp_strchomp exec (cmd (zfsCommand z)) (args (extend_args (zfsCommand z)
      [''get'', ''-H'', ''-o'', ''value'', ''guid'', dsn_str (zfsDataset z) s])) b = (Inr (guid_str g), b')"
    using systemvp3_call [OF assms(1), of exec
        "[''get'', ''-H'', ''-o'', ''value'', ''guid'', dsn_str (zfsDataset z) s]" b] assms(3)
    by (auto simp: systemvp_strchomp_def systemvp_str_def bindS_def thenS_def strchomp_def extend_args_def)
  moreover have "SnapshotGuid (guid_str g) = Inr g" using assms(2) by (simp add: SnapshotGuid_Inr)
  ultimately show ?thesis
    by (simp add: zfs_get_guid_def Let_def verify_guid_str bindS_def extend_args_def)
qed

lemma snapshot_ran:
  assumes "has_command z" and "zcall exec z [''snapshot'', dsn_str (zfsDataset z) s] b = (Ran out st, b')"
  shows "\<exists>name. zfs_snapshot exec (zfsCommand z) (zfsDataset z) s b = (wait_or_throw name st, b')"
  using ran_throws [OF assms] by (auto simp: zfs_snapshot_def Let_def to_terminal_def)

lemma cast_found:
  assumes "has_command z" and "zfs_behaves exec z holds" and "holds V b"
    and "map_of V (sid_name i) = Some (sid_guid i)"
  shows "\<exists>b'. castAndVerify exec z i b = (Inr i, b') \<and> holds V b'"
proof -
  obtain b' where "zcall exec z [''get'', ''-H'', ''-o'', ''value'', ''guid'', dsn_str (zfsDataset z) (sid_name i)] b =
      (Ran (bytes_of_string (guid_str (sid_guid i) @ [newline])) 0, b')" "guid_ok (sid_guid i)" "holds V b'"
    using zfs_behavesD(3) [OF assms(2-4)] by blast
  then have "zfs_get_guid exec (zfsCommand z) (zfsDataset z) (sid_name i) b = (Inr (sid_guid i), b')"
    by (intro get_guid_found [OF assms(1)])
  then show ?thesis using \<open>holds V b'\<close> by (simp add: castAndVerify_def)
qed

section \<open>The driver meets the contract of the controller\<close>

text \<open>
  \<open>tracks U H V\<close>: every snapshot the controller knows of is in the dataset with its guid, in the
  order of the nodes, and a node it knows nothing of has no snapshot under its name.
\<close>

definition tracked :: "snapshots \<Rightarrow> snapshot_id \<Rightarrow> bool" where
  "tracked H i \<longleftrightarrow> sid_ok i \<and> H (sid_node i) = Some (sid_encoded i)"

definition tracks :: "uuid \<Rightarrow> snapshots \<Rightarrow> snapshot_list \<Rightarrow> bool" where
  "tracks U H V \<longleftrightarrow>
     (\<forall>n e. H n = Some e \<longrightarrow> (\<exists>i. tracked H i \<and> sid_node i = n \<and> e = sid_encoded i)) \<and>
     (\<forall>i. tracked H i \<longrightarrow> map_of V (sid_name i) = Some (sid_guid i)) \<and>
     (\<forall>i j. tracked H i \<longrightarrow> tracked H j \<longrightarrow> sid_node i < sid_node j \<longrightarrow> precedes V (sid_name i) (sid_name j)) \<and>
     (\<forall>n. H n = None \<longrightarrow> map_of V (Snapshot (snapshot_name_for n U)) = None)"

definition zgood :: "(snapshot_list \<Rightarrow> 'b \<Rightarrow> bool) \<Rightarrow> uuid \<Rightarrow> snapshots \<Rightarrow> 'b \<Rightarrow> bool" where
  "zgood holds U H b \<longleftrightarrow> finite (dom H) \<and> (\<exists>V. holds V b \<and> tracks U H V)"

lemma tracksD:
  assumes "tracks U H V"
  shows "H n = Some e \<Longrightarrow> \<exists>i. tracked H i \<and> sid_node i = n \<and> e = sid_encoded i"
    and "tracked H i \<Longrightarrow> map_of V (sid_name i) = Some (sid_guid i)"
    and "tracked H i \<Longrightarrow> tracked H j \<Longrightarrow> sid_node i < sid_node j \<Longrightarrow> precedes V (sid_name i) (sid_name j)"
    and "H n = None \<Longrightarrow> map_of V (Snapshot (snapshot_name_for n U)) = None"
  using assms unfolding tracks_def by blast+

lemma precedesI: "s \<in> fst ` set V2 \<Longrightarrow> precedes (V1 @ (p, g) # V2) p s"
  unfolding precedes_def by blast

lemma precedes_append:
  assumes "precedes V p s"
  shows "precedes (V @ W) p s"
proof -
  obtain V1 g V2 where "V = V1 @ (p, g) # V2" "s \<in> fst ` set V2" using assms unfolding precedes_def by blast
  then show ?thesis using precedesI [of s "V2 @ W" V1 p g] by auto
qed

lemma precedes_last:
  assumes "map_of V p = Some g"
  shows "precedes (V @ [(s, h)]) p s"
proof -
  obtain V1 V2 where "V = V1 @ (p, g) # V2" using split_list [OF map_of_SomeD [OF assms]] by blast
  then show ?thesis using precedesI [of s "V2 @ [(s, h)]" V1 p g] by simp
qed

lemma tracked_upd:
  assumes "sid_ok i" and "sid_node i = n"
  shows "tracked (H(n \<mapsto> sid_encoded i)) j \<longleftrightarrow> j = i \<or> sid_node j \<noteq> n \<and> tracked H j"
  using zfs.encoded_inject [of j i] assms by (auto simp: tracked_def)

lemma tracks_upd:
  assumes "tracks U H V" and "newest H n" and "sid_ok i" and "sid_node i = n"
    and "sid_name i = Snapshot (snapshot_name_for n U)"
  shows "tracks U (H(n \<mapsto> sid_encoded i)) (V @ [(sid_name i, sid_guid i)])"
proof -
  note t = tracked_upd [OF assms(3,4), of H] and d = tracksD [OF assms(1)]
  have new: "map_of V (sid_name i) = None" using d(4) newest_None [OF assms(2)] assms(5) by simp
  have below: "sid_node j < n" if "tracked H j" for j
    using assms(2) that by (auto simp: newest_def tracked_def)
  show ?thesis
    unfolding tracks_def t
  proof (intro conjI allI impI)
    fix m e assume m: "(H(n \<mapsto> sid_encoded i)) m = Some e"
    show "\<exists>j. (j = i \<or> sid_node j \<noteq> n \<and> tracked H j) \<and> sid_node j = m \<and> e = sid_encoded j"
    proof (cases "m = n")
      case True
      then show ?thesis using m assms(4) by auto
    next
      case False
      then show ?thesis using m d(1) [of m e] by auto
    qed
  next
    fix j assume "j = i \<or> sid_node j \<noteq> n \<and> tracked H j"
    then show "map_of (V @ [(sid_name i, sid_guid i)]) (sid_name j) = Some (sid_guid j)"
      using d(2) new by (auto simp: map_add_def)
  next
    fix j l assume a: "j = i \<or> sid_node j \<noteq> n \<and> tracked H j" "l = i \<or> sid_node l \<noteq> n \<and> tracked H l"
      "sid_node j < sid_node l"
    show "precedes (V @ [(sid_name i, sid_guid i)]) (sid_name j) (sid_name l)"
    proof (cases "l = i")
      case True
      then have "tracked H j" using a by auto
      then show ?thesis using precedes_last [OF d(2)] True by blast
    next
      case False
      then have "tracked H l" using a(2) by blast
      then have "tracked H j" using a(1,3) below assms(4) by fastforce
      then show ?thesis using precedes_append [OF d(3)] \<open>tracked H l\<close> a(3) by blast
    qed
  next
    fix m assume "(H(n \<mapsto> sid_encoded i)) m = None"
    then have m: "H m = None" "m \<noteq> n" by (auto split: if_splits)
    then have "Snapshot (snapshot_name_for m U) \<noteq> sid_name i"
      using assms(5) by (simp add: snapshot_name_for_inject)
    then show "map_of (V @ [(sid_name i, sid_guid i)]) (Snapshot (snapshot_name_for m U)) = None"
      using d(4) [OF m(1)] by (simp add: map_add_def)
  qed
qed

lemma zd_snapshot_new:
  assumes "has_command z" and "zfs_behaves exec z holds" and "holds V b" and "tracks U H V"
    and "newest H n" and "uuid_ok U"
  shows "\<exists>i b'. zd_snapshot exec clock z n U b = (Inr (i, False), b') \<and> sid_ok i \<and> sid_node i = n \<and>
    sid_name i = Snapshot (snapshot_name_for n U) \<and> holds (V @ [(sid_name i, sid_guid i)]) b'"
proof -
  let ?s = "Snapshot (snapshot_name_for n U)"
  have ok: "snapshot_ok ?s" "SnapshotName (snapshot_name_for n U) = Inr ?s"
    using snapshot_name_for_ok [OF assms(6)] by (simp_all add: snapshot_ok_def SnapshotName_def)
  have new: "map_of V ?s = None" using tracksD(4) [OF assms(4)] newest_None [OF assms(5)] by simp
  obtain g out b1 where b1: "zcall exec z [''snapshot'', dsn_str (zfsDataset z) ?s] b = (Ran out 0, b1)" "guid_ok g"
      "holds (V @ [(?s, g)]) b1"
    using zfs_behavesD(1) [OF assms(2,3) ok(1) new] by blast
  have "zfs_snapshot exec (zfsCommand z) (zfsDataset z) ?s b = (Inr (), b1)"
    using snapshot_ran [OF assms(1) b1(1)] by simp
  moreover have "map_of (V @ [(?s, g)]) ?s = Some g" using new by (simp add: map_add_def)
  then obtain b2 where "zcall exec z [''get'', ''-H'', ''-o'', ''value'', ''guid'', dsn_str (zfsDataset z) ?s] b1 =
      (Ran (bytes_of_string (guid_str g @ [newline])) 0, b2)" "holds (V @ [(?s, g)]) b2"
    using zfs_behavesD(3) [OF assms(2) b1(3)] by blast
  moreover from this(1) have "zfs_get_guid exec (zfsCommand z) (zfsDataset z) ?s b1 = (Inr g, b2)"
    by (rule get_guid_found [OF assms(1) b1(2)])
  ultimately show ?thesis
    using ok b1(2)
    by (intro exI [of _ "\<lparr> sid_node = n, sid_guid = g, sid_name = ?s, sid_timestamp = clock b2 \<rparr>"] exI [of _ b2])
      (simp add: zd_snapshot_def sid_ok_def)
qed

lemma known_tracked: "known (zfs_driver exec clock z) H i \<longleftrightarrow> tracked H i"
proof
  show "known (zfs_driver exec clock z) H i \<Longrightarrow> tracked H i"
    using zfs.decoded_valid by (auto simp: known_def tracked_def)
  show "tracked H i \<Longrightarrow> known (zfs_driver exec clock z) H i"
    using zfs.decode_encoded by (auto simp: known_def tracked_def)
qed

lemma send_ran:
  assumes "has_command z" and "zcall exec z (''send'' # xs) b = (Ran out 0, b')"
  shows "systemvp_throw_on_failure exec (cmd (extend_args (zfsCommand z) (''send'' # xs)))
    (args (extend_args (zfsCommand z) (''send'' # xs))) b = (out, Inr (), b')"
  using ran_throws [OF assms] by simp

lemma zfs_serves:
  assumes "has_command z" and "zfs_behaves exec z holds" and "uuid_ok U"
  shows "serves (zfs_driver exec clock z) U (zgood holds U)"
proof (rule servesI, goal_cases)
  case (1 H b)
  then show ?case by (simp add: zgood_def)
next
  case (2 H b n e)
  then obtain V i where "tracked H i" "sid_node i = n" "e = sid_encoded i"
    unfolding zgood_def using tracksD(1) by metis
  then show ?case by (simp add: sid_encoded_def)
next
  case (3 H b n e)
  then obtain V i where "tracked H i" "sid_node i = n" "e = sid_encoded i"
    unfolding zgood_def using tracksD(1) by metis
  then show ?case by (simp add: tracked_def zfs.encoded_small)
next
  case (4 H b n e)
  then obtain V i where i: "finite (dom H)" "holds V b" "tracks U H V" "tracked H i" "sid_node i = n" "e = sid_encoded i"
    unfolding zgood_def using tracksD(1) by metis
  obtain b' where "castAndVerify exec z i b = (Inr i, b')" "holds V b'"
    using cast_found [OF assms(1,2) i(2) tracksD(2) [OF i(3,4)]] by blast
  then show ?case
    using i by (intro exI [of _ i] exI [of _ b']) (auto simp: zd_exists_def zgood_def tracked_def zfs.decode_encoded)
next
  case (5 H b n)
  then obtain V where V: "finite (dom H)" "holds V b" "tracks U H V" by (auto simp: zgood_def)
  obtain i b' where i: "zd_snapshot exec clock z n U b = (Inr (i, False), b')" "sid_ok i" "sid_node i = n"
      "sid_name i = Snapshot (snapshot_name_for n U)" "holds (V @ [(sid_name i, sid_guid i)]) b'"
    using zd_snapshot_new [OF assms(1,2) V(2,3) 5(2) assms(3)] by blast
  have "zgood holds U (H(n \<mapsto> sid_encoded i)) b'"
    using tracks_upd [OF V(3) 5(2) i(2-4)] i(5) V(1) by (auto simp: zgood_def)
  then show ?case using i by (intro exI [of _ i] exI [of _ b']) (simp add: zfs.decode_encoded)
next
  case (6 H b i)
  then obtain V where V: "finite (dom H)" "holds V b" "tracks U H V" "tracked H i"
    by (auto simp: zgood_def known_tracked)
  note name = tracksD(2) [OF V(3,4)]
  obtain b1 where b1: "castAndVerify exec z i b = (Inr i, b1)" "holds V b1"
    using cast_found [OF assms(1,2) V(2) name] by blast
  obtain out b2 where "zcall exec z [''send'', dsn_str (zfsDataset z) (sid_name i)] b1 = (Ran out 0, b2)" "holds V b2"
    using zfs_behavesD(4) [OF assms(2) b1(2) name] by blast
  then show ?case
    using send_ran [OF assms(1)] b1(1) V(1,3)
    by (intro exI [of _ out] exI [of _ b2]) (auto simp: zd_initial_def writing_def zfs_send_def Let_def zgood_def)
next
  case (7 H b i p)
  then obtain V where V: "finite (dom H)" "holds V b" "tracks U H V" "tracked H i" "tracked H p" "sid_node p < sid_node i"
    by (auto simp: zgood_def known_tracked)
  obtain b1 where b1: "castAndVerify exec z p b = (Inr p, b1)" "holds V b1"
    using cast_found [OF assms(1,2) V(2) tracksD(2) [OF V(3,5)]] by blast
  obtain b2 where b2: "castAndVerify exec z i b1 = (Inr i, b2)" "holds V b2"
    using cast_found [OF assms(1,2) b1(2) tracksD(2) [OF V(3,4)]] by blast
  obtain out b3 where "zcall exec z [''send'', ''-i'', ''@'' @ snapshot_str (sid_name p),
      dsn_str (zfsDataset z) (sid_name i)] b2 = (Ran out 0, b3)" "holds V b3"
    using zfs_behavesD(5) [OF assms(2) b2(2) tracksD(3) [OF V(3,5,4,6)]] by blast
  then show ?case
    using send_ran [OF assms(1)] b1(1) b2(1) V(1,3)
    by (intro exI [of _ out] exI [of _ b3]) (auto simp: zd_diff_def writing_def zfs_diffsend_def Let_def zgood_def)
qed

section \<open>A snapshot that is there already\<close>

text \<open>
  \<open>stuck s H k\<close>: like \<open>settled\<close>, except that the nodes pruned for \<open>k\<close> may be gone already.
\<close>

definition stuck :: "'z repo_state_scheme \<Rightarrow> snapshots \<Rightarrow> u64 \<Rightarrow> bool" where
  "stuck s H k \<longleftrightarrow> sound s \<and> mark s = Node k \<and>
     (\<exists>N. alive_before k - dropped_for k \<subseteq> N \<and> N \<subseteq> alive_before k \<and> stocked s H N)"

lemma settled_stuck: "settled s H k \<Longrightarrow> stuck s H k"
  by (auto simp: settled_def stuck_def)

lemma stuck_absent: "stuck s H k \<Longrightarrow> unat k < 2 ^ 63 \<Longrightarrow> absent s (Node k)"
  using tree.fresh [of k] by (auto simp: stuck_def stocked_def)

lemma zd_snapshot_there:
  assumes "has_command z" and "zfs_behaves exec z holds" and "holds V b" and "uuid_ok U"
    and "map_of V (Snapshot (snapshot_name_for n U)) = Some g"
  shows "\<exists>w what b'. zd_snapshot exec clock z n U b = (Inl (CommandFailed w what), b') \<and> holds V b'"
proof -
  let ?s = "Snapshot (snapshot_name_for n U)"
  have ok: "SnapshotName (snapshot_name_for n U) = Inr ?s"
    using snapshot_name_for_ok [OF assms(4)] by (simp add: SnapshotName_def)
  obtain out st b1 where b1: "zcall exec z [''snapshot'', dsn_str (zfsDataset z) ?s] b = (Ran out st, b1)" "failed st"
      "holds V b1"
    using zfs_behavesD(2) [OF assms(2,3,5)] by blast
  obtain name where "zfs_snapshot exec (zfsCommand z) (zfsDataset z) ?s b = (wait_or_throw name st, b1)"
    using snapshot_ran [OF assms(1) b1(1)] by blast
  moreover obtain e where "wait_or_throw name st = Inl e"
    using b1(2) by (auto simp: failed_def wait_or_throw_def)
  moreover then obtain what where "e = command_failed st name what" using wait_or_throw_Inl by blast
  ultimately show ?thesis
    using ok b1(3) by (simp add: zd_snapshot_def command_failed_def)
qed

lemma snapshot_once_stuck:
  assumes "has_command z" and "zfs_behaves exec z holds" and "zgood holds (uuid_of s) H (backend s)"
    and "stuck s H k" and "unat k < 2 ^ 63"
    and "tracked H i" and "sid_node i = Node k" and "sid_name i = Snapshot (snapshot_name_for (Node k) (uuid_of s))"
  shows "\<exists>w what s'. snapshot_once na (zfs_driver exec clock z) params s = (Inl (CommandFailed w what), s') \<and>
    stuck s' H k \<and> zgood holds (uuid_of s') H (backend s') \<and> uuid_of s' = uuid_of s"
proof -
  let ?drv = "zfs_driver exec clock z" and ?D = "dropped_for k" and ?U = "uuid_of s"
  obtain N where N: "sound s" "mark s = Node k" "alive_before k - ?D \<subseteq> N" "N \<subseteq> alive_before k" "stocked s H N"
    using assms(4) by (auto simp: stuck_def)
  note serves = zfs_serves [OF assms(1,2) uuid_of_ok [OF N(1)], of clock]
  obtain s1 where s1: "getNextSnapshotNode s = (Inr (Node k), s1)" "steady s s1" "backend s1 = backend s"
    using getNext_calm [OF N(1,2) stuck_absent [OF assms(4,5)]] by blast
  have m1: "undisturbed s1" "mark s1 = Node k" "stocked s1 H N" "sound s1" "uuid_of s1 = ?U" "rs s1 = rs s"
    using s1(2) N steady_stocked [OF s1(2)] steady_sound [OF s1(2)] steady_uuid [OF s1(2)]
    by (simp_all add: steady_def)
  obtain s2 where s2: "prune_trusted (remove_pruned ?drv) s1 = (Inr (), s2)"
      "deleted (in_nodes ?D (rs_repository (rs s1))) s1 s2"
    using prune_trusted_calm [OF m1(1,2) assms(5)] by blast
  have m2: "undisturbed s2" "stocked s2 H (N - ?D)" "sound s2" "uuid_of s2 = ?U" "rs s2 = rs s" "backend s2 = backend s"
    using stocked_deleted [OF m1(3) s2(2)] deleted_sound [OF m1(4) s2(2)] deleted_uuid [OF s2(2)] s2(2) s1(3) m1(5,6)
    by (simp_all add: deleted_def)
  have held: "p \<in> N - ?D" if "node_maybe_parent (Node k) = Some p" for p
    using tree.parent_held [OF assms(5) that] N(3) by blast
  have g2: "zgood holds ?U H (backend s2)" using assms(3) m2(6) by simp
  obtain s3 parent where s3: "parent_snapshot ?drv (Node k) s2 = (Inr parent, s3)" "steady s2 s3"
      "zgood holds ?U H (backend s3)"
    using parent_calm [OF m2(1,2) serves g2 held] by blast
  obtain s4 where s4: "getRepositoryUuid s3 = (Inr ?U, s4)" "steady s3 s4" "backend s4 = backend s3"
    using uuid_calm [OF steady_sound [OF s3(2) m2(3)]] steady_uuid [OF s3(2)] m2(4) by metis
  obtain V where V: "finite (dom H)" "holds V (backend s4)" "tracks ?U H V"
    using s3(3) s4(3) by (auto simp: zgood_def)
  have "map_of V (Snapshot (snapshot_name_for (Node k) ?U)) = Some (sid_guid i)"
    using tracksD(2) [OF V(3) assms(6)] assms(8) by simp
  then obtain w what b' where b': "zd_snapshot exec clock z (Node k) ?U (backend s4) = (Inl (CommandFailed w what), b')"
      "holds V b'"
    using zd_snapshot_there [OF assms(1,2) V(2) uuid_of_ok [OF N(1)]] by blast
  have "snapshot_once na ?drv params s = (Inl (CommandFailed w what), s4\<lparr>backend := b'\<rparr>)"
    using s1(1) s2(1) s3(1) s4(1) b'(1) by (simp add: snapshot_once_def liftB_def)
  moreover define s5 where "s5 = s4\<lparr>backend := b'\<rparr>"
  then have st: "steady s2 s5" using steady_trans [OF s3(2) s4(2)] by (simp add: steady_def)
  have "stocked s5 H (N - ?D)" using steady_stocked [OF st] m2(2) by simp
  then have "stuck s5 H k"
    unfolding stuck_def using steady_sound [OF st m2(3)] st m2(5) N(2-4)
    by (intro conjI exI [of _ "N - ?D"]) (auto simp: steady_def)
  moreover have "uuid_of s5 = ?U" "zgood holds ?U H (backend s5)"
    using steady_uuid [OF st] m2(4) V(1,3) b'(2) by (auto simp: s5_def zgood_def)
  ultimately show ?thesis unfolding s5_def [symmetric] by (intro exI [of _ s5] exI conjI) simp_all
qed

section \<open>A zfs for examples\<close>

text \<open>One dataset; its state is the list of its snapshots.\<close>

definition guid_reply :: "snapshot_list \<Rightarrow> snapshot_name \<Rightarrow> spawned" where
  "guid_reply V s = (case map_of V s of
     None \<Rightarrow> Ran [] (exited 1) | Some g \<Rightarrow> Ran (bytes_of_string (guid_str g @ [newline])) 0)"

definition zfs_tool :: "dataset_name \<Rightarrow> snapshot_list exec" where
  "zfs_tool d path argv stdin V =
     (let request = argv ! 1; target = last argv in
      case fromString target of
        Inl e \<Rightarrow> (Ran [] (exited 2), V)
      | Inr dsn \<Rightarrow>
          (let s = dsn_snapshot dsn in
           if dsn_dataset dsn \<noteq> d then (Ran [] (exited 1), V)
           else if request = ''snapshot'' then
             (if map_of V s = None then (Ran [] 0, V @ [(s, Guid 7)]) else (Ran [] (exited 1), V))
           else if request = ''get'' then (guid_reply V s, V)
           else if request = ''send'' then (Ran [1, 2] 0, V)
           else (Ran [] (exited 2), V)))"

definition tool_holds :: "snapshot_list \<Rightarrow> snapshot_list \<Rightarrow> bool" where
  "tool_holds V b \<longleftrightarrow> b = V \<and> (\<forall>(s, g) \<in> set V. snapshot_ok s \<and> guid_ok g)"

lemma tank_ok: "dataset_ok (Dataset ''tank'')"
  unfolding dataset_ok_def by code_simp

lemma tool_call:
  assumes "snapshot_ok s"
  shows "zcall (zfs_tool (Dataset ''tank'')) sample_zfs (request # xs @ [dsn_str (zfsDataset sample_zfs) s]) V =
    (if request = ''snapshot'' then
       (if map_of V s = None then (Ran [] 0, V @ [(s, Guid 7)]) else (Ran [] (exited 1), V))
     else if request = ''get'' then (guid_reply V s, V)
     else if request = ''send'' then (Ran [1, 2] 0, V)
     else (Ran [] (exited 2), V))"
proof -
  have "fromString (dsn_str (Dataset ''tank'') s) = Inr \<lparr> dsn_dataset = Dataset ''tank'', dsn_snapshot = s \<rparr>"
    using assms tank_ok by (simp add: fromString_Inr)
  then show ?thesis by (simp add: zcall_def zfs_tool_def sample_zfs_def Let_def)
qed

lemma tool_behaves: "zfs_behaves (zfs_tool (Dataset ''tank'')) sample_zfs tool_holds"
proof -
  have ok: "snapshot_ok s \<and> guid_ok g" if "tool_holds V b" "map_of V s = Some g" for V b s g
    using that map_of_SomeD [of V s g] by (auto simp: tool_holds_def)
  have failed: "failed (exited 1)"
    using exited_1 wait_or_throw_Inr [of _ "exited 1"] by (simp add: failed_def)
  show ?thesis
    unfolding zfs_behaves_def
  proof (intro conjI allI impI, goal_cases)
    case (1 V b s)
    then show ?case using tool_call [OF 1(2), of "''snapshot''" "[]" b]
      by (auto simp: tool_holds_def guid_ok_def intro!: exI [of _ "Guid 7"])
  next
    case (2 V b s g)
    then show ?case using tool_call [of s "''snapshot''" "[]" b] ok [OF 2] failed by (auto simp: tool_holds_def)
  next
    case (3 V b s g)
    then show ?case
      using tool_call [of s "''get''" "[''-H'', ''-o'', ''value'', ''guid'']" b] ok [OF 3]
      by (auto simp: tool_holds_def guid_reply_def)
  next
    case (4 V b s g)
    then show ?case using tool_call [of s "''send''" "[]" b] ok [OF 4] by (auto simp: tool_holds_def)
  next
    case (5 V b p s)
    then obtain V1 h V2 where "V = V1 @ (p, h) # V2" "s \<in> fst ` set V2" unfolding precedes_def by blast
    then obtain g where "(s, g) \<in> set V2" by auto
    then have "(s, g) \<in> set V" using \<open>V = V1 @ (p, h) # V2\<close> by simp
    then have "snapshot_ok s" using 5(1) by (auto simp: tool_holds_def)
    then show ?case
      using tool_call [of s "''send''" "[''-i'', ''@'' @ snapshot_str p]" b] 5(1) by (auto simp: tool_holds_def)
  qed
qed

lemma sample_command: "has_command sample_zfs"
  by (simp add: has_command_def sample_zfs_def)

definition zfs_system :: "snapshot_list \<Rightarrow> snapshot_list system" where
  "zfs_system V = \<lparr> fs = fs sample_system, fate = (\<lambda>_. Works), calls = 0, entropy = (\<lambda>i. word_of_nat i),
     rs = rs sample_system, backend = V \<rparr>"

lemma zfs_system_settled: "settled (zfs_system V) H 0"
  using sample_settled
  by (simp add: settled_def sound_def stocked_def temporary_clean_def absent_def alive_before_def zfs_system_def
      sample_system_def)

lemma zfs_system_store: "can_store plain_sodium plain_params (zfs_system V) []"
  by (simp add: can_store_def plain_params_def)

lemma zfs_system_empty: "zgood tool_holds U (\<lambda>_. None) (backend (zfs_system []))"
  by (auto simp: zgood_def zfs_system_def tool_holds_def tracks_def tracked_def)

section \<open>Properties\<close>



text \<open>
  C28. A snapshot that is in the dataset but not in the repository, as a crash between
  \<^verbatim>\<open>zfs snapshot\<close> and the commit leaves it, is never taken over: \<^verbatim>\<open>zfs snapshot\<close> exits with an
  error, which the driver does not catch, and every later run of \<open>snapshot\<close> fails in the same way
  with the same node, however often it is tried.
\<close>

theorem zfs_orphan_blocks:
  assumes "has_command z" and "zfs_behaves exec z holds" and "zgood holds (uuid_of s) H (backend s)"
    and "settled s H k" and "unat k < 2 ^ 63"
    and "tracked H i" and "sid_node i = Node k" and "sid_name i = Snapshot (snapshot_name_for (Node k) (uuid_of s))"
  shows "let t = ((\<lambda>s. snd (snapshot na (zfs_driver exec clock z) params s)) ^^ n) s
    in (\<exists>w what. fst (snapshot na (zfs_driver exec clock z) params t) = Inl (CommandFailed w what)) \<and>
      mark t = Node k \<and> absent t (Node k)"
proof -
  let ?run = "\<lambda>s. snapshot na (zfs_driver exec clock z) params s"
  let ?I = "\<lambda>t. stuck t H k \<and> zgood holds (uuid_of t) H (backend t) \<and> uuid_of t = uuid_of s"
  have step: "\<exists>w what t'. ?run t = (Inl (CommandFailed w what), t') \<and> ?I t'" if t: "?I t" for t
  proof -
    have name: "sid_name i = Snapshot (snapshot_name_for (Node k) (uuid_of t))" using t assms(8) by simp
    obtain w what t' where "snapshot_once na (zfs_driver exec clock z) params t = (Inl (CommandFailed w what), t')"
        "stuck t' H k" "zgood holds (uuid_of t') H (backend t')" "uuid_of t' = uuid_of t"
      using snapshot_once_stuck [OF assms(1,2) _ _ assms(5-7) name, of na clock params] t by blast
    then show ?thesis using t by (simp add: snapshot_def snapshot_loop.simps)
  qed
  have "?I (((\<lambda>s. snd (?run s)) ^^ n) s)"
  proof (induction n)
    case 0
    then show ?case using assms(3,4) settled_stuck by simp
  next
    case (Suc n)
    then show ?case using step by fastforce
  qed
  then have inv: "?I (((\<lambda>s. snd (?run s)) ^^ n) s)" .
  obtain w what where "fst (?run (((\<lambda>s. snd (?run s)) ^^ n) s)) = Inl (CommandFailed w what)"
    using step [OF inv] by fastforce
  moreover have "mark (((\<lambda>s. snd (?run s)) ^^ n) s) = Node k" using inv by (simp add: stuck_def)
  moreover have "absent (((\<lambda>s. snd (?run s)) ^^ n) s) (Node k)"
    using stuck_absent [OF inv [THEN conjunct1] assms(5)] .
  ultimately show ?thesis unfolding Let_def by blast
qed

definition orphan :: snapshot_id where
  "orphan = \<lparr> sid_node = Node 0, sid_guid = Guid 7, sid_name = Snapshot (snapshot_name_for (Node 0) sample_uuid),
     sid_timestamp = TimePoint 5 \<rparr>"

lemma zfs_system_uuid: "uuid_of (zfs_system V) = sample_uuid"
  by (simp add: uuid_of_def zfs_system_def sample_system_def sample_repository_def lookup_def file_names
      sample_uuid_def uuid_size_def)

lemma orphan_ok: "sid_ok orphan"
  by (simp add: sid_ok_def orphan_def guid_ok_def snapshot_ok_def snapshot_name_for_ok sample_uuid_def uuid_ok_def
      uuid_size_def)

lemma orphan_tracked: "tracked [Node 0 \<mapsto> sid_encoded orphan] i \<longleftrightarrow> i = orphan"
  using tracked_upd [OF orphan_ok, of "Node 0" "\<lambda>_. None" i] by (simp add: orphan_def tracked_def)

lemma zfs_system_orphan:
  "zgood tool_holds (uuid_of (zfs_system V)) [Node 0 \<mapsto> sid_encoded orphan]
    (backend (zfs_system [(sid_name orphan, sid_guid orphan)]))"
proof -
  have "tool_holds [(sid_name orphan, sid_guid orphan)] [(sid_name orphan, sid_guid orphan)]"
    using orphan_ok by (simp add: tool_holds_def sid_ok_def)
  moreover have "tracks sample_uuid [Node 0 \<mapsto> sid_encoded orphan] [(sid_name orphan, sid_guid orphan)]"
    unfolding tracks_def orphan_tracked
    by (auto simp: orphan_def snapshot_name_for_inject sid_encoded_def split: if_splits)
  ultimately show ?thesis unfolding zfs_system_uuid by (auto simp: zgood_def zfs_system_def)
qed

theorem zfs_orphan_blocks_witness:
  "\<exists>w what. fst (snapshot plain_sodium (zfs_driver (zfs_tool (Dataset ''tank'')) (\<lambda>_. TimePoint 5) sample_zfs)
     plain_params (zfs_system [(sid_name orphan, sid_guid orphan)])) = Inl (CommandFailed w what)"
proof -
  have "tracked [Node 0 \<mapsto> sid_encoded orphan] orphan" "sid_node orphan = Node 0"
      "sid_name orphan = Snapshot (snapshot_name_for (Node 0) (uuid_of (zfs_system V)))" for V
    unfolding zfs_system_uuid by (simp_all add: orphan_tracked) (simp_all add: orphan_def)
  from zfs_orphan_blocks [OF sample_command tool_behaves zfs_system_orphan zfs_system_settled _ this,
      where n = 0 and na = plain_sodium and params = plain_params and clock = "\<lambda>_. TimePoint 5",
      unfolded Let_def funpow.simps id_apply]
  show ?thesis by simp
qed

end
