(* ===== verification/CommandRuns.thy ===== *)
theory CommandRuns
  imports CommandLineFacts ZfsFacts
begin

text \<open>
  A command over a repository and a driver, from its command line: what the parameters end up as, and
  that the command runs the function of the controller with the repository, its parameters and
  the driver that are meant.
\<close>

section \<open>Finishing a command with any parameters\<close>

definition settles :: "'v parameter \<Rightarrow> string list option \<Rightarrow> 'v parameter \<Rightarrow> bool" where
  "settles p given q \<longleftrightarrow>
     (case given of None \<Rightarrow> q = p | Some vs \<Rightarrow> \<exists>x. process_chain p vs = Inr x \<and> q = p\<lparr>held := Some x\<rparr>) \<and>
     (param_type q = Optional \<or> held q \<noteq> None)"

lemma param_get_settled: "param_type q = Optional \<or> held q \<noteq> None \<Longrightarrow> param_get key q = Inr (held q)"
  by (cases "param_type q") (auto simp: param_get_def storage_get_def)

text \<open>What setting parameters of the command at \<open>path\<close> leaves as it is.\<close>

definition same_elsewhere :: "cmd_path \<Rightarrow> 'v cli_command \<Rightarrow> 'v cli_command \<Rightarrow> bool" where
  "same_elsewhere path t t' \<longleftrightarrow>
     (\<forall>p. (command_at p t' = None) = (command_at p t = None) \<and> keys_of p t' = keys_of p t \<and>
       (p \<noteq> path \<longrightarrow> (\<forall>k. param_of p k t' = param_of p k t)))"

lemma finalise_param_ok:
  assumes "param_of path key (tree s) = Some p" and "settles p (map_of m key) q"
  shows "\<exists>t. finalise_param path m key s = (Inr (smap_erase key m), s\<lparr>tree := t\<rparr>) \<and> same_elsewhere path (tree s) t \<and>
    param_of path key t = Some q \<and> (\<forall>k. k \<noteq> key \<longrightarrow> param_of path k t = param_of path k (tree s))"
proof -
  have check: "param_check key q = Inr ()" using assms(2) by (simp add: settles_def param_check_def param_get_settled)
  show ?thesis
  proof (cases "map_of m key")
    case None
    then have "finalise_param path m key s = (Inr (smap_erase key m), s\<lparr>tree := tree s\<rparr>)" using assms check
      by (simp add: finalise_param_def of_state with_context_Inr settles_def bindS_def)
    then show ?thesis using assms None
      by (intro exI [of _ "tree s"]) (simp add: same_elsewhere_def settles_def)
  next
    case (Some vs)
    then obtain x where x: "process_chain p vs = Inr x" "q = p\<lparr>held := Some x\<rparr>" using assms(2) by (auto simp: settles_def)
    have "finalise_param path m key s = (Inr (smap_erase key m), s\<lparr>tree := put_of path key q (tree s)\<rparr>)"
      using assms(1) Some x check
      by (simp add: finalise_param_def of_state with_context_Inr param_set_def bindS_def thenS_def)
    then show ?thesis using assms(1)
      by (intro exI [of _ "put_of path key q (tree s)"]) (simp add: same_elsewhere_def put_simps)
  qed
qed

lemma finalise_params_ok:
  assumes "distinct ks" and "\<forall>k\<in>set ks. \<exists>p. param_of path k (tree s) = Some p \<and> settles p (map_of m k) (Q k)"
  shows "\<exists>t. foldS (finalise_param path) m ks s = (Inr (fold smap_erase ks m), s\<lparr>tree := t\<rparr>) \<and>
    same_elsewhere path (tree s) t \<and> (\<forall>k\<in>set ks. param_of path k t = Some (Q k)) \<and>
    (\<forall>k. k \<notin> set ks \<longrightarrow> param_of path k t = param_of path k (tree s))"
  using assms
proof (induction ks arbitrary: m s)
  case Nil
  then show ?case by (intro exI [of _ "tree s"]) (simp add: same_elsewhere_def)
next
  case (Cons k ks)
  then obtain p where p: "param_of path k (tree s) = Some p" "settles p (map_of m k) (Q k)" by auto
  from finalise_param_ok [OF p] obtain t where t: "finalise_param path m k s = (Inr (smap_erase k m), s\<lparr>tree := t\<rparr>)"
    "same_elsewhere path (tree s) t" "param_of path k t = Some (Q k)"
    "\<And>j. j \<noteq> k \<Longrightarrow> param_of path j t = param_of path j (tree s)" by blast
  have "\<forall>j\<in>set ks. \<exists>p. param_of path j (tree (s\<lparr>tree := t\<rparr>)) = Some p \<and> settles p (map_of (smap_erase k m) j) (Q j)"
    using Cons.prems t(4) by (auto simp: map_of_erase)
  from Cons.IH [OF _ this] obtain u where
    u: "foldS (finalise_param path) (smap_erase k m) ks (s\<lparr>tree := t\<rparr>) = (Inr (fold smap_erase (k # ks) m), s\<lparr>tree := u\<rparr>)"
    "same_elsewhere path t u" "\<forall>j\<in>set ks. param_of path j u = Some (Q j)"
    "\<And>j. j \<notin> set ks \<Longrightarrow> param_of path j u = param_of path j t" using Cons.prems by auto
  have "same_elsewhere path (tree s) u" using t(2) u(2) by (simp add: same_elsewhere_def)
  then show ?case using t u Cons.prems(1) by (intro exI [of _ u]) (auto simp: bindS_def)
qed

lemma finalise_ok:
  assumes "unrecognisedParameters h = unrecognisedParameters base_hooks" and "distinct (keys_of path (tree s))"
    and "\<forall>k\<in>set (keys_of path (tree s)). \<exists>p. param_of path k (tree s) = Some p \<and> settles p (map_of m k) (Q k)"
    and "fst ` set m \<subseteq> set (keys_of path (tree s))"
  shows "\<exists>t. finalise h path m s = (Inr (), s\<lparr>tree := t\<rparr>) \<and> same_elsewhere path (tree s) t \<and>
    (\<forall>k\<in>set (keys_of path (tree s)). param_of path k t = Some (Q k))"
proof -
  have "fold smap_erase ks m = filter (\<lambda>(k, _). k \<notin> set ks) m" for ks and m :: "string list smap"
    by (induction ks arbitrary: m) (auto simp: smap_erase_def intro!: filter_cong)
  then have "fold smap_erase (keys_of path (tree s)) m = []" using assms(4) by (force simp: filter_empty_conv)
  moreover obtain t where "foldS (finalise_param path) m (keys_of path (tree s)) s =
      (Inr (fold smap_erase (keys_of path (tree s)) m), s\<lparr>tree := t\<rparr>)"
    "same_elsewhere path (tree s) t" "\<forall>k\<in>set (keys_of path (tree s)). param_of path k t = Some (Q k)"
    using finalise_params_ok [OF assms(2,3)] by blast
  ultimately show ?thesis
    by (intro exI [of _ t]) (auto simp: finalise_def assms(1) of_state bindS_eq_Inr with_context_Inr unrecognised_Inr)
qed

section \<open>A command that has entered a repository\<close>

definition snapshot_extended :: "cli_value cli_command" where
  "snapshot_extended = CliCommand ''snapshot'' ''Store a snapshot of the dataset.''
     [(''dataset'', \<lparr>param_type = Required, documentation = ''Zfs dataset'', process_chain = chain_string,
        constraints = [''Scalar''], held = None\<rparr>),
      (''from-export'', parameter_with [''false''] ''Set to true if importing.'' chain_boolean
        [''Scalar'', choice_describe boolean_map] (VBool False)),
      (''initial-receive-args'', \<lparr>param_type = Optional, documentation = doc_initial_receive_args, process_chain = chain_strings,
        constraints = [''Vector''], held = None\<rparr>),
      (''receive-args'', parameter_with [''-u''] doc_receive_args chain_strings [''Vector''] (VStrings [''-u'']))] []"

lemma snapshot_extended_eq: "add_all driver_parameters snapshot_tree = Inr snapshot_extended"
  by (simp add: driver_parameters_def snapshot_tree_def snapshot_extended_def tree_simps)

lemma enter_driver_ok:
  assumes "get_path [] ''R'' s = (Inr dir, s)" and "open_repository (env_path env dir) (sys (client s)) = (Inr r, w)"
    and "\<And>s. create r s = (Inr (Some params, Some raw), s)"
    and "command_at path (tree s) = Some c" and "add_all driver_parameters c = Inr c'"
  shows "enter_driver_command env create path s = (Inr (), s\<lparr>tree := change_at path (\<lambda>_. c') (tree s),
    client := (client s)\<lparr>sys := w\<lparr>rs := r\<rparr>, command_params := Some params, extension := Some raw\<rparr>\<rparr>)"
  using assms
  by (simp add: enter_driver_command_def bindS_def thenS_def sysS_def modifyS_def extend_command_def set_client_def)

text \<open>What the settings of a command say about the dataset and the arguments of \<^verbatim>\<open>zfs receive\<close>.\<close>

definition driver_settings :: "setting list \<Rightarrow> string \<Rightarrow> string list \<Rightarrow> string list \<Rightarrow> bool" where
  "driver_settings ds dataset args0 argsn \<longleftrightarrow>
     (let given = map_of (fold apply_setting ds []) in
      given ''dataset'' = Some [dataset] \<and>
      argsn = (case given ''receive-args'' of None \<Rightarrow> [''-u''] | Some xs \<Rightarrow> xs) \<and>
      args0 = (case given ''initial-receive-args'' of None \<Rightarrow> argsn | Some xs \<Rightarrow> xs))"

definition snapshot_means ::
  "setting list \<Rightarrow> setting list \<Rightarrow> string \<Rightarrow> string \<Rightarrow> string list \<Rightarrow> string list \<Rightarrow> bool" where
  "snapshot_means as ds dir dataset args0 argsn \<longleftrightarrow>
     list_all (\<lambda>a. setting_key a = ''R'') as \<and> chain_path (chosen as ''R'' ''.'') = Inr (VPath dir) \<and>
     list_all (\<lambda>a. setting_key a \<in> {''dataset'', ''from-export'', ''initial-receive-args'', ''receive-args''}) ds \<and>
     driver_settings ds dataset args0 argsn \<and> (\<exists>b. chain_boolean (chosen ds ''from-export'' ''false'') = Inr (VBool b))"

definition holds :: "cmd_path \<Rightarrow> string \<Rightarrow> 'v option \<Rightarrow> 'v cli_command \<Rightarrow> bool" where
  "holds path key v t \<longleftrightarrow> (\<exists>q. param_of path key t = Some q \<and> held q = v \<and> (param_type q = Optional \<or> v \<noteq> None))"

lemma get_value_holds: "holds path key v (tree s) \<Longrightarrow> get_value path key s = (Inr v, s)"
  by (auto simp: holds_def get_value_def of_state param_get_settled)

lemma finalise_snapshot:
  assumes "unrecognisedParameters h = unrecognisedParameters base_hooks"
    and "command_at [''snapshot''] (tree s) = Some snapshot_extended" and "snapshot_means as ds dir dataset args0 argsn"
  shows "\<exists>t first. finalise h [''snapshot''] (fold apply_setting ds []) s = (Inr (), s\<lparr>tree := t\<rparr>) \<and>
    holds [''snapshot''] ''dataset'' (Some (VString dataset)) t \<and> holds [''snapshot''] ''receive-args'' (Some (VStrings argsn)) t \<and>
    holds [''snapshot''] ''initial-receive-args'' (map_option VStrings first) t \<and> args0 = (case first of None \<Rightarrow> argsn | Some xs \<Rightarrow> xs)"
proof -
  let ?m = "fold apply_setting ds []" and ?k = "[''dataset'', ''from-export'', ''initial-receive-args'', ''receive-args'']"
  have keys: "keys_of [''snapshot''] (tree s) = ?k" using assms(2) by (simp add: keys_of_def snapshot_extended_def)
  have given: "map_of ?m ''dataset'' = Some [dataset]"
    "argsn = (case map_of ?m ''receive-args'' of None \<Rightarrow> [''-u''] | Some xs \<Rightarrow> xs)"
    "args0 = (case map_of ?m ''initial-receive-args'' of None \<Rightarrow> argsn | Some xs \<Rightarrow> xs)"
    using assms(3) by (simp_all add: snapshot_means_def driver_settings_def Let_def)
  define P where "P k = the (map_of (parameters snapshot_extended) k)" for k
  have P: "P ''dataset'' = \<lparr>param_type = Required, documentation = ''Zfs dataset'', process_chain = chain_string,
        constraints = [''Scalar''], held = None\<rparr>"
    "P ''from-export'' = parameter_with [''false''] ''Set to true if importing.'' chain_boolean
        [''Scalar'', choice_describe boolean_map] (VBool False)"
    "P ''initial-receive-args'' = \<lparr>param_type = Optional, documentation = doc_initial_receive_args, process_chain = chain_strings,
        constraints = [''Vector''], held = None\<rparr>"
    "P ''receive-args'' = parameter_with [''-u''] doc_receive_args chain_strings [''Vector''] (VStrings [''-u''])"
    by (simp_all add: P_def snapshot_extended_def)
  have at: "\<forall>k\<in>set ?k. param_of [''snapshot''] k (tree s) = Some (P k)"
    using assms(2) by (simp add: param_of_def P_def snapshot_extended_def)
  have "\<exists>q. settles (P ''dataset'') (map_of ?m ''dataset'') q" using given(1) by (simp add: settles_def P)
  moreover have "\<exists>q. settles (P ''from-export'') (map_of ?m ''from-export'') q"
    using assms(3) by (auto simp: settles_def P snapshot_means_def chosen_def split: option.splits)
  moreover have "\<exists>q. settles (P ''initial-receive-args'') (map_of ?m ''initial-receive-args'') q"
    "\<exists>q. settles (P ''receive-args'') (map_of ?m ''receive-args'') q"
    by (cases "map_of ?m ''initial-receive-args''"; cases "map_of ?m ''receive-args''"; simp add: settles_def P)+
  ultimately have "\<forall>k\<in>set ?k. \<exists>q. settles (P k) (map_of ?m k) q" by simp
  from bchoice [OF this] obtain Q where Q: "\<forall>k\<in>set ?k. settles (P k) (map_of ?m k) (Q k)" by (elim exE)
  have "fst ` set ?m \<subseteq> set ?k"
    using assms(3) by (auto simp: keys_of_settings snapshot_means_def list_all_iff)
  then obtain t where t: "finalise h [''snapshot''] ?m s = (Inr (), s\<lparr>tree := t\<rparr>)"
    "\<forall>k\<in>set ?k. param_of [''snapshot''] k t = Some (Q k)"
    using finalise_ok [OF assms(1), of "[''snapshot'']" s ?m Q] at Q unfolding keys by auto
  have "held (Q ''dataset'') = Some (VString dataset)" using Q given(1) by (auto simp: settles_def P)
  moreover have "held (Q ''receive-args'') = Some (VStrings argsn)"
    using Q given(2) by (auto simp: settles_def P split: option.splits)
  moreover have "held (Q ''initial-receive-args'') = map_option VStrings (map_of ?m ''initial-receive-args'')"
    "param_type (Q ''initial-receive-args'') = Optional"
    using Q by (auto simp: settles_def P split: option.splits)
  ultimately show ?thesis using t given(3)
    by (intro exI [of _ t] exI [of _ "map_of ?m ''initial-receive-args''"]) (simp add: holds_def)
qed

section \<open>Running snapshot\<close>

lemma get_as_holds: "holds path key (Some v) (tree s) \<Longrightarrow> f v = Some y \<Longrightarrow> get_as f path key s = (Inr y, s)"
  by (simp add: get_as_def bindS_def get_value_holds)

abbreviation zfs_arguments :: "string \<Rightarrow> string list \<Rightarrow> string list \<Rightarrow> driver_arguments" where
  "zfs_arguments dataset args0 argsn \<equiv> \<lparr>da_zfsCommand = [''zfs''], da_datasetName = dataset,
     da_receive0_args = Some args0, da_receiven_args = Some argsn\<rparr>"

lemma command_driver_ok:
  assumes "holds path ''dataset'' (Some (VString dataset)) (tree s)" and "holds path ''receive-args'' (Some (VStrings argsn)) (tree s)"
    and "holds path ''initial-receive-args'' (map_option VStrings first) (tree s)" and "extension (client s) = Some raw"
  shows "command_driver env path s = (createFactory (env_exec env) (env_clock env)
    (zfs_arguments dataset (case first of None \<Rightarrow> argsn | Some xs \<Rightarrow> xs) argsn) (), s)"
proof -
  have "get_string path ''dataset'' s = (Inr dataset, s)" using assms(1) by (simp add: get_string_def get_as_holds)
  moreover have "get_strings path ''receive-args'' s = (Inr argsn, s)" using assms(2) by (simp add: get_strings_def get_as_holds)
  moreover have "get_optional (\<lambda>v. case v of VStrings x \<Rightarrow> Some x | _ \<Rightarrow> None) path ''initial-receive-args'' s = (Inr first, s)"
    using get_value_holds [OF assms(3)] by (cases first) (simp_all add: get_optional_def bindS_def)
  ultimately show ?thesis using assms(4) by (simp add: command_driver_def bindS_def liftR_def getS_def split: option.split)
qed

lemma with_context_result:
  "snd (with_context path q m s) = snd (m s)" "fst (with_context path q m s) = Inr x \<longleftrightarrow> fst (m s) = Inr x"
  by (cases "m s"; cases "fst (m s)"; simp add: with_context_def catchS_def)+

lemma cli_run_result:
  assumes "main_command (env_open env) (hd argv) = Inr t"
    and "parse (cli_hooks env (create_params env d)) (Some []) (tl argv) \<lparr>tree = t, client = cli_start argv c\<rparr> = (res, s')"
  shows "snd (cli_run env d argv c) = client s'" "fst (cli_run env d argv c) = Inr () \<longleftrightarrow> res = Inr ()"
  using assms by (cases res; auto simp: cli_run_def parse_argv_def split: exn.splits)+

lemma meaning_snapshot:
  assumes "shaped (tree s) path_parameter pe pm pr" and "command_at [''snapshot''] (tree s) = Some snapshot_tree"
    and means: "snapshot_means as ds dir dataset args0 argsn"
    and "open_repository (env_path env dir) (sys (client s)) = (Inr r, w)"
    and "\<And>s. create r s = (Inr (Some params, Some raw), s)"
    and "createFactory (env_exec env) (env_clock env) (zfs_arguments dataset args0 argsn) () = Inr drv"
  shows "\<exists>t. meaning (cli_hooks env create) [] as [Segment ''snapshot'' ds] s =
    with_context [''snapshot''] None (sysS (snapshot (env_sodium env) drv params))
      (s\<lparr>tree := t, client := (client s)\<lparr>sys := w\<lparr>rs := r\<rparr>, command_params := Some params, extension := Some raw\<rparr>\<rparr>)"
proof -
  let ?h = "cli_hooks env create" and ?g = "map_of (fold apply_setting as []) ''R''"
  let ?c = "(client s)\<lparr>sys := w\<lparr>rs := r\<rparr>, command_params := Some params, extension := Some raw\<rparr>"
  define t1 where "t1 = settle [] ''R'' path_parameter ?g (VPath dir) (tree s)"
  define t2 where "t2 = change_at [''snapshot''] (\<lambda>_. snapshot_extended) t1"
  have R: "list_all (\<lambda>a. setting_key a = ''R'') as" "chain_path (chosen as ''R'' ''.'') = Inr (VPath dir)"
    using means by (simp_all add: snapshot_means_def)
  have root: "finalise ?h [] (fold apply_setting as []) s = (Inr (), s\<lparr>tree := t1\<rparr>)"
    by (simp add: finalise_root [OF cli_hooks_base assms(1)] R t1_def)
  have at: "command_at [''snapshot''] t1 = Some snapshot_tree"
    using assms(2) by (simp add: t1_def settle_def put_of_def set_parameters_def)
  have "takes path_parameter ?g (VPath dir)" using R(2) by (simp add: path_parameter_def takes_chosen)
  then have "param_of [] ''R'' t1 = Some (after_setting path_parameter ?g (VPath dir))"
      "held (after_setting path_parameter ?g (VPath dir)) = Some (VPath dir)"
    using shaped_settle(1) [OF assms(1)] by (simp_all add: t1_def shaped_def after_setting_simps del: command_at.simps)
  then have "get_path [] ''R'' (s\<lparr>tree := t1\<rparr>) = (Inr dir, s\<lparr>tree := t1\<rparr>)"
    by (simp add: get_path_def get_as_held [where p = "after_setting path_parameter ?g (VPath dir)"] after_setting_simps path_parameter_simps)
  from enter_driver_ok [OF this, of env r w create params raw "[''snapshot'']" snapshot_tree snapshot_extended]
  have enter: "on_enter ?h [''snapshot''] (s\<lparr>tree := t1\<rparr>) = (Inr (), s\<lparr>tree := t2, client := ?c\<rparr>)"
    using assms(4,5) at by (simp add: t2_def snapshot_extended_eq cli_hooks_def driver_commands_def del: command_at.simps change_at.simps)
  have "command_at [''snapshot''] (tree (s\<lparr>tree := t2, client := ?c\<rparr>)) = Some snapshot_extended"
    using at by (simp add: t2_def map_of_smap_update split: option.splits)
  note finished = finalise_snapshot [OF cli_hooks_base this means, of env create]
  have "(s\<lparr>tree := t2, client := ?c\<rparr>)\<lparr>tree := t\<rparr> = s\<lparr>tree := t, client := ?c\<rparr>" for t by simp
  note finished = finished [unfolded this]
  then obtain t first where
    t: "finalise ?h [''snapshot''] (fold apply_setting ds []) (s\<lparr>tree := t2, client := ?c\<rparr>) = (Inr (), s\<lparr>tree := t, client := ?c\<rparr>)"
    "holds [''snapshot''] ''dataset'' (Some (VString dataset)) t" "holds [''snapshot''] ''receive-args'' (Some (VStrings argsn)) t"
    "holds [''snapshot''] ''initial-receive-args'' (map_option VStrings first) t" "args0 = (case first of None \<Rightarrow> argsn | Some xs \<Rightarrow> xs)"
    by (elim exE conjE)
  have "command_driver env [''snapshot''] (s\<lparr>tree := t, client := ?c\<rparr>) = (Inr drv, s\<lparr>tree := t, client := ?c\<rparr>)"
    using command_driver_ok [of "[''snapshot'']" dataset "s\<lparr>tree := t, client := ?c\<rparr>" argsn first raw env] t assms(6) by simp
  then have exec: "snapshot_execute env (s\<lparr>tree := t, client := ?c\<rparr>) =
      sysS (snapshot (env_sodium env) drv params) (s\<lparr>tree := t, client := ?c\<rparr>)"
    by (simp add: snapshot_execute_def bindS_def params_of_command_def)
  have "meaning ?h [] as [Segment ''snapshot'' ds] s =
      with_context [''snapshot''] None (execute ?h [''snapshot'']) (s\<lparr>tree := t, client := ?c\<rparr>)"
  proof -
    have "meaning ?h [] as [Segment ''snapshot'' ds] s = thenS (finalise ?h [] (fold apply_setting as []))
        (thenS (with_context [] None (before_subcommand ?h [] ''snapshot''))
        (thenS (with_context [''snapshot''] None (on_enter ?h [''snapshot'']))
        (thenS (finalise ?h [''snapshot''] (fold apply_setting ds [])) (with_context [''snapshot''] None (execute ?h [''snapshot'']))))) s"
      using assms(2) by (simp add: Let_def)
    also have "\<dots> = with_context [''snapshot''] None (execute ?h [''snapshot'']) (s\<lparr>tree := t, client := ?c\<rparr>)"
    proof -
      have "with_context [] None (before_subcommand ?h [] ''snapshot'') (s\<lparr>tree := t1\<rparr>) = (Inr (), s\<lparr>tree := t1\<rparr>)"
        by (simp add: with_context_Inr cli_hooks_def)
      moreover have "with_context [''snapshot''] None (on_enter ?h [''snapshot'']) (s\<lparr>tree := t1\<rparr>) =
          (Inr (), s\<lparr>tree := t2, client := ?c\<rparr>)" using enter by (simp add: with_context_Inr)
      ultimately show ?thesis using root t(1) by (simp add: thenS_def)
    qed
    finally show ?thesis .
  qed
  also have "\<dots> = with_context [''snapshot''] None (sysS (snapshot (env_sodium env) drv params)) (s\<lparr>tree := t, client := ?c\<rparr>)"
    by (simp add: with_context_def catchS_def cli_hooks_def execute_command_def exec)
  finally show ?thesis by blast
qed

definition snapshot_line :: "string \<Rightarrow> setting list \<Rightarrow> setting list \<Rightarrow> string list" where
  "snapshot_line name as ds = name # concat (map render as) @ render_segment (Segment ''snapshot'' ds)"

lemma parse_snapshot_line:
  assumes "well_formed as" "well_formed ds"
  shows "parse (cli_hooks env create) (Some []) (tl (snapshot_line name as ds)) s =
    meaning (cli_hooks env create) [] as [Segment ''snapshot'' ds] s"
proof -
  have "list_all (\<lambda>g. is_subcommand_token (segment_command g) \<and> well_formed (segment_settings g)) [Segment ''snapshot'' ds]"
    using assms by (simp add: is_subcommand_token_def has_eq_def ends_with_def)
  note line = parse_meaning [OF assms(1) this, of "cli_hooks env create" "[]"]
  have "with_context [] None (on_enter (cli_hooks env create) []) s = (Inr (), s)"
    by (simp add: with_context_Inr cli_hooks_def driver_commands_def)
  moreover have "concat (map render as) @ render_segment (Segment ''snapshot'' ds) =
      concat (map render as) @ concat (map render_segment [Segment ''snapshot'' ds])" by simp
  ultimately show ?thesis unfolding parse_def snapshot_line_def option.case list.sel by (simp only: line thenS_def bindS_def) simp
qed

text \<open>
  C13. The command \<open>snapshot\<close>, end to end. On a repository that was made with some command line, a command line
  with \<open>snapshot\<close> opens the repository and then does to it and to the dataset exactly what \<open>snapshot\<close> of the
  controller does with the parameters that were meant when the repository was made and with the
  driver for the dataset and the arguments that are given now; it succeeds exactly when that
  does. Whether streams were meant to be raw makes no difference.
\<close>
theorem snapshot_command_runs:
  assumes "well_formed as" "well_formed ds" and "snapshot_means as ds dir dataset args0 argsn"
    and "open_repository (env_path env dir) (sys c) = (Inr r, w)"
    and "rs_format r = currentRepositoryStructureFormatUuid" and "rs_initargs r = init_line made as' bs' cs'"
    and "well_formed as'" "well_formed bs'" "well_formed cs'" and "init_means as' bs' cs' dir' e x m raw"
    and "createFactory (env_exec env) (env_clock env) \<lparr>da_zfsCommand = [''zfs''], da_datasetName = dataset,
      da_receive0_args = Some args0, da_receiven_args = Some argsn\<rparr> () = Inr drv"
  shows "sys (snd (cli_run env (Suc n) (snapshot_line name as ds) c)) =
      snd (snapshot (env_sodium env) drv \<lparr>encryption = e, min_seconds_between_snapshots = m\<rparr> (w\<lparr>rs := r\<rparr>)) \<and>
    (fst (cli_run env (Suc n) (snapshot_line name as ds) c) = Inr () \<longleftrightarrow>
      fst (snapshot (env_sodium env) drv \<lparr>encryption = e, min_seconds_between_snapshots = m\<rparr> (w\<lparr>rs := r\<rparr>)) = Inr ())"
proof -
  let ?argv = "snapshot_line name as ds" and ?p = "\<lparr>encryption = e, min_seconds_between_snapshots = m\<rparr>"
  obtain t d1 d2 d3 where t: "main_command (env_open env) (hd ?argv) = Inr t" "shaped t path_parameter
     (parameter_with [''true''] d1 chain_boolean d2 (VBool True))
     (parameter_with [''1m''] doc_min_duration chain_string [''Scalar''] (VString ''1m''))
     (parameter_with [''false''] d3 chain_boolean d2 (VBool False))" "command_at [''snapshot''] t = Some snapshot_tree"
    using main_command_shaped by blast
  define s0 where "s0 = \<lparr>tree = t, client = cli_start ?argv c\<rparr>"
  have "create_params env (Suc n) r s = (Inr (Some ?p, Some raw), s)" for s
    by (rule create_params_init [OF assms(5-10)])
  then obtain u where u: "parse (cli_hooks env (create_params env (Suc n))) (Some []) (tl ?argv) s0 =
      with_context [''snapshot''] None (sysS (snapshot (env_sodium env) drv ?p))
      (s0\<lparr>tree := u, client := (client s0)\<lparr>sys := w\<lparr>rs := r\<rparr>, command_params := Some ?p, extension := Some raw\<rparr>\<rparr>)"
    using meaning_snapshot [of s0, OF _ _ assms(3) _ _ assms(11)] t(2,3) assms(4)
    unfolding parse_snapshot_line [OF assms(1,2)] by (fastforce simp: s0_def cli_start_def)
  let ?res = "snapshot (env_sodium env) drv ?p (w\<lparr>rs := r\<rparr>)"
  let ?run = "parse (cli_hooks env (create_params env (Suc n))) (Some []) (tl ?argv) s0"
  have "sys (client (snd ?run)) = snd ?res" "fst ?run = Inr () \<longleftrightarrow> fst ?res = Inr ()"
    unfolding u with_context_result by (cases ?res; simp add: sysS_def)+
  then show ?thesis using cli_run_result [OF t(1), of "Suc n" c "fst ?run" "snd ?run"] by (simp add: s0_def)
qed

definition made_client :: "snapshots client" where
  "made_client = sample_client\<lparr>sys := sample_system\<lparr>fs := ([initArgsFileName], File (serialise_initargs
     (currentRepositoryStructureFormatUuid, [''diffmonger'', ''init'', ''zfs'']))) # sample_files\<rparr>\<rparr>"

theorem snapshot_command_runs_witness:
  "\<exists>r w drv. open_repository [] (sys made_client) = (Inr r, w) \<and>
    createFactory (env_exec sample_env) (env_clock sample_env) \<lparr>da_zfsCommand = [''zfs''], da_datasetName = ''tank'',
      da_receive0_args = Some [''-u''], da_receiven_args = Some [''-u'']\<rparr> () = Inr drv \<and>
    sys (snd (cli_run (sample_env\<lparr>env_path := \<lambda>_. []\<rparr>) 1 [''diffmonger'', ''snapshot'', ''dataset=tank''] made_client)) =
      snd (snapshot plain_sodium drv \<lparr>encryption = True, min_seconds_between_snapshots = 60\<rparr> (w\<lparr>rs := r\<rparr>))"
proof -
  let ?env = "sample_env\<lparr>env_path := \<lambda>_. []\<rparr>" and ?ds = "[Assign False ''dataset'' [''tank'']]"
  let ?u = "currentRepositoryStructureFormatUuid" and ?made = "[''diffmonger'', ''init'', ''zfs'']"
  have line: "snapshot_line ''diffmonger'' [] ?ds = [''diffmonger'', ''snapshot'', ''dataset=tank'']"
    by (simp add: snapshot_line_def render_segment_def)
  have made: "init_line ''diffmonger'' [] [] [] = ?made" by (simp add: init_line_def render_segment_def)
  have formed: "well_formed []" "well_formed ?ds" by (simp_all add: well_formed_def plain_name_def)
  have means: "snapshot_means [] ?ds ''.'' ''tank'' [''-u''] [''-u'']"
    by (simp add: snapshot_means_def driver_settings_def chosen_def assign_def smap_update_def Let_def) blast
  have init: "init_means [] [] [] ''.'' True ''1m'' 60 False"
    by (simp add: init_means_def chosen_def duration_def from_chars_def uint64_range_def is_digit_def digits_value_def
        digit_value_def duration_unit_def Let_def)
  have "openable (sys made_client) [] ?u ?made"
    by (simp add: openable_def made_client_def sample_client_def sample_system_def sample_files_def lookup_def writable_def
        parent_is_dir_def file_names initargs_ok_def vector_ok_def max_size_def currentRepositoryStructureFormatUuid_def
        uuid_ok_def uuid_size_def)
  moreover have "undisturbed (sys made_client)" by (simp add: made_client_def sample_client_def sample_system_def)
  moreover have "breadcrumb_on_disk (sys made_client) [] fresh_breadcrumb"
    by (simp add: breadcrumb_on_disk_def made_client_def sample_client_def sample_system_def sample_files_def lookup_def file_names)
  ultimately obtain w where w: "open_repository (env_path ?env ''.'') (sys made_client) = (Inr \<lparr>rs_repository = [], rs_format = ?u,
      rs_initargs = ?made, rs_breadcrumb = fresh_breadcrumb, rs_temporary = None, rs_checkouts = 0\<rparr>, w)"
    using open_repository_calm [of "sys made_client" "[]" ?u ?made] by auto
  obtain drv where drv: "createFactory (env_exec ?env) (env_clock ?env) \<lparr>da_zfsCommand = [''zfs''], da_datasetName = ''tank'',
      da_receive0_args = Some [''-u''], da_receiven_args = Some [''-u'']\<rparr> () = Inr drv"
    using tank_ok by (auto simp: createFactory_def ZfsBackendDriverImpl_def command_of_args_def Command_def DatasetName_def dataset_ok_def)
  have run: "sys (snd (cli_run ?env 1 [''diffmonger'', ''snapshot'', ''dataset=tank''] made_client)) =
      snd (snapshot plain_sodium drv \<lparr>encryption = True, min_seconds_between_snapshots = 60\<rparr>
        (w\<lparr>rs := \<lparr>rs_repository = [], rs_format = ?u, rs_initargs = ?made, rs_breadcrumb = fresh_breadcrumb,
          rs_temporary = None, rs_checkouts = 0\<rparr>\<rparr>))"
    using snapshot_command_runs [OF formed means w _ _ formed(1,1,1) init drv, where n = 0 and name = "''diffmonger''" and made = "''diffmonger''"] line made
    by (simp add: sample_env_def)
  show ?thesis using w drv run by (intro exI [of _ drv] exI conjI) (simp_all add: sample_env_def)
qed

end
