(* ===== verification/SodiumUtils.thy ===== *)
theory SodiumUtils
  imports Serialisation
begin

text \<open>
  What the symmetric part of libsodium shares (\<^verbatim>\<open>private/common.h\<close>, \<^verbatim>\<open>sodium/utils.c\<close>,
  \<^verbatim>\<open>crypto_verify/verify.c\<close>): little-endian loads and stores, rotations, and the comparisons and
  the increment that take the same time whatever the bytes are. Each is shown to compute what its
  name says; \<open>le\<close> is the number that bytes stand for.
\<close>

unbundle bit_operations_syntax

section \<open>Loads, stores, rotations\<close>

definition rotl32 :: "u32 \<Rightarrow> nat \<Rightarrow> u32" where
  "rotl32 x b = push_bit b x OR drop_bit (32 - b) x"

definition load32_le :: "bytes \<Rightarrow> u32" where
  "load32_le src = ucast (src ! 0) OR push_bit 8 (ucast (src ! 1)) OR push_bit 16 (ucast (src ! 2)) OR
     push_bit 24 (ucast (src ! 3))"

definition load64_le :: "bytes \<Rightarrow> u64" where
  "load64_le src = ucast (src ! 0) OR push_bit 8 (ucast (src ! 1)) OR push_bit 16 (ucast (src ! 2)) OR
     push_bit 24 (ucast (src ! 3)) OR push_bit 32 (ucast (src ! 4)) OR push_bit 40 (ucast (src ! 5)) OR
     push_bit 48 (ucast (src ! 6)) OR push_bit 56 (ucast (src ! 7))"

definition store32_le :: "u32 \<Rightarrow> bytes" where
  "store32_le w = [ucast w, ucast (drop_bit 8 w), ucast (drop_bit 16 w), ucast (drop_bit 24 w)]"

definition store64_le :: "u64 \<Rightarrow> bytes" where
  "store64_le w = [ucast w, ucast (drop_bit 8 w), ucast (drop_bit 16 w), ucast (drop_bit 24 w),
     ucast (drop_bit 32 w), ucast (drop_bit 40 w), ucast (drop_bit 48 w), ucast (drop_bit 56 w)]"

definition xor_buf :: "bytes \<Rightarrow> bytes \<Rightarrow> bytes" where
  "xor_buf out input = map2 (XOR) out input"

text \<open>The abort after a call that breaks a limit; the program sets no handler for it.\<close>

definition sodium_misuse :: exn where
  "sodium_misuse = AssertionFailed ''sodium_misuse''"

section \<open>Comparing and counting\<close>

text \<open>The C expressions are computed in \<open>int\<close>, where \<open>- 1\<close> shifted right stays \<open>- 1\<close>.\<close>

definition gathered :: "bytes \<Rightarrow> u8" where
  "gathered ds = fold (\<lambda>x d. d OR x) ds 0"

definition sodium_is_zero :: "bytes \<Rightarrow> int" where
  "sodium_is_zero n = 1 AND drop_bit 8 (uint (gathered n) - 1)"

definition sodium_memcmp :: "bytes \<Rightarrow> bytes \<Rightarrow> int" where
  "sodium_memcmp b1 b2 = (1 AND drop_bit 8 (uint (gathered (map2 (XOR) b1 b2)) - 1)) - 1"

text \<open>\<open>crypto_verify_n\<close> keeps \<open>d\<close> in 16 bits; the volatile \<open>optblocker_u16\<close> is never written.\<close>

definition crypto_verify_n :: "bytes \<Rightarrow> bytes \<Rightarrow> int" where
  "crypto_verify_n x y =
     (let d = ucast (gathered (map2 (XOR) x y)) - 1 :: 16 word
      in uint (drop_bit 2 (drop_bit 13 d XOR 0)) - 1)"

fun increment_loop :: "nat \<Rightarrow> bytes \<Rightarrow> bytes" where
  "increment_loop c [] = []"
| "increment_loop c (b # bs) =
     (let c = c + unat b in word_of_nat c # increment_loop (drop_bit 8 c) bs)"

definition sodium_increment :: "bytes \<Rightarrow> bytes" where
  "sodium_increment n = increment_loop 1 n"

section \<open>Words as numbers\<close>

type_synonym u128 = "128 word"

lemma unat_drop: "unat (drop_bit n w) = unat w div 2 ^ n" for w :: "'a :: len word"
  by (simp add: unat_drop_bit_eq drop_bit_eq_div [of n "unat w"])

lemma unat_plus: "unat a + unat b < 2 ^ LENGTH('a) \<Longrightarrow> unat (a + b) = unat a + unat b" for a b :: "'a :: len word"
  by (rule unat_add_lem [THEN iffD1])

lemma unat_times: "unat a * unat b < 2 ^ LENGTH('a) \<Longrightarrow> unat (a * b) = unat a * unat b" for a b :: "'a :: len word"
  by (rule unat_mult_lem [THEN iffD1])

lemma or_push: "a < 2 ^ n \<Longrightarrow> a OR push_bit n b = a + 2 ^ n * (b :: nat)"
proof -
  assume a: "a < 2 ^ n"
  have "take_bit n a AND push_bit n b = 0" by (rule bit_eqI) (simp add: bit_simps)
  moreover have "take_bit n a = a" using a by (simp add: take_bit_nat_eq_self)
  ultimately have "a + push_bit n b = a OR push_bit n b" by (simp add: disjunctive_add_eq_or)
  then show ?thesis by (simp add: push_bit_eq_mult mult.commute)
qed

lemma unat_or_push:
  fixes a b :: "'a :: len word"
  assumes "unat a < 2 ^ n" and "unat a + 2 ^ n * unat b < 2 ^ LENGTH('a)"
  shows "unat (a OR push_bit n b) = unat a + 2 ^ n * unat b"
proof -
  have "unat (push_bit n b) = push_bit n (unat b)"
    using assms(2) unfolding unsigned_push_bit_eq
    by (intro take_bit_nat_eq_self) (simp add: push_bit_eq_mult mult.commute)
  then show ?thesis using or_push [OF assms(1)] by (simp add: unsigned_or_eq)
qed

lemma unat_ucast128: "unat (ucast (c :: u64) :: u128) = unat c"
proof -
  have "unat c < 2 ^ LENGTH(128)" by (rule less_trans [OF unsigned_less]) simp
  then show ?thesis by (simp add: unsigned_ucast_eq take_bit_nat_eq_self del: len_bit0 len_num1)
qed

lemma product_less: "a < A \<Longrightarrow> b < B \<Longrightarrow> a * b < A * (B :: nat)"
  by (rule mult_strict_mono') auto

lemma unat_or_push_mod:
  fixes a b :: "'a :: len word"
  assumes "unat a < 2 ^ n" and "n \<le> LENGTH('a)"
  shows "unat (a OR push_bit n b) = unat a + 2 ^ n * (unat b mod 2 ^ (LENGTH('a) - n))"
proof -
  have "unat (push_bit n b) = push_bit n (take_bit (LENGTH('a) - n) (unat b))"
    using assms(2) by (simp only: unsigned_push_bit_eq take_bit_push_bit)
  then show ?thesis using or_push [OF assms(1)] by (simp only: unsigned_or_eq take_bit_eq_mod)
qed

lemma mod_split: "a < 2 ^ n \<Longrightarrow> (a + 2 ^ n * b) mod 2 ^ (n + m) = a + 2 ^ n * (b mod 2 ^ m)" for a b :: nat
  by (simp add: power_add mod_mult2_eq)

section \<open>The number of bytes\<close>

fun le :: "bytes \<Rightarrow> nat" where
  "le [] = 0"
| "le (b # bs) = unat b + 256 * le bs"

lemma le_append: "le (xs @ ys) = le xs + 256 ^ length xs * le ys"
  by (induction xs) (simp_all add: algebra_simps)

lemma le_less: "le bs < 256 ^ length bs"
proof (induction bs)
  case (Cons b bs)
  have "unat b < 256" using unsigned_less [of b] by simp
  then show ?case using Cons by simp
qed simp

lemma le_inject: "length xs = length ys \<Longrightarrow> le xs = le ys \<Longrightarrow> xs = ys"
proof (induction xs ys rule: list_induct2)
  case (Cons x xs y ys)
  have b: "unat x < 256" "unat y < 256" using unsigned_less [of x] unsigned_less [of y] by simp_all
  have e: "unat x + 256 * le xs = unat y + 256 * le ys" using Cons.prems by simp
  then have "unat x mod 256 = unat y mod 256" by (metis mod_mult_self2)
  then have "unat x = unat y" using b by simp
  then show ?case using e Cons.IH by (simp add: word_unat_eq_iff)
qed simp

lemma le_replicate_0 [simp]: "le (replicate n 0) = 0"
  by (induction n) simp_all

lemma length_stores [simp]: "length (store32_le w) = 4" "length (store64_le v) = 8"
  by (simp_all add: store32_le_def store64_le_def)

lemma byte_of: "unat (ucast (drop_bit n (w :: 'a :: len word)) :: u8) = unat w div 2 ^ n mod 256"
  by (simp add: unsigned_ucast_eq unat_drop_bit_eq take_bit_eq_mod drop_bit_eq_div [of n "unat w"])

lemma byte_of_0: "unat (ucast (w :: 'a :: len word) :: u8) = unat w mod 256"
  by (simp add: unsigned_ucast_eq take_bit_eq_mod)

lemma le_map_digits: "x < 256 ^ n \<Longrightarrow> le (map (\<lambda>i. word_of_nat (x div 256 ^ i)) [0..<n]) = x"
proof (induction n arbitrary: x)
  case (Suc n)
  have "x div 256 < 256 ^ n" using Suc.prems by (simp add: less_mult_imp_div_less mult.commute)
  then have "le (map (\<lambda>i. word_of_nat (x div 256 div 256 ^ i)) [0..<n]) = x div 256" by (rule Suc.IH)
  then show ?case
    by (simp add: upt_conv_Cons map_Suc_upt [symmetric] comp_def div_mult2_eq [symmetric] unat_of_nat del: upt_Suc)
qed simp

lemma ucast_drop: "ucast (drop_bit n (w :: 'a :: len word)) = (word_of_nat (unat w div 2 ^ n) :: u8)"
  by (rule word_unat_eq_iff [THEN iffD2]) (simp add: byte_of unat_of_nat)

lemma le_store32 [simp]: "le (store32_le w) = unat w"
proof -
  have "store32_le w = map (\<lambda>i. word_of_nat (unat w div 256 ^ i)) [0..<4]"
    using ucast_drop [of 0 w] by (simp add: store32_le_def ucast_drop upt_rec)
  then show ?thesis using le_map_digits [of "unat w" 4] unsigned_less [of w] by simp
qed

lemma le_store64 [simp]: "le (store64_le w) = unat w"
proof -
  have "store64_le w = map (\<lambda>i. word_of_nat (unat w div 256 ^ i)) [0..<8]"
    using ucast_drop [of 0 w] by (simp add: store64_le_def ucast_drop upt_rec)
  then show ?thesis using le_map_digits [of "unat w" 8] unsigned_less [of w] by simp
qed

lemma store32_to_bytes: "store32_le w = to_bytes w"
  by (simp add: store32_le_def to_bytes_def upt_rec)

lemma store64_to_bytes: "store64_le w = to_bytes w"
  by (simp add: store64_le_def to_bytes_def upt_rec)

lemma load32_from_bytes: "4 \<le> length bs \<Longrightarrow> load32_le bs = from_bytes (take 4 bs)"
  by (auto simp: load32_le_def from_bytes_def Suc_le_length_iff numeral_eq_Suc or.assoc)

lemma load64_from_bytes: "8 \<le> length bs \<Longrightarrow> load64_le bs = from_bytes (take 8 bs)"
  by (auto simp: load64_le_def from_bytes_def Suc_le_length_iff numeral_eq_Suc or.assoc)

lemma store32_load32 [simp]: "4 \<le> length bs \<Longrightarrow> store32_le (load32_le bs) = take 4 bs"
  by (simp add: load32_from_bytes store32_to_bytes to_bytes_from_bytes)

lemma store64_load64 [simp]: "8 \<le> length bs \<Longrightarrow> store64_le (load64_le bs) = take 8 bs"
  by (simp add: load64_from_bytes store64_to_bytes to_bytes_from_bytes)

lemma unat_load32: "4 \<le> length bs \<Longrightarrow> unat (load32_le bs) = le (take 4 bs)"
  using le_store32 [of "load32_le bs"] by simp

lemma unat_load64: "8 \<le> length bs \<Longrightarrow> unat (load64_le bs) = le (take 8 bs)"
  using le_store64 [of "load64_le bs"] by simp

lemma store32_xor: "store32_le (x XOR y) = map2 (XOR) (store32_le x) (store32_le y)"
  by (simp add: store32_le_def unsigned_xor_eq drop_bit_xor)

section \<open>What the routines compute\<close>

lemma gathered_0: "gathered ds = 0 \<longleftrightarrow> (\<forall>d \<in> set ds. d = 0)"
proof -
  have "fold (\<lambda>x d. d OR x) ds a = 0 \<longleftrightarrow> a = 0 \<and> (\<forall>d \<in> set ds. d = 0)" for a
    by (induction ds arbitrary: a) (auto simp: or_eq_0_iff)
  then show ?thesis by (simp add: gathered_def)
qed

lemma top_bit: "1 AND drop_bit 8 (uint (d :: u8) - 1) = (if d = 0 then 1 else 0)"
proof (cases "d = 0")
  case False
  then have "0 < uint d" "uint d < 256"
    using unsigned_less [of d, where 'a = int] unsigned_greater_eq [of d, where 'a = int] unsigned_eq_0_iff [of d, where 'a = int]
    by (simp_all add: less_le)
  then show ?thesis using False by (simp add: drop_bit_eq_div)
qed simp

lemma is_zero_iff: "sodium_is_zero n = (if n = replicate (length n) 0 then 1 else 0)"
  by (simp add: sodium_is_zero_def top_bit gathered_0) (metis in_set_replicate replicate_length_same)

lemma word_xor_0: "x XOR y = 0 \<longleftrightarrow> x = (y :: 'a :: len word)"
  by (metis xor.assoc xor.left_neutral xor.right_neutral xor_self_eq)

lemma xor_gathered: "length xs = length ys \<Longrightarrow> gathered (map2 (XOR) xs ys) = 0 \<longleftrightarrow> xs = ys"
  unfolding gathered_0 by (induction xs ys rule: list_induct2) (auto simp: word_xor_0)

lemma memcmp_iff: "length b1 = length b2 \<Longrightarrow> sodium_memcmp b1 b2 = (if b1 = b2 then 0 else - 1)"
  by (simp add: sodium_memcmp_def top_bit xor_gathered)

lemma verify_iff: "length x = length y \<Longrightarrow> crypto_verify_n x y = (if x = y then 0 else - 1)"
proof (cases "x = y")
  case True
  then have "gathered (map2 (XOR) x y) = 0" using xor_gathered [of x y] by simp
  then show ?thesis using True by (simp add: crypto_verify_n_def)
next
  case False
  assume "length x = length y"
  then have g: "gathered (map2 (XOR) x y) \<noteq> 0" using False xor_gathered [of x y] by simp
  define d where "d = ucast (gathered (map2 (XOR) x y)) - (1 :: u16)"
  have "unat (ucast (gathered (map2 (XOR) x y)) :: u16) = unat (gathered (map2 (XOR) x y))"
    using unsigned_less [of "gathered (map2 (XOR) x y)", where 'a = nat] by (simp add: unsigned_ucast_eq take_bit_eq_mod)
  then have "unat d < 256"
    using g unsigned_less [of "gathered (map2 (XOR) x y)", where 'a = nat]
      unsigned_eq_0_iff [of "gathered (map2 (XOR) x y)", where 'a = nat] unat_minus_one [of "ucast (gathered (map2 (XOR) x y)) :: u16"]
    by (cases "ucast (gathered (map2 (XOR) x y)) = (0 :: u16)") (auto simp: d_def)
  then have "unat (drop_bit 15 d) = 0" by (simp add: unat_drop_bit_eq drop_bit_eq_div [of 15 "unat d"])
  then have "drop_bit 15 d = 0" by (simp add: unsigned_eq_0_iff)
  then show ?thesis using False by (simp add: crypto_verify_n_def d_def)
qed

lemma increment_loop_le:
  "le (increment_loop c n) = (le n + c) mod 256 ^ length n" "length (increment_loop c n) = length n"
proof (induction n arbitrary: c)
  case (Cons b bs)
  case 1
  have "(unat b + c + 256 * le bs) mod (256 * 256 ^ length bs) =
      256 * ((unat b + c + 256 * le bs) div 256 mod 256 ^ length bs) + (unat b + c + 256 * le bs) mod 256"
    by (rule mod_mult2_eq)
  moreover have "unat (word_of_nat (c + unat b) :: u8) = (c + unat b) mod 256"
    unfolding unat_of_nat by (simp add: take_bit_eq_mod)
  moreover have "(unat b + c + 256 * le bs) div 256 = le bs + (c + unat b) div 256"
    "(unat b + c + 256 * le bs) mod 256 = (c + unat b) mod 256"
    by (simp_all add: add.commute)
  ultimately show ?case using Cons(1) by (simp add: Let_def drop_bit_eq_div ac_simps del: of_nat_add)
qed (simp_all add: Let_def)

lemma increment_le: "le (sodium_increment n) = (le n + 1) mod 256 ^ length n" "length (sodium_increment n) = length n"
  by (simp_all add: sodium_increment_def increment_loop_le)

end
