(* ===== verification/ChaCha.thy ===== *)
theory ChaCha
  imports SodiumUtils
begin

text \<open>
  ChaCha20 as libsodium has it (\<^verbatim>\<open>crypto_stream/chacha20/ref/chacha20_ref.c\<close>, \<^verbatim>\<open>stream_chacha20.c\<close>
  and \<^verbatim>\<open>crypto_core/hchacha20/core_hchacha20.c\<close>): the sixteen words of \<open>chacha_ctx\<close> are a list. The key
  stream of the cipher is that of RFC 8439, and the limits on the length keep its counter from
  wrapping. A call of \<open>sodium_misuse\<close> aborts the program.
\<close>

section \<open>The rounds\<close>

definition quarterround :: "nat \<Rightarrow> nat \<Rightarrow> nat \<Rightarrow> nat \<Rightarrow> u32 list \<Rightarrow> u32 list" where
  "quarterround a b c d x =
     (let x = x[a := x ! a + x ! b]; x = x[d := rotl32 (x ! d XOR x ! a) 16];
          x = x[c := x ! c + x ! d]; x = x[b := rotl32 (x ! b XOR x ! c) 12];
          x = x[a := x ! a + x ! b]; x = x[d := rotl32 (x ! d XOR x ! a) 8];
          x = x[c := x ! c + x ! d]; x = x[b := rotl32 (x ! b XOR x ! c) 7]
      in x)"

definition double_round :: "u32 list \<Rightarrow> u32 list" where
  "double_round x =
     (let x = quarterround 0 4 8 12 x; x = quarterround 1 5 9 13 x;
          x = quarterround 2 6 10 14 x; x = quarterround 3 7 11 15 x;
          x = quarterround 0 5 10 15 x; x = quarterround 1 6 11 12 x;
          x = quarterround 2 7 8 13 x; x = quarterround 3 4 9 14 x
      in x)"

definition chacha20_rounds :: "u32 list \<Rightarrow> u32 list" where
  "chacha20_rounds x = (double_round ^^ 10) x"

section \<open>Set up\<close>

definition chacha_constants :: "u32 list" where
  "chacha_constants = [0x61707865, 0x3320646e, 0x79622d32, 0x6b206574]"

definition chacha_keysetup :: "bytes \<Rightarrow> u32 list" where
  "chacha_keysetup k = chacha_constants @ map (\<lambda>i. load32_le (drop i k)) [0, 4, 8, 12, 16, 20, 24, 28]"

text \<open>The last four words; without a \<open>counter\<close> it is 0.\<close>

definition chacha_ietf_ivsetup :: "bytes \<Rightarrow> bytes option \<Rightarrow> u32 list" where
  "chacha_ietf_ivsetup iv counter =
     [case counter of None \<Rightarrow> 0 | Some c \<Rightarrow> load32_le c,
      load32_le iv, load32_le (drop 4 iv), load32_le (drop 8 iv)]"

section \<open>The stream\<close>

definition next_block :: "u32 list \<Rightarrow> u32 list" where
  "next_block j = (let j = j[12 := j ! 12 + 1] in if j ! 12 = 0 then j[13 := j ! 13 + 1] else j)"

text \<open>The words of the context afterwards, and the bytes at \<open>c\<close>.\<close>

function chacha20_encrypt_bytes :: "u32 list \<Rightarrow> bytes \<Rightarrow> u32 list \<times> bytes" where
  "chacha20_encrypt_bytes j m =
     (if m = [] then (j, [])
      else
        let tmp = (if length m < 64 then m @ replicate (64 - length m) 0 else m);
            x = map2 (+) (chacha20_rounds j) j;
            x = map2 (XOR) x (map (\<lambda>i. load32_le (drop (4 * i) tmp)) [0..<16]);
            j = next_block j;
            c = concat (map store32_le x)
        in if length m \<le> 64 then (j, take (length m) c)
           else (let (j, cs) = chacha20_encrypt_bytes j (drop 64 m) in (j, c @ cs)))"
  by pat_completeness auto
termination by (relation "measure (\<lambda>(j, m). length m)") auto
declare chacha20_encrypt_bytes.simps [simp del]

definition stream_ietf_ext_ref :: "nat \<Rightarrow> bytes \<Rightarrow> bytes \<Rightarrow> bytes" where
  "stream_ietf_ext_ref clen n k =
     (if clen = 0 then []
      else snd (chacha20_encrypt_bytes (chacha_keysetup k @ chacha_ietf_ivsetup n None) (replicate clen 0)))"

definition stream_ietf_ext_ref_xor_ic :: "bytes \<Rightarrow> bytes \<Rightarrow> u32 \<Rightarrow> bytes \<Rightarrow> bytes" where
  "stream_ietf_ext_ref_xor_ic m n ic k =
     (if m = [] then []
      else snd (chacha20_encrypt_bytes (chacha_keysetup k @ chacha_ietf_ivsetup n (Some (store32_le ic))) m))"

definition SODIUM_SIZE_MAX :: nat where "SODIUM_SIZE_MAX = 2 ^ 64 - 1"

definition stream_ietf_MESSAGEBYTES_MAX :: nat where
  "stream_ietf_MESSAGEBYTES_MAX = min SODIUM_SIZE_MAX (64 * 2 ^ 32)"

definition crypto_stream_chacha20_ietf_ext :: "nat \<Rightarrow> bytes \<Rightarrow> bytes \<Rightarrow> bytes result" where
  "crypto_stream_chacha20_ietf_ext clen n k =
     (if SODIUM_SIZE_MAX < clen then Inl sodium_misuse else Inr (stream_ietf_ext_ref clen n k))"

definition crypto_stream_chacha20_ietf_ext_xor_ic :: "bytes \<Rightarrow> bytes \<Rightarrow> u32 \<Rightarrow> bytes \<Rightarrow> bytes result" where
  "crypto_stream_chacha20_ietf_ext_xor_ic m n ic k =
     (if SODIUM_SIZE_MAX < length m then Inl sodium_misuse else Inr (stream_ietf_ext_ref_xor_ic m n ic k))"

definition crypto_stream_chacha20_ietf_ext_xor :: "bytes \<Rightarrow> bytes \<Rightarrow> bytes \<Rightarrow> bytes result" where
  "crypto_stream_chacha20_ietf_ext_xor m n k =
     (if SODIUM_SIZE_MAX < length m then Inl sodium_misuse else Inr (stream_ietf_ext_ref_xor_ic m n 0 k))"

definition crypto_stream_chacha20_ietf :: "nat \<Rightarrow> bytes \<Rightarrow> bytes \<Rightarrow> bytes result" where
  "crypto_stream_chacha20_ietf clen n k =
     (if stream_ietf_MESSAGEBYTES_MAX < clen then Inl sodium_misuse else crypto_stream_chacha20_ietf_ext clen n k)"

text \<open>The limit is computed in 64 bits, wrapping.\<close>

definition crypto_stream_chacha20_ietf_xor_ic :: "bytes \<Rightarrow> bytes \<Rightarrow> u32 \<Rightarrow> bytes \<Rightarrow> bytes result" where
  "crypto_stream_chacha20_ietf_xor_ic m n ic k =
     (if (64 * 2 ^ 32) div 64 - (word_of_nat (length m) + 63) div 64 < (ucast ic :: u64) then Inl sodium_misuse
      else crypto_stream_chacha20_ietf_ext_xor_ic m n ic k)"

definition crypto_stream_chacha20_ietf_xor :: "bytes \<Rightarrow> bytes \<Rightarrow> bytes \<Rightarrow> bytes result" where
  "crypto_stream_chacha20_ietf_xor m n k =
     (if stream_ietf_MESSAGEBYTES_MAX < length m then Inl sodium_misuse
      else crypto_stream_chacha20_ietf_ext_xor m n k)"

section \<open>HChaCha20\<close>

definition crypto_core_hchacha20 :: "bytes \<Rightarrow> bytes \<Rightarrow> bytes option \<Rightarrow> bytes" where
  "crypto_core_hchacha20 input k c =
     (let x = (case c of None \<Rightarrow> chacha_constants
               | Some c \<Rightarrow> map (\<lambda>i. load32_le (drop i c)) [0, 4, 8, 12]) @
              map (\<lambda>i. load32_le (drop i k)) [0, 4, 8, 12, 16, 20, 24, 28] @
              map (\<lambda>i. load32_le (drop i input)) [0, 4, 8, 12];
          x = chacha20_rounds x
      in concat (map (\<lambda>i. store32_le (x ! i)) [0, 1, 2, 3, 12, 13, 14, 15]))"

section \<open>The key stream\<close>

lemma length_quarterround [simp]: "length (quarterround a b c d x) = length x"
  by (simp add: quarterround_def Let_def)

lemma length_double_round [simp]: "length (double_round x) = length x"
  by (simp add: double_round_def Let_def)

lemma length_rounds [simp]: "length (chacha20_rounds x) = length x"
proof -
  have "length ((double_round ^^ n) x) = length x" for n by (induction n) simp_all
  then show ?thesis by (simp add: chacha20_rounds_def)
qed

lemma length_next_block [simp]: "length (next_block j) = length j"
  by (simp add: next_block_def Let_def)

lemma length_setup [simp]: "length (chacha_keysetup k) = 12" "length (chacha_ietf_ivsetup iv c) = 4"
  by (simp_all add: chacha_keysetup_def chacha_constants_def chacha_ietf_ivsetup_def)

text \<open>The block of RFC 8439: the words after the rounds added to those before, as bytes.\<close>

definition chacha20_block :: "u32 list \<Rightarrow> bytes" where
  "chacha20_block j = concat (map store32_le (map2 (+) (chacha20_rounds j) j))"

lemma length_concat_stores [simp]: "length (concat (map store32_le xs)) = 4 * length xs"
  by (induction xs) simp_all

lemma length_block [simp]: "length (chacha20_block j) = 4 * length j"
  unfolding chacha20_block_def by (subst length_concat_stores) simp

fun key_stream :: "nat \<Rightarrow> u32 list \<Rightarrow> bytes" where
  "key_stream 0 j = []"
| "key_stream (Suc n) j = chacha20_block j @ key_stream n (next_block j)"

lemma length_key_stream [simp]: "length j = 16 \<Longrightarrow> length (key_stream n j) = 64 * n"
  by (induction n arbitrary: j) simp_all

lemma nth_key_stream:
  "length j = 16 \<Longrightarrow> i < 64 * n \<Longrightarrow> key_stream n j ! i = chacha20_block ((next_block ^^ (i div 64)) j) ! (i mod 64)"
proof (induction n arbitrary: i j)
  case (Suc n)
  show ?case
  proof (cases "i < 64")
    case True
    then show ?thesis using Suc.prems by (simp add: nth_append)
  next
    case False
    then have "i div 64 = Suc ((i - 64) div 64)" "i mod 64 = (i - 64) mod 64"
      using le_div_geq [of 64 i] le_mod_geq [of 64 i] by simp_all
    then show ?thesis using False Suc.prems Suc.IH [of "next_block j" "i - 64"]
      by (simp add: nth_append funpow_swap1)
  qed
qed simp

definition blocks_of :: "nat \<Rightarrow> nat" where
  "blocks_of n = (n + 63) div 64"

lemma map2_append: "length xs = length us \<Longrightarrow> map2 f (xs @ ys) (us @ vs) = map2 f xs us @ map2 f ys vs"
  by simp

lemma map2_xor_commute: "map2 (XOR) xs ys = map2 (XOR) ys (xs :: bytes)"
  by (rule nth_equalityI) (auto simp: xor.commute)

lemma xor_words:
  "length m = 4 * length xs \<Longrightarrow>
    concat (map store32_le (map2 (XOR) xs (map (\<lambda>i. load32_le (drop (4 * i) m)) [0..<length xs]))) =
    map2 (XOR) (concat (map store32_le xs)) m"
proof (induction xs arbitrary: m)
  case (Cons x xs)
  have "[0..<Suc (length xs)] = 0 # map Suc [0..<length xs]" by (simp add: upt_conv_Cons map_Suc_upt del: upt_Suc)
  moreover have "drop (4 * i) (drop 4 m) = drop (4 * Suc i) m" for i by (simp add: add.commute)
  moreover have "map2 (XOR) (store32_le x) (take 4 m) @ map2 (XOR) (concat (map store32_le xs)) (drop 4 m) =
      map2 (XOR) (store32_le x @ concat (map store32_le xs)) m"
    using Cons.prems by (subst map2_append [symmetric]) simp_all
  ultimately show ?case using Cons.prems Cons.IH [of "drop 4 m"]
    by (simp add: store32_xor comp_def)
qed simp

lemma encrypt_bytes_xor:
  "length j = 16 \<Longrightarrow> chacha20_encrypt_bytes j m =
    ((next_block ^^ blocks_of (length m)) j, map2 (XOR) m (key_stream (blocks_of (length m)) j))"
proof (induction "length m" arbitrary: j m rule: less_induct)
  case less
  let ?tmp = "if length m < 64 then m @ replicate (64 - length m) 0 else m"
  let ?x = "map2 (+) (chacha20_rounds j) j"
  let ?c = "concat (map store32_le (map2 (XOR) ?x (map (\<lambda>i. load32_le (drop (4 * i) ?tmp)) [0..<16])))"
  have tmp: "map (\<lambda>i. load32_le (drop (4 * i) ?tmp)) [0..<16] = map (\<lambda>i. load32_le (drop (4 * i) (take 64 ?tmp))) [0..<16]"
    by (auto simp: load32_le_def drop_take)
  have c: "?c = map2 (XOR) (take 64 ?tmp) (chacha20_block j)"
    unfolding tmp chacha20_block_def using xor_words [of "take 64 ?tmp" ?x] less.prems
    by (simp add: map2_xor_commute)
  show ?case
  proof (cases "length m \<le> 64")
    case True
    then have "blocks_of (length m) = (if m = [] then 0 else 1)"
      by (cases m) (simp_all add: blocks_of_def)
    moreover have "take (length m) ?c = map2 (XOR) m (chacha20_block j)"
      unfolding c using True less.prems by (intro nth_equalityI) (auto simp: nth_append)
    ultimately show ?thesis using True
      by (subst chacha20_encrypt_bytes.simps) (simp add: Let_def)
  next
    case False
    then have b: "blocks_of (length m) = Suc (blocks_of (length (drop 64 m)))"
      by (simp add: blocks_of_def)
    have "chacha20_encrypt_bytes (next_block j) (drop 64 m) =
        ((next_block ^^ blocks_of (length (drop 64 m))) (next_block j),
         map2 (XOR) (drop 64 m) (key_stream (blocks_of (length (drop 64 m))) (next_block j)))"
      using False less.prems by (intro less.hyps) auto
    moreover have "map2 (XOR) (take 64 m) (chacha20_block j) @ map2 (XOR) (drop 64 m) ks =
        map2 (XOR) m (chacha20_block j @ ks)" for ks
      using False less.prems by (subst map2_append [symmetric]) auto
    moreover have "m \<noteq> []" using False by auto
    ultimately show ?thesis using False c unfolding b
      by (subst chacha20_encrypt_bytes.simps) (simp add: Let_def funpow_swap1)
  qed
qed

lemma blocks_of_enough: "n \<le> 64 * blocks_of n"
  unfolding blocks_of_def by presburger

lemma length_setups [simp]: "length (chacha_keysetup k @ chacha_ietf_ivsetup n c) = 16"
  by simp

lemma xor_twice: "length m \<le> length ks \<Longrightarrow> map2 (XOR) (map2 (XOR) m ks) ks = (m :: bytes)"
  by (rule nth_equalityI) (auto simp: xor.assoc)

lemma length_ext_xor [simp]: "length (stream_ietf_ext_ref_xor_ic m n ic k) = length m"
  using blocks_of_enough [of "length m"] by (simp add: stream_ietf_ext_ref_xor_ic_def encrypt_bytes_xor)

lemma ext_xor_twice [simp]:
  "stream_ietf_ext_ref_xor_ic (stream_ietf_ext_ref_xor_ic m n ic k) n ic k = m"
proof (cases "m = []")
  case False
  let ?ks = "key_stream (blocks_of (length m)) (chacha_keysetup k @ chacha_ietf_ivsetup n (Some (store32_le ic)))"
  have c: "stream_ietf_ext_ref_xor_ic m n ic k = map2 (XOR) m ?ks" "length (map2 (XOR) m ?ks) = length m"
    using False blocks_of_enough [of "length m"] by (simp_all add: stream_ietf_ext_ref_xor_ic_def encrypt_bytes_xor)
  then have "map2 (XOR) m ?ks \<noteq> []" using False by (metis length_0_conv)
  then have "stream_ietf_ext_ref_xor_ic (map2 (XOR) m ?ks) n ic k = map2 (XOR) (map2 (XOR) m ?ks) ?ks"
    unfolding stream_ietf_ext_ref_xor_ic_def by (simp only: if_False encrypt_bytes_xor [OF length_setups] snd_conv c(2))
  then show ?thesis using c(1) blocks_of_enough [of "length m"] by (simp add: xor_twice)
qed (simp add: stream_ietf_ext_ref_xor_ic_def)

lemma length_ext [simp]: "length (stream_ietf_ext_ref clen n k) = clen"
  using blocks_of_enough [of clen] by (simp add: stream_ietf_ext_ref_def encrypt_bytes_xor)

lemma next_block_counter:
  assumes "unat ic + i < 2 ^ 32"
  shows "(next_block ^^ i) (chacha_keysetup k @ chacha_ietf_ivsetup n (Some (store32_le ic))) =
    chacha_keysetup k @ chacha_ietf_ivsetup n (Some (store32_le (ic + word_of_nat i)))"
  using assms
proof (induction i)
  case (Suc i)
  have load: "load32_le (store32_le w) = w" for w
    using unat_load32 [of "store32_le w"] by (simp add: word_unat_eq_iff)
  have "unat (ic + word_of_nat (Suc i)) = unat ic + Suc i"
    using Suc.prems by (subst unat_add_lem [THEN iffD1]) (simp_all add: unat_of_nat take_bit_eq_mod del: of_nat_Suc)
  then have "ic + word_of_nat (Suc i) \<noteq> 0" by (metis add_is_0 nat.distinct(1) unat_0)
  then show ?case using Suc
    by (simp add: next_block_def Let_def nth_append chacha_ietf_ivsetup_def load algebra_simps list_update_append)
qed simp

text \<open>The block of RFC 8439 for a key, a nonce and a counter.\<close>

definition rfc_block :: "bytes \<Rightarrow> bytes \<Rightarrow> u32 \<Rightarrow> bytes" where
  "rfc_block k n counter = chacha20_block (chacha_keysetup k @ chacha_ietf_ivsetup n (Some (store32_le counter)))"

lemma ext_xor_bytes:
  assumes "unat ic + blocks_of (length m) \<le> 2 ^ 32" and "i < length m"
  shows "stream_ietf_ext_ref_xor_ic m n ic k ! i =
      m ! i XOR rfc_block k n (ic + word_of_nat (i div 64)) ! (i mod 64)"
    and "unat (ic + word_of_nat (i div 64)) = unat ic + i div 64"
proof -
  let ?j = "chacha_keysetup k @ chacha_ietf_ivsetup n (Some (store32_le ic))"
  have i: "i < 64 * blocks_of (length m)" using assms(2) blocks_of_enough [of "length m"] by linarith
  then have b: "unat ic + i div 64 < 2 ^ 32" using assms(1) by linarith
  then show "unat (ic + word_of_nat (i div 64)) = unat ic + i div 64"
    by (subst unat_add_lem [THEN iffD1]) (simp_all add: unat_of_nat take_bit_eq_mod)
  show "stream_ietf_ext_ref_xor_ic m n ic k ! i =
      m ! i XOR rfc_block k n (ic + word_of_nat (i div 64)) ! (i mod 64)"
    using assms(2) i nth_key_stream [of ?j i] next_block_counter [OF b, of k n]
    by (auto simp: stream_ietf_ext_ref_xor_ic_def encrypt_bytes_xor rfc_block_def)
qed

lemma xor_ic_runs:
  assumes "length m \<le> 64 * 2 ^ 32"
  shows "crypto_stream_chacha20_ietf_xor_ic m n ic k =
    (if unat ic + (length m + 63) div 64 \<le> 2 ^ 32 then Inr (stream_ietf_ext_ref_xor_ic m n ic k) else Inl sodium_misuse)"
proof -
  let ?n = "(length m + 63) div 64"
  have n: "?n \<le> 2 ^ 32" using assms by simp
  have "unat (word_of_nat (length m) + 63 :: u64) = length m + 63"
    using assms by (subst unat_add_lem [THEN iffD1]) (simp_all add: unat_of_nat take_bit_eq_mod)
  then have q: "unat ((word_of_nat (length m) + 63 :: u64) div 64) = ?n" by (simp add: unat_div)
  then have "unat ((2 ^ 32 :: u64) - (word_of_nat (length m) + 63) div 64) = 2 ^ 32 - ?n"
    using n by (subst unat_sub) (simp_all add: word_le_nat_alt)
  moreover have "(64 * 2 ^ 32 :: u64) div 64 = 2 ^ 32" by simp
  ultimately have "unat ((64 * 2 ^ 32) div 64 - (word_of_nat (length m) + 63) div 64 :: u64) = 2 ^ 32 - ?n"
    by (simp only:)
  moreover have "unat (ucast ic :: u64) = unat ic"
    using unsigned_less [of ic, where 'a = nat] by (simp add: unsigned_ucast_eq take_bit_eq_mod)
  ultimately have limit: "(64 * 2 ^ 32) div 64 - (word_of_nat (length m) + 63) div 64 < (ucast ic :: u64) \<longleftrightarrow>
      2 ^ 32 < unat ic + ?n"
    using n unfolding word_less_nat_alt by linarith
  show ?thesis
  proof (cases "unat ic + ?n \<le> 2 ^ 32")
    case True
    then have "\<not> 2 ^ 32 < unat ic + ?n" by simp
    then show ?thesis unfolding crypto_stream_chacha20_ietf_xor_ic_def limit
      using True assms by (simp only: if_False if_True crypto_stream_chacha20_ietf_ext_xor_ic_def) (simp add: SODIUM_SIZE_MAX_def)
  next
    case False
    then have "2 ^ 32 < unat ic + ?n" by simp
    then show ?thesis unfolding crypto_stream_chacha20_ietf_xor_ic_def limit using False by (simp only: if_False if_True)
  qed
qed

section \<open>Properties\<close>

text \<open>
  C21. The stream cipher is that of RFC 8439: up to 256 GiB \<open>crypto_stream_chacha20_ietf_xor_ic\<close>
  aborts exactly when the counter would pass 32 bits; otherwise the byte \<open>i\<close> is xored with the byte
  \<open>i mod 64\<close> of the block whose counter is the initial one plus \<open>i div 64\<close>, no counter being used twice,
  and the same call on the result gives the input back.
\<close>

theorem chacha20_ietf_stream:
  assumes "length m \<le> 64 * 2 ^ 32"
  shows "(crypto_stream_chacha20_ietf_xor_ic m n ic k = Inl sodium_misuse \<longleftrightarrow>
      \<not> unat ic + (length m + 63) div 64 \<le> 2 ^ 32) \<and>
    (unat ic + (length m + 63) div 64 \<le> 2 ^ 32 \<longrightarrow>
      (\<exists>c. crypto_stream_chacha20_ietf_xor_ic m n ic k = Inr c \<and> length c = length m \<and>
        (\<forall>i < length m. c ! i = m ! i XOR rfc_block k n (ic + word_of_nat (i div 64)) ! (i mod 64) \<and>
          unat (ic + word_of_nat (i div 64)) = unat ic + i div 64) \<and>
        crypto_stream_chacha20_ietf_xor_ic c n ic k = Inr m))"
proof -
  let ?n = "(length m + 63) div 64"
  have ok: "crypto_stream_chacha20_ietf_xor_ic x n ic k = Inr (stream_ietf_ext_ref_xor_ic x n ic k)"
    if "length x = length m" "unat ic + ?n \<le> 2 ^ 32" for x
    using xor_ic_runs [of x n ic k] that assms by (simp only: if_True)
  have no: "crypto_stream_chacha20_ietf_xor_ic m n ic k = Inl sodium_misuse" if "\<not> unat ic + ?n \<le> 2 ^ 32"
    using xor_ic_runs [of m n ic k] that assms by (simp only: if_False)
  let ?c = "stream_ietf_ext_ref_xor_ic m n ic k"
  have bytes: "?c ! i = m ! i XOR rfc_block k n (ic + word_of_nat (i div 64)) ! (i mod 64) \<and>
      unat (ic + word_of_nat (i div 64)) = unat ic + i div 64" if "unat ic + ?n \<le> 2 ^ 32" "i < length m" for i
    using that ext_xor_bytes [of ic m i] by (simp add: blocks_of_def)
  show ?thesis
  proof (cases "unat ic + ?n \<le> 2 ^ 32")
    case True
    then show ?thesis using ok [of m] ok [of ?c] bytes by (simp del: word_of_nat_eq_0_iff)
  next
    case False
    then show ?thesis using no by (simp only: simp_thms)
  qed
qed

theorem chacha20_ietf_stream_witness:
  "\<exists>c. crypto_stream_chacha20_ietf_xor_ic [1, 2, 3] (replicate 12 0) 1 (replicate 32 7) = Inr c \<and> length c = 3 \<and>
    crypto_stream_chacha20_ietf_xor_ic c (replicate 12 0) 1 (replicate 32 7) = Inr [1, 2, 3]"
  using chacha20_ietf_stream [of "[1, 2, 3]" "replicate 12 0" 1 "replicate 32 7"] by auto

text \<open>
  Beyond 256 GiB the limit itself wraps around, and the call goes through with a counter that runs
  into the nonce. The secret stream checks the length of its messages before.
\<close>

lemma limit_wraps:
  assumes "64 * 2 ^ 32 < length m" and "length m + 63 < 2 ^ 64"
  shows "crypto_stream_chacha20_ietf_xor_ic m n ic k = Inr (stream_ietf_ext_ref_xor_ic m n ic k)"
proof -
  let ?n = "(length m + 63) div 64"
  have n: "2 ^ 32 < ?n" "?n < 2 ^ 58" using assms by simp_all
  have "unat (word_of_nat (length m) + 63 :: u64) = length m + 63"
    using assms by (subst unat_add_lem [THEN iffD1]) (simp_all add: unat_of_nat take_bit_eq_mod)
  then have q: "unat ((word_of_nat (length m) + 63 :: u64) div 64) = ?n" by (simp add: unat_div)
  let ?l = "(64 * 2 ^ 32) div 64 - (word_of_nat (length m) + 63) div 64 :: u64"
  have "?l = 2 ^ 32 - (word_of_nat (length m) + 63) div 64" by simp
  then have "2 ^ 63 \<le> unat ?l" using n q unat_sub_if' [of "2 ^ 32 :: u64" "(word_of_nat (length m) + 63) div 64"] by simp
  moreover have "unat (ucast ic :: u64) < 2 ^ 32"
    using unsigned_less [of ic, where 'a = nat] by (simp add: unsigned_ucast_eq take_bit_eq_mod)
  moreover have "(2 :: nat) ^ 32 \<le> 2 ^ 63" by simp
  ultimately have "\<not> ?l < ucast ic" unfolding word_less_nat_alt by linarith
  then show ?thesis using assms(2)
    unfolding crypto_stream_chacha20_ietf_xor_ic_def
    by (simp add: crypto_stream_chacha20_ietf_ext_xor_ic_def SODIUM_SIZE_MAX_def)
qed

text \<open>The model computes the example of RFC 8439, section 2.3.2, one double round at a time.\<close>

lemma rfc_8439_block:
  "rfc_block (map word_of_nat [0..<32]) [0, 0, 0, 9, 0, 0, 0, 0x4a, 0, 0, 0, 0] 1 =
    [0x10, 0xf1, 0xe7, 0xe4, 0xd1, 0x3b, 0x59, 0x15, 0x50, 0xf, 0xdd, 0x1f, 0xa3, 0x20, 0x71, 0xc4,
     0xc7, 0xd1, 0xf4, 0xc7, 0x33, 0xc0, 0x68, 0x3, 0x4, 0x22, 0xaa, 0x9a, 0xc3, 0xd4, 0x6c, 0x4e,
     0xd2, 0x82, 0x64, 0x46, 0x7, 0x9f, 0xaa, 0x9, 0x14, 0xc2, 0xd7, 0x5, 0xd9, 0x8b, 0x2, 0xa2,
     0xb5, 0x12, 0x9c, 0xd1, 0xde, 0x16, 0x4e, 0xb9, 0xcb, 0xd0, 0x83, 0xe8, 0xa2, 0x50, 0x3c, 0x4e]"
proof -
  let ?j = "[0x61707865, 0x3320646e, 0x79622d32, 0x6b206574, 0x3020100, 0x7060504, 0xb0a0908, 0xf0e0d0c,
      0x13121110, 0x17161514, 0x1b1a1918, 0x1f1e1d1c, 0x1, 0x9000000, 0x4a000000, 0x0]"
  have start: "chacha_keysetup (map word_of_nat [0..<32]) @
      chacha_ietf_ivsetup [0, 0, 0, 9, 0, 0, 0, 0x4a, 0, 0, 0, 0] (Some (store32_le 1)) = ?j"
    by code_simp
  have r0: "double_round ?j =
      [0xcd52e917, 0x85ab03b4, 0xb3457395, 0xf96de7dd, 0xc4b7cd22, 0x5c2e187a, 0xc95eb461, 0x316c801a,
      0x7bf7d740, 0x7eddd644, 0xf1a1bdf5, 0x761246ca, 0x6b0d58a3, 0x6798471a, 0xd737f167, 0xf173888d]" by code_simp
  have r1: "double_round [0xcd52e917, 0x85ab03b4, 0xb3457395, 0xf96de7dd, 0xc4b7cd22, 0x5c2e187a, 0xc95eb461, 0x316c801a,
      0x7bf7d740, 0x7eddd644, 0xf1a1bdf5, 0x761246ca, 0x6b0d58a3, 0x6798471a, 0xd737f167, 0xf173888d] =
      [0xcf1a7584, 0x48927ec, 0x54051fda, 0xc244ff28, 0x901d2f40, 0x7974b81c, 0x378dcfb4, 0xcd47fd0e,
      0x2dafb216, 0x27c89cd6, 0xcd3c9aa0, 0x79fc89c7, 0x10aef18d, 0x16218765, 0x68f76705, 0x4d6ee22]" by code_simp
  have r2: "double_round [0xcf1a7584, 0x48927ec, 0x54051fda, 0xc244ff28, 0x901d2f40, 0x7974b81c, 0x378dcfb4, 0xcd47fd0e,
      0x2dafb216, 0x27c89cd6, 0xcd3c9aa0, 0x79fc89c7, 0x10aef18d, 0x16218765, 0x68f76705, 0x4d6ee22] =
      [0x3a14032, 0x66b15927, 0x9d6b6b42, 0xb84c4109, 0xa7143ae0, 0xa09b33dd, 0xa5daaf88, 0x2fd91a73,
      0xc90c6b18, 0x5a202413, 0xc20e01b6, 0x72cd6b74, 0xba35d777, 0xb360f1bf, 0x8178315b, 0x2cd11b1a]" by code_simp
  have r3: "double_round [0x3a14032, 0x66b15927, 0x9d6b6b42, 0xb84c4109, 0xa7143ae0, 0xa09b33dd, 0xa5daaf88, 0x2fd91a73,
      0xc90c6b18, 0x5a202413, 0xc20e01b6, 0x72cd6b74, 0xba35d777, 0xb360f1bf, 0x8178315b, 0x2cd11b1a] =
      [0x9a2d3589, 0xb23fc4e, 0x40af3b6b, 0xceea8144, 0xa1bffc6, 0x5e5993f7, 0x9904c2e7, 0xd334718,
      0xe46c6354, 0xc9503229, 0x4fef5aa, 0xf8933f72, 0x2687d476, 0x54e65231, 0x3594ffc5, 0x2b3bb2ca]" by code_simp
  have r4: "double_round [0x9a2d3589, 0xb23fc4e, 0x40af3b6b, 0xceea8144, 0xa1bffc6, 0x5e5993f7, 0x9904c2e7, 0xd334718,
      0xe46c6354, 0xc9503229, 0x4fef5aa, 0xf8933f72, 0x2687d476, 0x54e65231, 0x3594ffc5, 0x2b3bb2ca] =
      [0xc53318c5, 0xca325d96, 0x7e7d11cb, 0x3404e2ca, 0x26d7cf73, 0x6088d379, 0xc0f0e9bd, 0xe310cdb9,
      0xae2ca8db, 0x42f67c72, 0x71669aca, 0x975c171d, 0x9e5ec228, 0x7d85a9f3, 0x201d0756, 0x63fa6953]" by code_simp
  have r5: "double_round [0xc53318c5, 0xca325d96, 0x7e7d11cb, 0x3404e2ca, 0x26d7cf73, 0x6088d379, 0xc0f0e9bd, 0xe310cdb9,
      0xae2ca8db, 0x42f67c72, 0x71669aca, 0x975c171d, 0x9e5ec228, 0x7d85a9f3, 0x201d0756, 0x63fa6953] =
      [0x4a3131a, 0x66176309, 0x415bab1, 0x61b880a2, 0x36cc86c7, 0xbf8a4465, 0xf77dd720, 0xfc0bdc90,
      0x7d13aca, 0xeb0be9af, 0x61599491, 0x918512dc, 0x33b6686d, 0x795cc671, 0xc0049972, 0xa0a81bde]" by code_simp
  have r6: "double_round [0x4a3131a, 0x66176309, 0x415bab1, 0x61b880a2, 0x36cc86c7, 0xbf8a4465, 0xf77dd720, 0xfc0bdc90,
      0x7d13aca, 0xeb0be9af, 0x61599491, 0x918512dc, 0x33b6686d, 0x795cc671, 0xc0049972, 0xa0a81bde] =
      [0x9b70f51f, 0x7ea8ac11, 0x21e54da9, 0xca393b2f, 0x93b08686, 0x6a4c50ae, 0x19212a5a, 0x9b032958,
      0xd839165e, 0x4c06e28a, 0xd3fde99e, 0x26acc13d, 0xa609f555, 0x2c246549, 0x95151853, 0x2c847a0d]" by code_simp
  have r7: "double_round [0x9b70f51f, 0x7ea8ac11, 0x21e54da9, 0xca393b2f, 0x93b08686, 0x6a4c50ae, 0x19212a5a, 0x9b032958,
      0xd839165e, 0x4c06e28a, 0xd3fde99e, 0x26acc13d, 0xa609f555, 0x2c246549, 0x95151853, 0x2c847a0d] =
      [0xca5c85dd, 0x93a4f90e, 0xd9f0df58, 0x26dd82dd, 0x982563f8, 0x712aa9ff, 0x279a61e8, 0x970f72bd,
      0x1c25931a, 0x5180bb10, 0x779c27e7, 0x54077e08, 0xa9b751fb, 0x382f3ce2, 0x8db1757d, 0xcc38080b]" by code_simp
  have r8: "double_round [0xca5c85dd, 0x93a4f90e, 0xd9f0df58, 0x26dd82dd, 0x982563f8, 0x712aa9ff, 0x279a61e8, 0x970f72bd,
      0x1c25931a, 0x5180bb10, 0x779c27e7, 0x54077e08, 0xa9b751fb, 0x382f3ce2, 0x8db1757d, 0xcc38080b] =
      [0xb6b87de6, 0x9a016148, 0x93859815, 0x4915e6cc, 0xdc33c122, 0x98e18fa3, 0x5ffbe8fc, 0xf7154b8b,
      0x28c1fcb3, 0xc4b38f9d, 0x83e2f5d7, 0x7d24b98b, 0x21078b22, 0xb193e7a3, 0xb2f49389, 0x6cde6026]" by code_simp
  have r9: "double_round [0xb6b87de6, 0x9a016148, 0x93859815, 0x4915e6cc, 0xdc33c122, 0x98e18fa3, 0x5ffbe8fc, 0xf7154b8b,
      0x28c1fcb3, 0xc4b38f9d, 0x83e2f5d7, 0x7d24b98b, 0x21078b22, 0xb193e7a3, 0xb2f49389, 0x6cde6026] =
      [0x837778ab, 0xe238d763, 0xa67ae21e, 0x5950bb2f, 0xc4f2d0c7, 0xfc62bb2f, 0x8fa018fc, 0x3f5ec7b7,
      0x335271c2, 0xf29489f3, 0xeabda8fc, 0x82e46ebd, 0xd19c12b4, 0xb04e16de, 0x9e83d0cb, 0x4e3c50a2]" by code_simp
  have ten: "(f ^^ 10) x = f (f (f (f (f (f (f (f (f (f x)))))))))" for f :: "u32 list \<Rightarrow> u32 list" and x
    by (simp add: numeral_eq_Suc)
  have rounds: "chacha20_rounds ?j = [0x837778ab, 0xe238d763, 0xa67ae21e, 0x5950bb2f, 0xc4f2d0c7, 0xfc62bb2f, 0x8fa018fc, 0x3f5ec7b7,
      0x335271c2, 0xf29489f3, 0xeabda8fc, 0x82e46ebd, 0xd19c12b4, 0xb04e16de, 0x9e83d0cb, 0x4e3c50a2]"
    unfolding chacha20_rounds_def ten by (simp only: r0 r1 r2 r3 r4 r5 r6 r7 r8 r9)
  show ?thesis unfolding rfc_block_def start chacha20_block_def rounds by code_simp
qed

end
