(* ===== verification/Poly1305.thy ===== *)
theory Poly1305
  imports SodiumUtils
begin

text \<open>
  Poly1305 as libsodium computes it on 64-bit machines (\<^verbatim>\<open>crypto_onetimeauth/poly1305/donna\<close>: \<^verbatim>\<open>poly1305_donna64.h\<close>
  and \<^verbatim>\<open>poly1305_donna.c\<close>): numbers below \<open>2 ^ 130\<close> in limbs of 44, 44 and 42 bits, reduced lazily
  modulo \<open>2 ^ 130 - 5\<close>, and a buffer for the bytes that do not fill a block. It is shown to compute the
  authenticator of RFC 8439, however the message is cut into updates.
\<close>

section \<open>The code\<close>

type_synonym limbs = "u64 \<times> u64 \<times> u64"

record poly1305_state =
  poly_r :: limbs
  poly_h :: limbs
  poly_pad :: "u64 \<times> u64"
  poly_leftover :: nat
  poly_buffer :: bytes
  poly_final :: bool

definition poly1305_block_size :: nat where "poly1305_block_size = 16"

definition poly1305_init :: "bytes \<Rightarrow> poly1305_state" where
  "poly1305_init key =
     (let t0 = load64_le key; t1 = load64_le (drop 8 key)
      in \<lparr> poly_r = (t0 AND 0xffc0fffffff,
                    (drop_bit 44 t0 OR push_bit 20 t1) AND 0xfffffc0ffff,
                    drop_bit 24 t1 AND 0x00ffffffc0f),
           poly_h = (0, 0, 0),
           poly_pad = (load64_le (drop 16 key), load64_le (drop 24 key)),
           poly_leftover = 0, poly_buffer = replicate 16 0, poly_final = False \<rparr>)"

definition MUL :: "u64 \<Rightarrow> u64 \<Rightarrow> u128" where "MUL x y = ucast x * ucast y"
definition SHR :: "u128 \<Rightarrow> nat \<Rightarrow> u64" where "SHR d shift = ucast (drop_bit shift d)"
definition LO :: "u128 \<Rightarrow> u64" where "LO d = ucast d"

text \<open>The body of the loop of \<open>poly1305_blocks\<close> for the block at \<open>m\<close>.\<close>

definition poly1305_step :: "limbs \<Rightarrow> u64 \<Rightarrow> limbs \<Rightarrow> bytes \<Rightarrow> limbs" where
  "poly1305_step r hibit h m =
     (let (r0, r1, r2) = r; (h0, h1, h2) = h;
          s1 = r1 * (5 * 4); s2 = r2 * (5 * 4);
          t0 = load64_le m; t1 = load64_le (drop 8 m);
          h0 = h0 + (t0 AND 0xfffffffffff);
          h1 = h1 + ((drop_bit 44 t0 OR push_bit 20 t1) AND 0xfffffffffff);
          h2 = h2 + ((drop_bit 24 t1 AND 0x3ffffffffff) OR hibit);
          d0 = MUL h0 r0 + MUL h1 s2 + MUL h2 s1;
          d1 = MUL h0 r1 + MUL h1 r0 + MUL h2 s2;
          d2 = MUL h0 r2 + MUL h1 r1 + MUL h2 r0;
          c = SHR d0 44; h0 = LO d0 AND 0xfffffffffff;
          d1 = d1 + ucast c;
          c = SHR d1 44; h1 = LO d1 AND 0xfffffffffff;
          d2 = d2 + ucast c;
          c = SHR d2 42; h2 = LO d2 AND 0x3ffffffffff;
          h0 = h0 + c * 5;
          c = drop_bit 44 h0; h0 = h0 AND 0xfffffffffff;
          h1 = h1 + c
      in (h0, h1, h2))"

function poly1305_loop :: "limbs \<Rightarrow> u64 \<Rightarrow> limbs \<Rightarrow> bytes \<Rightarrow> limbs" where
  "poly1305_loop r hibit h m =
     (if length m < poly1305_block_size then h
      else poly1305_loop r hibit (poly1305_step r hibit h m) (drop poly1305_block_size m))"
  by pat_completeness auto
termination by (relation "measure (\<lambda>(r, hibit, h, m). length m)") (auto simp: poly1305_block_size_def)
declare poly1305_loop.simps [simp del]

definition poly1305_blocks :: "bytes \<Rightarrow> poly1305_state \<Rightarrow> poly1305_state" where
  "poly1305_blocks m st =
     (let hibit = (if poly_final st then 0 else push_bit 40 1)
      in st\<lparr>poly_h := poly1305_loop (poly_r st) hibit (poly_h st) m\<rparr>)"

definition at :: "nat \<Rightarrow> bytes \<Rightarrow> bytes \<Rightarrow> bytes" where
  "at i xs buf = take i buf @ xs @ drop (i + length xs) buf"

definition store_leftover :: "bytes \<Rightarrow> poly1305_state \<Rightarrow> poly1305_state" where
  "store_leftover m st =
     (if m = [] then st
      else st\<lparr>poly_buffer := at (poly_leftover st) m (poly_buffer st),
              poly_leftover := poly_leftover st + length m\<rparr>)"

definition full_blocks :: "bytes \<Rightarrow> poly1305_state \<Rightarrow> poly1305_state" where
  "full_blocks m st =
     (if poly1305_block_size \<le> length m then
        let want = length m - length m mod poly1305_block_size
        in store_leftover (drop want m) (poly1305_blocks (take want m) st)
      else store_leftover m st)"

definition poly1305_update :: "bytes \<Rightarrow> poly1305_state \<Rightarrow> poly1305_state" where
  "poly1305_update m st =
     (if poly_leftover st \<noteq> 0 then
        let want = min (poly1305_block_size - poly_leftover st) (length m);
            st = st\<lparr>poly_buffer := at (poly_leftover st) (take want m) (poly_buffer st),
                    poly_leftover := poly_leftover st + want\<rparr>
        in if poly_leftover st < poly1305_block_size then st
           else full_blocks (drop want m) ((poly1305_blocks (poly_buffer st) st)\<lparr>poly_leftover := 0\<rparr>)
      else full_blocks m st)"

text \<open>The remaining block of \<open>poly1305_finish\<close>, then the number it is left with.\<close>

definition finish_block :: "poly1305_state \<Rightarrow> poly1305_state" where
  "finish_block st =
     (if poly_leftover st \<noteq> 0 then
        let buf = at (poly_leftover st) (1 # replicate (poly1305_block_size - poly_leftover st - 1) 0) (poly_buffer st);
            st = st\<lparr>poly_buffer := buf, poly_final := True\<rparr>
        in poly1305_blocks buf st
      else st)"

definition full_carry :: "limbs \<Rightarrow> limbs" where
  "full_carry h =
     (let (h0, h1, h2) = h;
          c = drop_bit 44 h1; h1 = h1 AND 0xfffffffffff; h2 = h2 + c;
          c = drop_bit 42 h2; h2 = h2 AND 0x3ffffffffff; h0 = h0 + c * 5;
          c = drop_bit 44 h0; h0 = h0 AND 0xfffffffffff; h1 = h1 + c
      in (h0, h1, h2))"

text \<open>\<open>h\<close> or \<open>h - p\<close>, selected with a mask.\<close>

definition reduce :: "limbs \<Rightarrow> limbs" where
  "reduce h =
     (let (h0, h1, h2) = h;
          g0 = h0 + 5; c = drop_bit 44 g0; g0 = g0 AND 0xfffffffffff;
          g1 = h1 + c; c = drop_bit 44 g1; g1 = g1 AND 0xfffffffffff;
          g2 = h2 + c - push_bit 42 1;
          mask = drop_bit 63 g2 - 1;
          g0 = g0 AND mask; g1 = g1 AND mask; g2 = g2 AND mask;
          mask = NOT mask
      in ((h0 AND mask) OR g0, (h1 AND mask) OR g1, (h2 AND mask) OR g2))"

definition add_pad :: "u64 \<times> u64 \<Rightarrow> limbs \<Rightarrow> bytes" where
  "add_pad pad h =
     (let (t0, t1) = pad; (h0, h1, h2) = h;
          h0 = h0 + (t0 AND 0xfffffffffff); c = drop_bit 44 h0; h0 = h0 AND 0xfffffffffff;
          h1 = h1 + (((drop_bit 44 t0 OR push_bit 20 t1) AND 0xfffffffffff) + c);
          c = drop_bit 44 h1; h1 = h1 AND 0xfffffffffff;
          h2 = h2 + ((drop_bit 24 t1 AND 0x3ffffffffff) + c); h2 = h2 AND 0x3ffffffffff;
          w0 = h0 OR push_bit 44 h1; w1 = drop_bit 20 h1 OR push_bit 24 h2
      in store64_le w0 @ store64_le w1)"

definition poly1305_finish :: "poly1305_state \<Rightarrow> bytes" where
  "poly1305_finish st =
     (let st = finish_block st
      in add_pad (poly_pad st) (reduce (full_carry (full_carry (poly_h st)))))"

definition crypto_onetimeauth_poly1305 :: "bytes \<Rightarrow> bytes \<Rightarrow> bytes" where
  "crypto_onetimeauth_poly1305 m key = poly1305_finish (poly1305_update m (poly1305_init key))"

lemma length_add_pad: "length (add_pad pad h) = 16"
  by (simp add: add_pad_def Let_def split: prod.split)

lemma length_finish [simp]: "length (poly1305_finish st) = 16"
  by (simp add: poly1305_finish_def Let_def length_add_pad)

section \<open>Words as numbers\<close>

lemma unat_AND_low:
  "unat (x AND 0xfffffffffff :: u64) = unat x mod 2 ^ 44"
  "unat (x AND 0x3ffffffffff :: u64) = unat x mod 2 ^ 42"
proof -
  have "(0xfffffffffff :: u64) = mask 44" "(0x3ffffffffff :: u64) = mask 42" by (simp_all add: mask_eq_exp_minus_1)
  then show "unat (x AND 0xfffffffffff) = unat x mod 2 ^ 44" "unat (x AND 0x3ffffffffff) = unat x mod 2 ^ 42"
    by (simp_all only: take_bit_eq_mask [symmetric] unsigned_take_bit_eq take_bit_eq_mod [where 'a = nat])
qed

lemma unat_middle:
  "unat ((drop_bit 44 t0 OR push_bit 20 t1) AND 0xfffffffffff :: u64) = (unat t0 div 2 ^ 44 + 2 ^ 20 * unat t1) mod 2 ^ 44"
proof -
  have t0: "unat t0 div 2 ^ 44 < 2 ^ 20" using unsigned_less [of t0, where 'a = nat] by (simp add: less_mult_imp_div_less)
  have "unat (drop_bit 44 t0 OR push_bit 20 t1) = unat t0 div 2 ^ 44 OR take_bit 64 (push_bit 20 (unat t1))"
    by (simp add: unsigned_or_eq unat_drop unsigned_push_bit_eq)
  also have "take_bit 64 (push_bit 20 (unat t1)) = push_bit 20 (take_bit 44 (unat t1))"
    by (simp add: take_bit_push_bit)
  also have "unat t0 div 2 ^ 44 OR push_bit 20 (take_bit 44 (unat t1)) = unat t0 div 2 ^ 44 + 2 ^ 20 * take_bit 44 (unat t1)"
    using t0 by (rule or_push)
  finally have "unat (drop_bit 44 t0 OR push_bit 20 t1) mod 2 ^ 44 = (unat t0 div 2 ^ 44 + 2 ^ 20 * (unat t1 mod 2 ^ 44)) mod 2 ^ 44"
    by (simp only: take_bit_eq_mod)
  also have "\<dots> = (unat t0 div 2 ^ 44 + 2 ^ 20 * unat t1) mod 2 ^ 44" by (metis mod_add_right_eq mod_mult_right_eq)
  finally show ?thesis by (simp only: unat_AND_low)
qed

lemma limbs_of:
  assumes "t0 < 2 ^ 64"
  shows "t0 mod 2 ^ 44 + 2 ^ 44 * ((t0 div 2 ^ 44 + 2 ^ 20 * t1) mod 2 ^ 44) + 2 ^ 88 * (t1 div 2 ^ 24) = t0 + 2 ^ 64 * (t1 :: nat)"
proof -
  let ?x = "t0 div 2 ^ 44 + 2 ^ 20 * t1"
  have "t0 div 2 ^ 44 < 2 ^ 20" using assms by (simp add: less_mult_imp_div_less)
  then have "?x div 2 ^ 20 = t1" by simp
  moreover have "?x div 2 ^ 44 = ?x div 2 ^ 20 div 2 ^ 24" by (simp add: div_mult2_eq [symmetric])
  ultimately have x: "?x mod 2 ^ 44 + 2 ^ 44 * (t1 div 2 ^ 24) = ?x" by (metis mod_mult_div_eq)
  define m d u q where "m = t0 mod 2 ^ 44" "d = t0 div 2 ^ 44" "u = ?x mod 2 ^ 44" "q = t1 div 2 ^ 24"
  note defs = this
  have "m + 2 ^ 44 * d = t0" unfolding defs by (rule mod_mult_div_eq)
  moreover have "u + 2 ^ 44 * q = d + 2 ^ 20 * t1" using x unfolding defs .
  ultimately have "m + 2 ^ 44 * u + 2 ^ 88 * q = t0 + 2 ^ 64 * t1" by simp
  then show ?thesis unfolding defs .
qed

definition val :: "limbs \<Rightarrow> nat" where
  "val h = (case h of (h0, h1, h2) \<Rightarrow> unat h0 + 2 ^ 44 * unat h1 + 2 ^ 88 * unat h2)"

section \<open>One block\<close>

definition P :: nat where "P = 2 ^ 130 - 5"

lemma P_5: "P + 5 = 2 ^ 130"
  by (simp add: P_def)

definition bounded :: "limbs \<Rightarrow> bool" where
  "bounded h \<longleftrightarrow> (case h of (h0, h1, h2) \<Rightarrow> unat h0 < 2 ^ 44 \<and> unat h1 < 2 ^ 44 + 2 ^ 12 \<and> unat h2 < 2 ^ 42)"

definition clamped :: "limbs \<Rightarrow> bool" where
  "clamped r \<longleftrightarrow> (case r of (r0, r1, r2) \<Rightarrow> unat r0 < 2 ^ 44 \<and> unat r1 < 2 ^ 44 \<and> unat r2 < 2 ^ 36)"

lemma products:
  fixes h0 :: nat
  shows "(h0 + 2 ^ 44 * h1 + 2 ^ 88 * h2) * (r0 + 2 ^ 44 * r1 + 2 ^ 88 * r2) =
    (h0 * r0 + h1 * (r2 * 20) + h2 * (r1 * 20)) + 2 ^ 44 * (h0 * r1 + h1 * r0 + h2 * (r2 * 20)) +
    2 ^ 88 * (h0 * r2 + h1 * r1 + h2 * r0) + P * (4 * (h1 * r2 + h2 * r1 + 2 ^ 44 * (h2 * r2)))"
  by (simp add: P_def algebra_simps)

lemma carries:
  fixes d0 :: nat
  assumes "c0 = d0 div 2 ^ 44" and "e1 = d1 + c0" and "c1 = e1 div 2 ^ 44" and "e2 = d2 + c1" and "c2 = e2 div 2 ^ 42"
    and "x0 = d0 mod 2 ^ 44 + c2 * 5"
  shows "x0 mod 2 ^ 44 + 2 ^ 44 * (e1 mod 2 ^ 44 + x0 div 2 ^ 44) + 2 ^ 88 * (e2 mod 2 ^ 42) + P * c2 =
    d0 + 2 ^ 44 * d1 + 2 ^ 88 * d2"
proof -
  define l0 l1 l2 y z where "l0 = d0 mod 2 ^ 44" "l1 = e1 mod 2 ^ 44" "l2 = e2 mod 2 ^ 42" "y = x0 mod 2 ^ 44" "z = x0 div 2 ^ 44"
  note defs = this
  have "l0 + 2 ^ 44 * c0 = d0" "l1 + 2 ^ 44 * c1 = e1" "l2 + 2 ^ 42 * c2 = e2" "y + 2 ^ 44 * z = x0"
    unfolding defs assms(1,3,5) by (rule mod_mult_div_eq)+
  then have "y + 2 ^ 44 * (l1 + z) + 2 ^ 88 * l2 + P * c2 = d0 + 2 ^ 44 * d1 + 2 ^ 88 * d2"
    using assms(2,4,6) unfolding defs(1) [symmetric] by (simp add: P_def)
  then show ?thesis unfolding defs .
qed

lemma unat_MUL: "unat (MUL x y) = unat x * unat y"
proof -
  have "unat x * unat y < 2 ^ 64 * 2 ^ 64"
    using unsigned_less [of x, where 'a = nat] unsigned_less [of y, where 'a = nat] by (intro mult_strict_mono) simp_all
  then show ?thesis unfolding MUL_def by (subst unat_times) (simp_all add: unat_ucast128)
qed

lemma unat_SHR: "unat d < 2 ^ (64 + n) \<Longrightarrow> unat (SHR d n) = unat d div 2 ^ n"
  by (simp add: SHR_def unsigned_ucast_eq take_bit_eq_mod unat_drop less_mult_imp_div_less power_add mult.commute)

lemma unat_LO: "unat (LO d AND 0xfffffffffff) = unat d mod 2 ^ 44" "unat (LO d AND 0x3ffffffffff) = unat d mod 2 ^ 42"
  by (simp_all add: unat_AND_low LO_def unsigned_ucast_eq take_bit_eq_mod mod_mod_cancel)

lemma step_correct:
  assumes h: "bounded h" and r: "clamped r" and "16 \<le> length m" and hibit: "hibit = 0 \<or> hibit = push_bit 40 1"
  shows "bounded (poly1305_step r hibit h m) \<and>
    val (poly1305_step r hibit h m) mod P = (val h + le (take 16 m) + 2 ^ 88 * unat hibit) * val r mod P"
proof -
  obtain h0 h1 h2 r0 r1 r2 where hr: "h = (h0, h1, h2)" "r = (r0, r1, r2)" by (cases h, cases r) auto
  have bh: "unat h0 < 2 ^ 44" "unat h1 < 2 ^ 44 + 2 ^ 12" "unat h2 < 2 ^ 42"
    and br: "unat r0 < 2 ^ 44" "unat r1 < 2 ^ 44" "unat r2 < 2 ^ 36"
    using h r by (simp_all add: bounded_def clamped_def hr)
  define t0 t1 where "t0 = load64_le m" "t1 = load64_le (drop 8 m)"
  note t = this
  have "le (take 16 m) = le (take 8 m @ take 8 (drop 8 m))" by (simp add: take_add [symmetric])
  also have "\<dots> = unat t0 + 2 ^ 64 * unat t1" using assms(3) by (simp add: le_append unat_load64 t)
  finally have m: "le (take 16 m) = unat t0 + 2 ^ 64 * unat t1" .
  have t64: "unat t0 < 2 ^ 64" "unat t1 < 2 ^ 64"
    using unsigned_less [of t0, where 'a = nat] unsigned_less [of t1, where 'a = nat] by simp_all
  have top: "unat t1 div 2 ^ 24 < 2 ^ 40" using t64(2) by (simp add: less_mult_imp_div_less)
  define s1 s2 where "s1 = r1 * (5 * 4)" "s2 = r2 * (5 * 4)"
  note s = this
  have us: "unat s1 = unat r1 * 20" "unat s2 = unat r2 * 20"
    unfolding s using br by (subst unat_times; simp)+
  define k0 k1 k2 where "k0 = h0 + (t0 AND 0xfffffffffff)"
    "k1 = h1 + ((drop_bit 44 t0 OR push_bit 20 t1) AND 0xfffffffffff)"
    "k2 = h2 + ((drop_bit 24 t1 AND 0x3ffffffffff) OR hibit)"
  note k = this
  have limb: "unat t0 mod 2 ^ 44 < 2 ^ 44" "(unat t0 div 2 ^ 44 + 2 ^ 20 * unat t1) mod 2 ^ 44 < 2 ^ 44" by simp_all
  have k0: "unat k0 = unat h0 + unat t0 mod 2 ^ 44" "unat k0 < 2 ^ 45"
    unfolding k using bh limb(1) by (subst unat_plus; simp add: unat_AND_low)+
  have k1: "unat k1 = unat h1 + (unat t0 div 2 ^ 44 + 2 ^ 20 * unat t1) mod 2 ^ 44" "unat k1 < 2 ^ 46"
    unfolding k using bh limb(2) by (subst unat_plus; simp add: unat_middle)+
  have "unat hibit = 0 \<or> unat hibit = push_bit 40 1" using hibit by (auto simp: push_bit_eq_mult)
  then have "unat ((drop_bit 24 t1 AND 0x3ffffffffff) OR hibit) = unat t1 div 2 ^ 24 + unat hibit"
    using top or_push [OF top, of 1] by (auto simp: unsigned_or_eq unat_AND_low unat_drop push_bit_eq_mult)
  moreover have "unat hibit \<le> 2 ^ 40" using hibit by (auto simp: push_bit_eq_mult)
  ultimately have k2: "unat k2 = unat h2 + (unat t1 div 2 ^ 24 + unat hibit)" "unat k2 < 2 ^ 43"
    unfolding k using bh top by (subst unat_plus; simp)+
  have vk: "unat k0 + 2 ^ 44 * unat k1 + 2 ^ 88 * unat k2 = val h + le (take 16 m) + 2 ^ 88 * unat hibit"
    unfolding k0(1) k1(1) k2(1) m val_def hr using limbs_of [OF t64(1), of "unat t1"] by simp
  define d0 d1 d2 where "d0 = MUL k0 r0 + MUL k1 s2 + MUL k2 s1"
    "d1 = MUL k0 r1 + MUL k1 r0 + MUL k2 s2" "d2 = MUL k0 r2 + MUL k1 r1 + MUL k2 r0"
  note d = this
  have b: "unat k0 * unat r0 < 2 ^ 45 * 2 ^ 44" "unat k1 * unat s2 < 2 ^ 46 * 2 ^ 41" "unat k2 * unat s1 < 2 ^ 43 * 2 ^ 49"
    "unat k0 * unat r1 < 2 ^ 45 * 2 ^ 44" "unat k1 * unat r0 < 2 ^ 46 * 2 ^ 44" "unat k2 * unat s2 < 2 ^ 43 * 2 ^ 41"
    "unat k0 * unat r2 < 2 ^ 45 * 2 ^ 36" "unat k1 * unat r1 < 2 ^ 46 * 2 ^ 44" "unat k2 * unat r0 < 2 ^ 43 * 2 ^ 44"
    by (rule product_less; use k0(2) k1(2) k2(2) br us in simp)+
  have d0: "unat d0 = unat k0 * unat r0 + unat k1 * (unat r2 * 20) + unat k2 * (unat r1 * 20)" "unat d0 < 2 ^ 93"
    unfolding d using b by (subst unat_plus; simp add: unat_MUL us unat_plus)+
  have d1: "unat d1 = unat k0 * unat r1 + unat k1 * unat r0 + unat k2 * (unat r2 * 20)" "unat d1 < 2 ^ 92"
    unfolding d using b by (subst unat_plus; simp add: unat_MUL us unat_plus)+
  have d2: "unat d2 = unat k0 * unat r2 + unat k1 * unat r1 + unat k2 * unat r0" "unat d2 < 2 ^ 92"
    unfolding d using b by (subst unat_plus; simp add: unat_MUL us unat_plus)+
  define c0 e1 c1 e2 c2 x0 where "c0 = SHR d0 44" "e1 = d1 + ucast c0" "c1 = SHR e1 44" "e2 = d2 + ucast c1"
    "c2 = SHR e2 42" "x0 = (LO d0 AND 0xfffffffffff) + c2 * 5"
  note w = this
  have c0: "unat c0 = unat d0 div 2 ^ 44" "unat c0 < 2 ^ 49"
    unfolding w using d0(2) by (subst unat_SHR; simp add: less_mult_imp_div_less)+
  have e1: "unat e1 = unat d1 + unat c0" "unat e1 < 2 ^ 93"
    unfolding w(2) using d1(2) c0(2) by (subst unat_plus; simp add: unat_ucast128)+
  have c1: "unat c1 = unat e1 div 2 ^ 44" "unat c1 < 2 ^ 49"
    unfolding w(3) using e1(2) by (subst unat_SHR; simp add: less_mult_imp_div_less)+
  have e2: "unat e2 = unat d2 + unat c1" "unat e2 < 2 ^ 93"
    unfolding w(4) using d2(2) c1(2) by (subst unat_plus; simp add: unat_ucast128)+
  have c2: "unat c2 = unat e2 div 2 ^ 42" "unat c2 < 2 ^ 51"
    unfolding w(5) using e2(2) by (subst unat_SHR; simp add: less_mult_imp_div_less)+
  have c5: "unat (c2 * 5) = unat c2 * 5" using c2(2) by (subst unat_times) simp_all
  have "unat d0 mod 2 ^ 44 < 2 ^ 44" by simp
  then have x0: "unat x0 = unat d0 mod 2 ^ 44 + unat c2 * 5" "unat x0 < 2 ^ 55"
    unfolding w(6) using c2(2) by (subst unat_plus; simp add: unat_LO c5)+
  have z: "unat x0 div 2 ^ 44 < 2 ^ 11" using x0(2) by (simp add: less_mult_imp_div_less)
  have step: "poly1305_step r hibit h m =
      (x0 AND 0xfffffffffff, (LO e1 AND 0xfffffffffff) + drop_bit 44 x0, LO e2 AND 0x3ffffffffff)"
    by (simp only: poly1305_step_def hr prod.case Let_def t [symmetric] s [symmetric] k [symmetric] d [symmetric] w [symmetric])
  have y1: "unat ((LO e1 AND 0xfffffffffff) + drop_bit 44 x0) = unat e1 mod 2 ^ 44 + unat x0 div 2 ^ 44"
  proof -
    have "unat e1 mod 2 ^ 44 < 2 ^ 44" by simp
    then show ?thesis using z by (subst unat_plus) (simp_all add: unat_LO unat_drop)
  qed
  have bounds: "bounded (poly1305_step r hibit h m)"
  proof -
    have "unat e1 mod 2 ^ 44 < 2 ^ 44" by simp
    then show ?thesis unfolding step bounded_def prod.case using z by (simp add: y1 unat_LO unat_AND_low)
  qed
  have "val (poly1305_step r hibit h m) + P * unat c2 =
      unat x0 mod 2 ^ 44 + 2 ^ 44 * (unat e1 mod 2 ^ 44 + unat x0 div 2 ^ 44) + 2 ^ 88 * (unat e2 mod 2 ^ 42) + P * unat c2"
    unfolding step val_def prod.case y1 by (simp only: unat_LO unat_AND_low(1))
  also have "\<dots> = unat d0 + 2 ^ 44 * unat d1 + 2 ^ 88 * unat d2"
    by (rule carries [OF c0(1) e1(1) c1(1) e2(1) c2(1) x0(1)])
  finally have sum: "val (poly1305_step r hibit h m) + P * unat c2 = unat d0 + 2 ^ 44 * unat d1 + 2 ^ 88 * unat d2" .
  have "(val h + le (take 16 m) + 2 ^ 88 * unat hibit) * val r =
      val (poly1305_step r hibit h m) + P * unat c2 + P * (4 * (unat k1 * unat r2 + unat k2 * unat r1 + 2 ^ 44 * (unat k2 * unat r2)))"
    unfolding vk [symmetric] sum d0(1) d1(1) d2(1) by (simp only: val_def hr prod.case products)
  then have "(val h + le (take 16 m) + 2 ^ 88 * unat hibit) * val r mod P = val (poly1305_step r hibit h m) mod P"
    by (simp only: mod_mult_self2)
  then show ?thesis using bounds by simp
qed

section \<open>The end\<close>

definition canonical :: "limbs \<Rightarrow> bool" where
  "canonical h \<longleftrightarrow> (case h of (h0, h1, h2) \<Rightarrow> unat h0 < 2 ^ 44 \<and> unat h1 < 2 ^ 44 \<and> unat h2 < 2 ^ 42)"

lemma full_carry_unat:
  assumes "bounded (h0, h1, h2)"
  shows "full_carry (h0, h1, h2) = (g0, g1, g2) \<Longrightarrow> \<exists>c2 x0.
    c2 = (unat h2 + unat h1 div 2 ^ 44) div 2 ^ 42 \<and> x0 = unat h0 + c2 * 5 \<and>
    unat g0 = x0 mod 2 ^ 44 \<and> unat g1 = unat h1 mod 2 ^ 44 + x0 div 2 ^ 44 \<and>
    unat g2 = (unat h2 + unat h1 div 2 ^ 44) mod 2 ^ 42 \<and> val (g0, g1, g2) + P * c2 = val (h0, h1, h2)"
proof -
  assume g: "full_carry (h0, h1, h2) = (g0, g1, g2)"
  have b: "unat h0 < 2 ^ 44" "unat h1 < 2 ^ 44 + 2 ^ 12" "unat h2 < 2 ^ 42" using assms by (simp_all add: bounded_def)
  define c1 e2 c2 x0 where "c1 = drop_bit 44 h1" "e2 = h2 + c1" "c2 = drop_bit 42 e2" "x0 = h0 + c2 * 5"
  note w = this
  have c1: "unat c1 = unat h1 div 2 ^ 44" "unat c1 < 2" unfolding w(1) using b by (simp_all add: unat_drop)
  have e2: "unat e2 = unat h2 + unat c1" "unat e2 < 2 ^ 42 + 2"
    unfolding w(2) using b c1(2) by (subst unat_plus; simp)+
  have c2: "unat c2 = unat e2 div 2 ^ 42" "unat c2 < 2" unfolding w(3) using e2(2) by (simp_all add: unat_drop)
  have "unat (c2 * 5) = unat c2 * 5" using c2(2) by (subst unat_times) simp_all
  then have x0: "unat x0 = unat h0 + unat c2 * 5" "unat x0 < 2 ^ 45"
    unfolding w(4) using b c2(2) by (subst unat_plus; simp)+
  have h1: "unat h1 mod 2 ^ 44 < 2 ^ 44" by simp
  have "g0 = x0 AND 0xfffffffffff" "g1 = (h1 AND 0xfffffffffff) + drop_bit 44 x0" "g2 = e2 AND 0x3ffffffffff"
    using g by (simp_all only: full_carry_def prod.case Let_def w [symmetric] prod.inject)
  then have u: "unat g0 = unat x0 mod 2 ^ 44" "unat g1 = unat h1 mod 2 ^ 44 + unat x0 div 2 ^ 44" "unat g2 = unat e2 mod 2 ^ 42"
    using x0(2) h1 by (simp_all add: unat_AND_low unat_drop unat_plus)
  have "val (g0, g1, g2) + P * unat c2 = val (h0, h1, h2)"
  proof -
    define y z v l where "y = unat x0 mod 2 ^ 44" "z = unat x0 div 2 ^ 44" "v = unat h1 mod 2 ^ 44" "l = unat e2 mod 2 ^ 42"
    note defs = this
    have "y + 2 ^ 44 * z = unat h0 + unat c2 * 5" "v + 2 ^ 44 * unat c1 = unat h1" "l + 2 ^ 42 * unat c2 = unat e2"
      unfolding defs c1(1) c2(1) x0(1) [unfolded c2(1), symmetric] by (rule mod_mult_div_eq)+
    then show ?thesis using e2(1) unfolding val_def prod.case u defs [symmetric] by (simp add: P_def)
  qed
  then show ?thesis using u unfolding e2(1) c1(1) c2(1) x0(1) by blast
qed

lemma full_carry_twice:
  assumes "bounded h"
  shows "canonical (full_carry (full_carry h)) \<and> val (full_carry (full_carry h)) mod P = val h mod P"
proof -
  obtain h0 h1 h2 g0 g1 g2 f0 f1 f2 where h: "h = (h0, h1, h2)" and g: "full_carry (h0, h1, h2) = (g0, g1, g2)"
    and f: "full_carry (g0, g1, g2) = (f0, f1, f2)"
    by (metis prod_cases3)
  have b: "unat h0 < 2 ^ 44" "unat h1 < 2 ^ 44 + 2 ^ 12" "unat h2 < 2 ^ 42" using assms by (simp_all add: bounded_def h)
  obtain c x where gc: "c = (unat h2 + unat h1 div 2 ^ 44) div 2 ^ 42" "x = unat h0 + c * 5" "unat g0 = x mod 2 ^ 44"
    "unat g1 = unat h1 mod 2 ^ 44 + x div 2 ^ 44" "unat g2 = (unat h2 + unat h1 div 2 ^ 44) mod 2 ^ 42"
    "val (g0, g1, g2) + P * c = val h"
    using full_carry_unat [OF assms [unfolded h] g] unfolding h by blast
  have "c < 2" unfolding gc(1) using b by simp
  then have x: "x < 2 ^ 44 + 10" unfolding gc(2) using b(1) by simp
  have bg: "unat g0 < 2 ^ 44" "unat g2 < 2 ^ 42" "unat g1 \<le> 2 ^ 44" "unat g1 = 2 ^ 44 \<Longrightarrow> unat g0 < 10"
  proof -
    have v: "unat h1 mod 2 ^ 44 < 2 ^ 44" by simp
    show "unat g0 < 2 ^ 44" "unat g2 < 2 ^ 42" unfolding gc(3,5) by simp_all
    have "x div 2 ^ 44 = 0 \<or> x div 2 ^ 44 = 1 \<and> x mod 2 ^ 44 < 10"
      using x le_div_geq [of "2 ^ 44" x] le_mod_geq [of "2 ^ 44" x] by (cases "x < 2 ^ 44") simp_all
    then show "unat g1 \<le> 2 ^ 44" "unat g1 = 2 ^ 44 \<Longrightarrow> unat g0 < 10" using v unfolding gc(3,4) by auto
  qed
  then have "bounded (g0, g1, g2)" by (simp add: bounded_def)
  from full_carry_unat [OF this f] obtain c' x' where fc: "c' = (unat g2 + unat g1 div 2 ^ 44) div 2 ^ 42" "x' = unat g0 + c' * 5"
    "unat f0 = x' mod 2 ^ 44" "unat f1 = unat g1 mod 2 ^ 44 + x' div 2 ^ 44" "unat f2 = (unat g2 + unat g1 div 2 ^ 44) mod 2 ^ 42"
    "val (f0, f1, f2) + P * c' = val (g0, g1, g2)"
    by blast
  have "x' div 2 ^ 44 = 0"
  proof (cases "unat g1 = 2 ^ 44")
    case True
    then show ?thesis using fc(1,2) bg by simp
  next
    case False
    then have "c' = 0" using fc(1) bg by simp
    then show ?thesis using fc(2) bg by simp
  qed
  then have "canonical (f0, f1, f2)" using fc(3-5) by (simp add: canonical_def)
  moreover have "val (f0, f1, f2) mod P = val h mod P" by (metis fc(6) gc(6) mod_mult_self2)
  ultimately show ?thesis unfolding h g f by simp
qed

lemma reduce_correct:
  assumes "canonical h"
  shows "canonical (reduce h) \<and> val (reduce h) = val h mod P"
proof -
  obtain h0 h1 h2 where h: "h = (h0, h1, h2)" by (cases h) auto
  have b: "unat h0 < 2 ^ 44" "unat h1 < 2 ^ 44" "unat h2 < 2 ^ 42" using assms by (simp_all add: canonical_def h)
  define x0 x1 e2 where "x0 = h0 + 5" "x1 = h1 + drop_bit 44 x0" "e2 = h2 + drop_bit 44 x1"
  note x = this
  have x0: "unat x0 = unat h0 + 5" "unat x0 < 2 ^ 45" unfolding x(1) using b by (subst unat_plus; simp)+
  have "unat x0 div 2 ^ 44 < 2" using x0(2) by simp
  then have x1: "unat x1 = unat h1 + unat x0 div 2 ^ 44" "unat x1 < 2 ^ 45"
    unfolding x(2) using b by (subst unat_plus; simp add: unat_drop)+
  have "unat x1 div 2 ^ 44 < 2" using x1(2) by simp
  then have e2: "unat e2 = unat h2 + unat x1 div 2 ^ 44" "unat e2 < 2 ^ 42 + 2"
    unfolding x(3) using b by (subst unat_plus; simp add: unat_drop)+
  define g0 g1 where "g0 = x0 AND 0xfffffffffff" "g1 = x1 AND 0xfffffffffff"
  note g = this
  have ug: "unat g0 = unat x0 mod 2 ^ 44" "unat g1 = unat x1 mod 2 ^ 44" unfolding g by (rule unat_AND_low)+
  have sum: "unat g0 + 2 ^ 44 * unat g1 + 2 ^ 88 * unat e2 = val h + 5"
  proof -
    have "unat g0 + 2 ^ 44 * (unat x0 div 2 ^ 44) = unat h0 + 5" "unat g1 + 2 ^ 44 * (unat x1 div 2 ^ 44) = unat x1"
      unfolding ug x0(1) [symmetric] by (rule mod_mult_div_eq)+
    then show ?thesis unfolding val_def h prod.case e2(1) x1(1) by simp
  qed
  have gb: "unat g0 < 2 ^ 44" "unat g1 < 2 ^ 44" unfolding ug by simp_all
  have small: "val h < 2 ^ 130" using b by (simp add: val_def h)
  define g2 where "g2 = e2 - push_bit 42 1"
  have red: "reduce h = (let mask = drop_bit 63 g2 - 1 in
      ((h0 AND NOT mask) OR (g0 AND mask), (h1 AND NOT mask) OR (g1 AND mask), (h2 AND NOT mask) OR (g2 AND mask)))"
    by (simp only: reduce_def h prod.case Let_def x [symmetric] g [symmetric] g2_def [symmetric])
  have one: "unat (push_bit 42 1 :: u64) = 2 ^ 42" by (simp add: push_bit_eq_mult)
  show ?thesis
  proof (cases "2 ^ 42 \<le> unat e2")
    case True
    then have "unat g2 = unat e2 - 2 ^ 42" unfolding g2_def using one unat_sub_if' [of e2 "push_bit 42 1"] by simp
    then have u2: "unat g2 < 2" "unat e2 = unat g2 + 2 ^ 42" using e2(2) True by simp_all
    have "unat (drop_bit 63 g2) = 0" using u2(1) by (simp add: unat_drop)
    then have "drop_bit 63 g2 = 0" by (simp add: unsigned_eq_0_iff)
    then have r: "reduce h = (g0, g1, g2)" unfolding red by (simp add: Let_def)
    have "unat g0 + 2 ^ 44 * unat g1 + 2 ^ 88 * unat g2 + P = val h" using sum unfolding u2(2) by (simp add: P_def)
    then have v: "val (g0, g1, g2) + P = val h" by (simp add: val_def)
    then have "val (g0, g1, g2) < P" using small by (simp add: P_def)
    then have "val (g0, g1, g2) = val h mod P" unfolding v [symmetric] by simp
    then show ?thesis unfolding r canonical_def prod.case using gb u2(1) by simp
  next
    case False
    then have "unat g2 = unat e2 + 2 ^ 64 - 2 ^ 42" unfolding g2_def using one unat_sub_if' [of e2 "push_bit 42 1"] by simp
    then have "unat (drop_bit 63 g2) = 1" using False by (simp add: unat_drop)
    then have "drop_bit 63 g2 = 1" by (simp add: word_unat_eq_iff)
    then have r: "reduce h = h" unfolding red by (simp add: Let_def h)
    have "2 ^ 88 * unat e2 + 2 ^ 88 \<le> 2 ^ 130" using False by simp
    moreover have "unat g0 + 2 ^ 44 * unat g1 < 2 ^ 88" using gb by simp
    ultimately have "val h + 5 < 2 ^ 130" using sum by linarith
    then have "val h < P" by (simp add: P_def)
    then show ?thesis unfolding r using assms by simp
  qed
qed

lemma add_pad_correct:
  assumes "canonical h"
  shows "le (add_pad (t0, t1) h) = (val h + unat t0 + 2 ^ 64 * unat t1) mod 2 ^ 128 \<and> length (add_pad (t0, t1) h) = 16"
proof -
  obtain h0 h1 h2 where h: "h = (h0, h1, h2)" by (cases h) auto
  have b: "unat h0 < 2 ^ 44" "unat h1 < 2 ^ 44" "unat h2 < 2 ^ 42" using assms by (simp_all add: canonical_def h)
  have t64: "unat t0 < 2 ^ 64" "unat t1 < 2 ^ 64"
    using unsigned_less [of t0, where 'a = nat] unsigned_less [of t1, where 'a = nat] by simp_all
  have top: "unat t1 div 2 ^ 24 < 2 ^ 40" using t64(2) by (simp add: less_mult_imp_div_less)
  let ?mid = "(unat t0 div 2 ^ 44 + 2 ^ 20 * unat t1) mod 2 ^ 44"
  have mid: "?mid < 2 ^ 44" "unat t0 mod 2 ^ 44 < 2 ^ 44" by simp_all
  define k0 k1 k2 where "k0 = h0 + (t0 AND 0xfffffffffff)"
    "k1 = h1 + (((drop_bit 44 t0 OR push_bit 20 t1) AND 0xfffffffffff) + drop_bit 44 k0)"
    "k2 = h2 + ((drop_bit 24 t1 AND 0x3ffffffffff) + drop_bit 44 k1)"
  note k = this
  have k0: "unat k0 = unat h0 + unat t0 mod 2 ^ 44" "unat k0 < 2 ^ 45"
    unfolding k(1) using b mid by (subst unat_plus; simp add: unat_AND_low)+
  have c0: "unat k0 div 2 ^ 44 < 2" using k0(2) by simp
  then have k1: "unat k1 = unat h1 + (?mid + unat k0 div 2 ^ 44)" "unat k1 < 2 ^ 46"
    unfolding k(2) using b mid by (subst unat_plus; simp add: unat_middle unat_drop unat_plus)+
  have c1: "unat k1 div 2 ^ 44 < 4" using k1(2) by simp
  then have k2: "unat k2 = unat h2 + (unat t1 div 2 ^ 24 + unat k1 div 2 ^ 44)"
    unfolding k(3) using b top by (subst unat_plus; simp add: unat_AND_low unat_drop unat_plus)
  define l0 l1 l2 where "l0 = k0 AND 0xfffffffffff" "l1 = k1 AND 0xfffffffffff" "l2 = k2 AND 0x3ffffffffff"
  note l = this
  have ul: "unat l0 = unat k0 mod 2 ^ 44" "unat l1 = unat k1 mod 2 ^ 44" "unat l2 = unat k2 mod 2 ^ 42"
    unfolding l by (rule unat_AND_low)+
  have lb: "unat l0 < 2 ^ 44" "unat l1 < 2 ^ 44" unfolding ul by simp_all
  have w0: "unat (l0 OR push_bit 44 l1) = unat l0 + 2 ^ 44 * (unat l1 mod 2 ^ 20)"
    using unat_or_push_mod [of l0 44 l1] lb by simp
  have "unat l1 div 2 ^ 20 < 2 ^ 24" using lb(2) by (simp add: less_mult_imp_div_less)
  then have w1: "unat (drop_bit 20 l1 OR push_bit 24 l2) = unat l1 div 2 ^ 20 + 2 ^ 24 * (unat l2 mod 2 ^ 40)"
    using unat_or_push_mod [of "drop_bit 20 l1" 24 l2] by (simp add: unat_drop)
  have pad: "add_pad (t0, t1) h = store64_le (l0 OR push_bit 44 l1) @ store64_le (drop_bit 20 l1 OR push_bit 24 l2)"
    by (simp only: add_pad_def h prod.case Let_def k [symmetric] l [symmetric])
  have "le (add_pad (t0, t1) h) = unat l0 + 2 ^ 44 * (unat l1 mod 2 ^ 20) + 2 ^ 64 * (unat l1 div 2 ^ 20 + 2 ^ 24 * (unat l2 mod 2 ^ 40))"
    unfolding pad by (simp add: le_append w0 w1)
  also have "\<dots> = (unat l0 + 2 ^ 44 * unat l1 + 2 ^ 88 * unat k2) mod 2 ^ 128"
  proof -
    have k: "unat l2 mod 2 ^ 40 = unat k2 mod 2 ^ 40" unfolding ul(3) by (simp add: mod_mod_cancel)
    define u v where "u = unat l1 mod 2 ^ 20" "v = unat l1 div 2 ^ 20"
    note uv = this
    have s: "u + 2 ^ 20 * v = unat l1" unfolding uv by (rule mod_mult_div_eq)
    have "u < 2 ^ 20" unfolding uv by simp
    then have a: "unat l0 + 2 ^ 44 * u < 2 ^ 64" using lb(1) by simp
    have v: "v < 2 ^ 24" unfolding uv by fact
    have "unat l0 + 2 ^ 44 * unat l1 + 2 ^ 88 * unat k2 = (unat l0 + 2 ^ 44 * u) + 2 ^ 64 * (v + 2 ^ 24 * unat k2)"
      unfolding s [symmetric] by simp
    also have "\<dots> mod 2 ^ (64 + 64) = unat l0 + 2 ^ 44 * u + 2 ^ 64 * ((v + 2 ^ 24 * unat k2) mod 2 ^ (24 + 40))"
      by (subst mod_split [OF a]) simp
    also have "\<dots> = unat l0 + 2 ^ 44 * u + 2 ^ 64 * (v + 2 ^ 24 * (unat k2 mod 2 ^ 40))"
      by (simp only: mod_split [OF v])
    finally show ?thesis unfolding k uv by simp
  qed
  also have "unat l0 + 2 ^ 44 * unat l1 + 2 ^ 88 * unat k2 = val h + unat t0 + 2 ^ 64 * unat t1"
  proof -
    have "unat l0 + 2 ^ 44 * (unat k0 div 2 ^ 44) = unat k0" "unat l1 + 2 ^ 44 * (unat k1 div 2 ^ 44) = unat k1"
      unfolding ul by (rule mod_mult_div_eq)+
    then have "unat l0 + 2 ^ 44 * unat l1 + 2 ^ 88 * unat k2 = val h + (unat t0 mod 2 ^ 44 + 2 ^ 44 * ?mid + 2 ^ 88 * (unat t1 div 2 ^ 24))"
      unfolding val_def h prod.case k2 using k0(1) k1(1) by simp
    then show ?thesis using limbs_of [OF t64(1), of "unat t1"] by simp
  qed
  finally show ?thesis using pad by simp
qed

section \<open>The authenticator of RFC 8439\<close>

definition clamp :: "nat \<Rightarrow> nat" where
  "clamp r = r AND 0x0ffffffc0ffffffc0ffffffc0fffffff"

function accumulate :: "nat \<Rightarrow> nat \<Rightarrow> bytes \<Rightarrow> nat" where
  "accumulate r a m = (if m = [] then a else accumulate r ((a + le (take 16 m @ [1])) * r mod P) (drop 16 m))"
  by pat_completeness auto
termination by (relation "measure (\<lambda>(r, a, m). length m)") auto
declare accumulate.simps [simp del]

definition rfc_poly1305 :: "bytes \<Rightarrow> bytes \<Rightarrow> nat" where
  "rfc_poly1305 key m = (accumulate (clamp (le (take 16 key))) 0 m mod P + le (take 16 (drop 16 key))) mod 2 ^ 128"

lemma and_le: "x AND m \<le> m" "m AND x \<le> m" for x m :: nat
proof -
  have "int (x AND m) \<le> int m" by (simp only: of_nat_and_eq AND_upper2 of_nat_0_le_iff)
  then show "x AND m \<le> m" "m AND x \<le> m" by (simp_all add: and.commute)
qed

lemma and_split:
  fixes a m b c :: nat
  assumes "a < 2 ^ n" and "m < 2 ^ n"
  shows "(a + 2 ^ n * b) AND (m + 2 ^ n * c) = (a AND m) + 2 ^ n * (b AND c)"
proof -
  have bits: "bit x i \<Longrightarrow> i < n" if "x < 2 ^ n" for x :: nat and i
    using that by (metis bit_take_bit_iff take_bit_nat_eq_self)
  have "(a OR push_bit n b) AND (m OR push_bit n c) = (a AND m) OR push_bit n (b AND c)"
    by (intro bit_eqI) (auto simp: bit_simps dest: bits [OF assms(1)] bits [OF assms(2)])
  moreover have "a AND m < 2 ^ n" using assms(1) by (rule le_less_trans [OF and_le(2)])
  ultimately show ?thesis using or_push [OF assms(1)] or_push [OF assms(2)] or_push [of "a AND m" n]
    by (simp del: push_bit_and)
qed

lemma clamp_limbs:
  assumes "a < 2 ^ 44" and "b < 2 ^ 44"
  shows "clamp (a + 2 ^ 44 * b + 2 ^ 88 * c) =
    (a AND 0xffc0fffffff) + 2 ^ 44 * (b AND 0xfffffc0ffff) + 2 ^ 88 * (c AND 0x00ffffffc0f)"
proof -
  have "(0x0ffffffc0ffffffc0ffffffc0fffffff :: nat) = 0xffc0fffffff + 2 ^ 44 * (0xfffffc0ffff + 2 ^ 44 * 0x00ffffffc0f)" by simp
  moreover have "a + 2 ^ 44 * b + 2 ^ 88 * c = a + 2 ^ 44 * (b + 2 ^ 44 * c)" by simp
  ultimately have "clamp (a + 2 ^ 44 * b + 2 ^ 88 * c) = (a + 2 ^ 44 * (b + 2 ^ 44 * c)) AND (0xffc0fffffff + 2 ^ 44 * (0xfffffc0ffff + 2 ^ 44 * 0x00ffffffc0f))"
    by (simp only: clamp_def)
  also have "\<dots> = (a AND 0xffc0fffffff) + 2 ^ 44 * ((b + 2 ^ 44 * c) AND (0xfffffc0ffff + 2 ^ 44 * 0x00ffffffc0f))"
    by (rule and_split) (use assms(1) in simp_all)
  also have "(b + 2 ^ 44 * c) AND (0xfffffc0ffff + 2 ^ 44 * 0x00ffffffc0f) = (b AND 0xfffffc0ffff) + 2 ^ 44 * (c AND 0x00ffffffc0f)"
    by (rule and_split) (use assms(2) in simp_all)
  finally show ?thesis by simp
qed

lemma unat_and_low: "m < 2 ^ n \<Longrightarrow> x AND m = (x mod 2 ^ n) AND m" for x m :: nat
  using and_split [of "x mod 2 ^ n" n m "x div 2 ^ n" 0] by simp

lemma init_r:
  assumes "16 \<le> length key"
  shows "clamped (poly_r (poly1305_init key)) \<and> val (poly_r (poly1305_init key)) = clamp (le (take 16 key))"
proof -
  define t0 t1 where "t0 = load64_le key" "t1 = load64_le (drop 8 key)"
  note t = this
  have "le (take 16 key) = le (take 8 key @ take 8 (drop 8 key))" by (simp add: take_add [symmetric])
  also have "\<dots> = unat t0 + 2 ^ 64 * unat t1" using assms by (simp add: le_append unat_load64 t)
  finally have m: "le (take 16 key) = unat t0 + 2 ^ 64 * unat t1" .
  have t64: "unat t0 < 2 ^ 64" "unat t1 < 2 ^ 64"
    using unsigned_less [of t0, where 'a = nat] unsigned_less [of t1, where 'a = nat] by simp_all
  let ?mid = "(unat t0 div 2 ^ 44 + 2 ^ 20 * unat t1) mod 2 ^ 44"
  have r: "poly_r (poly1305_init key) = (t0 AND 0xffc0fffffff, (drop_bit 44 t0 OR push_bit 20 t1) AND 0xfffffc0ffff,
      drop_bit 24 t1 AND 0x00ffffffc0f)"
    by (simp add: poly1305_init_def Let_def t)
  have u0: "unat (t0 AND 0xffc0fffffff) = (unat t0 mod 2 ^ 44) AND 0xffc0fffffff"
  proof -
    have "unat (0xffc0fffffff :: u64) = 0xffc0fffffff" by simp
    then show ?thesis unfolding unsigned_and_eq by (simp only:) (rule unat_and_low, simp)
  qed
  have "unat (drop_bit 44 t0 OR push_bit 20 t1) mod 2 ^ 44 = ?mid"
    using unat_middle [of t0 t1] by (simp only: unat_AND_low)
  then have u1: "unat ((drop_bit 44 t0 OR push_bit 20 t1) AND 0xfffffc0ffff) = ?mid AND 0xfffffc0ffff"
  proof -
    assume mid: "unat (drop_bit 44 t0 OR push_bit 20 t1) mod 2 ^ 44 = ?mid"
    have "unat (0xfffffc0ffff :: u64) = 0xfffffc0ffff" by simp
    then show ?thesis unfolding unsigned_and_eq [where v = "drop_bit 44 t0 OR push_bit 20 t1"] mid [symmetric]
      by (simp only:) (rule unat_and_low, simp)
  qed
  have u2: "unat (drop_bit 24 t1 AND 0x00ffffffc0f) = (unat t1 div 2 ^ 24) AND 0x00ffffffc0f"
    unfolding unsigned_and_eq by (simp add: unat_drop)
  have "clamped (poly_r (poly1305_init key))"
  proof -
    have "x AND 0xffc0fffffff < 2 ^ 44" "x AND 0xfffffc0ffff < 2 ^ 44" "x AND 0x00ffffffc0f < 2 ^ 36" for x :: nat
      by (rule le_less_trans [OF and_le(1)], simp)+
    then show ?thesis unfolding r clamped_def prod.case u0 u1 u2 by (intro conjI)
  qed
  moreover have "val (poly_r (poly1305_init key)) = clamp (le (take 16 key))"
    unfolding r val_def prod.case u0 u1 u2 m limbs_of [OF t64(1), symmetric]
    by (rule clamp_limbs [symmetric]) (rule mod_less_divisor, simp)+
  ultimately show ?thesis by blast
qed

section \<open>Messages in pieces\<close>

lemma accumulate_append:
  "16 dvd length xs \<Longrightarrow> accumulate r a (xs @ ys) = accumulate r (accumulate r a xs) ys"
proof (induction r a xs rule: accumulate.induct)
  case (1 r a m)
  show ?case
  proof (cases "m = []")
    case True
    then show ?thesis by (simp add: accumulate.simps [of r a "[]"])
  next
    case False
    then have "16 \<le> length m" using 1(2) by (simp add: dvd_imp_le)
    then have "take 16 (m @ ys) = take 16 m" "drop 16 (m @ ys) = drop 16 m @ ys" "16 dvd length (drop 16 m)"
      using 1(2) by simp_all
    then show ?thesis using 1(1) [OF False]
      by (simp only: accumulate.simps [of r a "m @ ys"] accumulate.simps [of r a m] append_is_Nil_conv False if_False simp_thms)
  qed
qed

lemma accumulate_mod: "accumulate r (a mod P) m mod P = accumulate r a m mod P"
proof (cases "m = []")
  case False
  have "(a mod P + x) * r mod P = (a + x) * r mod P" for x by (metis mod_add_left_eq mod_mult_left_eq)
  then show ?thesis by (simp only: accumulate.simps [of r _ m] False if_False)
qed (simp add: accumulate.simps [of r _ "[]"])

lemma loop_correct:
  "bounded h \<Longrightarrow> clamped r \<Longrightarrow> 16 dvd length m \<Longrightarrow>
    bounded (poly1305_loop r (push_bit 40 1) h m) \<and>
    val (poly1305_loop r (push_bit 40 1) h m) mod P = accumulate (val r) (val h) m mod P"
proof (induction r "push_bit 40 1 :: u64" h m rule: poly1305_loop.induct)
  case (1 r h m)
  show ?case
  proof (cases "m = []")
    case True
    then show ?thesis using 1(2)
      by (simp add: poly1305_loop.simps [of _ _ _ "[]"] accumulate.simps [of _ _ "[]"] poly1305_block_size_def)
  next
    case False
    then have l: "16 \<le> length m" using 1(4) by (simp add: dvd_imp_le)
    let ?h = "poly1305_step r (push_bit 40 1) h m"
    have "2 ^ 88 * unat (push_bit 40 1 :: u64) = 2 ^ 128 * 1" by (simp add: push_bit_eq_mult)
    moreover have "le (take 16 m @ [1]) = le (take 16 m) + 2 ^ 128 * 1" using l by (simp add: le_append)
    ultimately have step: "bounded ?h" "val ?h mod P = (val h + le (take 16 m @ [1])) * val r mod P"
      using step_correct [OF 1(2,3) l, of "push_bit 40 1"] by (simp_all only: simp_thms add.assoc)
    have "bounded (poly1305_loop r (push_bit 40 1) ?h (drop 16 m)) \<and>
      val (poly1305_loop r (push_bit 40 1) ?h (drop 16 m)) mod P = accumulate (val r) (val ?h) (drop 16 m) mod P"
      using 1(1) [OF _ step(1) 1(3)] l 1(4) by (simp add: poly1305_block_size_def)
    moreover have "accumulate (val r) (val ?h) (drop 16 m) mod P = accumulate (val r) (val h) m mod P"
      using accumulate_mod [of "val r" "val ?h" "drop 16 m"] accumulate_mod [of "val r" "(val h + le (take 16 m @ [1])) * val r" "drop 16 m"]
      unfolding step(2) accumulate.simps [of "val r" "val h" m] by (simp only: False if_False)
    moreover have "poly1305_loop r (push_bit 40 1) h m = poly1305_loop r (push_bit 40 1) ?h (drop 16 m)"
      using l by (subst poly1305_loop.simps) (simp add: poly1305_block_size_def)
    ultimately show ?thesis by simp
  qed
qed

text \<open>
  An authenticator that takes its message in pieces: \<open>holds k m s\<close> says that the state \<open>s\<close> has taken
  the message \<open>m\<close> so far.
\<close>

locale incremental =
  fixes valid :: "'k \<Rightarrow> bool" and init :: "'k \<Rightarrow> 's" and update :: "bytes \<Rightarrow> 's \<Rightarrow> 's" and final :: "'s \<Rightarrow> bytes"
    and spec :: "'k \<Rightarrow> bytes \<Rightarrow> bytes" and holds :: "'k \<Rightarrow> bytes \<Rightarrow> 's \<Rightarrow> bool"
  assumes start: "valid k \<Longrightarrow> holds k [] (init k)"
    and more: "holds k m s \<Longrightarrow> holds k (m @ x) (update x s)"
    and finish: "holds k m s \<Longrightarrow> final s = spec k m"
begin

lemma updates: "holds k m s \<Longrightarrow> holds k (m @ concat xs) (fold update xs s)"
proof (induction xs arbitrary: m s)
  case (Cons x xs)
  then show ?case using Cons.IH [OF more [OF Cons.prems]] by simp
qed simp

lemma pieces: "valid k \<Longrightarrow> final (fold update xs (init k)) = spec k (concat xs)"
  using updates [OF start] finish by fastforce

lemma cut_anywhere: "valid k \<Longrightarrow> concat xs = concat ys \<Longrightarrow> final (fold update xs (init k)) = final (fold update ys (init k))"
  by (simp add: pieces)

end

text \<open>The whole blocks are in the number, the rest is in the buffer.\<close>

definition taken :: "bytes \<Rightarrow> bytes \<Rightarrow> poly1305_state \<Rightarrow> bool" where
  "taken key m st \<longleftrightarrow> 16 \<le> length key \<and> (\<exists>full left. m = full @ left \<and> 16 dvd length full \<and> length left < 16 \<and>
     poly_leftover st = length left \<and> take (length left) (poly_buffer st) = left \<and> length (poly_buffer st) = 16 \<and>
     \<not> poly_final st \<and> poly_r st = poly_r (poly1305_init key) \<and> poly_pad st = poly_pad (poly1305_init key) \<and>
     bounded (poly_h st) \<and> val (poly_h st) mod P = accumulate (clamp (le (take 16 key))) 0 full mod P)"

lemma taken_init: "16 \<le> length key \<Longrightarrow> taken key [] (poly1305_init key)"
  by (simp add: taken_def poly1305_init_def Let_def bounded_def val_def accumulate.simps [of _ _ "[]"])

text \<open>The state between two blocks.\<close>

definition between :: "bytes \<Rightarrow> bytes \<Rightarrow> poly1305_state \<Rightarrow> bool" where
  "between key full st \<longleftrightarrow> 16 \<le> length key \<and> 16 dvd length full \<and> length (poly_buffer st) = 16 \<and>
     \<not> poly_final st \<and> poly_r st = poly_r (poly1305_init key) \<and> poly_pad st = poly_pad (poly1305_init key) \<and>
     bounded (poly_h st) \<and> val (poly_h st) mod P = accumulate (clamp (le (take 16 key))) 0 full mod P"

lemma taken_iff:
  "taken key m st \<longleftrightarrow> (\<exists>full left. m = full @ left \<and> length left < 16 \<and> poly_leftover st = length left \<and>
     take (length left) (poly_buffer st) = left \<and> between key full st)"
  by (auto simp: taken_def between_def)

lemma between_blocks:
  assumes "between key full st" and "16 dvd length x"
  shows "between key (full @ x) (poly1305_blocks x st)"
proof -
  have r: "clamped (poly_r st)" "val (poly_r st) = clamp (le (take 16 key))"
    using init_r [of key] assms(1) by (simp_all add: between_def)
  have h: "bounded (poly_h st)" "val (poly_h st) mod P = accumulate (val (poly_r st)) 0 full mod P"
    using assms(1) r(2) by (simp_all add: between_def)
  have "accumulate (val (poly_r st)) (val (poly_h st)) x mod P = accumulate (val (poly_r st)) 0 (full @ x) mod P"
    using accumulate_mod [of "val (poly_r st)" "val (poly_h st)" x] accumulate_append [of full "val (poly_r st)" 0 x] h(2)
      accumulate_mod [of "val (poly_r st)" "accumulate (val (poly_r st)) 0 full" x] assms(1)
    by (simp add: between_def)
  then show ?thesis using loop_correct [OF h(1) r(1) assms(2)] assms r(2)
    by (simp add: between_def poly1305_blocks_def Let_def)
qed

lemma between_same: "between key full (st\<lparr>poly_leftover := n\<rparr>) = between key full st"
  "length b = 16 \<Longrightarrow> length (poly_buffer st) = 16 \<Longrightarrow> between key full (st\<lparr>poly_buffer := b\<rparr>) = between key full st"
  by (simp_all add: between_def)

lemma at_simps: "i + length xs \<le> length buf \<Longrightarrow> length (at i xs buf) = length buf"
  "i + length xs \<le> length buf \<Longrightarrow> take (i + length xs) (at i xs buf) = take i buf @ xs"
  by (simp_all add: at_def)

lemma taken_store:
  assumes "between key full st" and "poly_leftover st = 0" and "length x < 16"
  shows "taken key (full @ x) (store_leftover x st)"
proof -
  have "length (poly_buffer st) = 16" using assms(1) by (simp add: between_def)
  then show ?thesis unfolding taken_iff using assms at_simps [of 0 x "poly_buffer st"]
    by (intro exI [of _ full] exI [of _ x]) (auto simp: store_leftover_def between_same)
qed

lemma taken_full:
  assumes "between key full st" and "poly_leftover st = 0"
  shows "taken key (full @ x) (full_blocks x st)"
proof (cases "16 \<le> length x")
  case True
  let ?want = "length x - length x mod 16"
  have "16 dvd ?want" by (simp add: minus_mod_eq_mult_div)
  then have "between key (full @ take ?want x) (poly1305_blocks (take ?want x) st)"
    by (intro between_blocks assms) simp
  then have "taken key ((full @ take ?want x) @ drop ?want x) (store_leftover (drop ?want x) (poly1305_blocks (take ?want x) st))"
    using assms(2) by (intro taken_store) (simp_all add: poly1305_blocks_def Let_def)
  then show ?thesis using True by (simp add: full_blocks_def poly1305_block_size_def Let_def)
next
  case False
  then show ?thesis using taken_store [OF assms] by (simp add: full_blocks_def poly1305_block_size_def)
qed

lemma taken_update:
  assumes "taken key m st"
  shows "taken key (m @ x) (poly1305_update x st)"
proof -
  obtain full left where t: "m = full @ left" "length left < 16" "poly_leftover st = length left"
    "take (length left) (poly_buffer st) = left" "between key full st"
    using assms by (auto simp: taken_iff)
  have buf: "length (poly_buffer st) = 16" using t(5) by (simp add: between_def)
  show ?thesis
  proof (cases "left = []")
    case True
    then show ?thesis using taken_full [OF t(5), of x] t by (simp add: poly1305_update_def)
  next
    case False
    let ?want = "min (16 - length left) (length x)"
    let ?st = "st\<lparr>poly_buffer := at (length left) (take ?want x) (poly_buffer st), poly_leftover := length left + ?want\<rparr>"
    have len: "length left + length (take ?want x) \<le> length (poly_buffer st)" using buf t(2) by simp
    have st: "between key full ?st" "take (length left + ?want) (poly_buffer ?st) = left @ take ?want x" "length (poly_buffer ?st) = 16"
      using at_simps [OF len] t(4,5) buf by (simp_all add: between_same min.commute)
    show ?thesis
    proof (cases "length left + ?want < 16")
      case True
      then have x: "take ?want x = x" "length left + length x < 16" by (simp_all add: min_def split: if_splits)
      then have "taken key (m @ x) ?st" unfolding taken_iff
        using st(1,2) True t(1) by (intro exI [of _ full] exI [of _ "left @ x"]) auto
      then show ?thesis using t(3) False x True by (simp add: poly1305_update_def poly1305_block_size_def Let_def)
    next
      case full: False
      then have w: "length left + ?want = 16" using t(2) by simp
      then have b: "poly_buffer ?st = left @ take ?want x" using st(2,3) by simp
      have "between key (full @ poly_buffer ?st) (poly1305_blocks (poly_buffer ?st) ?st)"
        using between_blocks [OF st(1), of "poly_buffer ?st"] st(3) by simp
      then have "taken key ((full @ poly_buffer ?st) @ drop ?want x)
          (full_blocks (drop ?want x) ((poly1305_blocks (poly_buffer ?st) ?st)\<lparr>poly_leftover := 0\<rparr>))"
        by (intro taken_full) (simp_all add: between_same)
      moreover have "(full @ poly_buffer ?st) @ drop ?want x = m @ x" unfolding b t(1) by simp
      ultimately show ?thesis using t(3) False w by (simp add: poly1305_update_def poly1305_block_size_def Let_def)
    qed
  qed
qed

lemma finish_block_correct:
  assumes "taken key m st"
  shows "bounded (poly_h (finish_block st)) \<and> poly_pad (finish_block st) = poly_pad (poly1305_init key) \<and>
    val (poly_h (finish_block st)) mod P = accumulate (clamp (le (take 16 key))) 0 m mod P"
proof -
  obtain full left where t: "m = full @ left" "length left < 16" "poly_leftover st = length left"
    "take (length left) (poly_buffer st) = left" "between key full st"
    using assms by (auto simp: taken_iff)
  show ?thesis
  proof (cases "left = []")
    case True
    then show ?thesis using t by (simp add: finish_block_def between_def)
  next
    case False
    let ?r = "clamp (le (take 16 key))" and ?buf = "left @ 1 # replicate (15 - length left) 0"
    have r: "clamped (poly_r st)" "val (poly_r st) = ?r"
      using init_r [of key] t(5) by (simp_all add: between_def)
    have h: "bounded (poly_h st)" "val (poly_h st) mod P = accumulate ?r 0 full mod P" "16 dvd length full"
      using t(5) by (simp_all add: between_def)
    have len: "length ?buf = 16" using t(2) by simp
    have "at (length left) (1 # replicate (16 - length left - 1) 0) (poly_buffer st) = ?buf"
      using t(2,4,5) by (simp add: at_def between_def)
    then have fin: "poly_h (finish_block st) = poly1305_step (poly_r st) 0 (poly_h st) ?buf"
      "poly_pad (finish_block st) = poly_pad st"
      using t(3) False len by (simp_all add: finish_block_def poly1305_blocks_def Let_def poly1305_block_size_def poly1305_loop.simps)
    have pad: "le (take 16 ?buf) = le (left @ [1])" using len by (simp add: le_append)
    have "accumulate ?r 0 m = accumulate ?r (accumulate ?r 0 full) left" unfolding t(1) by (rule accumulate_append [OF h(3)])
    also have "\<dots> = (accumulate ?r 0 full + le (left @ [1])) * ?r mod P"
      using False t(2) by (subst accumulate.simps) (simp add: accumulate.simps [of _ _ "[]"])
    finally have "accumulate ?r 0 m mod P = (val (poly_h st) + le (left @ [1])) * ?r mod P"
      using h(2) by (simp only: mod_mod_trivial) (metis mod_add_left_eq mod_mult_left_eq)
    then show ?thesis
      using step_correct [OF h(1) r(1), of ?buf 0] len pad fin r(2) t(5) by (simp add: between_def)
  qed
qed

lemma finish_correct:
  assumes "taken key m st" and "32 \<le> length key"
  shows "le (poly1305_finish st) = rfc_poly1305 key m" "length (poly1305_finish st) = 16"
proof -
  let ?h = "poly_h (finish_block st)"
  note fb = finish_block_correct [OF assms(1)]
  then have h: "canonical (full_carry (full_carry ?h))" "val (full_carry (full_carry ?h)) mod P = accumulate (clamp (le (take 16 key))) 0 m mod P"
    using full_carry_twice [of ?h] by simp_all
  then have v: "canonical (reduce (full_carry (full_carry ?h)))"
    "val (reduce (full_carry (full_carry ?h))) = accumulate (clamp (le (take 16 key))) 0 m mod P"
    using reduce_correct [OF h(1)] by simp_all
  have pad: "poly_pad (finish_block st) = (load64_le (drop 16 key), load64_le (drop 24 key))"
    using fb by (simp add: poly1305_init_def Let_def)
  have "take 16 (drop 16 key) = take 8 (drop 16 key) @ take 8 (drop 24 key)"
    using take_add [of 8 8 "drop 16 key"] by simp
  then have "le (take 16 (drop 16 key)) = unat (load64_le (drop 16 key)) + 2 ^ 64 * unat (load64_le (drop 24 key))"
    using assms(2) by (simp add: le_append unat_load64)
  then show "le (poly1305_finish st) = rfc_poly1305 key m" "length (poly1305_finish st) = 16"
    using add_pad_correct [OF v(1), of "load64_le (drop 16 key)" "load64_le (drop 24 key)"]
    by (simp_all add: poly1305_finish_def Let_def pad v(2) rfc_poly1305_def add.assoc)
qed

text \<open>The sixteen bytes of a number.\<close>

definition bytes_of_mac :: "nat \<Rightarrow> bytes" where
  "bytes_of_mac n = map (\<lambda>i. word_of_nat (n div 256 ^ i)) [0..<16]"

lemma finish_bytes: "taken key m st \<Longrightarrow> 32 \<le> length key \<Longrightarrow> poly1305_finish st = bytes_of_mac (rfc_poly1305 key m)"
proof (rule le_inject)
  assume t: "taken key m st" "32 \<le> length key"
  have "rfc_poly1305 key m < 256 ^ 16" by (simp add: rfc_poly1305_def)
  then show "le (poly1305_finish st) = le (bytes_of_mac (rfc_poly1305 key m))"
    unfolding bytes_of_mac_def using finish_correct(1) [OF t] by (simp only: le_map_digits)
  show "length (poly1305_finish st) = length (bytes_of_mac (rfc_poly1305 key m))"
    using finish_correct(2) [OF t] by (simp add: bytes_of_mac_def)
qed

interpretation poly: incremental "\<lambda>key. length key = 32" poly1305_init poly1305_update poly1305_finish
  "\<lambda>key m. bytes_of_mac (rfc_poly1305 key m)" "\<lambda>key m st. length key = 32 \<and> taken key m st"
  by unfold_locales (simp_all add: taken_init taken_update finish_bytes)

section \<open>Properties\<close>

text \<open>
  C20. Poly1305 computes the authenticator of RFC 8439: for every key of 32 bytes and however the message
  is cut into updates, the limbs, lazy carries, masks and the buffer give the sixteen bytes, least
  significant first, of the polynomial of its blocks modulo \<open>2 ^ 130 - 5\<close> plus the second half of the key.
\<close>

theorem poly1305_computes_rfc:
  assumes "length key = 32"
  shows "poly1305_finish (fold poly1305_update ms (poly1305_init key)) = bytes_of_mac (rfc_poly1305 key (concat ms)) \<and>
    le (poly1305_finish (fold poly1305_update ms (poly1305_init key))) =
      (accumulate (le (take 16 key) AND 0x0ffffffc0ffffffc0ffffffc0fffffff) 0 (concat ms) mod (2 ^ 130 - 5) +
       le (drop 16 key)) mod 2 ^ 128"
proof -
  have mac: "poly1305_finish (fold poly1305_update ms (poly1305_init key)) = bytes_of_mac (rfc_poly1305 key (concat ms))"
    using poly.pieces [of key ms] assms by simp
  have "rfc_poly1305 key m < 256 ^ 16" for m by (simp add: rfc_poly1305_def)
  then have "le (bytes_of_mac (rfc_poly1305 key (concat ms))) = rfc_poly1305 key (concat ms)"
    unfolding bytes_of_mac_def by (simp only: le_map_digits)
  then show ?thesis using assms by (simp add: mac rfc_poly1305_def clamp_def P_def)
qed

theorem poly1305_computes_rfc_witness:
  "poly1305_finish (fold poly1305_update [[1, 2], replicate 20 3] (poly1305_init (replicate 32 7))) =
    poly1305_finish (fold poly1305_update [[1, 2] @ replicate 20 3] (poly1305_init (replicate 32 7)))"
  using poly1305_computes_rfc [of "replicate 32 7" "[[1, 2], replicate 20 3]"]
    poly1305_computes_rfc [of "replicate 32 7" "[[1, 2] @ replicate 20 3]"]
  by simp

end
