(* ===== verification/SecretStream.thy ===== *)
theory SecretStream
  imports ChaCha Poly1305
begin

text \<open>
  The two constructions of libsodium that keep the data of a repository: the secret stream of its
  payloads (\<^verbatim>\<open>crypto_secretstream/xchacha20poly1305/secretstream_xchacha20poly1305.c\<close>) and the authenticated
  encryption of its private keys (\<^verbatim>\<open>crypto_aead/xchacha20poly1305/aead_xchacha20poly1305.c\<close>), over the
  cipher and the authenticator. Decryption accepts exactly what encryption makes.
\<close>

section \<open>The secret stream\<close>

record stream_state =
  stream_k :: bytes
  stream_nonce :: bytes

definition stream_ABYTES :: nat where "stream_ABYTES = 17"
definition TAG_REKEY :: u8 where "TAG_REKEY = 2"

definition stream_MESSAGEBYTES_MAX :: nat where
  "stream_MESSAGEBYTES_MAX = min (SODIUM_SIZE_MAX - stream_ABYTES) (64 * (2 ^ 32 - 2))"

text \<open>The nonce is a counter of four bytes and the inner nonce behind it.\<close>

definition counter_reset :: "stream_state \<Rightarrow> stream_state" where
  "counter_reset st = st\<lparr>stream_nonce := [1, 0, 0, 0] @ drop 4 (stream_nonce st)\<rparr>"

definition stream_init :: "bytes \<Rightarrow> bytes \<Rightarrow> stream_state" where
  "stream_init header k =
     counter_reset \<lparr> stream_k = crypto_core_hchacha20 header k None,
                     stream_nonce = replicate 4 0 @ take 8 (drop 16 header) \<rparr>"

text \<open>\<open>init_push\<close> draws its header, the \<open>seed\<close>; \<open>init_pull\<close> is given it.\<close>

definition crypto_secretstream_init_push :: "bytes \<Rightarrow> bytes \<Rightarrow> bytes \<times> stream_state" where
  "crypto_secretstream_init_push seed k = (let out = seed in (out, stream_init out k))"

definition crypto_secretstream_init_pull :: "bytes \<Rightarrow> bytes \<Rightarrow> stream_state" where
  "crypto_secretstream_init_pull header k = stream_init header k"

definition crypto_secretstream_rekey :: "stream_state \<Rightarrow> stream_state result" where
  "crypto_secretstream_rekey st =
     bindR (crypto_stream_chacha20_ietf_xor (stream_k st @ drop 4 (stream_nonce st)) (stream_nonce st) (stream_k st))
       (\<lambda>new. Inr (counter_reset (st\<lparr>stream_k := take 32 new,
                                    stream_nonce := take 4 (stream_nonce st) @ drop 32 new\<rparr>)))"

text \<open>
  The padding of \<open>ad\<close> fills up its last block. That of the message is as the source has it: it is
  \<open>mlen mod 16\<close> bytes long.
\<close>

definition pad_for :: "u64 \<Rightarrow> bytes" where
  "pad_for n = replicate (unat (n AND 0xf)) 0"

definition stream_mac :: "bytes \<Rightarrow> bytes \<Rightarrow> bytes \<Rightarrow> bytes \<Rightarrow> bytes" where
  "stream_mac block0 ad block c =
     (let adlen = word_of_nat (length ad) :: u64; mlen = word_of_nat (length c) :: u64
      in poly1305_finish (fold poly1305_update
           [ad, pad_for (0x10 - adlen), block, c, pad_for (0x10 - 64 + mlen),
            store64_le adlen, store64_le (64 + mlen)]
           (poly1305_init block0)))"

text \<open>After a message the inner nonce takes in its authenticator, and the counter moves on.\<close>

definition stream_advance :: "u8 \<Rightarrow> bytes \<Rightarrow> stream_state \<Rightarrow> stream_state result" where
  "stream_advance tag mac st =
     (let inonce = xor_buf (drop 4 (stream_nonce st)) (take 8 mac);
          counter = sodium_increment (take 4 (stream_nonce st));
          st = st\<lparr>stream_nonce := counter @ inonce\<rparr>
      in if tag AND TAG_REKEY \<noteq> 0 \<or> sodium_is_zero (take 4 (stream_nonce st)) \<noteq> 0
         then crypto_secretstream_rekey st else Inr st)"

definition crypto_secretstream_push ::
  "stream_state \<Rightarrow> bytes \<Rightarrow> bytes \<Rightarrow> u8 \<Rightarrow> (bytes \<times> stream_state) result" where
  "crypto_secretstream_push st m ad tag =
     (if stream_MESSAGEBYTES_MAX < length m then Inl sodium_misuse
      else
        bindR (crypto_stream_chacha20_ietf 64 (stream_nonce st) (stream_k st)) (\<lambda>block0.
        bindR (crypto_stream_chacha20_ietf_xor_ic (tag # replicate 63 0) (stream_nonce st) 1 (stream_k st)) (\<lambda>block.
        bindR (crypto_stream_chacha20_ietf_xor_ic m (stream_nonce st) 2 (stream_k st)) (\<lambda>c.
        let mac = stream_mac block0 ad block c
        in bindR (stream_advance tag mac st) (\<lambda>st'. Inr (block ! 0 # c @ mac, st'))))))"

text \<open>\<open>None\<close> is the return value \<open>- 1\<close>.\<close>

definition crypto_secretstream_pull ::
  "stream_state \<Rightarrow> bytes \<Rightarrow> bytes \<Rightarrow> (bytes \<times> u8 \<times> stream_state) option result" where
  "crypto_secretstream_pull st input ad =
     (if length input < stream_ABYTES then Inr None
      else
        let mlen = length input - stream_ABYTES
        in if stream_MESSAGEBYTES_MAX < mlen then Inl sodium_misuse
           else
             bindR (crypto_stream_chacha20_ietf 64 (stream_nonce st) (stream_k st)) (\<lambda>block0.
             bindR (crypto_stream_chacha20_ietf_xor_ic (input ! 0 # replicate 63 0) (stream_nonce st) 1 (stream_k st)) (\<lambda>block.
             let tag = block ! 0; block = block[0 := input ! 0]; c = take mlen (drop 1 input);
                 mac = stream_mac block0 ad block c; stored_mac = drop (1 + mlen) input
             in if sodium_memcmp mac stored_mac \<noteq> 0 then Inr None
                else
                  bindR (crypto_stream_chacha20_ietf_xor_ic c (stream_nonce st) 2 (stream_k st)) (\<lambda>m.
                  bindR (stream_advance tag mac st) (\<lambda>st'. Inr (Some (m, tag, st')))))))"

section \<open>Authenticated encryption\<close>

definition aead_ABYTES :: nat where "aead_ABYTES = 16"

definition aead_MESSAGEBYTES_MAX :: nat where
  "aead_MESSAGEBYTES_MAX = SODIUM_SIZE_MAX - aead_ABYTES"

definition aead_mac :: "bytes \<Rightarrow> bytes \<Rightarrow> bytes \<Rightarrow> bytes" where
  "aead_mac block0 ad c =
     (let adlen = word_of_nat (length ad) :: u64; mlen = word_of_nat (length c) :: u64
      in poly1305_finish (fold poly1305_update
           [ad, pad_for (0x10 - adlen), c, pad_for (0x10 - mlen), store64_le adlen, store64_le mlen]
           (poly1305_init block0)))"

definition encrypt_detached :: "bytes \<Rightarrow> bytes \<Rightarrow> bytes \<Rightarrow> bytes \<Rightarrow> (bytes \<times> bytes) result" where
  "encrypt_detached m ad npub k =
     bindR (crypto_stream_chacha20_ietf_ext 64 npub k) (\<lambda>block0.
     bindR (crypto_stream_chacha20_ietf_ext_xor_ic m npub 1 k) (\<lambda>c. Inr (c, aead_mac block0 ad c)))"

definition decrypt_detached :: "bytes \<Rightarrow> bytes \<Rightarrow> bytes \<Rightarrow> bytes \<Rightarrow> bytes \<Rightarrow> bytes option result" where
  "decrypt_detached c mac ad npub k =
     bindR (crypto_stream_chacha20_ietf_ext 64 npub k) (\<lambda>block0.
       if crypto_verify_n (aead_mac block0 ad c) mac \<noteq> 0 then Inr None
       else bindR (crypto_stream_chacha20_ietf_ext_xor_ic c npub 1 k) (\<lambda>m. Inr (Some m)))"

definition xchacha_nonce :: "bytes \<Rightarrow> bytes" where
  "xchacha_nonce npub = replicate 4 0 @ take 8 (drop 16 npub)"

definition crypto_aead_xchacha20poly1305_ietf_encrypt :: "bytes \<Rightarrow> bytes \<Rightarrow> bytes \<Rightarrow> bytes \<Rightarrow> bytes result" where
  "crypto_aead_xchacha20poly1305_ietf_encrypt m ad npub k =
     (if aead_MESSAGEBYTES_MAX < length m then Inl sodium_misuse
      else bindR (encrypt_detached m ad (xchacha_nonce npub) (crypto_core_hchacha20 npub k None))
        (\<lambda>(c, mac). Inr (c @ mac)))"

definition crypto_aead_xchacha20poly1305_ietf_decrypt :: "bytes \<Rightarrow> bytes \<Rightarrow> bytes \<Rightarrow> bytes \<Rightarrow> bytes option result" where
  "crypto_aead_xchacha20poly1305_ietf_decrypt c ad npub k =
     (if length c < aead_ABYTES then Inr None
      else decrypt_detached (take (length c - aead_ABYTES) c) (drop (length c - aead_ABYTES) c) ad
             (xchacha_nonce npub) (crypto_core_hchacha20 npub k None))"

section \<open>Streams and authenticators\<close>

lemma length_macs [simp]: "length (stream_mac b ad block c) = 16" "length (aead_mac b ad c) = 16"
  by (simp_all add: stream_mac_def aead_mac_def Let_def)

lemma xor_ic_ok:
  assumes "length m \<le> 64 * (2 ^ 32 - 2)" and "unat ic \<le> 2"
  shows "crypto_stream_chacha20_ietf_xor_ic m n ic k = Inr (stream_ietf_ext_ref_xor_ic m n ic k)"
proof -
  have "(length m + 63) div 64 \<le> 2 ^ 32 - 2" using assms(1) by simp
  then have "unat ic + (length m + 63) div 64 \<le> 2 ^ 32" using assms(2) by simp
  then show ?thesis using assms(1) by (subst xor_ic_runs) simp_all
qed

lemma small_streams:
  "crypto_stream_chacha20_ietf 64 n k = Inr (stream_ietf_ext_ref 64 n k)"
  "length x = 64 \<Longrightarrow> crypto_stream_chacha20_ietf_xor_ic x n 1 k = Inr (stream_ietf_ext_ref_xor_ic x n 1 k)"
  by (simp_all add: crypto_stream_chacha20_ietf_def crypto_stream_chacha20_ietf_ext_def stream_ietf_MESSAGEBYTES_MAX_def
      SODIUM_SIZE_MAX_def xor_ic_ok)

text \<open>The first byte of the tag block goes both ways; the others do not depend on it.\<close>

lemma tag_block:
  "\<exists>k0 ks. \<forall>x. stream_ietf_ext_ref_xor_ic (x # replicate 63 0) n ic k = (x XOR k0) # ks"
proof -
  let ?j = "chacha_keysetup k @ chacha_ietf_ivsetup n (Some (store32_le ic))"
  have "length (key_stream 1 ?j) = 64" by (simp del: key_stream.simps)
  then have "key_stream 1 ?j \<noteq> []" by (metis length_0_conv zero_neq_numeral)
  then obtain k0 ks where ks: "key_stream 1 ?j = k0 # ks" by (auto simp only: neq_Nil_conv)
  have "stream_ietf_ext_ref_xor_ic (x # replicate 63 0) n ic k = map2 (XOR) (x # replicate 63 0) (k0 # ks)" for x
    using ks by (simp add: stream_ietf_ext_ref_xor_ic_def encrypt_bytes_xor blocks_of_def del: key_stream.simps)
  then show ?thesis by auto
qed

section \<open>In step\<close>

definition stream_ok :: "stream_state \<Rightarrow> bool" where
  "stream_ok st \<longleftrightarrow> length (stream_k st) = 32 \<and> length (stream_nonce st) = 12"

lemma length_hchacha20 [simp]: "length (crypto_core_hchacha20 input k c) = 32"
  by (simp add: crypto_core_hchacha20_def Let_def)

lemma init_ok: "24 \<le> length header \<Longrightarrow> stream_ok (stream_init header k)"
  by (simp add: stream_ok_def stream_init_def counter_reset_def)

lemma rekey_ok:
  assumes "stream_ok st"
  shows "\<exists>st'. crypto_secretstream_rekey st = Inr st' \<and> stream_ok st'"
  using assms
  by (simp add: crypto_secretstream_rekey_def crypto_stream_chacha20_ietf_xor_def crypto_stream_chacha20_ietf_ext_xor_def
      stream_ietf_MESSAGEBYTES_MAX_def SODIUM_SIZE_MAX_def stream_ok_def counter_reset_def bindR_def)

lemma advance_ok:
  assumes "stream_ok st" and "length mac = 16"
  shows "\<exists>st'. stream_advance tag mac st = Inr st' \<and> stream_ok st'"
proof -
  have "stream_ok (st\<lparr>stream_nonce := sodium_increment (take 4 (stream_nonce st)) @ xor_buf (drop 4 (stream_nonce st)) (take 8 mac)\<rparr>)"
    using assms by (simp add: stream_ok_def increment_le xor_buf_def)
  then show ?thesis using rekey_ok by (auto simp: stream_advance_def Let_def)
qed

lemma MAX_small: "length m \<le> stream_MESSAGEBYTES_MAX \<Longrightarrow> length m \<le> 64 * (2 ^ 32 - 2)"
  by (simp add: stream_MESSAGEBYTES_MAX_def)

lemma push_runs:
  assumes "length m \<le> stream_MESSAGEBYTES_MAX"
  shows "crypto_secretstream_push st m ad tag =
    (let block0 = stream_ietf_ext_ref 64 (stream_nonce st) (stream_k st);
         block = stream_ietf_ext_ref_xor_ic (tag # replicate 63 0) (stream_nonce st) 1 (stream_k st);
         c = stream_ietf_ext_ref_xor_ic m (stream_nonce st) 2 (stream_k st);
         mac = stream_mac block0 ad block c
     in bindR (stream_advance tag mac st) (\<lambda>st'. Inr (block ! 0 # c @ mac, st')))"
  using assms xor_ic_ok [OF MAX_small [OF assms], of 2]
  by (simp add: crypto_secretstream_push_def small_streams Let_def)

lemma pull_runs:
  assumes "length input = 1 + mlen + 16" and "mlen \<le> stream_MESSAGEBYTES_MAX"
  shows "crypto_secretstream_pull st input ad =
    (let block0 = stream_ietf_ext_ref 64 (stream_nonce st) (stream_k st);
         block = stream_ietf_ext_ref_xor_ic (input ! 0 # replicate 63 0) (stream_nonce st) 1 (stream_k st);
         tag = block ! 0; block = block[0 := input ! 0]; c = take mlen (drop 1 input);
         mac = stream_mac block0 ad block c
     in if mac = drop (1 + mlen) input then
          bindR (stream_advance tag mac st) (\<lambda>st'. Inr (Some (stream_ietf_ext_ref_xor_ic c (stream_nonce st) 2 (stream_k st), tag, st')))
        else Inr None)"
proof -
  let ?c = "take mlen (drop 1 input)"
  have c: "length ?c \<le> 64 * (2 ^ 32 - 2)" using assms MAX_small [of ?c] by simp
  have "length input - stream_ABYTES = mlen" "\<not> length input < stream_ABYTES" using assms(1) by (simp_all add: stream_ABYTES_def)
  then show ?thesis using assms xor_ic_ok [OF c, of 2]
    by (simp add: crypto_secretstream_pull_def small_streams Let_def memcmp_iff)
qed

lemma bindR_pair: "bindR r (\<lambda>s. Inr (a, s)) = Inr (b, t) \<longleftrightarrow> a = b \<and> r = Inr t"
  by (cases r) auto

lemma xor_flip: "a XOR b = c \<longleftrightarrow> a = c XOR b" for a b c :: "'a::len word"
  by (metis xor.assoc xor.right_neutral xor_self_eq)

lemma stream_flip:
  assumes "length c = l"
  shows "m = stream_ietf_ext_ref_xor_ic c n ic k \<longleftrightarrow> length m = l \<and> stream_ietf_ext_ref_xor_ic m n ic k = c"
  using assms ext_xor_twice length_ext_xor by metis

text \<open>A message is pulled exactly if it was pushed in the same state, and both sides move to the same state.\<close>

lemma pull_iff_push:
  assumes "length input = 1 + mlen + 16" and "mlen \<le> stream_MESSAGEBYTES_MAX"
  shows "crypto_secretstream_pull st input ad = Inr (Some (m, tag, st')) \<longleftrightarrow>
    length m = mlen \<and> crypto_secretstream_push st m ad tag = Inr (input, st')"
proof -
  obtain k0 ks where block: "\<And>x. stream_ietf_ext_ref_xor_ic (x # replicate 63 0) (stream_nonce st) 1 (stream_k st) = (x XOR k0) # ks"
    using tag_block by metis
  let ?b0 = "stream_ietf_ext_ref 64 (stream_nonce st) (stream_k st)"
  let ?xor = "\<lambda>x. stream_ietf_ext_ref_xor_ic x (stream_nonce st) 2 (stream_k st)"
  let ?c = "take mlen (drop 1 input)" and ?mac = "drop (1 + mlen) input"
  have input: "input = input ! 0 # ?c @ ?mac"
  proof -
    have "input ! 0 # drop 1 input = input" using assms(1) by (cases input) simp_all
    moreover have "?c @ ?mac = drop 1 input" by (metis append_take_drop_id drop_drop add.commute)
    ultimately show ?thesis by simp
  qed
  have lc: "length ?c = mlen" "length ?mac = 16" using assms(1) by simp_all
  have pull: "crypto_secretstream_pull st input ad = Inr (Some (m, tag, st')) \<longleftrightarrow>
      stream_mac ?b0 ad (input ! 0 # ks) ?c = ?mac \<and> tag = input ! 0 XOR k0 \<and> m = ?xor ?c \<and> stream_advance tag ?mac st = Inr st'"
    unfolding pull_runs [OF assms] block by (auto simp: Let_def bindR_def split: sum.splits)
  have push: "crypto_secretstream_push st m ad tag = Inr (input, st') \<longleftrightarrow>
      tag XOR k0 = input ! 0 \<and> ?xor m = ?c \<and> stream_mac ?b0 ad (input ! 0 # ks) ?c = ?mac \<and>
      stream_advance tag ?mac st = Inr st'" if m: "length m = mlen"
  proof -
    let ?out = "(tag XOR k0) # ?xor m @ stream_mac ?b0 ad ((tag XOR k0) # ks) (?xor m)"
    have out: "?out = input \<longleftrightarrow> tag XOR k0 = input ! 0 \<and> ?xor m = ?c \<and> stream_mac ?b0 ad ((tag XOR k0) # ks) (?xor m) = ?mac"
      using m lc by (subst input) (simp only: list.inject append_eq_append_conv length_ext_xor simp_thms)
    have run: "crypto_secretstream_push st m ad tag = Inr (input, st') \<longleftrightarrow>
        ?out = input \<and> stream_advance tag (stream_mac ?b0 ad ((tag XOR k0) # ks) (?xor m)) st = Inr st'"
      using m assms(2) by (subst push_runs) (simp_all only: block Let_def bindR_pair nth_Cons_0)
    show ?thesis
    proof (cases "tag XOR k0 = input ! 0 \<and> ?xor m = ?c \<and> stream_mac ?b0 ad (input ! 0 # ks) ?c = ?mac")
      case True
      then show ?thesis unfolding run out by (simp only: simp_thms)
    next
      case False
      have "\<not> (tag XOR k0 = input ! 0 \<and> ?xor m = ?c \<and> stream_mac ?b0 ad ((tag XOR k0) # ks) (?xor m) = ?mac)"
      proof (rule notI, elim conjE)
        assume p: "tag XOR k0 = input ! 0" "?xor m = ?c" and "stream_mac ?b0 ad ((tag XOR k0) # ks) (?xor m) = ?mac"
        then have "stream_mac ?b0 ad (input ! 0 # ks) ?c = ?mac" by (simp only:)
        then show False using False p by (simp only: simp_thms)
      qed
      then show ?thesis unfolding run out using False by blast
    qed
  qed
  note tag = xor_flip [of tag k0 "input ! 0"] and m = stream_flip [OF lc(1), of m "stream_nonce st" 2 "stream_k st"]
  show ?thesis unfolding pull m using push tag by blast
qed

lemma push_returns:
  assumes "stream_ok st" and "length m \<le> stream_MESSAGEBYTES_MAX"
  shows "\<exists>c st'. crypto_secretstream_push st m ad tag = Inr (c, st') \<and> stream_ok st' \<and> length c = 1 + length m + 16"
proof -
  obtain k0 ks where block: "\<And>x. stream_ietf_ext_ref_xor_ic (x # replicate 63 0) (stream_nonce st) 1 (stream_k st) = (x XOR k0) # ks"
    using tag_block by metis
  show ?thesis
  proof -
    let ?mac = "stream_mac (stream_ietf_ext_ref 64 (stream_nonce st) (stream_k st)) ad ((tag XOR k0) # ks)
      (stream_ietf_ext_ref_xor_ic m (stream_nonce st) 2 (stream_k st))"
    obtain st' where "stream_advance tag ?mac st = Inr st'" "stream_ok st'"
      using advance_ok [OF assms(1), of ?mac tag] by auto
    then have "crypto_secretstream_push st m ad tag =
        Inr ((tag XOR k0) # stream_ietf_ext_ref_xor_ic m (stream_nonce st) 2 (stream_k st) @ ?mac, st')"
      unfolding push_runs [OF assms(2)] by (simp only: block Let_def bindR_simps nth_Cons_0)
    then show ?thesis using \<open>stream_ok st'\<close> by simp
  qed
qed

text \<open>With the lengths as the two functions check them, that needs no condition.\<close>

lemma push_length:
  assumes "crypto_secretstream_push st m ad tag = Inr (c, st')"
  shows "length m \<le> stream_MESSAGEBYTES_MAX" and "length c = 1 + length m + 16"
proof -
  show max: "length m \<le> stream_MESSAGEBYTES_MAX"
    using assms by (auto simp: crypto_secretstream_push_def split: if_splits)
  show "length c = 1 + length m + 16"
    using assms unfolding push_runs [OF max] Let_def bindR_pair by auto
qed

lemma pull_is_push:
  "crypto_secretstream_pull st c ad = Inr (Some (m, tag, st')) \<longleftrightarrow> crypto_secretstream_push st m ad tag = Inr (c, st')"
proof (cases "stream_ABYTES \<le> length c \<and> length c - stream_ABYTES \<le> stream_MESSAGEBYTES_MAX")
  case True
  then have len: "length c = 1 + (length c - 17) + 16" "length c - 17 \<le> stream_MESSAGEBYTES_MAX"
    unfolding stream_ABYTES_def by linarith+
  show ?thesis using pull_iff_push [OF len] push_length(2) [of st m ad tag c st'] by auto
next
  case False
  then have "crypto_secretstream_pull st c ad \<noteq> Inr (Some (m, tag, st'))"
    by (auto simp: crypto_secretstream_pull_def Let_def)
  moreover have "crypto_secretstream_push st m ad tag \<noteq> Inr (c, st')"
    using False push_length [of st m ad tag c st'] by (auto simp: stream_ABYTES_def)
  ultimately show ?thesis by blast
qed

text \<open>Whole streams: the messages one after the other, each with its additional data and its tag.\<close>

fun push_all :: "stream_state \<Rightarrow> (bytes \<times> bytes \<times> u8) list \<Rightarrow> ((bytes \<times> bytes) list \<times> stream_state) result" where
  "push_all st [] = Inr ([], st)"
| "push_all st ((m, ad, tag) # ms) =
     bindR (crypto_secretstream_push st m ad tag) (\<lambda>(c, st). bindR (push_all st ms) (\<lambda>(cs, st). Inr ((c, ad) # cs, st)))"

fun pull_all :: "stream_state \<Rightarrow> (bytes \<times> bytes) list \<Rightarrow> ((bytes \<times> bytes \<times> u8) list \<times> stream_state) option result" where
  "pull_all st [] = Inr (Some ([], st))"
| "pull_all st ((c, ad) # cs) =
     bindR (crypto_secretstream_pull st c ad) (\<lambda>r. case r of
       None \<Rightarrow> Inr None
     | Some (m, tag, st) \<Rightarrow> bindR (pull_all st cs) (\<lambda>r. case r of
         None \<Rightarrow> Inr None
       | Some (ms, st) \<Rightarrow> Inr (Some ((m, ad, tag) # ms, st))))"

lemma pull_all_Cons:
  "pull_all st ((c, ad) # cs) = Inr (Some (ms, st')) \<longleftrightarrow>
    (\<exists>m tag ms' st1. ms = (m, ad, tag) # ms' \<and> crypto_secretstream_pull st c ad = Inr (Some (m, tag, st1)) \<and>
      pull_all st1 cs = Inr (Some (ms', st')))"
  by (auto simp: bindR_def split: sum.splits option.splits)

lemma push_all_Cons:
  "push_all st ((m, ad, tag) # ms) = Inr (cs, st') \<longleftrightarrow>
    (\<exists>c cs' st1. cs = (c, ad) # cs' \<and> crypto_secretstream_push st m ad tag = Inr (c, st1) \<and>
      push_all st1 ms = Inr (cs', st'))"
  by (auto simp: bindR_def split: sum.splits)

lemma pull_all_is_push_all: "pull_all st cs = Inr (Some (ms, st')) \<longleftrightarrow> push_all st ms = Inr (cs, st')"
proof (induction cs arbitrary: st ms)
  case Nil
  show ?case by (cases ms) (auto simp: bindR_def split: sum.splits)
next
  case (Cons x cs)
  obtain c ad where x: "x = (c, ad)" by fastforce
  show ?case
  proof (cases ms)
    case Nil
    then show ?thesis unfolding x pull_all_Cons by simp
  next
    case (Cons y ms')
    obtain m ad' tag where y: "y = (m, ad', tag)" by (cases y) auto
    show ?thesis unfolding x Cons y pull_all_Cons push_all_Cons Cons.IH pull_is_push by auto
  qed
qed

lemma push_all_returns:
  assumes "stream_ok st" and "list_all (\<lambda>x. length (fst x) \<le> stream_MESSAGEBYTES_MAX) ms"
  shows "\<exists>cs st'. push_all st ms = Inr (cs, st') \<and> stream_ok st' \<and>
    map (\<lambda>x. length (fst x)) cs = map (\<lambda>x. length (fst x) + stream_ABYTES) ms"
  using assms
proof (induction ms arbitrary: st)
  case (Cons x ms)
  obtain m ad tag where x: "x = (m, ad, tag)" by (cases x) auto
  then have m: "length m \<le> stream_MESSAGEBYTES_MAX" and ms: "list_all (\<lambda>x. length (fst x) \<le> stream_MESSAGEBYTES_MAX) ms"
    using Cons.prems(2) by simp_all
  obtain c st1 where c: "crypto_secretstream_push st m ad tag = Inr (c, st1)" "stream_ok st1" "length c = 1 + length m + 16"
    using push_returns [OF Cons.prems(1) m] by blast
  obtain cs st' where cs: "push_all st1 ms = Inr (cs, st')" "stream_ok st'"
    "map (\<lambda>x. length (fst x)) cs = map (\<lambda>x. length (fst x) + stream_ABYTES) ms"
    using Cons.IH [OF c(2) ms] by blast
  show ?case
    unfolding x push_all_Cons using c cs by (intro exI [of _ "(c, ad) # cs"] exI [of _ st']) (auto simp: stream_ABYTES_def)
qed simp

section \<open>One message\<close>

lemma encrypt_runs:
  assumes "length m \<le> aead_MESSAGEBYTES_MAX"
  shows "crypto_aead_xchacha20poly1305_ietf_encrypt m ad npub k =
    (let n = xchacha_nonce npub; k' = crypto_core_hchacha20 npub k None;
         c = stream_ietf_ext_ref_xor_ic m n 1 k'
     in Inr (c @ aead_mac (stream_ietf_ext_ref 64 n k') ad c))"
  using assms
  by (simp add: crypto_aead_xchacha20poly1305_ietf_encrypt_def encrypt_detached_def crypto_stream_chacha20_ietf_ext_def
      crypto_stream_chacha20_ietf_ext_xor_ic_def aead_MESSAGEBYTES_MAX_def SODIUM_SIZE_MAX_def Let_def)

lemma encrypt_length:
  assumes "crypto_aead_xchacha20poly1305_ietf_encrypt m ad npub k = Inr c"
  shows "length m \<le> aead_MESSAGEBYTES_MAX" and "length c = length m + aead_ABYTES"
proof -
  show max: "length m \<le> aead_MESSAGEBYTES_MAX"
    using assms by (auto simp: crypto_aead_xchacha20poly1305_ietf_encrypt_def split: if_splits)
  show "length c = length m + aead_ABYTES"
    using assms unfolding encrypt_runs [OF max] Let_def by (auto simp: aead_ABYTES_def)
qed

lemma decrypt_runs:
  assumes "length c = l + aead_ABYTES" and "l \<le> aead_MESSAGEBYTES_MAX"
  shows "crypto_aead_xchacha20poly1305_ietf_decrypt c ad npub k =
    (let n = xchacha_nonce npub; k' = crypto_core_hchacha20 npub k None
     in if aead_mac (stream_ietf_ext_ref 64 n k') ad (take l c) = drop l c
        then Inr (Some (stream_ietf_ext_ref_xor_ic (take l c) n 1 k')) else Inr None)"
proof -
  have "length (take l c) \<le> SODIUM_SIZE_MAX" using assms by (simp add: aead_MESSAGEBYTES_MAX_def)
  then show ?thesis using assms
    by (simp add: crypto_aead_xchacha20poly1305_ietf_decrypt_def decrypt_detached_def crypto_stream_chacha20_ietf_ext_def
        crypto_stream_chacha20_ietf_ext_xor_ic_def aead_ABYTES_def SODIUM_SIZE_MAX_def Let_def verify_iff)
qed

lemma decrypt_is_encrypt:
  assumes "length c \<le> SODIUM_SIZE_MAX"
  shows "crypto_aead_xchacha20poly1305_ietf_decrypt c ad npub k = Inr (Some m) \<longleftrightarrow>
    crypto_aead_xchacha20poly1305_ietf_encrypt m ad npub k = Inr c"
proof (cases "length c < aead_ABYTES")
  case True
  then show ?thesis using encrypt_length(2) [of m ad npub k c]
    by (auto simp: crypto_aead_xchacha20poly1305_ietf_decrypt_def)
next
  case False
  let ?l = "length c - aead_ABYTES" and ?n = "xchacha_nonce npub" and ?k = "crypto_core_hchacha20 npub k None"
  let ?mac = "aead_mac (stream_ietf_ext_ref 64 ?n ?k) ad" and ?xor = "\<lambda>x. stream_ietf_ext_ref_xor_ic x ?n 1 ?k"
  have len: "length c = ?l + aead_ABYTES" and max: "?l \<le> aead_MESSAGEBYTES_MAX"
    using False assms by (simp_all add: aead_MESSAGEBYTES_MAX_def)
  have lc: "length (take ?l c) = ?l" by simp
  have dec: "crypto_aead_xchacha20poly1305_ietf_decrypt c ad npub k = Inr (Some m) \<longleftrightarrow>
      ?mac (take ?l c) = drop ?l c \<and> length m = ?l \<and> ?xor m = take ?l c"
    unfolding decrypt_runs [OF len max] Let_def using stream_flip [OF lc, of m ?n 1 ?k] by auto
  show ?thesis
  proof (cases "length m = ?l")
    case True
    then have "crypto_aead_xchacha20poly1305_ietf_encrypt m ad npub k = Inr c \<longleftrightarrow> ?xor m @ ?mac (?xor m) = c"
      using max by (simp add: encrypt_runs Let_def)
    also have "\<dots> \<longleftrightarrow> ?xor m = take ?l c \<and> ?mac (?xor m) = drop ?l c"
      using True by (metis append_eq_conv_conj length_ext_xor)
    finally show ?thesis unfolding dec using True by metis
  next
    case False
    then show ?thesis unfolding dec using encrypt_length(2) [of m ad npub k c] by auto
  qed
qed

section \<open>Properties\<close>

text \<open>
  C23. A secret stream: both ends start in the same state, every list of messages within the limit
  can be pushed, each becoming 17 bytes longer, and the receiver gets messages \<open>ms'\<close> out of a list
  of ciphertexts exactly if they are what the sender makes of \<open>ms'\<close>; it is then in the sender's state.
\<close>

theorem secret_stream_roundtrip:
  assumes "length seed = 24" and "list_all (\<lambda>x. length (fst x) \<le> stream_MESSAGEBYTES_MAX) ms"
  shows "\<exists>header st cs st'. crypto_secretstream_init_push seed k = (header, st) \<and>
    crypto_secretstream_init_pull header k = st \<and>
    push_all st ms = Inr (cs, st') \<and>
    map (\<lambda>x. length (fst x)) cs = map (\<lambda>x. length (fst x) + stream_ABYTES) ms \<and>
    pull_all st cs = Inr (Some (ms, st')) \<and>
    (\<forall>cs' ms' t. pull_all st cs' = Inr (Some (ms', t)) \<longleftrightarrow> push_all st ms' = Inr (cs', t))"
proof -
  have "stream_ok (stream_init seed k)" using assms(1) by (simp add: init_ok)
  from push_all_returns [OF this assms(2)] obtain cs st' where cs: "push_all (stream_init seed k) ms = Inr (cs, st')"
    "map (\<lambda>x. length (fst x)) cs = map (\<lambda>x. length (fst x) + stream_ABYTES) ms" by blast
  then show ?thesis
    by (intro exI [of _ seed] exI [of _ "stream_init seed k"] exI [of _ cs] exI [of _ st'])
      (simp add: crypto_secretstream_init_push_def crypto_secretstream_init_pull_def pull_all_is_push_all)
qed

theorem secret_stream_roundtrip_witness:
  "\<exists>header st cs st'. crypto_secretstream_init_push (replicate 24 5) (replicate 32 1) = (header, st) \<and>
    crypto_secretstream_init_pull header (replicate 32 1) = st \<and>
    push_all st [([1, 2, 3], [], 0), ([], [], 3)] = Inr (cs, st') \<and> map (\<lambda>x. length (fst x)) cs = [20, 17] \<and>
    pull_all st cs = Inr (Some ([([1, 2, 3], [], 0), ([], [], 3)], st'))"
proof -
  have small: "list_all (\<lambda>x. length (fst x) \<le> stream_MESSAGEBYTES_MAX) [([1, 2, 3], [], 0), ([], [], 3)]"
    by (simp add: stream_MESSAGEBYTES_MAX_def SODIUM_SIZE_MAX_def stream_ABYTES_def)
  show ?thesis
    using secret_stream_roundtrip [OF _ small, of "replicate 24 5" "replicate 32 1"] by (auto simp: stream_ABYTES_def)
qed

text \<open>
  C24. Authenticated encryption: every message within the limit is encrypted, into 16 more bytes,
  and a ciphertext decrypts to a message exactly if it is the encryption of that message under the
  same key, nonce and additional data.
\<close>

theorem aead_roundtrip:
  assumes "length m \<le> aead_MESSAGEBYTES_MAX"
  shows "\<exists>c. crypto_aead_xchacha20poly1305_ietf_encrypt m ad npub k = Inr c \<and>
    length c = length m + aead_ABYTES \<and>
    crypto_aead_xchacha20poly1305_ietf_decrypt c ad npub k = Inr (Some m) \<and>
    (\<forall>c' m'. length c' \<le> SODIUM_SIZE_MAX \<longrightarrow>
      (crypto_aead_xchacha20poly1305_ietf_decrypt c' ad npub k = Inr (Some m') \<longleftrightarrow>
       crypto_aead_xchacha20poly1305_ietf_encrypt m' ad npub k = Inr c'))"
proof -
  obtain c where c: "crypto_aead_xchacha20poly1305_ietf_encrypt m ad npub k = Inr c"
    using assms by (simp add: encrypt_runs Let_def)
  have "length c \<le> SODIUM_SIZE_MAX"
    using encrypt_length(2) [OF c] assms by (simp add: aead_MESSAGEBYTES_MAX_def aead_ABYTES_def SODIUM_SIZE_MAX_def)
  then show ?thesis using c encrypt_length(2) [OF c] decrypt_is_encrypt by blast
qed

theorem aead_roundtrip_witness:
  "\<exists>c. crypto_aead_xchacha20poly1305_ietf_encrypt [1, 2, 3] [4] (replicate 24 5) (replicate 32 6) = Inr c \<and>
    length c = 19 \<and>
    crypto_aead_xchacha20poly1305_ietf_decrypt c [4] (replicate 24 5) (replicate 32 6) = Inr (Some [1, 2, 3])"
  using aead_roundtrip [of "[1, 2, 3]" "[4]" "replicate 24 5" "replicate 32 6"]
  by (auto simp: aead_MESSAGEBYTES_MAX_def SODIUM_SIZE_MAX_def aead_ABYTES_def)

text \<open>The padding that \<open>push\<close> and \<open>pull\<close> share does not fill up the last block of the message.\<close>

lemma padding_is_not_a_fill:
  "pad_for (0x10 - 64 + 1) = [0]" "length (pad_for (0x10 - 1)) = 15"
  by (simp_all add: pad_for_def)

end
