(* ===== verification/NativeSodium.thy ===== *)
theory NativeSodium
  imports EncryptionUtil SecretStream
begin

text \<open>
  The program on libsodium's own cipher and authenticator: of the record \<open>sodium\<close> the functions of
  the secret stream and of the authenticated encryption are those of \<^verbatim>\<open>SecretStream\<close>; the boxes,
  the password hash and the initialisation stay those of a parameter. Their laws
  (\<open>aead_law\<close>, \<open>stream_law\<close>) are theorems here.
\<close>

section \<open>The functions of the program\<close>

text \<open>
  \<open>sodium_misuse\<close> aborts the process. The program's messages are within the limits, so that the
  branch for it is never taken.
\<close>

definition native_aead_encrypt :: "key \<Rightarrow> bytes \<Rightarrow> bytes \<Rightarrow> bytes \<Rightarrow> bytes" where
  "native_aead_encrypt k n ad m =
     (case crypto_aead_xchacha20poly1305_ietf_encrypt m ad n k of Inr c \<Rightarrow> c | Inl _ \<Rightarrow> [])"

definition native_aead_decrypt :: "key \<Rightarrow> bytes \<Rightarrow> bytes \<Rightarrow> bytes \<Rightarrow> bytes option" where
  "native_aead_decrypt k n ad c =
     (case crypto_aead_xchacha20poly1305_ietf_decrypt c ad n k of Inr r \<Rightarrow> r | Inl _ \<Rightarrow> None)"

definition native_push :: "stream_state \<Rightarrow> bytes \<Rightarrow> u8 \<Rightarrow> bytes \<times> stream_state" where
  "native_push st m tag = (case crypto_secretstream_push st m [] tag of Inr r \<Rightarrow> r | Inl _ \<Rightarrow> ([], st))"

definition native_pull :: "stream_state \<Rightarrow> bytes \<Rightarrow> (bytes \<times> u8 \<times> stream_state) option" where
  "native_pull st c = (case crypto_secretstream_pull st c [] of Inr r \<Rightarrow> r | Inl _ \<Rightarrow> None)"

definition native_sodium :: "stream_state sodium \<Rightarrow> stream_state sodium" where
  "native_sodium na = na\<lparr>
     aead_encrypt := native_aead_encrypt,
     aead_decrypt := native_aead_decrypt,
     init_push := \<lambda>k seed. Some (crypto_secretstream_init_push seed k),
     push := native_push,
     init_pull := \<lambda>header k. Some (crypto_secretstream_init_pull header k),
     pull := native_pull\<rparr>"

section \<open>Their laws\<close>

lemma native_aead_law: "aead_law (native_sodium na)"
proof -
  have "native_aead_decrypt k n ad (native_aead_encrypt k n ad m) = Some m \<and>
      length (native_aead_encrypt k n ad m) = length m + AEAD_ABYTES"
    if m: "length m \<le> AEAD_MESSAGEBYTES_MAX" for k n ad m
  proof -
    have "length m \<le> aead_MESSAGEBYTES_MAX"
      using m by (simp add: AEAD_MESSAGEBYTES_MAX_def aead_MESSAGEBYTES_MAX_def SODIUM_SIZE_MAX_def aead_ABYTES_def AEAD_ABYTES_def)
    then obtain c where c: "crypto_aead_xchacha20poly1305_ietf_encrypt m ad n k = Inr c"
      by (simp add: encrypt_runs Let_def)
    have len: "length c = length m + 16" using encrypt_length(2) [OF c] by (simp add: aead_ABYTES_def)
    then have "length c \<le> SODIUM_SIZE_MAX"
      using m by (simp add: AEAD_MESSAGEBYTES_MAX_def SODIUM_SIZE_MAX_def AEAD_ABYTES_def)
    then have "crypto_aead_xchacha20poly1305_ietf_decrypt c ad n k = Inr (Some m)"
      using c by (simp only: decrypt_is_encrypt)
    then show ?thesis using c len by (simp add: native_aead_encrypt_def native_aead_decrypt_def AEAD_ABYTES_def)
  qed
  then show ?thesis by (simp add: aead_law_def native_sodium_def)
qed

lemma stream_limits: "stream_MESSAGEBYTES_MAX = STREAM_MESSAGEBYTES_MAX"
  by (simp add: stream_MESSAGEBYTES_MAX_def STREAM_MESSAGEBYTES_MAX_def SODIUM_SIZE_MAX_def stream_ABYTES_def)

lemma native_streams:
  "init_push (native_sodium na) k seed = Some (seed, stream_init seed k)" "push (native_sodium na) = native_push"
  "init_pull (native_sodium na) header k = Some (stream_init header k)" "pull (native_sodium na) = native_pull"
  by (simp_all add: native_sodium_def crypto_secretstream_init_push_def crypto_secretstream_init_pull_def)

lemma native_stream_law: "stream_law (native_sodium na) stream_ok"
proof -
  have "length c = length m + STREAM_ABYTES \<and> native_pull st c = Some (m, t, st') \<and> stream_ok st'"
    if ok: "stream_ok st" and m: "length m \<le> STREAM_MESSAGEBYTES_MAX" and c: "native_push st m t = (c, st')"
    for st m t c st'
  proof -
    obtain d st1 where d: "crypto_secretstream_push st m [] t = Inr (d, st1)" "stream_ok st1" "length d = 1 + length m + 16"
      using push_returns [OF ok, of m "[]" t] m by (auto simp: stream_limits)
    then have "crypto_secretstream_pull st d [] = Inr (Some (m, t, st1))" by (simp only: pull_is_push)
    then show ?thesis using c d by (simp add: native_push_def native_pull_def STREAM_ABYTES_def)
  qed
  moreover have "stream_ok (stream_init seed k)" if "length seed = STREAM_HEADERBYTES" for k seed
    using that by (intro init_ok) (simp add: STREAM_HEADERBYTES_def)
  ultimately show ?thesis
    unfolding stream_law_def native_streams option.inject prod.inject by blast
qed

lemma native_sodium_keeps [simp]:
  "sodium_init (native_sodium na) = sodium_init na" "pwhash (native_sodium na) = pwhash na"
  "box_keypair (native_sodium na) = box_keypair na" "box_seal (native_sodium na) = box_seal na"
  "box_seal_open (native_sodium na) = box_seal_open na"
  by (simp_all add: native_sodium_def)

lemma native_boxes [simp]:
  "box_pair (native_sodium na) pk sk = box_pair na pk sk" "can_open (native_sodium na) dk ks = can_open na dk ks"
  "box_laws (native_sodium na) = box_laws na"
  by (simp_all add: box_pair_def can_open_def box_laws_def)

theorem native_sodium_laws: "box_laws na \<Longrightarrow> sodium_laws (native_sodium na)"
  using native_aead_law native_stream_law by (auto simp: sodium_laws_def)

lemma native_seals:
  "seals (native_sodium na) ks \<longleftrightarrow> list_all (\<lambda>k. \<forall>seed m. box_seal na (kp_pubKey k) seed m \<noteq> None) ks"
  by (simp add: seals_def native_sodium_def)

text \<open>A base with the boxes of \<open>plain_sodium\<close>; its streams are never used.\<close>

definition plain_base :: "stream_state sodium" where
  "plain_base = \<lparr>
     sodium_init = True, pwhash = pwhash plain_sodium, box_keypair = box_keypair plain_sodium,
     aead_encrypt = \<lambda>k n ad m. [], aead_decrypt = \<lambda>k n ad c. None,
     box_seal = box_seal plain_sodium, box_seal_open = box_seal_open plain_sodium,
     init_push = \<lambda>k seed. None, push = \<lambda>st m t. ([], st),
     init_pull = \<lambda>header k. None, pull = \<lambda>st c. None \<rparr>"

lemma plain_base_laws: "box_laws plain_base"
  by (auto simp: box_laws_def plain_base_def plain_sodium_def box_pair_def key_sizes stream_sizes)

section \<open>Properties\<close>

text \<open>
  C18. An encrypted payload: with libsodium's own stream cipher and authenticator, and of its boxes
  only that they open with the secret key, \<open>encryptToFd\<close> returns on a machine that does its part,
  and what it appended to the payload file decrypts, for every key pair that has an entry, to
  exactly the input; cut short anywhere, it makes the decryption throw after a prefix of the
  plaintext, so a truncated payload never passes for a complete one.
\<close>

theorem native_payload:
  assumes "box_laws na" and "sodium_init na"
    and "list_all (\<lambda>k. \<forall>seed m. box_seal na (kp_pubKey k) seed m \<noteq> None) ks" and "ks \<noteq> []"
    and "can_open na dk ks" and "has_key dk ks"
    and "undisturbed s" and "look s p = Some (File old)"
  shows "\<exists>s' c. encryptToFd (native_sodium na) ks input (io_write p) s = (Inr (), s') \<and>
    look s' p = Some (File (old @ c)) \<and> decryptFromFd (native_sodium na) dk c = (input, Inr ()) \<and>
    (\<forall>n < length c. \<exists>m e. decryptFromFd (native_sodium na) dk (take n c) = (m, Inl e) \<and> prefix m input)"
  using assms by (intro encrypted_payload native_sodium_laws) (simp_all add: native_seals)

theorem native_payload_witness:
  "\<exists>s' c. encryptToFd (native_sodium plain_base) [sample_key_pair] [1, 2, 3] (io_write [''blob''])
       (sample_machine [([''blob''], File []), ([], Dir)]) = (Inr (), s') \<and>
    look s' [''blob''] = Some (File ([] @ c)) \<and>
    decryptFromFd (native_sodium plain_base) \<lparr> dk_keyPair = sample_key_pair, dk_privKeyPlaintext = replicate 32 2 \<rparr> c
      = ([1, 2, 3], Inr ()) \<and>
    (\<forall>n < length c. \<exists>m e. decryptFromFd (native_sodium plain_base)
       \<lparr> dk_keyPair = sample_key_pair, dk_privKeyPlaintext = replicate 32 2 \<rparr> (take n c) = (m, Inl e) \<and>
       prefix m [1, 2, 3])"
proof (rule native_payload)
  show "box_laws plain_base" by (rule plain_base_laws)
qed (simp_all add: plain_base_def plain_sodium_def can_open_def has_key_def box_pair_def sample_key_pair_def
    key_pair_ok_def key_sizes getKeyId_def sample_machine_def lookup_def)

text \<open>
  C19. A key pair made under a password: with libsodium's own authenticated encryption,
  \<open>generateFromPassphrase\<close> returns one whose file form reads back as the same key pair, and the
  same password recovers its private key, which opens the boxes sealed for it.
\<close>

theorem native_keypair:
  assumes "box_laws na" and "sodium_init na" and "\<forall>seed. box_keypair na seed \<noteq> None"
    and "\<forall>salt. \<exists>key. pwhash na AEAD_KEYBYTES password salt (opslimit params) (memlimit params)
      (passwordHashAlgorithm params) = Inr key"
  shows "\<exists>dk s'. generateFromPassphrase (native_sodium na) params password s = (Inr dk, s') \<and>
    deserialise_key_pair (serialise_key_pair (dk_keyPair dk) @ rest) = (Inr (dk_keyPair dk), rest) \<and>
    decrypt_with_password (native_sodium na) (dk_keyPair dk) password = Inr dk \<and>
    can_open na dk [dk_keyPair dk]"
  using keypair_password_roundtrip [OF native_sodium_laws [OF assms(1)], of password params s rest] assms by simp

theorem native_keypair_witness:
  "\<exists>dk s'. generateFromPassphrase (native_sodium plain_base) default_kdf_params [104, 105] (sample_machine []) = (Inr dk, s') \<and>
    deserialise_key_pair (serialise_key_pair (dk_keyPair dk) @ [9]) = (Inr (dk_keyPair dk), [9]) \<and>
    decrypt_with_password (native_sodium plain_base) (dk_keyPair dk) [104, 105] = Inr dk \<and>
    can_open plain_base dk [dk_keyPair dk]"
proof (rule native_keypair)
  show "box_laws plain_base" by (rule plain_base_laws)
qed (simp_all add: plain_base_def plain_sodium_def)

end
