(* ===== verification/Salsa20.thy ===== *)
theory Salsa20
  imports SodiumUtils
begin

text \<open>
  \<^verbatim>\<open>crypto_core/salsa/ref/core_salsa_ref.c\<close>, \<^verbatim>\<open>crypto_core/hsalsa20/ref2/core_hsalsa20_ref2.c\<close> and
  \<^verbatim>\<open>crypto_stream/salsa20/ref/salsa20_ref.c\<close>: the cipher under the boxes. Its stream is the blocks of
  the nonce with a 64-bit counter.
\<close>

section \<open>The core\<close>

definition salsa_quarter :: "nat \<Rightarrow> nat \<Rightarrow> nat \<Rightarrow> nat \<Rightarrow> u32 list \<Rightarrow> u32 list" where
  "salsa_quarter a b c d x =
     (let x = x[b := x ! b XOR rotl32 (x ! a + x ! d) 7];
          x = x[c := x ! c XOR rotl32 (x ! b + x ! a) 9];
          x = x[d := x ! d XOR rotl32 (x ! c + x ! b) 13]
      in x[a := x ! a XOR rotl32 (x ! d + x ! c) 18])"

definition salsa_double_round :: "u32 list \<Rightarrow> u32 list" where
  "salsa_double_round x =
     (let x = salsa_quarter 0 4 8 12 x; x = salsa_quarter 5 9 13 1 x;
          x = salsa_quarter 10 14 2 6 x; x = salsa_quarter 15 3 7 11 x;
          x = salsa_quarter 0 1 2 3 x; x = salsa_quarter 5 6 7 4 x;
          x = salsa_quarter 10 11 8 9 x
      in salsa_quarter 15 12 13 14 x)"

text \<open>The words at the start: the constants on the diagonal, between them key and input.\<close>

definition salsa_setup :: "bytes \<Rightarrow> bytes \<Rightarrow> bytes option \<Rightarrow> u32 list" where
  "salsa_setup input k c =
     (let s = (case c of None \<Rightarrow> [0x61707865, 0x3320646e, 0x79622d32, 0x6b206574]
               | Some c \<Rightarrow> map (\<lambda>i. load32_le (drop i c)) [0, 4, 8, 12])
      in [s ! 0] @ map (\<lambda>i. load32_le (drop i k)) [0, 4, 8, 12] @
         [s ! 1] @ map (\<lambda>i. load32_le (drop i input)) [0, 4, 8, 12] @
         [s ! 2] @ map (\<lambda>i. load32_le (drop i k)) [16, 20, 24, 28] @ [s ! 3])"

definition crypto_core_salsa :: "bytes \<Rightarrow> bytes \<Rightarrow> bytes option \<Rightarrow> nat \<Rightarrow> bytes" where
  "crypto_core_salsa input k c rounds =
     (let j = salsa_setup input k c; x = (salsa_double_round ^^ ((rounds + 1) div 2)) j
      in concat (map store32_le (map2 (+) x j)))"

definition crypto_core_salsa20 :: "bytes \<Rightarrow> bytes \<Rightarrow> bytes option \<Rightarrow> bytes" where
  "crypto_core_salsa20 input k c = crypto_core_salsa input k c 20"

definition crypto_core_hsalsa20 :: "bytes \<Rightarrow> bytes \<Rightarrow> bytes option \<Rightarrow> bytes" where
  "crypto_core_hsalsa20 input k c =
     (let x = (salsa_double_round ^^ 10) (salsa_setup input k c)
      in concat (map (\<lambda>i. store32_le (x ! i)) [0, 5, 10, 15, 6, 7, 8, 9]))"

section \<open>The stream\<close>

text \<open>The counter in the last eight bytes of the input of the core.\<close>

definition salsa_next :: "bytes \<Rightarrow> bytes" where
  "salsa_next input = take 8 input @ increment_loop 1 (drop 8 input)"

function salsa_stream_loop :: "bytes \<Rightarrow> bytes \<Rightarrow> nat \<Rightarrow> bytes" where
  "salsa_stream_loop input k clen =
     (if 64 \<le> clen
      then crypto_core_salsa20 input k None @ salsa_stream_loop (salsa_next input) k (clen - 64)
      else if clen \<noteq> 0 then take clen (crypto_core_salsa20 input k None) else [])"
  by pat_completeness auto
termination by (relation "measure (\<lambda>(input, k, clen). clen)") auto
declare salsa_stream_loop.simps [simp del]

definition salsa20_stream_ref :: "nat \<Rightarrow> bytes \<Rightarrow> bytes \<Rightarrow> bytes" where
  "salsa20_stream_ref clen n k = salsa_stream_loop (take 8 n @ replicate 8 0) k clen"

function salsa_xor_loop :: "bytes \<Rightarrow> bytes \<Rightarrow> bytes \<Rightarrow> bytes" where
  "salsa_xor_loop input k m =
     (if 64 \<le> length m
      then map2 (XOR) (take 64 m) (crypto_core_salsa20 input k None) @ salsa_xor_loop (salsa_next input) k (drop 64 m)
      else if m \<noteq> [] then map2 (XOR) m (crypto_core_salsa20 input k None) else [])"
  by pat_completeness auto
termination by (relation "measure (\<lambda>(input, k, m). length m)") auto
declare salsa_xor_loop.simps [simp del]

fun ic_bytes :: "nat \<Rightarrow> u64 \<Rightarrow> bytes" where
  "ic_bytes 0 ic = []"
| "ic_bytes (Suc i) ic = ucast (ic AND 0xff) # ic_bytes i (drop_bit 8 ic)"

definition salsa20_stream_ref_xor_ic :: "bytes \<Rightarrow> bytes \<Rightarrow> u64 \<Rightarrow> bytes \<Rightarrow> bytes" where
  "salsa20_stream_ref_xor_ic m n ic k = salsa_xor_loop (take 8 n @ ic_bytes 8 ic) k m"

definition crypto_stream_salsa20 :: "nat \<Rightarrow> bytes \<Rightarrow> bytes \<Rightarrow> bytes" where
  "crypto_stream_salsa20 clen n k = salsa20_stream_ref clen n k"

definition crypto_stream_salsa20_xor_ic :: "bytes \<Rightarrow> bytes \<Rightarrow> u64 \<Rightarrow> bytes \<Rightarrow> bytes" where
  "crypto_stream_salsa20_xor_ic m n ic k = salsa20_stream_ref_xor_ic m n ic k"

definition crypto_stream_salsa20_xor :: "bytes \<Rightarrow> bytes \<Rightarrow> bytes \<Rightarrow> bytes" where
  "crypto_stream_salsa20_xor m n k = salsa20_stream_ref_xor_ic m n 0 k"

section \<open>Blocks and counters\<close>

lemma length_salsa_quarter [simp]: "length (salsa_quarter a b c d x) = length x"
  by (simp add: salsa_quarter_def Let_def)

lemma length_salsa_rounds [simp]: "length ((salsa_double_round ^^ n) x) = length x"
  by (induction n) (simp_all add: salsa_double_round_def Let_def)

lemma length_salsa_setup [simp]: "length (salsa_setup input k c) = 16"
  by (simp add: salsa_setup_def Let_def)

lemma length_concat_store32 [simp]: "length (concat (map store32_le xs)) = 4 * length xs"
  by (induction xs) simp_all

lemma length_salsa20 [simp]: "length (crypto_core_salsa20 input k c) = 64"
  unfolding crypto_core_salsa20_def crypto_core_salsa_def Let_def by (subst length_concat_store32) simp

lemma length_hsalsa20 [simp]: "length (crypto_core_hsalsa20 input k c) = 32"
  by (simp add: crypto_core_hsalsa20_def Let_def)

lemma ic_bytes_store: "ic_bytes 8 ic = store64_le ic"
proof -
  have low: "ucast (w AND 0xff) = (ucast w :: u8)" for w :: u64
  proof -
    have "(0xff :: u64) = mask 8" by (simp add: mask_eq_exp_minus_1)
    then have "w AND 0xff = take_bit 8 w" by (simp only: take_bit_eq_mask)
    then show ?thesis by (simp only:) (intro bit_word_eqI, auto simp: bit_unsigned_iff bit_take_bit_iff)
  qed
  show ?thesis by (simp add: numeral_eq_Suc store64_le_def low)
qed

lemma salsa_next_counter:
  assumes "length n = 8"
  shows "salsa_next (n @ store64_le ic) = n @ store64_le (ic + 1)"
proof -
  have "le (increment_loop 1 (store64_le ic)) = (unat ic + 1) mod 2 ^ 64"
    by (simp add: increment_loop_le)
  also have "\<dots> = le (store64_le (ic + 1))" by (simp add: unat_word_ariths)
  finally have "increment_loop 1 (store64_le ic) = store64_le (ic + 1)"
    by (intro le_inject) (simp_all add: increment_loop_le)
  then show ?thesis using assms by (simp add: salsa_next_def)
qed

text \<open>The block of a counter.\<close>

definition salsa_block :: "bytes \<Rightarrow> bytes \<Rightarrow> u64 \<Rightarrow> bytes" where
  "salsa_block k n counter = crypto_core_salsa20 (n @ store64_le counter) k None"

lemma length_salsa_block [simp]: "length (salsa_block k n ic) = 64"
  by (simp add: salsa_block_def)

lemma xor_loop_bytes:
  assumes "length n = 8"
  shows "length (salsa_xor_loop (n @ store64_le ic) k m) = length m \<and>
    (\<forall>i < length m. salsa_xor_loop (n @ store64_le ic) k m ! i =
      m ! i XOR salsa_block k n (ic + word_of_nat (i div 64)) ! (i mod 64))"
proof (induction "length m" arbitrary: m ic rule: less_induct)
  case less
  show ?case
  proof (cases "64 \<le> length m")
    case True
    let ?r = "salsa_xor_loop (n @ store64_le (ic + 1)) k (drop 64 m)"
    have run: "salsa_xor_loop (n @ store64_le ic) k m = map2 (XOR) (take 64 m) (salsa_block k n ic) @ ?r"
      using True by (subst salsa_xor_loop.simps) (simp add: salsa_next_counter [OF assms] salsa_block_def)
    have r: "length ?r = length m - 64"
      "\<And>i. i < length m - 64 \<Longrightarrow> ?r ! i = drop 64 m ! i XOR salsa_block k n (ic + 1 + word_of_nat (i div 64)) ! (i mod 64)"
      using less.hyps [of "drop 64 m" "ic + 1"] True by auto
    have "(map2 (XOR) (take 64 m) (salsa_block k n ic) @ ?r) ! i =
        m ! i XOR salsa_block k n (ic + word_of_nat (i div 64)) ! (i mod 64)" if i: "i < length m" for i
    proof (cases "i < 64")
      case True
      then show ?thesis using \<open>64 \<le> length m\<close> by (simp add: nth_append)
    next
      case False
      then have "i div 64 = Suc ((i - 64) div 64)" "i mod 64 = (i - 64) mod 64"
        using le_div_geq [of 64 i] le_mod_geq [of 64 i] by simp_all
      then show ?thesis using False \<open>64 \<le> length m\<close> i r(2) [of "i - 64"]
        by (simp add: nth_append algebra_simps)
    qed
    then show ?thesis unfolding run using r(1) True by simp
  next
    case False
    have "salsa_xor_loop (n @ store64_le ic) k m = map2 (XOR) m (salsa_block k n ic)"
      using False by (subst salsa_xor_loop.simps) (simp add: salsa_block_def)
    then show ?thesis using False by (simp add: salsa_block_def)
  qed
qed

lemma stream_loop_xor: "salsa_stream_loop input k clen = salsa_xor_loop input k (replicate clen 0)"
proof (induction input k clen rule: salsa_stream_loop.induct)
  case (1 input k clen)
  have zero: "map2 (XOR) (replicate l 0) bs = take l bs" if "l \<le> length bs" for l and bs :: bytes
    using that by (intro nth_equalityI) auto
  show ?case using 1 by (subst salsa_stream_loop.simps, subst salsa_xor_loop.simps) (auto simp: zero min_def)
qed

lemma salsa_xor_bytes:
  assumes "length n = 8"
  shows "length (crypto_stream_salsa20_xor_ic m n ic k) = length m"
    and "i < length m \<Longrightarrow> crypto_stream_salsa20_xor_ic m n ic k ! i =
      m ! i XOR salsa_block k n (ic + word_of_nat (i div 64)) ! (i mod 64)"
  using xor_loop_bytes [OF assms, of ic k m] assms
  by (simp_all add: crypto_stream_salsa20_xor_ic_def salsa20_stream_ref_xor_ic_def ic_bytes_store)

lemma salsa_xor_0: "crypto_stream_salsa20_xor m n k = crypto_stream_salsa20_xor_ic m n 0 k"
  by (simp add: crypto_stream_salsa20_xor_def crypto_stream_salsa20_xor_ic_def)

lemma salsa_stream_xor: "crypto_stream_salsa20 clen n k = crypto_stream_salsa20_xor (replicate clen 0) n k"
proof -
  have "ic_bytes 8 0 = replicate 8 0" by (simp add: numeral_eq_Suc)
  then show ?thesis
    by (simp add: crypto_stream_salsa20_def salsa20_stream_ref_def crypto_stream_salsa20_xor_def
        salsa20_stream_ref_xor_ic_def stream_loop_xor)
qed

text \<open>The model computes the output that \<^verbatim>\<open>test/default/core1.exp\<close> expects, one double round at a time.\<close>

lemma core1_test:
  "crypto_core_hsalsa20 (replicate 16 0)
    [0x4a, 0x5d, 0x9d, 0x5b, 0xa4, 0xce, 0x2d, 0xe1, 0x72, 0x8e, 0x3b, 0xf4, 0x80, 0x35, 0xf, 0x25,
     0xe0, 0x7e, 0x21, 0xc9, 0x47, 0xd1, 0x9e, 0x33, 0x76, 0xf0, 0x9b, 0x3c, 0x1e, 0x16, 0x17, 0x42]
    (Some [0x65, 0x78, 0x70, 0x61, 0x6e, 0x64, 0x20, 0x33, 0x32, 0x2d, 0x62, 0x79, 0x74, 0x65, 0x20, 0x6b]) =
    [0x1b, 0x27, 0x55, 0x64, 0x73, 0xe9, 0x85, 0xd4, 0x62, 0xcd, 0x51, 0x19, 0x7a, 0x9a, 0x46, 0xc7,
     0x60, 0x9, 0x54, 0x9e, 0xac, 0x64, 0x74, 0xf2, 0x6, 0xc4, 0xee, 0x8, 0x44, 0xf6, 0x83, 0x89]"
proof -
  let ?j = "[0x61707865, 0x5b9d5d4a, 0xe12dcea4, 0xf43b8e72, 0x250f3580, 0x3320646e, 0x0, 0x0,
      0x0, 0x0, 0x79622d32, 0xc9217ee0, 0x339ed147, 0x3c9bf076, 0x4217161e, 0x6b206574]"
  have start: "salsa_setup (replicate 16 0)
    [0x4a, 0x5d, 0x9d, 0x5b, 0xa4, 0xce, 0x2d, 0xe1, 0x72, 0x8e, 0x3b, 0xf4, 0x80, 0x35, 0xf, 0x25,
     0xe0, 0x7e, 0x21, 0xc9, 0x47, 0xd1, 0x9e, 0x33, 0x76, 0xf0, 0x9b, 0x3c, 0x1e, 0x16, 0x17, 0x42]
    (Some [0x65, 0x78, 0x70, 0x61, 0x6e, 0x64, 0x20, 0x33, 0x32, 0x2d, 0x62, 0x79, 0x74, 0x65, 0x20, 0x6b]) = ?j"
    by code_simp
  have r0: "salsa_double_round ?j =
      [0xbfbfbe6c, 0x71c8d19e, 0x36a00e1b, 0xcf3e9165, 0x9356f0a7, 0xc7d4bb64, 0xea74c975, 0xb0f4c673,
      0x5a04abd6, 0x24c79160, 0x2b23c226, 0xf372564, 0x5e82239d, 0xabd906e0, 0x964e2e69, 0xafedb6ad]" by code_simp
  have r1: "salsa_double_round [0xbfbfbe6c, 0x71c8d19e, 0x36a00e1b, 0xcf3e9165, 0x9356f0a7, 0xc7d4bb64, 0xea74c975, 0xb0f4c673,
      0x5a04abd6, 0x24c79160, 0x2b23c226, 0xf372564, 0x5e82239d, 0xabd906e0, 0x964e2e69, 0xafedb6ad] =
      [0x8d11373b, 0x3b16ace5, 0x25404b97, 0x825f15b0, 0x5ef349c3, 0x4b5b41e3, 0xd92e9cef, 0x1630cdb6,
      0x77c358af, 0x28d2a6f0, 0x6d301128, 0x3ca2bdee, 0xfa6fe34f, 0xf057388d, 0xb9707ebb, 0x502a8eae]" by code_simp
  have r2: "salsa_double_round [0x8d11373b, 0x3b16ace5, 0x25404b97, 0x825f15b0, 0x5ef349c3, 0x4b5b41e3, 0xd92e9cef, 0x1630cdb6,
      0x77c358af, 0x28d2a6f0, 0x6d301128, 0x3ca2bdee, 0xfa6fe34f, 0xf057388d, 0xb9707ebb, 0x502a8eae] =
      [0xa7fe22d0, 0x124e1e63, 0x7dd5ee22, 0x6569e9f2, 0xdc44f506, 0x66c88341, 0xe3f55b52, 0xe83cb685,
      0xe0dd522, 0xaf476d7b, 0x768d8a5f, 0x703825f3, 0xf7ded5c2, 0x686438a2, 0xf7ebf910, 0x92a7c614]" by code_simp
  have r3: "salsa_double_round [0xa7fe22d0, 0x124e1e63, 0x7dd5ee22, 0x6569e9f2, 0xdc44f506, 0x66c88341, 0xe3f55b52, 0xe83cb685,
      0xe0dd522, 0xaf476d7b, 0x768d8a5f, 0x703825f3, 0xf7ded5c2, 0x686438a2, 0xf7ebf910, 0x92a7c614] =
      [0x42da5e2d, 0x2bc59429, 0xed296dee, 0xeadd096e, 0x7d2a4cae, 0x7b9de028, 0x237c0e5f, 0x63be6a38,
      0x8c5c3a48, 0xdaac12f4, 0xbac5a078, 0xe143bb95, 0xf1c937a2, 0x1bd245b, 0x7de69fcd, 0x142a88eb]" by code_simp
  have r4: "salsa_double_round [0x42da5e2d, 0x2bc59429, 0xed296dee, 0xeadd096e, 0x7d2a4cae, 0x7b9de028, 0x237c0e5f, 0x63be6a38,
      0x8c5c3a48, 0xdaac12f4, 0xbac5a078, 0xe143bb95, 0xf1c937a2, 0x1bd245b, 0x7de69fcd, 0x142a88eb] =
      [0xc8c13420, 0x5075cdf, 0x53fd0724, 0xd17f2234, 0x39e3b7a7, 0xcf38b2a2, 0xb4231846, 0x30758fd2,
      0xf552ebd1, 0xa7da3002, 0x286267ce, 0x5bdb7a8f, 0xcbc07e4, 0x51d16c7d, 0xf3bddff3, 0xd92132ba]" by code_simp
  have r5: "salsa_double_round [0xc8c13420, 0x5075cdf, 0x53fd0724, 0xd17f2234, 0x39e3b7a7, 0xcf38b2a2, 0xb4231846, 0x30758fd2,
      0xf552ebd1, 0xa7da3002, 0x286267ce, 0x5bdb7a8f, 0xcbc07e4, 0x51d16c7d, 0xf3bddff3, 0xd92132ba] =
      [0xd60d341d, 0x84df3cb2, 0xcafdba0, 0x4c23d49f, 0x5d07ce58, 0x247a3619, 0x93ce5237, 0x48e0819c,
      0x7d712c26, 0x7a6adf92, 0x8377e90b, 0xfe66c193, 0x1677b552, 0x70e74f22, 0x51f34576, 0xb06d8823]" by code_simp
  have r6: "salsa_double_round [0xd60d341d, 0x84df3cb2, 0xcafdba0, 0x4c23d49f, 0x5d07ce58, 0x247a3619, 0x93ce5237, 0x48e0819c,
      0x7d712c26, 0x7a6adf92, 0x8377e90b, 0xfe66c193, 0x1677b552, 0x70e74f22, 0x51f34576, 0xb06d8823] =
      [0x4d59b5b4, 0x2c3b8972, 0x1e27c0b7, 0x4f422684, 0xad70478b, 0x2faaa5de, 0xa6683ffb, 0x4ac5501e,
      0xd3b78c7c, 0x6a183446, 0x3f818384, 0x9c4e59e0, 0xac074421, 0xcf3aa1a0, 0xce56cb15, 0xbcdcacc2]" by code_simp
  have r7: "salsa_double_round [0x4d59b5b4, 0x2c3b8972, 0x1e27c0b7, 0x4f422684, 0xad70478b, 0x2faaa5de, 0xa6683ffb, 0x4ac5501e,
      0xd3b78c7c, 0x6a183446, 0x3f818384, 0x9c4e59e0, 0xac074421, 0xcf3aa1a0, 0xce56cb15, 0xbcdcacc2] =
      [0x1f972938, 0xf776092c, 0x9c4c2515, 0x9f0945d0, 0x12904b8a, 0xa69eff88, 0x3453420, 0x34a348c7,
      0x95e7a892, 0x427932b5, 0x51297995, 0xe10f3323, 0x8bd9bbe2, 0x9bbc65e7, 0xfe8e5015, 0x88c42c63]" by code_simp
  have r8: "salsa_double_round [0x1f972938, 0xf776092c, 0x9c4c2515, 0x9f0945d0, 0x12904b8a, 0xa69eff88, 0x3453420, 0x34a348c7,
      0x95e7a892, 0x427932b5, 0x51297995, 0xe10f3323, 0x8bd9bbe2, 0x9bbc65e7, 0xfe8e5015, 0x88c42c63] =
      [0x8e23feff, 0xbb57e3a8, 0x2e9ce98e, 0xef005bda, 0x6576bd84, 0xf92a7c11, 0xcef956f3, 0xbe525b0,
      0x6793208b, 0x1735426, 0x95f43a74, 0x7f4f2be6, 0x5aad6d20, 0xaf8bf498, 0xe5ef8bf8, 0xf71b53c4]" by code_simp
  have r9: "salsa_double_round [0x8e23feff, 0xbb57e3a8, 0x2e9ce98e, 0xef005bda, 0x6576bd84, 0xf92a7c11, 0xcef956f3, 0xbe525b0,
      0x6793208b, 0x1735426, 0x95f43a74, 0x7f4f2be6, 0x5aad6d20, 0xaf8bf498, 0xe5ef8bf8, 0xf71b53c4] =
      [0x6455271b, 0x61fb2532, 0xd014184f, 0x3d8fa8a0, 0x12069, 0xd485e973, 0x9e540960, 0xf27464ac,
      0x8eec406, 0x8983f644, 0x1951cd62, 0xecd78af5, 0xb98dc76, 0xa0891d1a, 0xac152dce, 0xc7469a7a]" by code_simp
  have ten: "(f ^^ 10) x = f (f (f (f (f (f (f (f (f (f x)))))))))" for f :: "u32 list \<Rightarrow> u32 list" and x
    by (simp add: numeral_eq_Suc)
  have "(salsa_double_round ^^ 10) ?j = [0x6455271b, 0x61fb2532, 0xd014184f, 0x3d8fa8a0, 0x12069, 0xd485e973, 0x9e540960, 0xf27464ac,
      0x8eec406, 0x8983f644, 0x1951cd62, 0xecd78af5, 0xb98dc76, 0xa0891d1a, 0xac152dce, 0xc7469a7a]"
    unfolding ten by (simp only: r0 r1 r2 r3 r4 r5 r6 r7 r8 r9)
  then show ?thesis unfolding crypto_core_hsalsa20_def start Let_def by (simp only:) code_simp
qed


end
