(* ===== verification/SecretBox.thy ===== *)
theory SecretBox
  imports Salsa20 Poly1305 ChaCha
begin

text \<open>
  \<^verbatim>\<open>crypto_secretbox/crypto_secretbox_easy.c\<close>: encryption with a shared key. The code takes the first
  block of the stream apart, its first half being the key of the authenticator; the property is that
  this is the construction of NaCl, a stream that starts at its byte 32, and that a box opens to a
  message exactly if it is the box of this message.
\<close>

section \<open>The boxes\<close>

definition secretbox_ZEROBYTES :: nat where "secretbox_ZEROBYTES = 32"
definition secretbox_MACBYTES :: nat where "secretbox_MACBYTES = 16"

definition secretbox_MESSAGEBYTES_MAX :: nat where
  "secretbox_MESSAGEBYTES_MAX = SODIUM_SIZE_MAX - secretbox_MACBYTES"

text \<open>
  Ciphertext and authenticator; \<open>block0\<close> is what the code writes of its 64 bytes. The caller's buffers
  do not overlap.
\<close>

definition crypto_secretbox_detached :: "bytes \<Rightarrow> bytes \<Rightarrow> bytes \<Rightarrow> bytes \<times> bytes" where
  "crypto_secretbox_detached m n k =
     (let subkey = crypto_core_hsalsa20 n k None;
          mlen0 = min (length m) (64 - secretbox_ZEROBYTES);
          block0 = replicate secretbox_ZEROBYTES 0 @ take mlen0 m;
          block0 = crypto_stream_salsa20_xor block0 (drop 16 n) subkey;
          state = poly1305_init block0;
          c = take mlen0 (drop secretbox_ZEROBYTES block0) @
              (if mlen0 < length m then crypto_stream_salsa20_xor_ic (drop mlen0 m) (drop 16 n) 1 subkey else [])
      in (c, poly1305_finish (poly1305_update c state)))"

definition crypto_secretbox_easy :: "bytes \<Rightarrow> bytes \<Rightarrow> bytes \<Rightarrow> bytes result" where
  "crypto_secretbox_easy m n k =
     (if secretbox_MESSAGEBYTES_MAX < length m then Inl sodium_misuse
      else let (c, mac) = crypto_secretbox_detached m n k in Inr (mac @ c))"

definition crypto_onetimeauth_poly1305_verify :: "bytes \<Rightarrow> bytes \<Rightarrow> bytes \<Rightarrow> int" where
  "crypto_onetimeauth_poly1305_verify h input k = crypto_verify_n h (crypto_onetimeauth_poly1305 input k)"

definition crypto_secretbox_open_detached :: "bytes \<Rightarrow> bytes \<Rightarrow> bytes \<Rightarrow> bytes \<Rightarrow> bytes option" where
  "crypto_secretbox_open_detached c mac n k =
     (let subkey = crypto_core_hsalsa20 n k None;
          block0 = crypto_stream_salsa20 32 (drop 16 n) subkey
      in if crypto_onetimeauth_poly1305_verify mac c block0 \<noteq> 0 then None
         else
           let mlen0 = min (length c) (64 - secretbox_ZEROBYTES);
               block0 = block0 @ take mlen0 c;
               block0 = crypto_stream_salsa20_xor block0 (drop 16 n) subkey
           in Some (take mlen0 (drop secretbox_ZEROBYTES block0) @
                (if mlen0 < length c then crypto_stream_salsa20_xor_ic (drop mlen0 c) (drop 16 n) 1 subkey else [])))"

definition crypto_secretbox_open_easy :: "bytes \<Rightarrow> bytes \<Rightarrow> bytes \<Rightarrow> bytes option" where
  "crypto_secretbox_open_easy c n k =
     (if length c < secretbox_MACBYTES then None
      else crypto_secretbox_open_detached (drop secretbox_MACBYTES c) (take secretbox_MACBYTES c) n k)"

section \<open>The stream from its byte 32\<close>

text \<open>The message xored with the stream from byte 32 on, as NaCl has it.\<close>

definition xsalsa :: "bytes \<Rightarrow> bytes \<Rightarrow> bytes \<Rightarrow> bytes" where
  "xsalsa m n k = crypto_stream_salsa20_xor m (drop 16 n) (crypto_core_hsalsa20 n k None)"

definition nacl_cipher :: "bytes \<Rightarrow> bytes \<Rightarrow> bytes \<Rightarrow> bytes" where
  "nacl_cipher m n k = drop 32 (xsalsa (replicate 32 0 @ m) n k)"

definition nacl_box :: "bytes \<Rightarrow> bytes \<Rightarrow> bytes \<Rightarrow> bytes" where
  "nacl_box m n k =
     crypto_onetimeauth_poly1305 (nacl_cipher m n k) (xsalsa (replicate 32 0) n k) @ nacl_cipher m n k"

lemma nth_xsalsa:
  assumes "length n = 24"
  shows "length (xsalsa m n k) = length m"
    and "i < length m \<Longrightarrow> xsalsa m n k ! i = m ! i XOR
      salsa_block (crypto_core_hsalsa20 n k None) (drop 16 n) (word_of_nat (i div 64)) ! (i mod 64)"
  using assms by (simp_all add: xsalsa_def salsa_xor_0 salsa_xor_bytes)

lemma length_nacl_cipher: "length n = 24 \<Longrightarrow> length (nacl_cipher m n k) = length m"
  by (simp add: nacl_cipher_def nth_xsalsa)

text \<open>The first block and the stream from block 1 on make one stream.\<close>

lemma split_cipher:
  assumes "length n = 24" and "length z = 32"
  shows "take (min (length m) 32) (drop 32 (xsalsa (z @ take (min (length m) 32) m) n k)) @
      (if min (length m) 32 < length m
       then crypto_stream_salsa20_xor_ic (drop (min (length m) 32) m) (drop 16 n) 1 (crypto_core_hsalsa20 n k None) else []) =
    nacl_cipher m n k" (is "?a @ ?b = _")
proof (rule nth_equalityI)
  let ?l = "min (length m) 32"
  have n: "length (drop 16 n) = 8" using assms(1) by simp
  have a: "length ?a = ?l" using assms by (simp add: nth_xsalsa)
  have b: "length ?b = length m - ?l" using n by (simp add: salsa_xor_bytes)
  show "length (?a @ ?b) = length (nacl_cipher m n k)"
    unfolding length_append a b using assms by (simp add: length_nacl_cipher)
  fix i assume "i < length (?a @ ?b)"
  then have i: "i < length m" unfolding length_append a b by linarith
  have cipher: "nacl_cipher m n k ! i = m ! i XOR
      salsa_block (crypto_core_hsalsa20 n k None) (drop 16 n) (word_of_nat ((32 + i) div 64)) ! ((32 + i) mod 64)"
    using assms i nth_xsalsa [OF assms(1), where m = "replicate 32 0 @ m"]
    by (simp add: nacl_cipher_def nth_append)
  show "(?a @ ?b) ! i = nacl_cipher m n k ! i"
  proof (cases "i < ?l")
    case True
    then have "?a ! i = m ! i XOR salsa_block (crypto_core_hsalsa20 n k None) (drop 16 n) (word_of_nat ((32 + i) div 64)) ! ((32 + i) mod 64)"
      using assms i nth_xsalsa [OF assms(1), where m = "z @ take ?l m"] by (simp add: nth_append)
    then show ?thesis using True a cipher by (simp add: nth_append)
  next
    case False
    then have l: "?l = 32" "32 \<le> i" using i by linarith+
    then have d: "(32 + i) div 64 = Suc ((i - 32) div 64)" "(32 + i) mod 64 = (i - 32) mod 64"
      using le_div_geq [of 64 "32 + i"] le_mod_geq [of 64 "32 + i"] by simp_all
    have "?b ! (i - 32) = m ! i XOR
        salsa_block (crypto_core_hsalsa20 n k None) (drop 16 n) (1 + word_of_nat ((i - 32) div 64)) ! ((i - 32) mod 64)"
      using salsa_xor_bytes(2) [OF n, of "i - 32" "drop 32 m"] i l by simp
    then show ?thesis using False a cipher d l by (simp add: nth_append)
  qed
qed

lemma onetimeauth_parts: "poly1305_finish (poly1305_update c (poly1305_init k)) = crypto_onetimeauth_poly1305 c k"
  by (simp add: crypto_onetimeauth_poly1305_def)

lemma init_first_32:
  assumes "32 \<le> length a" and "take 32 a = take 32 b" and "32 \<le> length b"
  shows "poly1305_init a = poly1305_init b"
proof -
  have "a ! i = b ! i" if "i < 32" for i using assms that by (metis nth_take)
  then show ?thesis using assms(1,3)
    by (simp add: poly1305_init_def load64_le_def Let_def)
qed


lemma detached_nacl:
  assumes "length n = 24"
  shows "crypto_secretbox_detached m n k =
    (nacl_cipher m n k, crypto_onetimeauth_poly1305 (nacl_cipher m n k) (xsalsa (replicate 32 0) n k))"
proof -
  let ?b = "xsalsa (replicate 32 0 @ take (min (length m) 32) m) n k" and ?z = "xsalsa (replicate 32 0) n k"
  have "take 32 ?b = take 32 ?z"
    using nth_xsalsa [OF assms] by (intro nth_equalityI) (simp_all add: nth_append)
  then have "poly1305_init ?b = poly1305_init ?z"
    using nth_xsalsa(1) [OF assms] by (intro init_first_32) simp_all
  then have "poly1305_finish (poly1305_update c (poly1305_init ?b)) = crypto_onetimeauth_poly1305 c ?z" for c
    by (simp only: onetimeauth_parts)
  then show ?thesis
    using split_cipher [OF assms, of "replicate 32 0" m k]
    by (simp add: crypto_secretbox_detached_def secretbox_ZEROBYTES_def Let_def flip: xsalsa_def)
qed

lemma open_detached_nacl:
  assumes "length n = 24" and "length mac = 16"
  shows "crypto_secretbox_open_detached c mac n k =
    (if mac = crypto_onetimeauth_poly1305 c (xsalsa (replicate 32 0) n k) then Some (nacl_cipher c n k) else None)"
proof -
  have z: "crypto_stream_salsa20 32 (drop 16 n) (crypto_core_hsalsa20 n k None) = xsalsa (replicate 32 0) n k"
    by (simp add: salsa_stream_xor xsalsa_def)
  have "length (xsalsa (replicate 32 0) n k) = 32" using nth_xsalsa(1) [OF assms(1)] by simp
  then show ?thesis
    using split_cipher [OF assms(1), of "xsalsa (replicate 32 0) n k" c k] assms(2)
    by (simp add: crypto_secretbox_open_detached_def crypto_onetimeauth_poly1305_verify_def verify_iff z
        secretbox_ZEROBYTES_def Let_def crypto_onetimeauth_poly1305_def flip: xsalsa_def)
qed

lemma nacl_cipher_twice:
  assumes "length n = 24"
  shows "nacl_cipher (nacl_cipher m n k) n k = m"
proof (rule nth_equalityI)
  show "length (nacl_cipher (nacl_cipher m n k) n k) = length m" using assms by (simp add: length_nacl_cipher)
  fix i assume "i < length (nacl_cipher (nacl_cipher m n k) n k)"
  then have i: "i < length m" using assms by (simp add: length_nacl_cipher)
  have nth: "nacl_cipher x n k ! i = x ! i XOR
      salsa_block (crypto_core_hsalsa20 n k None) (drop 16 n) (word_of_nat ((32 + i) div 64)) ! ((32 + i) mod 64)"
    if "length x = length m" for x
    using that i nth_xsalsa [OF assms, where m = "replicate 32 0 @ x"] by (simp add: nacl_cipher_def nth_append)
  show "nacl_cipher (nacl_cipher m n k) n k ! i = m ! i"
    using nth [of m] nth [of "nacl_cipher m n k"] assms by (simp add: length_nacl_cipher xor.assoc)
qed

lemma length_onetimeauth [simp]: "length (crypto_onetimeauth_poly1305 m k) = 16"
  by (simp add: crypto_onetimeauth_poly1305_def)

lemma length_nacl_box: "length n = 24 \<Longrightarrow> length (nacl_box m n k) = length m + 16"
  by (simp add: nacl_box_def length_nacl_cipher)

lemma secretbox_easy_nacl:
  assumes "length n = 24" and "length m \<le> secretbox_MESSAGEBYTES_MAX"
  shows "crypto_secretbox_easy m n k = Inr (nacl_box m n k)"
  using assms by (simp add: crypto_secretbox_easy_def detached_nacl nacl_box_def)

lemma secretbox_opens:
  assumes "length n = 24"
  shows "crypto_secretbox_open_easy c n k = Some m \<longleftrightarrow> c = nacl_box m n k"
proof (cases "length c < 16")
  case True
  then show ?thesis using length_nacl_box [OF assms, of m k]
    by (auto simp: crypto_secretbox_open_easy_def secretbox_MACBYTES_def)
next
  case False
  then have mac: "length (take 16 c) = 16" by simp
  let ?z = "xsalsa (replicate 32 0) n k"
  have "crypto_secretbox_open_easy c n k = Some m \<longleftrightarrow>
      take 16 c = crypto_onetimeauth_poly1305 (drop 16 c) ?z \<and> m = nacl_cipher (drop 16 c) n k"
    using False by (auto simp: crypto_secretbox_open_easy_def secretbox_MACBYTES_def open_detached_nacl [OF assms mac])
  also have "\<dots> \<longleftrightarrow> take 16 c = crypto_onetimeauth_poly1305 (nacl_cipher m n k) ?z \<and> drop 16 c = nacl_cipher m n k"
    using nacl_cipher_twice [OF assms] by metis
  also have "\<dots> \<longleftrightarrow> c = nacl_box m n k"
    unfolding nacl_box_def by (metis append_eq_conv_conj length_onetimeauth)
  finally show ?thesis .
qed

section \<open>Properties\<close>

text \<open>
  A box under a shared key: up to the limit \<open>crypto_secretbox_easy\<close>, which handles the first
  block apart, makes the box of NaCl: the message xored with the stream of XSalsa20 from its byte 32
  on, behind its Poly1305 authenticator under the first 32 bytes; and a box opens to a message exactly
  if it is the box of this message.
\<close>

theorem secretbox_is_nacl:
  assumes "length n = 24" and "length m \<le> secretbox_MESSAGEBYTES_MAX"
  shows "crypto_secretbox_easy m n k = Inr (nacl_box m n k) \<and> length (nacl_box m n k) = length m + 16 \<and>
    (\<forall>c m'. crypto_secretbox_open_easy c n k = Some m' \<longleftrightarrow> c = nacl_box m' n k)"
  using assms by (simp add: secretbox_easy_nacl secretbox_opens length_nacl_box)

theorem secretbox_is_nacl_witness:
  "crypto_secretbox_easy [1, 2, 3] (replicate 24 5) (replicate 32 7) = Inr (nacl_box [1, 2, 3] (replicate 24 5) (replicate 32 7)) \<and>
    crypto_secretbox_open_easy (nacl_box [1, 2, 3] (replicate 24 5) (replicate 32 7)) (replicate 24 5) (replicate 32 7) =
      Some [1, 2, 3]"
proof -
  have small: "length [1 :: u8, 2, 3] \<le> secretbox_MESSAGEBYTES_MAX"
    by (simp add: secretbox_MESSAGEBYTES_MAX_def SODIUM_SIZE_MAX_def secretbox_MACBYTES_def)
  show ?thesis using secretbox_is_nacl [OF _ small, of "replicate 24 5" "replicate 32 7"] by simp
qed

end
