(* ===== verification/SealedBox.thy ===== *)
theory SealedBox
  imports SecretBox
begin

text \<open>
  \<^verbatim>\<open>crypto_box/crypto_box_seal.c\<close>, \<^verbatim>\<open>crypto_box_easy.c\<close> and
  \<^verbatim>\<open>curve25519xsalsa20poly1305/box_curve25519xsalsa20poly1305.c\<close>: boxes for a public key, and the
  sealed boxes with a key pair of their own. The multiplication on the curve and the hash are the record
  \<open>primitives\<close>; what is needed of them is that two key pairs have one shared secret.
\<close>

section \<open>The functions\<close>

record primitives =
  scalarmult :: "bytes \<Rightarrow> bytes \<Rightarrow> bytes option"
  scalarmult_base :: "bytes \<Rightarrow> bytes option"
  generichash :: "nat \<Rightarrow> bytes list \<Rightarrow> bytes"

definition box_NONCEBYTES :: nat where "box_NONCEBYTES = 24"
definition box_PUBLICKEYBYTES :: nat where "box_PUBLICKEYBYTES = 32"
definition box_SEALBYTES :: nat where "box_SEALBYTES = box_PUBLICKEYBYTES + secretbox_MACBYTES"

definition box_MESSAGEBYTES_MAX :: nat where
  "box_MESSAGEBYTES_MAX = secretbox_MESSAGEBYTES_MAX"

lemmas box_sizes = box_NONCEBYTES_def box_PUBLICKEYBYTES_def box_SEALBYTES_def secretbox_MACBYTES_def

text \<open>Public and secret key; \<open>seed\<close> is what \<open>randombytes_buf\<close> draws. \<open>None\<close> is the return value \<open>- 1\<close>.\<close>

definition crypto_box_keypair :: "primitives \<Rightarrow> bytes \<Rightarrow> (bytes \<times> bytes) option" where
  "crypto_box_keypair pr seed = map_option (\<lambda>pk. (pk, seed)) (scalarmult_base pr seed)"

definition crypto_box_beforenm :: "primitives \<Rightarrow> bytes \<Rightarrow> bytes \<Rightarrow> bytes option" where
  "crypto_box_beforenm pr pk sk =
     (case scalarmult pr sk pk of None \<Rightarrow> None | Some s \<Rightarrow> Some (crypto_core_hsalsa20 (replicate 16 0) s None))"

definition crypto_box_detached :: "primitives \<Rightarrow> bytes \<Rightarrow> bytes \<Rightarrow> bytes \<Rightarrow> bytes \<Rightarrow> (bytes \<times> bytes) option" where
  "crypto_box_detached pr m n pk sk =
     (case crypto_box_beforenm pr pk sk of None \<Rightarrow> None | Some k \<Rightarrow> Some (crypto_secretbox_detached m n k))"

definition crypto_box_easy :: "primitives \<Rightarrow> bytes \<Rightarrow> bytes \<Rightarrow> bytes \<Rightarrow> bytes \<Rightarrow> bytes option result" where
  "crypto_box_easy pr m n pk sk =
     (if box_MESSAGEBYTES_MAX < length m then Inl sodium_misuse
      else Inr (map_option (\<lambda>(c, mac). mac @ c) (crypto_box_detached pr m n pk sk)))"

definition crypto_box_open_detached ::
  "primitives \<Rightarrow> bytes \<Rightarrow> bytes \<Rightarrow> bytes \<Rightarrow> bytes \<Rightarrow> bytes \<Rightarrow> bytes option" where
  "crypto_box_open_detached pr c mac n pk sk =
     (case crypto_box_beforenm pr pk sk of None \<Rightarrow> None | Some k \<Rightarrow> crypto_secretbox_open_detached c mac n k)"

definition crypto_box_open_easy :: "primitives \<Rightarrow> bytes \<Rightarrow> bytes \<Rightarrow> bytes \<Rightarrow> bytes \<Rightarrow> bytes option" where
  "crypto_box_open_easy pr c n pk sk =
     (if length c < secretbox_MACBYTES then None
      else crypto_box_open_detached pr (drop secretbox_MACBYTES c) (take secretbox_MACBYTES c) n pk sk)"

definition crypto_box_seal_nonce :: "primitives \<Rightarrow> bytes \<Rightarrow> bytes \<Rightarrow> bytes" where
  "crypto_box_seal_nonce pr pk1 pk2 =
     generichash pr box_NONCEBYTES [take box_PUBLICKEYBYTES pk1, take box_PUBLICKEYBYTES pk2]"

definition crypto_box_seal :: "primitives \<Rightarrow> bytes \<Rightarrow> bytes \<Rightarrow> bytes \<Rightarrow> bytes option result" where
  "crypto_box_seal pr m pk seed =
     (case crypto_box_keypair pr seed of
        None \<Rightarrow> Inr None
      | Some (epk, esk) \<Rightarrow>
          bindR (crypto_box_easy pr m (crypto_box_seal_nonce pr epk pk) pk esk)
            (\<lambda>r. Inr (map_option (\<lambda>c. epk @ c) r)))"

definition crypto_box_seal_open :: "primitives \<Rightarrow> bytes \<Rightarrow> bytes \<Rightarrow> bytes \<Rightarrow> bytes option" where
  "crypto_box_seal_open pr c pk sk =
     (if length c < box_SEALBYTES then None
      else
        let nonce = crypto_box_seal_nonce pr c pk; epk = take box_PUBLICKEYBYTES c
        in crypto_box_open_easy pr (drop box_PUBLICKEYBYTES c) nonce epk sk)"

section \<open>One shared secret\<close>

text \<open>What the boxes need: public keys and nonces of the right length, and the law of Diffie and Hellman.\<close>

definition dh_law :: "primitives \<Rightarrow> bool" where
  "dh_law pr \<longleftrightarrow>
     (\<forall>a b pa pb. length a = 32 \<and> length b = 32 \<and> scalarmult_base pr a = Some pa \<and> scalarmult_base pr b = Some pb \<longrightarrow>
        length pa = 32 \<and> scalarmult pr a pb = scalarmult pr b pa) \<and>
     (\<forall>n cs. length (generichash pr n cs) = n)"

lemma dh_lawD:
  assumes "dh_law pr" and "length a = 32" and "length b = 32"
    and "scalarmult_base pr a = Some pa" and "scalarmult_base pr b = Some pb"
  shows "length pa = 32 \<and> scalarmult pr a pb = scalarmult pr b pa"
  using assms unfolding dh_law_def by blast

lemma length_seal_nonce: "dh_law pr \<Longrightarrow> length (crypto_box_seal_nonce pr p q) = 24"
  unfolding dh_law_def by (drule conjunct2) (simp add: crypto_box_seal_nonce_def box_sizes)

lemma box_easy_nacl:
  assumes "length n = 24" and "length m \<le> box_MESSAGEBYTES_MAX"
  shows "crypto_box_easy pr m n pk sk = Inr (map_option (nacl_box m n) (crypto_box_beforenm pr pk sk))"
  using assms
  by (cases "crypto_box_beforenm pr pk sk")
    (simp_all add: crypto_box_easy_def crypto_box_detached_def detached_nacl nacl_box_def)

lemma box_open_easy:
  "crypto_box_open_easy pr c n pk sk =
    (case crypto_box_beforenm pr pk sk of None \<Rightarrow> None | Some k \<Rightarrow> crypto_secretbox_open_easy c n k)"
  by (cases "crypto_box_beforenm pr pk sk")
    (simp_all add: crypto_box_open_easy_def crypto_box_open_detached_def crypto_secretbox_open_easy_def)

lemma seal_opens:
  assumes "dh_law pr"
  shows "crypto_box_seal_open pr c pk sk = Some m \<longleftrightarrow>
    (\<exists>k. crypto_box_beforenm pr (take 32 c) sk = Some k \<and> length c = length m + box_SEALBYTES \<and>
      drop 32 c = nacl_box m (crypto_box_seal_nonce pr c pk) k)"
proof -
  note n = length_seal_nonce [OF assms, of c pk]
  have "length c = length m + 48" if "drop 32 c = nacl_box m (crypto_box_seal_nonce pr c pk) k" for k
    using arg_cong [OF that, of length] length_nacl_box [OF n] by simp
  then show ?thesis
    using secretbox_opens [OF n]
    by (auto simp: crypto_box_seal_open_def box_open_easy box_sizes Let_def split: option.splits)
qed

lemma seal_nonce_prefix: "length epk = 32 \<Longrightarrow> crypto_box_seal_nonce pr (epk @ c) pk = crypto_box_seal_nonce pr epk pk"
  by (simp add: crypto_box_seal_nonce_def box_sizes)

section \<open>Properties\<close>

text \<open>
  C22. A sealed box: for a key pair that \<open>crypto_box_keypair\<close> made, sealing a message within the limit
  never aborts; it fails only if the curve refuses the drawn key, and otherwise gives 48 more bytes
  that the secret key opens to the message. Whatever opens to a message was, behind a public key, the
  box of this message under the secret shared with that public key.
\<close>

theorem sealed_box:
  assumes "dh_law pr" and "crypto_box_keypair pr seed = Some (pk, sk)" and "length seed = 32"
    and "length eseed = 32" and "length m \<le> box_MESSAGEBYTES_MAX"
  shows "(case crypto_box_seal pr m pk eseed of
      Inl e \<Rightarrow> False
    | Inr None \<Rightarrow> scalarmult_base pr eseed = None \<or> scalarmult pr eseed pk = None
    | Inr (Some c) \<Rightarrow> length c = length m + box_SEALBYTES \<and> crypto_box_seal_open pr c pk sk = Some m) \<and>
    (\<forall>c m'. crypto_box_seal_open pr c pk sk = Some m' \<longleftrightarrow>
      (\<exists>k. crypto_box_beforenm pr (take 32 c) sk = Some k \<and> length c = length m' + box_SEALBYTES \<and>
        drop 32 c = nacl_box m' (crypto_box_seal_nonce pr c pk) k))"
proof -
  have pk: "scalarmult_base pr seed = Some pk" "sk = seed"
    using assms(2) by (auto simp: crypto_box_keypair_def)
  have "case crypto_box_seal pr m pk eseed of
      Inl e \<Rightarrow> False
    | Inr None \<Rightarrow> scalarmult_base pr eseed = None \<or> scalarmult pr eseed pk = None
    | Inr (Some c) \<Rightarrow> length c = length m + box_SEALBYTES \<and> crypto_box_seal_open pr c pk sk = Some m"
  proof (cases "scalarmult_base pr eseed")
    case None
    then show ?thesis by (simp add: crypto_box_seal_def crypto_box_keypair_def)
  next
    case (Some epk)
    note dh = conjunct2 [OF dh_lawD [OF assms(1,4,3) Some pk(1)]] conjunct1 [OF dh_lawD [OF assms(1,4,3) Some pk(1)]]
    let ?n = "crypto_box_seal_nonce pr epk pk"
    note n = length_seal_nonce [OF assms(1), of epk pk]
    have seal: "crypto_box_seal pr m pk eseed = Inr (map_option (\<lambda>k. epk @ nacl_box m ?n k) (crypto_box_beforenm pr pk eseed))"
      using Some by (simp add: crypto_box_seal_def crypto_box_keypair_def box_easy_nacl [OF n assms(5)] option.map_comp comp_def)
    show ?thesis
    proof (cases "scalarmult pr eseed pk")
      case None
      then show ?thesis unfolding seal by (simp add: crypto_box_beforenm_def)
    next
      case secret: (Some s)
      let ?k = "crypto_core_hsalsa20 (replicate 16 0) s None"
      have "crypto_box_beforenm pr pk eseed = Some ?k" "crypto_box_beforenm pr epk sk = Some ?k"
        using secret dh(1) pk(2) by (simp_all add: crypto_box_beforenm_def)
      then show ?thesis
        unfolding seal seal_opens [OF assms(1)] using dh(2) length_nacl_box [OF n]
        by (simp add: seal_nonce_prefix box_sizes)
    qed
  qed
  then show ?thesis using seal_opens [OF assms(1)] by blast
qed

text \<open>A group in which the law can be seen: bytes that are xored.\<close>

definition xor_primitives :: primitives where
  "xor_primitives = \<lparr>
     scalarmult = (\<lambda>n p. Some (map2 (XOR) n p)), scalarmult_base = (\<lambda>n. Some (take 32 n)),
     generichash = (\<lambda>n cs. replicate n 0) \<rparr>"

lemma xor_primitives_law: "dh_law xor_primitives"
  by (auto simp: dh_law_def xor_primitives_def map2_xor_commute)

theorem sealed_box_witness:
  "\<exists>c. crypto_box_seal xor_primitives [1, 2, 3] (replicate 32 5) (replicate 32 7) = Inr (Some c) \<and> length c = 51 \<and>
    crypto_box_seal_open xor_primitives c (replicate 32 5) (replicate 32 5) = Some [1, 2, 3]"
proof -
  have small: "length [1 :: u8, 2, 3] \<le> box_MESSAGEBYTES_MAX"
    by (simp add: box_MESSAGEBYTES_MAX_def secretbox_MESSAGEBYTES_MAX_def SODIUM_SIZE_MAX_def secretbox_MACBYTES_def)
  have pair: "crypto_box_keypair xor_primitives (replicate 32 5) = Some (replicate 32 5, replicate 32 5)"
    by (simp add: crypto_box_keypair_def xor_primitives_def)
  have "case crypto_box_seal xor_primitives [1, 2, 3] (replicate 32 5) (replicate 32 7) of
      Inl e \<Rightarrow> False
    | Inr None \<Rightarrow> scalarmult_base xor_primitives (replicate 32 7) = None \<or>
        scalarmult xor_primitives (replicate 32 7) (replicate 32 5) = None
    | Inr (Some c) \<Rightarrow> length c = length [1 :: u8, 2, 3] + box_SEALBYTES \<and>
        crypto_box_seal_open xor_primitives c (replicate 32 5) (replicate 32 5) = Some [1, 2, 3]"
    using sealed_box [OF xor_primitives_law pair _ _ small] by simp
  moreover have "scalarmult_base xor_primitives x = Some (take 32 x)" "scalarmult xor_primitives x y = Some (map2 (XOR) x y)" for x y
    by (simp_all add: xor_primitives_def)
  ultimately show ?thesis by (auto simp: box_sizes split: sum.splits option.splits)
qed

end
