(* ===== verification/Spec2Isabelle.thy ===== *)
theory Spec2Isabelle
  imports ExportImport FdOwner PidOwner Simulation CommandRuns NativeSodium SealedBox
begin

text \<open>
  \<^bold>\<open>diffmonger\<close> takes snapshots of a dataset and keeps them as differences in a repository. Which
  snapshots are kept and which difference is stored for each is decided by a tree on the numbers
  of the snapshots; a repository can be copied to a host that trusts new snapshots only at a limited
  rate, and its contents can be encrypted.

  \<^bold>\<open>The parts and how they interact.\<close> A command (\<^verbatim>\<open>src/Controller.cpp\<close>) opens a repository
  (\<^verbatim>\<open>src/RepositoryStructure.cpp\<close>), asks the tree (\<^verbatim>\<open>src/diffmonger.hpp\<close>, lifted to nodes by
  \<^verbatim>\<open>src/Node.hpp\<close>) which node comes next, which node its difference is against and which nodes to
  prune, and calls a driver (the interface \<^verbatim>\<open>src/BackendDriver.hpp\<close>, implemented for ZFS by
  \<^verbatim>\<open>src/ZfsDriver.cpp\<close> over \<^verbatim>\<open>src/zfs.cpp\<close>) for the snapshot and its stream, which it encrypts
  (\<^verbatim>\<open>src/EncryptionUtil.cpp\<close>, \<^verbatim>\<open>src/KeyPair.cpp\<close>) on the way into the repository. A repository moves its
  breadcrumb by \<^verbatim>\<open>src/Trust.cpp\<close>. Below are the owners of descriptors and processes, the loops around
  \<^verbatim>\<open>read\<close> and \<^verbatim>\<open>write\<close>, the codecs and the buffers for passwords (\<^verbatim>\<open>libs/util\<close>); above are the parser of
  command lines and the commands of \<^verbatim>\<open>src/CommandLineInterface.cpp\<close>.

  \<^bold>\<open>How the model is built.\<close> \<open>Prelude\<close> has the exceptions as the datatype \<open>exn\<close>, results as sums
  with it, and programs \<open>('s, 'a) prog\<close> that thread a state and may throw; what was done before a
  throw stays done. Integers that can overflow are words. The locale \<open>effect\<close> is a
  relation between states that programs keep however they end. State is a record per component
  that the next one extends: \<open>machine\<close> (file system, the fate of every system call, randomness),
  \<open>repo_state\<close> (with an open repository), \<open>system\<close> (with the state of the backend). Every system call
  may work, fail or be cut by a power loss, as the parameter \<open>fate\<close> says.

  \<^item> The tree: \<open>TreeSpec\<close> is the mathematics of the README on natural numbers; \<open>FenwickTree\<close> the
    routines of \<^verbatim>\<open>diffmonger.hpp\<close> on 64-bit words and the proof that they compute it, with their
    exceptions from \<open>2 ^ 63\<close> on; \<open>Node\<close> the type around them; \<open>Simulation\<close> the program
    \<^verbatim>\<open>simulation/disk-usage-analysis.cpp\<close> with the costs it adds up.
  \<^item> Formats: \<open>Serialisation\<close> (\<^verbatim>\<open>Serialisation.hpp\<close>), \<open>Uuid\<close>, \<open>BackendDriver\<close>, \<open>KeyPair\<close> and
    \<open>EncryptionUtil\<close>. The locale \<open>codec\<close> is the contract of a pair of functions that write and read a
    value, interpreted for every format of the program; libsodium is the record \<open>sodium\<close> of its functions,
    with its documented laws as hypotheses.
  \<^item> libsodium (\<^verbatim>\<open>externals/libsodium\<close>), as far as it keeps the data: \<open>SodiumUtils\<close> (the helpers of
    \<^verbatim>\<open>common.h\<close>, \<^verbatim>\<open>utils.c\<close>, \<^verbatim>\<open>verify.c\<close>), \<open>ChaCha\<close> (the stream cipher and what RFC 8439 says of it), \<open>Poly1305\<close> (the
    implementation with 44-bit limbs; locale \<open>incremental\<close> for a message that comes in pieces; it computes the
    polynomial modulo \<open>2 ^ 130 - 5\<close>), \<open>SecretStream\<close> (the secret stream and the authenticated encryption:
    decryption accepts exactly what encryption makes). \<open>NativeSodium\<close> puts them into the record \<open>sodium\<close> and
    proves their laws, so that payloads and key pairs rest on the laws of the boxes alone. \<open>Salsa20\<close>, \<open>SecretBox\<close>
    and \<open>SealedBox\<close> are the boxes: that they open rests on the law of Diffie and Hellman for the
    multiplication on the curve, a parameter.
  \<^item> The repository: \<open>FileSystem\<close> (the machine, and the functions of \<^verbatim>\<open>ioutil.cpp\<close>,
    \<^verbatim>\<open>cstdio-util.cpp\<close> and \<^verbatim>\<open>std::filesystem\<close> on whole files), \<open>Repository\<close> (the functions of
    \<^verbatim>\<open>RepositoryStructure.cpp\<close>), \<open>RepositoryFacts\<close> (atomic and durable commits, lookups, key slots, the
    torn breadcrumb), \<open>Trust\<close>.
  \<^item> The commands: \<open>Controller\<close> (the functions of \<^verbatim>\<open>Controller.cpp\<close>), \<open>ControllerFacts\<close> (what they may touch,
    the rate of trust), \<open>Retention\<close> (locale \<open>policy\<close>, interpreted on the tree, and the run of
    \<open>snapshot\<close> under the contract \<open>serves\<close> of a driver), \<open>Restore\<close> (restoring as a replay),
    \<open>ExportImport\<close> (exporting into another repository through \<open>snapshot_import\<close> copies it, under the contract
    \<open>receives\<close> of a driver).
  \<^item> ZFS: \<open>Text\<close>, \<open>Regex\<close> (a matcher for the expressions of \<^verbatim>\<open>zfs.cpp\<close> with its specification), \<open>Process\<close>
    (\<^verbatim>\<open>sysutil.cpp\<close>: starting a program, waiting for it, its status), \<open>Zfs\<close>, \<open>ZfsDriver\<close> (an
    interpretation of the locale \<open>backend\<close>), \<open>ZfsFacts\<close> (the commands on a dataset end to end, under
    what the manual of \<^verbatim>\<open>zfs\<close> says of its calls).
  \<^item> Resources: \<open>Owner\<close> is the contract of a class whose objects own a resource, interpreted by
    \<open>FdOwner\<close> and \<open>PidOwner\<close>: relations \<open>fd_reaches\<close> and \<open>pid_reaches\<close> of what any program can do with such
    objects, and that everything is released once. \<open>Ioutil\<close> are the loops of \<^verbatim>\<open>ioutil.cpp\<close> over calls that are
    interrupted or cut; \<open>PasswordBuffer\<close> reads passwords with them into locked memory.
  \<^item> Command lines: \<open>Parser\<close> (\<^verbatim>\<open>parser/Parser.hpp\<close>): the tree of commands with their parameters and
    filters, the parser over hooks for the virtual functions, its grammar, and the documentation.
    \<open>CommandLineInterface\<close> (\<^verbatim>\<open>CommandLineInterface.cpp\<close>, \<^verbatim>\<open>main.cpp\<close>): the commands of the program as such a tree,
    their hooks over the functions of the controller, and \<open>create_params\<close>, which reads the parameters of a
    repository back from the command line it was made with; \<open>CommandLineFacts\<close>: this gives what \<open>init\<close> meant,
    and which numbers and passwords are accepted; \<open>CommandRuns\<close>: a command line with \<open>snapshot\<close>
    does what \<open>snapshot\<close> of the controller does with the parameters and the driver that are meant.

  \<^bold>\<open>Bounds and fuel.\<close> \<open>prune_loop\<close> has fuel 65, one more than there are bits; running out is the outcome
  \<open>Diverged\<close>, which is proved never to occur. \<open>snapshot_loop\<close>, \<open>next_snapshot_loop\<close> and \<open>io_consume\<close> are partial
  functions whose value is \<open>None\<close> where the code would not return, and it is proved when they return.
  \<open>create_params\<close> has fuel for stored command lines that themselves name a command that opens a repository; what
  \<open>init\<close> stores needs one level, which is proved.
  All other loops are total functions. The tree works below node \<open>2 ^ 63\<close>, key slots go up to 255, buffers
  for passwords stay below half the address space.

  \<^bold>\<open>Not modelled.\<close> Of \<^verbatim>\<open>externals/libsodium\<close>, which is third-party code, the multiplication on the curve,
  the hashes and the random numbers are parameters; the SIMD variants of what is modelled and the many primitives the
  program does not call are left out. Of \<^verbatim>\<open>CommandLineInterface.cpp\<close>
  and \<^verbatim>\<open>main.cpp\<close> the text of errors on the terminal, \<open>my_terminate\<close>, which nothing installs, and the command
  \<open>ListNodes\<close>, which has no parent and so cannot run, are left out. The helper templates of
  \<^verbatim>\<open>misc.hpp\<close>, \<^verbatim>\<open>array.hpp\<close> and \<^verbatim>\<open>finally.hpp\<close> have no state of their own and are written out where they are
  used. \<^verbatim>\<open>test\<close> and \<^verbatim>\<open>tools\<close> are test programs and drawings. Concurrency is what the program has of it: it locks the
  repository, which here is a system call that may fail, and pipes to one child at a time, whose
  run is a step of its parent.
\<close>

end
